(* ===== verification/Frame.thy ===== *)
theory Frame
imports Main
begin

text \<open>
  Prelude of the development: what every component model shares.

  \<^item> Fallible operations return \<open>'e + 'a\<close>, \<open>Inl\<close> for the error variant.
  \<^item> Unsigned machine integers are \<open>nat\<close>s with the bound of their width written out:
    \<open>sat_add\<close>, \<open>sat_mul\<close> and \<open>checked_add\<close> are Rust's \<open>saturating_add\<close>,
    \<open>saturating_mul\<close> and \<open>checked_add\<close> at a maximum \<open>mx\<close>; \<open>saturating_sub\<close> is the
    truncating subtraction of \<open>nat\<close>.
  \<^item> A storage map is a partial function; \<open>msum\<close> adds a measure over its entries.
  \<^item> A signed call (a FRAME extrinsic) is transactional: on an error the state is the old one.
    \<open>run_calls\<close> runs a list of calls this way, and the locale \<open>call_system\<close> lifts what one
    call keeps to what every run keeps.
\<close>

named_theorems arith_defs "definitions of the machine arithmetic"

section \<open>Machine arithmetic\<close>

definition u128_max :: nat where "u128_max = 2 ^ 128 - 1"
definition u64_max :: nat where "u64_max = 2 ^ 64 - 1"
definition u32_max :: nat where "u32_max = 2 ^ 32 - 1"

definition sat_add :: "nat \<Rightarrow> nat \<Rightarrow> nat \<Rightarrow> nat" where
  "sat_add mx a b = min mx (a + b)"

definition sat_mul :: "nat \<Rightarrow> nat \<Rightarrow> nat \<Rightarrow> nat" where
  "sat_mul mx a b = min mx (a * b)"

definition checked_add :: "nat \<Rightarrow> nat \<Rightarrow> nat \<Rightarrow> nat option" where
  "checked_add mx a b = (if a + b \<le> mx then Some (a + b) else None)"

declare sat_add_def [arith_defs] sat_mul_def [arith_defs] checked_add_def [arith_defs]

lemma sat_add_exact [simp]: "a + b \<le> mx \<Longrightarrow> sat_add mx a b = a + b"
  by (simp add: sat_add_def)

lemma sat_mul_exact [simp]: "a * b \<le> mx \<Longrightarrow> sat_mul mx a b = a * b"
  by (simp add: sat_mul_def)

lemma sat_add_le: "sat_add mx a b \<le> mx" "sat_add mx a b \<le> a + b"
  by (simp_all add: sat_add_def)

lemma sat_mul_le: "sat_mul mx a b \<le> mx" "sat_mul mx a b \<le> a * b"
  by (simp_all add: sat_mul_def)

lemma sat_add_0 [simp]: "a \<le> mx \<Longrightarrow> sat_add mx a 0 = a" "a \<le> mx \<Longrightarrow> sat_add mx 0 a = a"
  by simp_all

lemma sat_add_pos_iff: "0 < mx \<Longrightarrow> 0 < sat_add mx a b \<longleftrightarrow> 0 < a \<or> 0 < b"
  by (auto simp: sat_add_def)

lemma checked_add_Some: "checked_add mx a b = Some c \<longleftrightarrow> c = a + b \<and> a + b \<le> mx"
  by (auto simp: checked_add_def)

lemma checked_add_None: "checked_add mx a b = None \<longleftrightarrow> mx < a + b"
  by (auto simp: checked_add_def)

lemma u128_max_pos [simp]: "0 < u128_max"
  by (simp add: u128_max_def)

lemma u128_max_nonzero [simp]: "u128_max \<noteq> 0"
  by (simp add: u128_max_def)

section \<open>Storage maps\<close>

definition msum :: "('v \<Rightarrow> nat) \<Rightarrow> ('k \<rightharpoonup> 'v) \<Rightarrow> nat" where
  "msum f m = (\<Sum>k\<in>dom m. f (the (m k)))"

definition mval :: "('v \<Rightarrow> nat) \<Rightarrow> ('k \<rightharpoonup> 'v) \<Rightarrow> 'k \<Rightarrow> nat" where
  "mval f m k = (case m k of None \<Rightarrow> 0 | Some v \<Rightarrow> f v)"

lemma msum_empty [simp]: "msum f Map.empty = 0"
  by (simp add: msum_def)

lemma mval_None [simp]: "m k = None \<Longrightarrow> mval f m k = 0"
  and mval_Some [simp]: "m k = Some v \<Longrightarrow> mval f m k = f v"
  by (simp_all add: mval_def)

lemma mval_upd: "mval f (m(k \<mapsto> v)) j = (if j = k then f v else mval f m j)"
  by (simp add: mval_def)

lemma mval_del: "mval f (m(k := None)) j = (if j = k then 0 else mval f m j)"
  by (simp add: mval_def)

lemma msum_split:
  assumes "finite (dom m)"
  shows "msum f m = mval f m k + msum f (m(k := None))"
proof (cases "m k")
  case None
  then have "m(k := None) = m" by auto
  with None show ?thesis by (simp only: mval_None add_0)
next
  case (Some v)
  have "msum f m = f (the (m k)) + (\<Sum>j\<in>dom m - {k}. f (the (m j)))"
    unfolding msum_def using assms Some by (intro sum.remove) auto
  also have "(\<Sum>j\<in>dom m - {k}. f (the (m j))) = msum f (m(k := None))"
    unfolding msum_def by (rule sum.cong) auto
  finally show ?thesis using Some by simp
qed

lemma msum_upd:
  assumes "finite (dom m)"
  shows "msum f (m(k \<mapsto> v)) + mval f m k = msum f m + f v"
proof -
  have "finite (dom (m(k \<mapsto> v)))" using assms by simp
  from msum_split [OF this, of f k] msum_split [OF assms, of f k]
  show ?thesis by simp
qed

lemma msum_del:
  assumes "finite (dom m)"
  shows "msum f (m(k := None)) + mval f m k = msum f m"
  using msum_split [OF assms, of f k] by simp

lemma mval_le_msum:
  assumes "finite (dom m)"
  shows "mval f m k \<le> msum f m"
  using msum_split [OF assms, of f k] by simp

lemma mval_two_le_msum:
  assumes "finite (dom m)" and "j \<noteq> k"
  shows "mval f m j + mval f m k \<le> msum f m"
proof -
  have "finite (dom (m(k := None)))" using assms(1) by simp
  from mval_le_msum [OF this, of f j] msum_split [OF assms(1), of f k] assms(2)
  show ?thesis by (simp add: mval_del)
qed

section \<open>Guard chains\<close>

text \<open>
  An extrinsic is a chain of guards that end in an error and a last state. These rules read off when
  such a chain succeeds: every guard passed, and the result is the last state.
\<close>

named_theorems guards

lemma guard_if [guards]: "((if b then Inl e else x) = Inr y) = (\<not> b \<and> x = Inr y)"
  by simp

lemma guard_some [guards]: "((case v of None \<Rightarrow> Inl e | Some p \<Rightarrow> f p) = Inr y) = (\<exists>p. v = Some p \<and> f p = Inr y)"
  by (simp split: option.split)

lemma guard_none [guards]: "((case v of None \<Rightarrow> x | Some e \<Rightarrow> Inl (g e)) = Inr y) = (v = None \<and> x = Inr y)"
  by (simp split: option.split)

lemma guard_call [guards]: "((case v of Inl e \<Rightarrow> Inl (g e) | Inr a \<Rightarrow> f a) = Inr y) = (\<exists>a. v = Inr a \<and> f a = Inr y)"
  by (simp split: sum.split)

lemma guard_last [guards]: "(Inr x = (Inr y :: 'e + 'a)) = (y = x)"
  by auto

section \<open>Signed calls\<close>

definition apply_call :: "('s \<Rightarrow> 'e + 's) \<Rightarrow> 's \<Rightarrow> 's" where
  "apply_call c s = (case c s of Inl _ \<Rightarrow> s | Inr s' \<Rightarrow> s')"

primrec run_calls :: "('c \<Rightarrow> 's \<Rightarrow> 'e + 's) \<Rightarrow> 'c list \<Rightarrow> 's \<Rightarrow> 's" where
  "run_calls step [] s = s"
| "run_calls step (c # cs) s = run_calls step cs (apply_call (step c) s)"

lemma apply_call_Inl [simp]: "c s = Inl e \<Longrightarrow> apply_call c s = s"
  and apply_call_Inr [simp]: "c s = Inr s' \<Longrightarrow> apply_call c s = s'"
  by (simp_all add: apply_call_def)

lemma run_calls_append: "run_calls step (cs @ ds) s = run_calls step ds (run_calls step cs s)"
  by (induction cs arbitrary: s) simp_all

text \<open>
  The contract of a set of calls with respect to a state predicate: a call that succeeds keeps it.
  The calls considered may be restricted by \<open>ok\<close> (an environment that supplies only some calls).
\<close>

locale call_system =
  fixes step :: "'c \<Rightarrow> 's \<Rightarrow> 'e + 's"
    and ok :: "'c \<Rightarrow> bool"
    and inv :: "'s \<Rightarrow> bool"
  assumes step_inv: "ok c \<Longrightarrow> inv s \<Longrightarrow> step c s = Inr s' \<Longrightarrow> inv s'"
begin

lemma apply_inv: "ok c \<Longrightarrow> inv s \<Longrightarrow> inv (apply_call (step c) s)"
  by (cases "step c s") (auto dest: step_inv)

lemma run_inv: "list_all ok cs \<Longrightarrow> inv s \<Longrightarrow> inv (run_calls step cs s)"
  by (induction cs arbitrary: s) (auto intro: apply_inv)

end

end
