(* ===== verification/TokensCore.thy ===== *)
theory TokensCore
imports Frame
begin

text \<open>
  The economic core, \<open>chain/tokens-core/src/lib.rs\<close>: the two coins, the emission curve
  (\<open>EmissionCurve\<close>), the host \<open>Ledger\<close> with its checked operations, and the pure helpers
  \<open>split_service_reward\<close>, \<open>max_weight_index\<close> and \<open>burn_amount\<close> that the tokens pallet reuses.

  An amount is a \<open>u128\<close>, modelled as a \<open>nat\<close> with its saturating and checked operations written out
  (\<open>Frame\<close>). A \<open>Ledger\<close> method takes \<open>&mut self\<close> and is not transactional, so a method returns the
  ledger beside its result. \<open>unwrap\<close> on an absent supply panics; the panic is a value of its own.
\<close>

section \<open>Coins, errors, the emission curve\<close>

type_synonym account = string
type_synonym amount = nat

datatype coin = Hlq | Sov

datatype core_error = InsufficientFunds | Overflow | InvalidTransfer

text \<open>What a \<open>Ledger\<close> method can end with besides its value: an \<open>Err\<close>, or the panic of an
  \<open>unwrap\<close>.\<close>

datatype fault = Err core_error | Panic

record emission_curve =
  initial :: amount
  decay_num :: nat
  decay_den :: nat
  era_length :: nat
  cap :: amount

text \<open>The \<open>while e < eras && r > 0\<close> loop of \<open>scheduled_reward\<close>; \<open>e\<close> counts the eras that are left.\<close>

primrec decay_loop :: "nat \<Rightarrow> nat \<Rightarrow> nat \<Rightarrow> amount \<Rightarrow> amount" where
  "decay_loop 0 num den r = r"
| "decay_loop (Suc e) num den r =
     (if 0 < r then decay_loop e num den (sat_mul u128_max r num div den) else r)"

definition scheduled_reward :: "emission_curve \<Rightarrow> nat \<Rightarrow> amount" where
  "scheduled_reward c epoch =
     (if era_length c = 0 \<or> decay_num c \<ge> decay_den c then initial c
      else if decay_num c = 0 \<or> decay_den c = 0 then 0
      else decay_loop (epoch div era_length c) (decay_num c) (decay_den c) (initial c))"

definition mint_amount :: "emission_curve \<Rightarrow> nat \<Rightarrow> amount \<Rightarrow> amount" where
  "mint_amount c epoch already_minted =
     (let room = cap c - already_minted in min (scheduled_reward c epoch) room)"

section \<open>Fee burn and reward split\<close>

definition burn_amount :: "amount \<Rightarrow> nat \<Rightarrow> amount" where
  "burn_amount fee burn_bps =
     (let bps = (if burn_bps > 10000 then 10000 else burn_bps)
      in fee div 10000 * bps + (fee mod 10000) * bps div 10000)"

text \<open>\<open>max_weight_index\<close> folds over the enumerated weights with the best pair so far.\<close>

fun best_index :: "nat \<Rightarrow> nat list \<Rightarrow> (nat \<times> nat) option \<Rightarrow> (nat \<times> nat) option" where
  "best_index i [] best = best"
| "best_index i (w # ws) best =
     best_index (Suc i) ws
       (case best of
          Some (bi, bw) \<Rightarrow> if w \<le> bw then Some (bi, bw) else Some (i, w)
        | None \<Rightarrow> Some (i, w))"

definition max_weight_index :: "nat list \<Rightarrow> nat option" where
  "max_weight_index weights = map_option fst (best_index 0 weights None)"

definition service_shares :: "amount \<Rightarrow> nat list \<Rightarrow> nat \<Rightarrow> amount list" where
  "service_shares pool weights tot = map (\<lambda>w. sat_mul u128_max pool w div tot) weights"

definition split_service_reward :: "amount \<Rightarrow> nat list \<Rightarrow> amount list" where
  "split_service_reward pool weights =
     (let tot = sum_list weights
      in if tot = 0 \<or> pool = 0 then replicate (length weights) 0
         else let out = service_shares pool weights tot;
                  distributed = foldl (sat_add u128_max) 0 out;
                  remainder = pool - distributed
              in if 0 < remainder then
                   (case max_weight_index weights of
                      Some idx \<Rightarrow> out[idx := sat_add u128_max (out ! idx) remainder]
                    | None \<Rightarrow> out)
                 else out)"

section \<open>The ledger\<close>

record coin_supply =
  curve :: emission_curve
  minted :: amount
  burned :: amount

record ledger =
  balances :: "account \<rightharpoonup> amount \<times> amount"
  hlq :: "coin_supply option"
  sov :: "coin_supply option"

definition ledger_new :: "emission_curve \<Rightarrow> emission_curve \<Rightarrow> ledger" where
  "ledger_new hlq_curve sov_curve =
     \<lparr>balances = Map.empty,
      hlq = Some \<lparr>curve = hlq_curve, minted = 0, burned = 0\<rparr>,
      sov = Some \<lparr>curve = sov_curve, minted = 0, burned = 0\<rparr>\<rparr>"

fun slot :: "coin \<Rightarrow> amount \<times> amount \<Rightarrow> amount" where
  "slot Hlq b = fst b"
| "slot Sov b = snd b"

fun set_slot :: "coin \<Rightarrow> amount \<Rightarrow> amount \<times> amount \<Rightarrow> amount \<times> amount" where
  "set_slot Hlq v b = (v, snd b)"
| "set_slot Sov v b = (fst b, v)"

definition balance :: "ledger \<Rightarrow> account \<Rightarrow> coin \<Rightarrow> amount" where
  "balance l a c = (case balances l a of None \<Rightarrow> 0 | Some b \<Rightarrow> slot c b)"

fun supply_of :: "ledger \<Rightarrow> coin \<Rightarrow> fault + coin_supply" where
  "supply_of l Hlq = (case hlq l of None \<Rightarrow> Inl Panic | Some s \<Rightarrow> Inr s)"
| "supply_of l Sov = (case sov l of None \<Rightarrow> Inl Panic | Some s \<Rightarrow> Inr s)"

fun set_supply :: "ledger \<Rightarrow> coin \<Rightarrow> coin_supply \<Rightarrow> ledger" where
  "set_supply l Hlq s = l\<lparr>hlq := Some s\<rparr>"
| "set_supply l Sov s = l\<lparr>sov := Some s\<rparr>"

definition total_supply :: "ledger \<Rightarrow> coin \<Rightarrow> fault + amount" where
  "total_supply l c = (case supply_of l c of Inl e \<Rightarrow> Inl e | Inr s \<Rightarrow> Inr (minted s - burned s))"

definition total_burned :: "ledger \<Rightarrow> coin \<Rightarrow> fault + amount" where
  "total_burned l c = (case supply_of l c of Inl e \<Rightarrow> Inl e | Inr s \<Rightarrow> Inr (burned s))"

text \<open>\<open>credit\<close> creates the entry before the checked addition, and keeps it when the addition fails.\<close>

definition ledger_credit :: "account \<Rightarrow> coin \<Rightarrow> amount \<Rightarrow> ledger \<Rightarrow> (fault + unit) \<times> ledger" where
  "ledger_credit a c amt l =
     (let entry = (case balances l a of None \<Rightarrow> (0, 0) | Some b \<Rightarrow> b);
          l1 = l\<lparr>balances := (balances l)(a \<mapsto> entry)\<rparr>
      in case checked_add u128_max (slot c entry) amt of
           None \<Rightarrow> (Inl (Err Overflow), l1)
         | Some v \<Rightarrow> (Inr (), l1\<lparr>balances := (balances l1)(a \<mapsto> set_slot c v entry)\<rparr>))"

definition ledger_debit :: "account \<Rightarrow> coin \<Rightarrow> amount \<Rightarrow> ledger \<Rightarrow> (fault + unit) \<times> ledger" where
  "ledger_debit a c amt l =
     (case balances l a of
        None \<Rightarrow> (Inl (Err InsufficientFunds), l)
      | Some entry \<Rightarrow>
          if slot c entry < amt then (Inl (Err InsufficientFunds), l)
          else (Inr (), l\<lparr>balances := (balances l)(a \<mapsto> set_slot c (slot c entry - amt) entry)\<rparr>))"

definition ledger_transfer ::
  "account \<Rightarrow> account \<Rightarrow> coin \<Rightarrow> amount \<Rightarrow> ledger \<Rightarrow> (fault + unit) \<times> ledger" where
  "ledger_transfer frm dst c amt l =
     (if amt = 0 \<or> frm = dst then (Inl (Err InvalidTransfer), l)
      else case ledger_debit frm c amt l of
          (Inl e, l1) \<Rightarrow> (Inl e, l1)
        | (Inr _, l1) \<Rightarrow>
            (case ledger_credit dst c amt l1 of
               (Inl e, l2) \<Rightarrow> (Inl e, snd (ledger_credit frm c amt l2))
             | (Inr _, l2) \<Rightarrow> (Inr (), l2)))"

definition charge_fee :: "account \<Rightarrow> account \<Rightarrow> amount \<Rightarrow> ledger \<Rightarrow> (fault + unit) \<times> ledger" where
  "charge_fee payer node amt l = ledger_transfer payer node Hlq amt l"

definition charge_fee_with_burn ::
  "account \<Rightarrow> account \<Rightarrow> amount \<Rightarrow> nat \<Rightarrow> ledger \<Rightarrow> (fault + unit) \<times> ledger" where
  "charge_fee_with_burn payer node fee burn_bps l =
     (if fee = 0 then (Inl (Err InvalidTransfer), l)
      else
        let burn = burn_amount fee burn_bps; to_node = fee - burn
        in case ledger_debit payer Hlq fee l of
          (Inl e, l1) \<Rightarrow> (Inl e, l1)
        | (Inr _, l1) \<Rightarrow>
            (case (if 0 < to_node \<and> payer \<noteq> node then
                     (case ledger_credit node Hlq to_node l1 of
                        (Inl e, l2) \<Rightarrow> (Inl e, snd (ledger_credit payer Hlq fee l2))
                      | (Inr _, l2) \<Rightarrow> (Inr (), l2))
                   else if payer = node then (Inr (), snd (ledger_credit payer Hlq to_node l1))
                   else (Inr (), l1)) of
               (Inl e, l3) \<Rightarrow> (Inl e, l3)
             | (Inr _, l3) \<Rightarrow>
                 if 0 < burn then
                   (case supply_of l3 Hlq of
                      Inl e \<Rightarrow> (Inl e, l3)
                    | Inr s \<Rightarrow>
                        (Inr (), set_supply l3 Hlq (s\<lparr>burned := sat_add u128_max (burned s) burn\<rparr>)))
                 else (Inr (), l3)))"

definition mint_emission ::
  "coin \<Rightarrow> nat \<Rightarrow> account \<Rightarrow> ledger \<Rightarrow> (fault + amount) \<times> ledger" where
  "mint_emission c epoch beneficiary l =
     (case supply_of l c of
        Inl e \<Rightarrow> (Inl e, l)
      | Inr s \<Rightarrow>
          let amt = mint_amount (curve s) epoch (minted s)
          in if amt = 0 then (Inr 0, l)
             else case ledger_credit beneficiary c amt l of
                 (Inl e, l1) \<Rightarrow> (Inl e, l1)
               | (Inr _, l1) \<Rightarrow>
                   (case supply_of l1 c of
                      Inl e \<Rightarrow> (Inl e, l1)
                    | Inr s1 \<Rightarrow>
                        (case checked_add u128_max (minted s) amt of
                           None \<Rightarrow> (Inl (Err Overflow), l1)
                         | Some m \<Rightarrow> (Inr amt, set_supply l1 c (s1\<lparr>minted := m\<rparr>)))))"

section \<open>The emission curve only falls and never passes its cap\<close>

lemma decay_step_le: "num \<le> den \<Longrightarrow> sat_mul u128_max r num div den \<le> r"
proof -
  assume "num \<le> den"
  then have "sat_mul u128_max r num \<le> r * den"
    using sat_mul_le(2) [of u128_max r num] by (meson le_trans mult_le_mono2)
  then have "sat_mul u128_max r num div den \<le> r * den div den" by (rule div_le_mono)
  also have "\<dots> \<le> r" by (cases "den = 0") simp_all
  finally show ?thesis .
qed

lemma decay_loop_le: "num \<le> den \<Longrightarrow> decay_loop e num den r \<le> r"
proof (induction e arbitrary: r)
  case 0
  then show ?case by simp
next
  case (Suc e)
  have "decay_loop e num den (sat_mul u128_max r num div den) \<le> sat_mul u128_max r num div den"
    using Suc by blast
  also have "\<dots> \<le> r" using Suc.prems by (rule decay_step_le)
  finally show ?case by simp
qed

lemma decay_loop_mono_r: "r \<le> r' \<Longrightarrow> decay_loop e num den r \<le> decay_loop e num den r'"
proof (induction e arbitrary: r r')
  case 0
  then show ?case by simp
next
  case (Suc e)
  have "sat_mul u128_max r num div den \<le> sat_mul u128_max r' num div den"
    using Suc.prems by (intro div_le_mono) (simp add: sat_mul_def min.coboundedI2)
  with Suc show ?case by simp
qed

lemma decay_loop_add:
  "decay_loop (e + d) num den r = decay_loop d num den (decay_loop e num den r)"
proof (induction e arbitrary: r)
  case 0
  then show ?case by simp
next
  case (Suc e)
  have "decay_loop d num den 0 = 0" by (cases d) simp_all
  with Suc show ?case by simp
qed

lemma decay_loop_antimono:
  assumes "num \<le> den" and "e \<le> e'"
  shows "decay_loop e' num den r \<le> decay_loop e num den r"
proof -
  have "decay_loop (e + (e' - e)) num den r \<le> decay_loop e num den r"
    unfolding decay_loop_add by (rule decay_loop_le [OF assms(1)])
  with assms(2) show ?thesis by simp
qed

lemma mint_amount_room: "mint_amount c epoch m \<le> cap c - m"
  by (simp add: mint_amount_def Let_def)

lemma mint_amount_cap: "m \<le> cap c \<Longrightarrow> m + mint_amount c epoch m \<le> cap c"
  using mint_amount_room [of c epoch m] by linarith

text \<open>
  The scheduled reward of \<open>EmissionCurve\<close> never rises: a later epoch is never paid more than
  an earlier one, whatever the decay ratio, era length and initial reward, saturation included.\<close>

theorem scheduled_reward_antimono:
  assumes "e \<le> e'"
  shows "scheduled_reward c e' \<le> scheduled_reward c e"
  using assms by (auto simp: scheduled_reward_def intro!: decay_loop_antimono div_le_mono)

theorem scheduled_reward_antimono_witness:
  "scheduled_reward \<lparr>initial = 1000, decay_num = 3, decay_den = 4, era_length = 2, cap = 9\<rparr> 5
     \<le> scheduled_reward \<lparr>initial = 1000, decay_num = 3, decay_den = 4, era_length = 2, cap = 9\<rparr> 2"
  by (rule scheduled_reward_antimono) simp

section \<open>The burn share\<close>

lemma burn_amount_le: "burn_amount fee bps \<le> fee"
proof -
  let ?b = "min bps 10000"
  have "fee div 10000 * ?b \<le> fee div 10000 * 10000" by (rule mult_le_mono) simp_all
  moreover have "fee mod 10000 * ?b div 10000 \<le> fee mod 10000 * 10000 div 10000"
    by (intro div_le_mono mult_le_mono) simp_all
  moreover have "fee mod 10000 * 10000 div 10000 = fee mod 10000" by simp
  moreover have "fee div 10000 * 10000 + fee mod 10000 = fee" by simp
  ultimately have "fee div 10000 * ?b + fee mod 10000 * ?b div 10000 \<le> fee" by linarith
  then show ?thesis by (auto simp: burn_amount_def Let_def min_def not_le)
qed

text \<open>
  The overflow-safe split of \<open>burn_amount\<close> (divide first, then the remainder) is exactly
  \<open>floor(fee * bps / 10000)\<close> with \<open>bps\<close> clamped to 10000; it never exceeds the fee, and neither
  product it forms can leave \<open>u128\<close> when the fee is one: the first is at most the fee, the second at
  most \<open>10^8\<close>.\<close>

lemma burn_amount_floor:
  "burn_amount fee bps = fee * min bps 10000 div 10000
   \<and> burn_amount fee bps \<le> fee
   \<and> fee div 10000 * min bps 10000 \<le> fee
   \<and> (fee mod 10000) * min bps 10000 \<le> 100000000"
proof -
  let ?b = "min bps 10000"
  have split: "fee = 10000 * (fee div 10000) + fee mod 10000" by simp
  have "fee * ?b = 10000 * (fee div 10000 * ?b) + fee mod 10000 * ?b"
    by (subst split) (simp only: algebra_simps)
  then have "fee * ?b div 10000 = fee div 10000 * ?b + fee mod 10000 * ?b div 10000"
    by (metis div_mult_self4 zero_neq_numeral)
  then have eq: "burn_amount fee bps = fee * ?b div 10000"
    by (auto simp: burn_amount_def Let_def min_def not_le)
  have "fee * ?b div 10000 \<le> fee * 10000 div 10000" by (intro div_le_mono mult_le_mono) auto
  moreover have "fee div 10000 * ?b \<le> fee div 10000 * 10000" by (rule mult_le_mono) simp_all
  then have "fee div 10000 * ?b \<le> fee" using split by linarith
  moreover have "(fee mod 10000) * ?b \<le> 10000 * 10000"
    by (intro mult_le_mono) (auto intro: less_imp_le)
  ultimately show ?thesis using eq by simp
qed

section \<open>The reward split\<close>

lemma foldl_sat_add_exact:
  "a + sum_list xs \<le> mx \<Longrightarrow> foldl (sat_add mx) a xs = a + sum_list xs"
  by (induction xs arbitrary: a) (simp_all add: add.assoc)

lemma best_index_None_iff: "best_index i ws best = None \<longleftrightarrow> ws = [] \<and> best = None"
  by (induction i ws best rule: best_index.induct) (auto split: option.splits)

lemma best_index_bound:
  "best_index i ws best = Some (j, w) \<Longrightarrow> best = Some (j, w) \<or> (i \<le> j \<and> j < i + length ws \<and> ws ! (j - i) = w)"
proof (induction i ws best rule: best_index.induct)
  case (1 i best)
  then show ?case by simp
next
  case (2 i w' ws best)
  let ?b = "case best of Some (bi, bw) \<Rightarrow> if w' \<le> bw then Some (bi, bw) else Some (i, w')
                       | None \<Rightarrow> Some (i, w')"
  from 2 have "?b = Some (j, w) \<or> (Suc i \<le> j \<and> j < Suc i + length ws \<and> ws ! (j - Suc i) = w)"
    by simp
  then show ?case
  proof
    assume "?b = Some (j, w)"
    then show ?thesis by (auto split: option.splits if_splits)
  next
    assume a: "Suc i \<le> j \<and> j < Suc i + length ws \<and> ws ! (j - Suc i) = w"
    then have "j - i = Suc (j - Suc i)" by arith
    with a show ?thesis by simp
  qed
qed

lemma best_index_max:
  "best_index i ws best = Some (j, w) \<Longrightarrow>
     (\<forall>x\<in>set ws. x \<le> w) \<and> (\<forall>bi bw. best = Some (bi, bw) \<longrightarrow> bw \<le> w)"
proof (induction i ws best rule: best_index.induct)
  case (1 i best)
  then show ?case by simp
next
  case (2 i w' ws best)
  let ?b = "case best of Some (bi, bw) \<Rightarrow> if w' \<le> bw then Some (bi, bw) else Some (i, w')
                       | None \<Rightarrow> Some (i, w')"
  from 2 have h: "(\<forall>x\<in>set ws. x \<le> w) \<and> (\<forall>bi bw. ?b = Some (bi, bw) \<longrightarrow> bw \<le> w)"
    by simp
  then show ?case by (auto split: option.splits if_splits)
qed

lemma max_weight_index_Some:
  assumes "ws \<noteq> []"
  obtains i where "max_weight_index ws = Some i" "i < length ws" "\<forall>x\<in>set ws. x \<le> ws ! i"
proof -
  from assms best_index_None_iff [of 0 ws None] obtain i w
    where b: "best_index 0 ws None = Some (i, w)" by fastforce
  from best_index_bound [OF b] have i: "i < length ws" "ws ! i = w" by simp_all
  from best_index_max [OF b] have "\<forall>x\<in>set ws. x \<le> w" by blast
  with b i that show thesis by (auto simp: max_weight_index_def)
qed

lemma service_share_le: "sat_mul u128_max pool w div tot \<le> pool * w div tot"
  by (intro div_le_mono sat_mul_le)

lemma sum_list_floor_le:
  fixes pool :: nat
  shows "sum_list (map (\<lambda>w. pool * w div tot) ws) * tot \<le> pool * sum_list ws"
proof (induction ws)
  case Nil
  then show ?case by simp
next
  case (Cons w ws)
  have "pool * w div tot * tot \<le> pool * w" by simp
  with Cons show ?case
    by (simp only: list.map sum_list.Cons distrib_left distrib_right add_mono)
qed

lemma service_shares_sum_le: "sum_list (service_shares pool ws (sum_list ws)) \<le> pool"
proof (cases "sum_list ws = 0")
  case True
  have "sum_list (map (\<lambda>w. 0 :: nat) ws) = 0" by (induction ws) simp_all
  with True show ?thesis by (simp only: service_shares_def div_by_0 le0)
next
  case False
  have "sum_list (service_shares pool ws (sum_list ws))
        \<le> sum_list (map (\<lambda>w. pool * w div sum_list ws) ws)"
    unfolding service_shares_def by (rule sum_list_mono) (rule service_share_le)
  moreover have "sum_list (map (\<lambda>w. pool * w div sum_list ws) ws) * sum_list ws \<le> pool * sum_list ws"
    by (rule sum_list_floor_le)
  then have "sum_list (map (\<lambda>w. pool * w div sum_list ws) ws) \<le> pool" using False by simp
  ultimately show ?thesis by (rule le_trans)
qed

lemma length_split_service_reward [simp]: "length (split_service_reward pool ws) = length ws"
  by (auto simp: split_service_reward_def service_shares_def Let_def split: option.splits)

text \<open>The pool of a split that is not empty-handed: everything is handed out.\<close>

lemma sum_split_service_reward:
  assumes "pool \<le> u128_max" and "sum_list ws \<noteq> 0"
  shows "sum_list (split_service_reward pool ws) = pool"
proof (cases "pool = 0")
  case True
  then show ?thesis by (simp add: split_service_reward_def sum_list_replicate)
next
  case False
  let ?out = "service_shares pool ws (sum_list ws)"
  have le: "sum_list ?out \<le> pool" by (rule service_shares_sum_le)
  with assms(1) have dist: "foldl (sat_add u128_max) 0 ?out = sum_list ?out"
    using foldl_sat_add_exact [of 0 ?out u128_max] by simp
  from assms(2) have "ws \<noteq> []" by auto
  then obtain i where i: "max_weight_index ws = Some i" "i < length ws"
    by (rule max_weight_index_Some) blast
  then have il: "i < length ?out" by (simp add: service_shares_def)
  then have oi: "?out ! i \<le> sum_list ?out" by (simp add: elem_le_sum_list)
  have "sum_list (?out[i := ?out ! i + (pool - sum_list ?out)]) = pool"
    using il le by (simp add: sum_list_update)
  then show ?thesis
    using False assms i dist le oi
    by (auto simp: split_service_reward_def Let_def)
qed

lemma split_service_reward_zero: "sum_list ws = 0 \<Longrightarrow> sum_list (split_service_reward pool ws) = 0"
  by (simp add: split_service_reward_def sum_list_replicate)

lemma sum_split_service_reward_le:
  assumes "pool \<le> u128_max"
  shows "sum_list (split_service_reward pool ws) \<le> pool"
proof (cases "sum_list ws = 0")
  case True
  then show ?thesis by (simp only: split_service_reward_zero le0)
next
  case False
  then show ?thesis by (simp only: sum_split_service_reward [OF assms False])
qed

text \<open>\<open>split_service_reward\<close> hands out the whole pool, one share per weight, and every index but
  the heaviest gets at most its floor share of the pool. No hypothesis bounds the weights: the
  saturating product only lowers a share, and the remainder goes to the heaviest index.\<close>

theorem split_service_reward_exact:
  assumes "pool \<le> u128_max" and "sum_list ws \<noteq> 0"
  shows "length (split_service_reward pool ws) = length ws
    \<and> sum_list (split_service_reward pool ws) = pool
    \<and> (\<exists>i<length ws. (\<forall>x\<in>set ws. x \<le> ws ! i)
        \<and> (\<forall>j<length ws. j \<noteq> i \<longrightarrow> split_service_reward pool ws ! j \<le> pool * (ws ! j) div sum_list ws))"
proof -
  from assms(2) have "ws \<noteq> []" by auto
  then obtain i where i: "max_weight_index ws = Some i" "i < length ws" "\<forall>x\<in>set ws. x \<le> ws ! i"
    by (rule max_weight_index_Some)
  have "split_service_reward pool ws ! j \<le> pool * (ws ! j) div sum_list ws"
    if "j < length ws" "j \<noteq> i" for j
    using that assms(2) i service_share_le [of pool "ws ! j" "sum_list ws"]
    by (auto simp: split_service_reward_def Let_def service_shares_def)
  with i sum_split_service_reward [OF assms] show ?thesis by auto
qed

theorem split_service_reward_exact_witness:
  "length (split_service_reward 10 [1, 2]) = 2 \<and> sum_list (split_service_reward 10 [1, 2]) = 10"
  using split_service_reward_exact [of 10 "[1, 2]"] by (simp add: u128_max_def)

section \<open>The ledger conserves its coins\<close>

definition entry_of :: "ledger \<Rightarrow> account \<Rightarrow> amount \<times> amount" where
  "entry_of l a = (case balances l a of None \<Rightarrow> (0, 0) | Some b \<Rightarrow> b)"

definition put_slot :: "account \<Rightarrow> coin \<Rightarrow> amount \<Rightarrow> ledger \<Rightarrow> ledger" where
  "put_slot a c v l = l\<lparr>balances := (balances l)(a \<mapsto> set_slot c v (entry_of l a))\<rparr>"

lemma slot_set_slot: "slot d (set_slot c v b) = (if d = c then v else slot d b)"
  by (cases c; cases d) simp_all

lemma set_slot_same [simp]: "set_slot c (slot c b) b = b"
  by (cases c) simp_all

lemma set_slot_twice [simp]: "set_slot c v (set_slot c w b) = set_slot c v b"
  by (cases c) simp_all

lemma balance_mval: "balance l a c = mval (slot c) (balances l) a"
  by (simp add: balance_def mval_def)

lemma balance_entry: "balance l a c = slot c (entry_of l a)"
  by (cases c) (auto simp: balance_def entry_of_def split: option.splits)

lemma supply_of_put_slot [simp]: "supply_of (put_slot a c v l) d = supply_of l d"
  by (cases d) (simp_all add: put_slot_def)

lemma balance_put_slot:
  "balance (put_slot a c v l) b d = (if b = a \<and> d = c then v else balance l b d)"
  by (simp add: put_slot_def balance_def entry_of_def slot_set_slot split: option.splits)
     (cases d; simp)

lemma finite_put_slot [simp]: "finite (dom (balances (put_slot a c v l))) = finite (dom (balances l))"
  by (simp add: put_slot_def)

lemma msum_put_slot:
  assumes "finite (dom (balances l))"
  shows "msum (slot d) (balances (put_slot a c v l)) + balance l a d
       = msum (slot d) (balances l) + (if d = c then v else balance l a d)"
  using msum_upd [OF assms, of "slot d" a "set_slot c v (entry_of l a)"]
  by (simp add: put_slot_def slot_set_slot balance_entry balance_mval [symmetric])

lemma ledger_credit_eq:
  "ledger_credit a c amt l =
     (if balance l a c + amt \<le> u128_max then (Inr (), put_slot a c (balance l a c + amt) l)
      else (Inl (Err Overflow), put_slot a c (balance l a c) l))"
  by (auto simp: ledger_credit_def put_slot_def balance_entry entry_of_def Let_def checked_add_def
      split: option.splits)

lemma ledger_debit_eq:
  "ledger_debit a c amt l =
     (if balances l a = None \<or> balance l a c < amt then (Inl (Err InsufficientFunds), l)
      else (Inr (), put_slot a c (balance l a c - amt) l))"
  by (auto simp: ledger_debit_def put_slot_def balance_entry entry_of_def split: option.splits)

lemma put_slot_put_slot [simp]: "put_slot a c v (put_slot a c w l) = put_slot a c v l"
  by (simp add: put_slot_def entry_of_def split: option.splits)

lemma put_slot_id: "balances l a \<noteq> None \<Longrightarrow> put_slot a c (balance l a c) l = l"
  by (auto simp: put_slot_def balance_entry entry_of_def fun_upd_idem)

lemma ledger_credit_ok:
  "balance l a c + amt \<le> u128_max \<Longrightarrow>
   ledger_credit a c amt l = (Inr (), put_slot a c (balance l a c + amt) l)"
  by (simp add: ledger_credit_eq)

lemma ledger_credit_overflow:
  "\<not> balance l a c + amt \<le> u128_max \<Longrightarrow>
   ledger_credit a c amt l = (Inl (Err Overflow), put_slot a c (balance l a c) l)"
  by (simp add: ledger_credit_eq)

lemma ledger_debit_ok:
  "balances l a \<noteq> None \<Longrightarrow> amt \<le> balance l a c \<Longrightarrow>
   ledger_debit a c amt l = (Inr (), put_slot a c (balance l a c - amt) l)"
  by (simp add: ledger_debit_eq)

lemma ledger_debit_fail:
  "balances l a = None \<or> balance l a c < amt \<Longrightarrow>
   ledger_debit a c amt l = (Inl (Err InsufficientFunds), l)"
  by (simp add: ledger_debit_eq)

text \<open>A failing \<open>Ledger::transfer\<close> leaves the ledger exactly as it was, the restore path after a
  failing credit included (when the amounts stored are \<open>u128\<close>s).\<close>

theorem ledger_transfer_atomic:
  assumes "\<forall>a c. balance l a c \<le> u128_max"
    and "ledger_transfer frm dst c amt l = (Inl e, l')"
  shows "l' = l"
proof (cases "amt = 0 \<or> frm = dst")
  case True
  with assms(2) show ?thesis by (simp add: ledger_transfer_def)
next
  case False
  show ?thesis
  proof (cases "balances l frm = None \<or> balance l frm c < amt")
    case True
    with False assms(2) show ?thesis by (auto simp: ledger_transfer_def ledger_debit_eq)
  next
    case ok: False
    let ?l1 = "put_slot frm c (balance l frm c - amt) l"
    from ok have ex: "balances l frm \<noteq> None" and amt: "amt \<le> balance l frm c" by simp_all
    have frm: "balance ?l1 frm c + amt = balance l frm c" using amt by (simp add: balance_put_slot)
    have dst: "balance ?l1 dst c = balance l dst c" using False by (auto simp: balance_put_slot)
    have restore: "put_slot frm c (balance l frm c) l = l" using ex by (rule put_slot_id)
    show ?thesis
    proof (cases "balance l dst c + amt \<le> u128_max")
      case True
      with False dst assms(2) show ?thesis
        by (simp add: ledger_transfer_def ledger_debit_ok [OF ex amt] ledger_credit_ok)
    next
      case no: False
      with assms(1) amt have "balances l dst \<noteq> None"
        by (metis balance_def add.left_neutral le_trans option.simps(4))
      then have "balances ?l1 dst \<noteq> None" using False by (simp add: put_slot_def)
      then have "put_slot dst c (balance l dst c) ?l1 = ?l1"
        using put_slot_id [of ?l1 dst c] dst by simp
      moreover have "ledger_credit frm c amt ?l1 = (Inr (), l)"
        using frm assms(1) restore ledger_credit_ok [of ?l1 frm c amt] by simp
      ultimately show ?thesis using False no dst assms(2)
        by (simp add: ledger_transfer_def ledger_debit_ok [OF ex amt] ledger_credit_overflow)
    qed
  qed
qed

definition full_ledger :: ledger where
  "full_ledger = \<lparr>balances = [''a'' \<mapsto> (5, 0), ''b'' \<mapsto> (u128_max, 0)], hlq = None, sov = None\<rparr>"

theorem ledger_transfer_atomic_witness:
  "ledger_transfer ''a'' ''b'' Hlq 5 full_ledger = (Inl (Err Overflow), full_ledger)"
proof -
  let ?r = "ledger_transfer ''a'' ''b'' Hlq 5 full_ledger"
  have ok: "\<forall>a c. balance full_ledger a c \<le> u128_max"
  proof (intro allI)
    fix a c
    show "balance full_ledger a c \<le> u128_max"
      by (cases c) (auto simp: full_ledger_def balance_def u128_max_def split: option.splits)
  qed
  have "fst ?r = Inl (Err Overflow)"
    by (simp add: ledger_transfer_def ledger_debit_eq ledger_credit_eq balance_put_slot)
       (simp add: full_ledger_def balance_def)
  then have run: "?r = (Inl (Err Overflow), snd ?r)" by (metis prod.collapse)
  from ledger_transfer_atomic [OF ok run] run show ?thesis by simp
qed

text \<open>The conservation invariant: what is held is what was minted less what was burned, and what was
  minted stays under the coin's cap.\<close>

definition coin_inv :: "ledger \<Rightarrow> coin \<Rightarrow> bool" where
  "coin_inv l c = (case supply_of l c of
      Inl _ \<Rightarrow> False
    | Inr s \<Rightarrow> msum (slot c) (balances l) + burned s = minted s
        \<and> minted s \<le> cap (curve s) \<and> cap (curve s) \<le> u128_max)"

definition ledger_inv :: "ledger \<Rightarrow> bool" where
  "ledger_inv l = (finite (dom (balances l)) \<and> (\<forall>c. coin_inv l c))"

lemma ledger_invD:
  assumes "ledger_inv l"
  obtains s where "supply_of l c = Inr s" "msum (slot c) (balances l) + burned s = minted s"
    "minted s \<le> cap (curve s)" "cap (curve s) \<le> u128_max"
proof -
  from assms have "coin_inv l c" by (simp add: ledger_inv_def)
  then show thesis by (cases "supply_of l c") (auto simp: coin_inv_def intro: that)
qed

lemma ledger_inv_finite: "ledger_inv l \<Longrightarrow> finite (dom (balances l))"
  by (simp add: ledger_inv_def)

lemma supply_of_set_supply: "supply_of (set_supply l c s) d = (if d = c then Inr s else supply_of l d)"
  by (cases c; cases d) simp_all

lemma balances_set_supply [simp]: "balances (set_supply l c s) = balances l"
  by (cases c) simp_all

lemma balance_set_supply [simp]: "balance (set_supply l c s) a d = balance l a d"
  by (simp add: balance_def)

lemma ledger_inv_new:
  "cap h \<le> u128_max \<Longrightarrow> cap s \<le> u128_max \<Longrightarrow> ledger_inv (ledger_new h s)"
  by (auto simp: ledger_inv_def coin_inv_def ledger_new_def elim!: supply_of.elims split: sum.splits)

declare supply_of.simps [simp del] set_supply.simps [simp del]

lemma msum_credit:
  assumes "finite (dom (balances l))"
  shows "msum (slot d) (balances (put_slot a c (balance l a c + amt) l))
       = msum (slot d) (balances l) + (if d = c then amt else 0)"
  using msum_put_slot [OF assms, of d a c "balance l a c + amt"] by (auto split: if_splits)

lemma msum_debit:
  assumes "finite (dom (balances l))" and "amt \<le> balance l a c"
  shows "msum (slot d) (balances (put_slot a c (balance l a c - amt) l)) + (if d = c then amt else 0)
       = msum (slot d) (balances l)"
proof -
  have "balance l a c \<le> msum (slot c) (balances l)"
    using mval_le_msum [OF assms(1)] by (simp add: balance_mval)
  with msum_put_slot [OF assms(1), of d a c "balance l a c - amt"] assms(2)
  show ?thesis by (auto split: if_splits)
qed

lemma balance_le_msum: "finite (dom (balances l)) \<Longrightarrow> balance l a c \<le> msum (slot c) (balances l)"
  using mval_le_msum by (simp add: balance_mval)

text \<open>A ledger with the same supplies and the same totals keeps the invariant.\<close>

lemma ledger_inv_cong:
  assumes "ledger_inv l" and "finite (dom (balances l'))"
    and "\<And>d. supply_of l' d = supply_of l d"
    and "\<And>d. msum (slot d) (balances l') = msum (slot d) (balances l)"
  shows "ledger_inv l'"
proof -
  have "coin_inv l' c = coin_inv l c" for c
    by (simp add: coin_inv_def assms(3,4) split: sum.split)
  with assms(1,2) show ?thesis by (simp add: ledger_inv_def)
qed

lemma ledger_transfer_inv:
  assumes inv: "ledger_inv l"
  shows "ledger_inv (snd (ledger_transfer frm dst c amt l))"
proof (cases "amt = 0 \<or> frm = dst \<or> balances l frm = None \<or> balance l frm c < amt")
  case True
  with inv show ?thesis by (auto simp: ledger_transfer_def ledger_debit_fail)
next
  case False
  then have ex: "balances l frm \<noteq> None" and amt: "amt \<le> balance l frm c" and nz: "\<not> (amt = 0 \<or> frm = dst)"
    by simp_all
  let ?l1 = "put_slot frm c (balance l frm c - amt) l"
  let ?l2 = "put_slot dst c (balance ?l1 dst c + amt) ?l1"
  note fin = ledger_inv_finite [OF inv]
  have fin1: "finite (dom (balances ?l1))" using fin by simp
  note d = msum_debit [OF fin amt]
  obtain s where s: "supply_of l c = Inr s" "msum (slot c) (balances l) + burned s = minted s"
    "minted s \<le> cap (curve s)" "cap (curve s) \<le> u128_max"
    by (rule ledger_invD [OF inv, of c])
  have "balance ?l1 dst c + amt \<le> u128_max"
    using balance_le_msum [OF fin1, of dst c] d [of c] s by simp
  then have "snd (ledger_transfer frm dst c amt l) = ?l2"
    using nz by (simp add: ledger_transfer_def ledger_debit_ok [OF ex amt] ledger_credit_ok)
  moreover have "msum (slot e) (balances ?l2) = msum (slot e) (balances l)" for e
    using msum_credit [OF fin1, of e dst c amt] d [of e] by simp
  ultimately show ?thesis
    using inv fin by (intro ledger_inv_cong [OF inv]) simp_all
qed

lemma ledger_mint_inv:
  assumes inv: "ledger_inv l"
  shows "ledger_inv (snd (mint_emission c epoch a l))"
proof -
  obtain s where s: "supply_of l c = Inr s" "msum (slot c) (balances l) + burned s = minted s"
    "minted s \<le> cap (curve s)" "cap (curve s) \<le> u128_max"
    by (rule ledger_invD [OF inv, of c])
  let ?amt = "mint_amount (curve s) epoch (minted s)"
  let ?l1 = "put_slot a c (balance l a c + ?amt) l"
  note fin = ledger_inv_finite [OF inv]
  have room: "minted s + ?amt \<le> cap (curve s)" using s(3) by (rule mint_amount_cap)
  show ?thesis
  proof (cases "?amt = 0")
    case True
    with inv s show ?thesis by (simp add: mint_emission_def Let_def)
  next
    case False
    have "balance l a c + ?amt \<le> u128_max"
      using balance_le_msum [OF fin, of a c] s room by linarith
    moreover have "checked_add u128_max (minted s) ?amt = Some (minted s + ?amt)"
      using room s by (simp add: checked_add_def)
    ultimately have res: "snd (mint_emission c epoch a l) = set_supply ?l1 c (s\<lparr>minted := minted s + ?amt\<rparr>)"
      using s False by (simp add: mint_emission_def ledger_credit_ok Let_def)
    have "coin_inv (set_supply ?l1 c (s\<lparr>minted := minted s + ?amt\<rparr>)) d" for d
    proof (cases "d = c")
      case True
      then show ?thesis using s room msum_credit [OF fin, of c a c ?amt]
        by (simp add: coin_inv_def supply_of_set_supply)
    next
      case False
      moreover have "coin_inv l d" using inv by (simp add: ledger_inv_def)
      ultimately show ?thesis using msum_credit [OF fin, of d a c ?amt]
        by (simp add: coin_inv_def supply_of_set_supply split: sum.splits)
    qed
    with fin show ?thesis unfolding res by (simp add: ledger_inv_def)
  qed
qed

lemma ledger_fee_burn_inv:
  assumes inv: "ledger_inv l"
  shows "ledger_inv (snd (charge_fee_with_burn payer node fee bps l))"
proof (cases "fee = 0 \<or> balances l payer = None \<or> balance l payer Hlq < fee")
  case True
  with inv show ?thesis by (auto simp: charge_fee_with_burn_def ledger_debit_fail Let_def)
next
  case False
  then have ex: "balances l payer \<noteq> None" and amt: "fee \<le> balance l payer Hlq" and nz: "fee \<noteq> 0"
    by simp_all
  let ?burn = "burn_amount fee bps" and ?l1 = "put_slot payer Hlq (balance l payer Hlq - fee) l"
  have burn: "?burn \<le> fee" using burn_amount_le by simp
  note fin = ledger_inv_finite [OF inv]
  have fin1: "finite (dom (balances ?l1))" using fin by simp
  note d = msum_debit [OF fin amt]
  obtain s where s: "supply_of l Hlq = Inr s" "msum (slot Hlq) (balances l) + burned s = minted s"
    "minted s \<le> cap (curve s)" "cap (curve s) \<le> u128_max"
    by (rule ledger_invD [OF inv, of Hlq])
  have fits: "balance ?l1 a Hlq + (fee - ?burn) \<le> u128_max" for a
    using balance_le_msum [OF fin1, of a Hlq] d [of Hlq] s by simp
  define l3 where "l3 = (if 0 < fee - ?burn \<or> payer = node
    then put_slot node Hlq (balance ?l1 node Hlq + (fee - ?burn)) ?l1 else ?l1)"
  have sup3: "supply_of l3 e = supply_of l e" for e by (simp add: l3_def)
  have fin3: "finite (dom (balances l3))" using fin by (simp add: l3_def)
  have res: "snd (charge_fee_with_burn payer node fee bps l) =
     (if 0 < ?burn then set_supply l3 Hlq (s\<lparr>burned := sat_add u128_max (burned s) ?burn\<rparr>) else l3)"
    using nz s(1) fits
    by (auto simp: charge_fee_with_burn_def ledger_debit_ok [OF ex amt] ledger_credit_ok l3_def Let_def)
  have sum3: "msum (slot e) (balances l3) + (if e = Hlq then ?burn else 0) = msum (slot e) (balances l)" for e
    using msum_credit [OF fin1, of e node Hlq "fee - ?burn"] d [of e] burn
    by (auto simp: l3_def split: if_splits)
  have "burned s + ?burn \<le> u128_max" using sum3 [of Hlq] s by simp
  then have sat: "sat_add u128_max (burned s) ?burn = burned s + ?burn" by simp
  have "coin_inv (snd (charge_fee_with_burn payer node fee bps l)) e" for e
  proof (cases e)
    case Hlq
    with s sum3 [of Hlq] sup3 [of Hlq] sat show ?thesis unfolding res
      by (auto simp: coin_inv_def supply_of_set_supply)
  next
    case Sov
    have "coin_inv l Sov" using inv by (simp add: ledger_inv_def)
    with Sov sum3 [of Sov] sup3 [of Sov] show ?thesis unfolding res
      by (auto simp: coin_inv_def supply_of_set_supply split: sum.splits)
  qed
  moreover have "finite (dom (balances (snd (charge_fee_with_burn payer node fee bps l))))"
    using fin3 unfolding res by simp
  ultimately show ?thesis by (simp add: ledger_inv_def)
qed

text \<open>Every public operation of the ledger, as one step; an error keeps whatever the method left.\<close>

datatype ledger_op =
    OpTransfer account account coin amount
  | OpFee account account amount
  | OpFeeBurn account account amount nat
  | OpMint coin nat account

fun ledger_step :: "ledger_op \<Rightarrow> ledger \<Rightarrow> unit + ledger" where
  "ledger_step (OpTransfer frm dst c amt) l = Inr (snd (ledger_transfer frm dst c amt l))"
| "ledger_step (OpFee payer node amt) l = Inr (snd (charge_fee payer node amt l))"
| "ledger_step (OpFeeBurn payer node fee bps) l = Inr (snd (charge_fee_with_burn payer node fee bps l))"
| "ledger_step (OpMint c epoch a) l = Inr (snd (mint_emission c epoch a l))"

lemma ledger_step_inv: "ledger_inv l \<Longrightarrow> ledger_step op l = Inr l' \<Longrightarrow> ledger_inv l'"
  by (cases op) (auto simp: charge_fee_def ledger_transfer_inv ledger_mint_inv ledger_fee_burn_inv)

interpretation ledger_sys: call_system ledger_step "\<lambda>_. True" ledger_inv
  by unfold_locales (rule ledger_step_inv)

text \<open>There is no discretionary mint and no leak. From a fresh ledger, after any sequence of
  transfers, fees, burned fees and emissions, successful or not, the balances of each coin add up to
  exactly what was minted less what was burned, and what was minted is within the curve's hard cap.\<close>

theorem ledger_conservation:
  assumes "cap h \<le> u128_max" and "cap s \<le> u128_max"
  shows "\<exists>st. supply_of (run_calls ledger_step ops (ledger_new h s)) c = Inr st
    \<and> msum (slot c) (balances (run_calls ledger_step ops (ledger_new h s))) + burned st = minted st
    \<and> minted st \<le> cap (curve st)"
proof -
  have "ledger_inv (run_calls ledger_step ops (ledger_new h s))"
    by (intro ledger_sys.run_inv ledger_inv_new assms) (simp add: list_all_iff)
  then show ?thesis using ledger_invD [of _ c] by metis
qed

definition demo_curve :: emission_curve where
  "demo_curve = \<lparr>initial = 1000, decay_num = 1, decay_den = 2, era_length = 2, cap = 1500\<rparr>"

theorem ledger_conservation_witness:
  "\<exists>st. supply_of (run_calls ledger_step
        [OpMint Hlq 0 ''a'', OpFeeBurn ''a'' ''b'' 100 5000, OpMint Hlq 0 ''b'']
        (ledger_new demo_curve demo_curve)) Hlq = Inr st
    \<and> msum (slot Hlq) (balances (run_calls ledger_step
        [OpMint Hlq 0 ''a'', OpFeeBurn ''a'' ''b'' 100 5000, OpMint Hlq 0 ''b'']
        (ledger_new demo_curve demo_curve))) + burned st = minted st
    \<and> minted st \<le> cap (curve st)"
  by (rule ledger_conservation) (simp_all add: demo_curve_def u128_max_def)

end
