(* ===== verification/PalletTokens.thy ===== *)
theory PalletTokens
imports TokensCore
begin

text \<open>
  The tokens pallet, \<open>chain/pallet-tokens/src/lib.rs\<close>: the two coins in storage, transfers, the fee
  primitives of the transaction-payment adapter, the feeless allowance, and the era emission with its
  hosting and service pools.

  The storage items are the fields of \<open>tokens\<close>. Calls that leave the pallet (the existence
  references of \<open>frame_system\<close>, the reads and clears of the service and hosting feeds) and deposited
  events are appended, in order, to \<open>effects\<close>. The feeds themselves are parameters of
  \<open>run_epoch\<close>: \<open>svc era\<close> is what \<open>era_service_streak\<close> returns and \<open>hst era\<close> what
  \<open>era_hosts\<close> returns. An account id is any type. The pallet's \<open>Coin\<close> and \<open>CurveParams\<close>
  mirror the core's types one to one and are identified with them.
\<close>

section \<open>Configuration, storage, effects\<close>

record tokens_config =
  hlq_curve :: emission_curve
  sov_curve :: emission_curve
  era_blocks :: nat
  fee_burn_bps :: nat
  service_cap_k :: nat
  hosting_share_bps :: nat
  feeless_block_bps :: nat
  feeless_epoch_blocks :: nat
  max_feeless_per_block :: nat
  max_block_ref_time :: nat

record acct_balances =
  bal_hlq :: nat
  bal_sov :: nat

datatype 'a tokens_effect =
    IncSufficients 'a
  | DecSufficients 'a
  | ReadServiceStreak nat
  | ReadHosts nat
  | ClearService nat
  | ClearHosts nat
  | Transferred coin 'a 'a nat
  | FeeCharged 'a 'a nat nat
  | EraReward nat nat nat nat
  | HostingReward nat nat nat

record 'a tokens =
  accounts :: "'a \<rightharpoonup> acct_balances"
  tk_minted :: "coin \<Rightarrow> nat"
  tk_burned :: "coin \<Rightarrow> nat"
  tk_epoch :: nat
  founders :: "'a list"
  feeless_first_seen :: "'a \<rightharpoonup> nat"
  feeless_used :: "'a \<Rightarrow> nat \<times> nat"
  feeless_weight_this_block :: nat
  feeless_count_this_block :: nat
  effects :: "'a tokens_effect list"

definition emit :: "'a tokens_effect \<Rightarrow> 'a tokens \<Rightarrow> 'a tokens" where
  "emit e st = st\<lparr>effects := effects st @ [e]\<rparr>"

definition zero_balances :: acct_balances where
  "zero_balances = \<lparr>bal_hlq = 0, bal_sov = 0\<rparr>"

definition account_of :: "'a tokens \<Rightarrow> 'a \<Rightarrow> acct_balances" where
  "account_of st who = (case accounts st who of None \<Rightarrow> zero_balances | Some b \<Rightarrow> b)"

fun bal_get :: "coin \<Rightarrow> acct_balances \<Rightarrow> nat" where
  "bal_get Hlq b = bal_hlq b"
| "bal_get Sov b = bal_sov b"

fun bal_set :: "coin \<Rightarrow> nat \<Rightarrow> acct_balances \<Rightarrow> acct_balances" where
  "bal_set Hlq v b = b\<lparr>bal_hlq := v\<rparr>"
| "bal_set Sov v b = b\<lparr>bal_sov := v\<rparr>"

fun curve_of :: "tokens_config \<Rightarrow> coin \<Rightarrow> emission_curve" where
  "curve_of cfg Hlq = hlq_curve cfg"
| "curve_of cfg Sov = sov_curve cfg"

definition tokens_balance :: "'a tokens \<Rightarrow> 'a \<Rightarrow> coin \<Rightarrow> nat" where
  "tokens_balance st who c = bal_get c (account_of st who)"

definition circulating :: "'a tokens \<Rightarrow> coin \<Rightarrow> nat" where
  "circulating st c = tk_minted st c - tk_burned st c"

definition is_founder :: "'a tokens \<Rightarrow> 'a \<Rightarrow> bool" where
  "is_founder st who = (who \<in> set (founders st))"

definition add_minted :: "coin \<Rightarrow> nat \<Rightarrow> 'a tokens \<Rightarrow> 'a tokens" where
  "add_minted c amt st = st\<lparr>tk_minted := (tk_minted st)(c := sat_add u128_max (tk_minted st c) amt)\<rparr>"

definition add_burned :: "coin \<Rightarrow> nat \<Rightarrow> 'a tokens \<Rightarrow> 'a tokens" where
  "add_burned c amt st = st\<lparr>tk_burned := (tk_burned st)(c := sat_add u128_max (tk_burned st c) amt)\<rparr>"

section \<open>Credit, debit, transfer\<close>

definition tokens_credit :: "coin \<Rightarrow> 'a \<Rightarrow> nat \<Rightarrow> 'a tokens \<Rightarrow> core_error + 'a tokens" where
  "tokens_credit c who amt st =
     (let b = account_of st who;
          total_before = sat_add u128_max (bal_hlq b) (bal_sov b)
      in case checked_add u128_max (bal_get c b) amt of
           None \<Rightarrow> Inl Overflow
         | Some v \<Rightarrow>
             let st1 = st\<lparr>accounts := (accounts st)(who \<mapsto> bal_set c v b)\<rparr>
             in Inr (if total_before = 0 \<and> 0 < amt then emit (IncSufficients who) st1 else st1))"

definition tokens_debit :: "coin \<Rightarrow> 'a \<Rightarrow> nat \<Rightarrow> 'a tokens \<Rightarrow> core_error + 'a tokens" where
  "tokens_debit c who amt st =
     (let b = account_of st who; cur = bal_get c b
      in if cur < amt then Inl InsufficientFunds
         else let b' = bal_set c (cur - amt) b
              in if bal_hlq b' = 0 \<and> bal_sov b' = 0
                 then Inr (emit (DecSufficients who) (st\<lparr>accounts := (accounts st)(who := None)\<rparr>))
                 else Inr (st\<lparr>accounts := (accounts st)(who \<mapsto> b')\<rparr>))"

text \<open>\<open>let _ = Self::credit(..)\<close>: the error, if any, is dropped and nothing is written.\<close>

abbreviation credit_or_skip :: "coin \<Rightarrow> 'a \<Rightarrow> nat \<Rightarrow> 'a tokens \<Rightarrow> 'a tokens" where
  "credit_or_skip c who amt st \<equiv> apply_call (tokens_credit c who amt) st"

definition do_transfer :: "coin \<Rightarrow> 'a \<Rightarrow> 'a \<Rightarrow> nat \<Rightarrow> 'a tokens \<Rightarrow> (core_error + unit) \<times> 'a tokens" where
  "do_transfer c frm dst amt st =
     (if amt = 0 \<or> frm = dst then (Inl InvalidTransfer, st)
      else case tokens_debit c frm amt st of
          Inl e \<Rightarrow> (Inl e, st)
        | Inr st1 \<Rightarrow>
            (case tokens_credit c dst amt st1 of
               Inl e \<Rightarrow> (Inl e, credit_or_skip c frm amt st1)
             | Inr st2 \<Rightarrow> (Inr (), st2)))"

text \<open>The \<open>transfer\<close> extrinsic: \<open>from\<close> is the signed origin.\<close>

definition tokens_transfer :: "'a \<Rightarrow> coin \<Rightarrow> 'a \<Rightarrow> nat \<Rightarrow> 'a tokens \<Rightarrow> core_error + 'a tokens" where
  "tokens_transfer frm c dst amt st =
     (case do_transfer c frm dst amt st of
        (Inl e, _) \<Rightarrow> Inl e
      | (Inr _, st1) \<Rightarrow> Inr (emit (Transferred c frm dst amt) st1))"

section \<open>Fees\<close>

definition tokens_charge_fee ::
  "tokens_config \<Rightarrow> 'a \<Rightarrow> 'a \<Rightarrow> nat \<Rightarrow> 'a tokens \<Rightarrow> (core_error + unit) \<times> 'a tokens" where
  "tokens_charge_fee cfg payer node fee st =
     (if fee = 0 then (Inl InvalidTransfer, st)
      else
        let burn = burn_amount fee (fee_burn_bps cfg); to_node = fee - burn
        in case tokens_debit Hlq payer fee st of
          Inl e \<Rightarrow> (Inl e, st)
        | Inr st1 \<Rightarrow>
            (case (if 0 < to_node \<and> payer \<noteq> node then
                     (case tokens_credit Hlq node to_node st1 of
                        Inl e \<Rightarrow> (Inl e, credit_or_skip Hlq payer fee st1)
                      | Inr st2 \<Rightarrow> (Inr (), st2))
                   else if payer = node then (Inr (), credit_or_skip Hlq payer to_node st1)
                   else (Inr (), st1)) of
               (Inl e, st3) \<Rightarrow> (Inl e, st3)
             | (Inr _, st3) \<Rightarrow>
                 let st4 = (if 0 < burn then add_burned Hlq burn st3 else st3)
                 in (Inr (), emit (FeeCharged payer node burn to_node) st4)))"

definition fee_withdraw :: "'a \<Rightarrow> nat \<Rightarrow> 'a tokens \<Rightarrow> core_error + 'a tokens" where
  "fee_withdraw payer amt st = (if amt = 0 then Inr st else tokens_debit Hlq payer amt st)"

definition fee_refund :: "'a \<Rightarrow> nat \<Rightarrow> 'a tokens \<Rightarrow> 'a tokens" where
  "fee_refund payer amt st = (if 0 < amt then credit_or_skip Hlq payer amt st else st)"

definition fee_settle :: "tokens_config \<Rightarrow> 'a \<Rightarrow> 'a option \<Rightarrow> nat \<Rightarrow> 'a tokens \<Rightarrow> 'a tokens" where
  "fee_settle cfg payer author fee st =
     (if fee = 0 then st
      else
        let burn = burn_amount fee (fee_burn_bps cfg); to_node = fee - burn;
            (burned, node, st1) =
              (case author of
                 Some node \<Rightarrow>
                   if 0 < to_node \<and> \<not> is_founder st node
                   then (burn, node, credit_or_skip Hlq node to_node st)
                   else (fee, payer, st)
               | None \<Rightarrow> (fee, payer, st));
            st2 = (if 0 < burned then add_burned Hlq burned st1 else st1)
        in emit (FeeCharged payer node burned (fee - burned)) st2)"

section \<open>The feeless allowance\<close>

definition feeless_ceiling :: "tokens_config \<Rightarrow> nat" where
  "feeless_ceiling cfg = max_block_ref_time cfg div 10000 * min (feeless_block_bps cfg) 10000"

definition feeless_index :: "tokens_config \<Rightarrow> nat \<Rightarrow> nat" where
  "feeless_index cfg now = min u32_max (now div feeless_epoch_blocks cfg)"

definition feeless_spent :: "'a tokens \<Rightarrow> 'a \<Rightarrow> nat \<Rightarrow> nat" where
  "feeless_spent st who idx =
     (let (epoch_idx, used) = feeless_used st who in if epoch_idx = idx then used else 0)"

definition try_feeless ::
  "tokens_config \<Rightarrow> nat \<Rightarrow> 'a \<Rightarrow> nat \<Rightarrow> nat \<Rightarrow> 'a tokens \<Rightarrow> bool \<times> 'a tokens" where
  "try_feeless cfg now who ref_time allowance st =
     (if feeless_epoch_blocks cfg = 0 \<or> allowance = 0 then (False, st)
      else
        let ceiling = feeless_ceiling cfg; used_block = feeless_weight_this_block st
        in if sat_add u64_max used_block ref_time > ceiling then (False, st)
        else
          let count = feeless_count_this_block st
          in if count \<ge> max_feeless_per_block cfg then (False, st)
          else
            let idx = feeless_index cfg now; used = feeless_spent st who idx
            in if used \<ge> allowance then (False, st)
            else (True, st\<lparr>
               feeless_used := (feeless_used st)(who := (idx, sat_add u32_max used 1)),
               feeless_first_seen :=
                 (if feeless_first_seen st who = None then (feeless_first_seen st)(who \<mapsto> idx)
                  else feeless_first_seen st),
               feeless_weight_this_block := sat_add u64_max used_block ref_time,
               feeless_count_this_block := sat_add u32_max count 1\<rparr>))"

definition can_feeless ::
  "tokens_config \<Rightarrow> nat \<Rightarrow> 'a \<Rightarrow> nat \<Rightarrow> nat \<Rightarrow> 'a tokens \<Rightarrow> bool" where
  "can_feeless cfg now who ref_time allowance st =
     (if feeless_epoch_blocks cfg = 0 \<or> allowance = 0 then False
      else if sat_add u64_max (feeless_weight_this_block st) ref_time > feeless_ceiling cfg then False
      else if feeless_count_this_block st \<ge> max_feeless_per_block cfg then False
      else feeless_spent st who (feeless_index cfg now) < allowance)"

definition feeless_age :: "tokens_config \<Rightarrow> nat \<Rightarrow> 'a \<Rightarrow> 'a tokens \<Rightarrow> nat" where
  "feeless_age cfg now who st =
     (if feeless_epoch_blocks cfg = 0 then 0
      else case feeless_first_seen st who of
             None \<Rightarrow> 0
           | Some first \<Rightarrow> feeless_index cfg now - first)"

section \<open>The era emission\<close>

definition scheduled_pool :: "tokens_config \<Rightarrow> coin \<Rightarrow> nat \<Rightarrow> 'a tokens \<Rightarrow> nat" where
  "scheduled_pool cfg c epoch st = mint_amount (curve_of cfg c) epoch (tk_minted st c)"

definition cap_weights :: "nat \<Rightarrow> nat list \<Rightarrow> nat list" where
  "cap_weights k weights =
     (if weights = [] then []
      else
        let sorted_ws = sort weights;
            median = sorted_ws ! ((length sorted_ws - 1) div 2);
            limit = sat_mul u128_max median k;
            limit = (if limit > u64_max then u64_max else limit)
        in map (\<lambda>w. if w > limit then limit else w) weights)"

text \<open>The two pay loops of \<open>run_epoch\<close>; the accumulator counts what was credited.\<close>

fun pay_hosts :: "('a \<times> nat) list \<Rightarrow> 'a tokens \<Rightarrow> nat \<Rightarrow> 'a tokens \<times> nat" where
  "pay_hosts [] st m = (st, m)"
| "pay_hosts ((acct, share) # rest) st m =
     (if is_founder st acct \<or> share = 0 then pay_hosts rest st m
      else pay_hosts rest (credit_or_skip Hlq acct share st) (sat_add u128_max m share))"

fun pay_nodes ::
  "('a \<times> nat \<times> nat) list \<Rightarrow> 'a tokens \<Rightarrow> nat \<Rightarrow> nat \<Rightarrow> 'a tokens \<times> nat \<times> nat" where
  "pay_nodes [] st hm sm = (st, hm, sm)"
| "pay_nodes ((acct, hs, ss) # rest) st hm sm =
     (if is_founder st acct then pay_nodes rest st hm sm
      else
        let (st1, hm1) = (if 0 < hs then (credit_or_skip Hlq acct hs st, sat_add u128_max hm hs) else (st, hm));
            (st2, sm1) = (if 0 < ss then (credit_or_skip Sov acct ss st1, sat_add u128_max sm ss) else (st1, sm))
        in pay_nodes rest st2 hm1 sm1)"

definition hosting_phase ::
  "tokens_config \<Rightarrow> ('a \<times> nat) list \<Rightarrow> nat \<Rightarrow> 'a tokens \<Rightarrow> 'a tokens \<times> nat" where
  "hosting_phase cfg hosts host_pool st =
     (if 0 < host_pool then
        let shares = split_service_reward host_pool (cap_weights (service_cap_k cfg) (map snd hosts));
            (st1, host_minted) = pay_hosts (zip (map fst hosts) shares) st 0
        in (if 0 < host_minted then add_minted Hlq host_minted st1 else st1, host_minted)
      else (st, 0))"

definition service_phase ::
  "tokens_config \<Rightarrow> ('a \<times> nat \<times> nat) list \<Rightarrow> nat \<Rightarrow> nat \<Rightarrow> 'a tokens \<Rightarrow> 'a tokens \<times> nat \<times> nat" where
  "service_phase cfg nodes hlq_pool sov_pool st =
     (let weights = cap_weights (service_cap_k cfg) (map (\<lambda>(_, w, _). w) nodes);
          sov_weights = cap_weights (service_cap_k cfg)
            (map (\<lambda>(_, w, streak). sat_mul u64_max w (max streak 1)) nodes);
          hlq_shares = split_service_reward hlq_pool weights;
          sov_shares = split_service_reward sov_pool sov_weights;
          (st1, hlq_minted, sov_minted) =
            pay_nodes (zip (map fst nodes) (zip hlq_shares sov_shares)) st 0 0;
          st2 = (if 0 < hlq_minted then add_minted Hlq hlq_minted st1 else st1);
          st3 = (if 0 < sov_minted then add_minted Sov sov_minted st2 else st2)
      in (st3, hlq_minted, sov_minted))"

definition run_epoch ::
  "tokens_config \<Rightarrow> (nat \<Rightarrow> ('a \<times> nat \<times> nat) list) \<Rightarrow> (nat \<Rightarrow> ('a \<times> nat) list) \<Rightarrow> 'a tokens \<Rightarrow> 'a tokens" where
  "run_epoch cfg svc hst st =
     (let epoch = tk_epoch st;
          st = emit (ReadServiceStreak epoch) st;
          nodes = filter (\<lambda>(_, w, _). 0 < w) (svc epoch);
          st = emit (ReadHosts epoch) st;
          hosts = filter (\<lambda>(_, d). 0 < d) (hst epoch);
          hlq_tranche = (if nodes = [] \<and> hosts = [] then 0 else scheduled_pool cfg Hlq epoch st);
          bps = min (hosting_share_bps cfg) 10000;
          host_pool = (if hosts = [] then 0 else sat_mul u128_max hlq_tranche bps div 10000);
          (st, host_minted) = hosting_phase cfg hosts host_pool st;
          (st, hlq_pool, sov_pool) =
            (if nodes = [] then (st, 0, 0)
             else service_phase cfg nodes (hlq_tranche - host_pool) (scheduled_pool cfg Sov epoch st) st);
          st = emit (ClearHosts epoch) (emit (ClearService epoch) st);
          st = (if 0 < host_pool
                then emit (HostingReward epoch host_minted (length hosts mod 2 ^ 32)) st else st);
          st = st\<lparr>tk_epoch := sat_add u64_max epoch 1\<rparr>
      in emit (EraReward epoch hlq_pool sov_pool (length nodes mod 2 ^ 32)) st)"

section \<open>Hooks and genesis\<close>

definition tokens_on_initialize :: "'a tokens \<Rightarrow> 'a tokens" where
  "tokens_on_initialize st = st\<lparr>feeless_weight_this_block := 0, feeless_count_this_block := 0\<rparr>"

definition tokens_on_finalize ::
  "tokens_config \<Rightarrow> (nat \<Rightarrow> ('a \<times> nat \<times> nat) list) \<Rightarrow> (nat \<Rightarrow> ('a \<times> nat) list) \<Rightarrow> nat \<Rightarrow> 'a tokens \<Rightarrow> 'a tokens" where
  "tokens_on_finalize cfg svc hst n st =
     (if n \<noteq> 0 \<and> era_blocks cfg \<noteq> 0 \<and> n mod era_blocks cfg = 0 then run_epoch cfg svc hst st else st)"

definition empty_tokens :: "'a tokens" where
  "empty_tokens = \<lparr>accounts = Map.empty, tk_minted = (\<lambda>_. 0), tk_burned = (\<lambda>_. 0), tk_epoch = 0,
     founders = [], feeless_first_seen = Map.empty, feeless_used = (\<lambda>_. (0, 0)),
     feeless_weight_this_block = 0, feeless_count_this_block = 0, effects = []\<rparr>"

fun genesis_fund :: "('a \<times> nat \<times> nat) list \<Rightarrow> 'a tokens \<Rightarrow> 'a tokens" where
  "genesis_fund [] st = st"
| "genesis_fund ((who, h, s) # rest) st =
     (let st1 = st\<lparr>accounts := (accounts st)(who \<mapsto> \<lparr>bal_hlq = h, bal_sov = s\<rparr>)\<rparr>;
          st2 = (if 0 < sat_add u128_max h s then emit (IncSufficients who) st1 else st1);
          st3 = (if 0 < h then add_minted Hlq h st2 else st2);
          st4 = (if 0 < s then add_minted Sov s st3 else st3)
      in genesis_fund rest st4)"

text \<open>\<open>None\<close> is a genesis that panics: a duplicate account or founder, a founder with a balance, or
  more than 8 founders.\<close>

definition genesis_build :: "('a \<times> nat \<times> nat) list \<Rightarrow> 'a list \<Rightarrow> 'a tokens option" where
  "genesis_build bals fnds =
     (if \<not> distinct (map fst bals) then None
      else if \<not> distinct fnds then None
      else if \<exists>f\<in>set fnds. f \<in> set (map fst bals) then None
      else if 8 < length fnds then None
      else Some (genesis_fund bals (empty_tokens\<lparr>founders := fnds\<rparr>)))"

end
