(* ===== verification/TokensInvariants.thy ===== *)
theory TokensInvariants
imports PalletTokens
begin

text \<open>
  What the tokens pallet keeps. \<open>tokens_inv lim fl st\<close>: for each coin, what accounts hold, plus what
  is in flight between a fee's withdrawal and its settlement (\<open>fl\<close>), plus what was burned, is what
  was minted, and that is at most \<open>lim\<close>. \<open>refs_ok\<close>: the existence references taken from
  \<open>frame_system\<close> balance: one is held exactly by the accounts with a coin. Then the era emission, the
  founders' zero income, the anti-Sybil cap and the feeless ceilings.
\<close>

section \<open>The emission interface\<close>

text \<open>
  What the pallet relies on in the core's curve and split: an emission fits in the room below the cap,
  a split has one share per weight and never hands out more than the pool.
\<close>

locale emission_rules =
  fixes mint :: "'curve \<Rightarrow> nat \<Rightarrow> nat \<Rightarrow> nat"
    and hard_cap :: "'curve \<Rightarrow> nat"
    and split :: "nat \<Rightarrow> nat list \<Rightarrow> nat list"
  assumes mint_room: "mint c e m \<le> hard_cap c - m"
    and split_length: "length (split pool ws) = length ws"
    and split_sum: "pool \<le> u128_max \<Longrightarrow> sum_list (split pool ws) \<le> pool"
begin

lemma minted_within: "m \<le> lim \<Longrightarrow> hard_cap c \<le> lim \<Longrightarrow> paid \<le> mint c e m \<Longrightarrow> m + paid \<le> lim"
  using mint_room [of c e m] by linarith

lemma split_zip_sum:
  assumes "pool \<le> u128_max" and "length xs = length ws"
  shows "sum_list (map snd (zip xs (split pool ws))) \<le> pool"
proof -
  have "map snd (zip xs (split pool ws)) = split pool ws"
    using assms(2) by (simp add: split_length)
  with split_sum [OF assms(1)] show ?thesis by simp
qed

end

interpretation emission: emission_rules mint_amount cap split_service_reward
  by unfold_locales (simp_all add: mint_amount_room sum_split_service_reward_le)

section \<open>Balances and holdings\<close>

abbreviation hold :: "coin \<Rightarrow> 'a tokens \<Rightarrow> nat" where
  "hold c st \<equiv> msum (bal_get c) (accounts st)"

lemma bal_get_set: "bal_get d (bal_set c v b) = (if d = c then v else bal_get d b)"
  by (cases c; cases d) simp_all

lemma bal_get_zero [simp]: "bal_get c zero_balances = 0"
  by (cases c) (simp_all add: zero_balances_def)

declare bal_get.simps [simp del] bal_set.simps [simp del]

lemma mval_bal: "mval (bal_get c) (accounts st) who = bal_get c (account_of st who)"
  by (auto simp: mval_def account_of_def split: option.splits)

lemma emit_simps [simp]:
  "accounts (emit e st) = accounts st" "tk_minted (emit e st) = tk_minted st"
  "tk_burned (emit e st) = tk_burned st" "tk_epoch (emit e st) = tk_epoch st"
  "founders (emit e st) = founders st" "effects (emit e st) = effects st @ [e]"
  by (simp_all add: emit_def)

lemma add_minted_simps [simp]:
  "accounts (add_minted c v st) = accounts st" "tk_burned (add_minted c v st) = tk_burned st"
  "founders (add_minted c v st) = founders st" "effects (add_minted c v st) = effects st"
  "tk_epoch (add_minted c v st) = tk_epoch st"
  "tk_minted (add_minted c v st) = (tk_minted st)(c := sat_add u128_max (tk_minted st c) v)"
  by (simp_all add: add_minted_def)

lemma add_burned_simps [simp]:
  "accounts (add_burned c v st) = accounts st" "tk_minted (add_burned c v st) = tk_minted st"
  "founders (add_burned c v st) = founders st" "effects (add_burned c v st) = effects st"
  "tk_epoch (add_burned c v st) = tk_epoch st"
  "tk_burned (add_burned c v st) = (tk_burned st)(c := sat_add u128_max (tk_burned st c) v)"
  by (simp_all add: add_burned_def)

text \<open>\<open>same_supply\<close>: the fields a movement of coins between accounts does not touch.\<close>

definition same_supply :: "'a tokens \<Rightarrow> 'a tokens \<Rightarrow> bool" where
  "same_supply st st' = (tk_minted st' = tk_minted st \<and> tk_burned st' = tk_burned st
     \<and> founders st' = founders st \<and> tk_epoch st' = tk_epoch st)"

lemma same_supply_refl [simp]: "same_supply st st"
  by (simp add: same_supply_def)

lemma same_supply_trans: "same_supply a b \<Longrightarrow> same_supply b c \<Longrightarrow> same_supply a c"
  by (simp add: same_supply_def)

lemma tokens_credit_Inr:
  assumes "tokens_credit c who amt st = Inr st'"
  shows "bal_get c (account_of st who) + amt \<le> u128_max"
    and "accounts st' = (accounts st)(who \<mapsto> bal_set c (bal_get c (account_of st who) + amt) (account_of st who))"
    and "same_supply st st'"
    and "effects st' = (if bal_hlq (account_of st who) = 0 \<and> bal_sov (account_of st who) = 0 \<and> 0 < amt
            then effects st @ [IncSufficients who] else effects st)"
  using assms
  by (auto simp: tokens_credit_def Let_def checked_add_Some checked_add_None same_supply_def sat_add_def
      split: option.splits if_splits)

lemma tokens_credit_total:
  "bal_get c (account_of st who) + amt \<le> u128_max \<Longrightarrow> \<exists>st'. tokens_credit c who amt st = Inr st'"
  by (auto simp: tokens_credit_def Let_def checked_add_def)

lemma tokens_debit_Inr:
  assumes "tokens_debit c who amt st = Inr st'"
  shows "amt \<le> bal_get c (account_of st who)"
    and "account_of st' who = bal_set c (bal_get c (account_of st who) - amt) (account_of st who)"
    and "w \<noteq> who \<Longrightarrow> accounts st' w = accounts st w"
    and "same_supply st st'"
    and "effects st' = (if bal_hlq (account_of st' who) = 0 \<and> bal_sov (account_of st' who) = 0
            then effects st @ [DecSufficients who] else effects st)"
    and "finite (dom (accounts st)) \<Longrightarrow> finite (dom (accounts st'))"
  using assms
  by (cases "account_of st who"; cases c;
      auto simp: tokens_debit_def Let_def same_supply_def account_of_def zero_balances_def
        bal_get.simps bal_set.simps
      split: if_splits)+

lemma tokens_debit_iff: "(\<exists>st'. tokens_debit c who amt st = Inr st') \<longleftrightarrow> amt \<le> bal_get c (account_of st who)"
  by (auto simp: tokens_debit_def Let_def)

lemma hold_credit:
  assumes "finite (dom (accounts st))" and "tokens_credit c who amt st = Inr st'"
  shows "hold d st' = hold d st + (if d = c then amt else 0)" and "finite (dom (accounts st'))"
proof -
  note a = tokens_credit_Inr(2) [OF assms(2)]
  show "finite (dom (accounts st'))" using assms(1) by (simp add: a)
  show "hold d st' = hold d st + (if d = c then amt else 0)"
    using msum_upd [OF assms(1), of "bal_get d" who "bal_set c (bal_get c (account_of st who) + amt) (account_of st who)"]
    by (simp add: a mval_bal bal_get_set split: if_splits)
qed

lemma hold_cong:
  assumes "finite (dom (accounts st))" "finite (dom (accounts st'))"
    and "\<And>w. w \<noteq> who \<Longrightarrow> accounts st' w = accounts st w"
  shows "hold d st' + bal_get d (account_of st who) = hold d st + bal_get d (account_of st' who)"
proof -
  have "(accounts st')(who := None) = (accounts st)(who := None)" using assms(3) by auto
  with msum_split [OF assms(1), of "bal_get d" who] msum_split [OF assms(2), of "bal_get d" who]
  show ?thesis by (simp add: mval_bal)
qed

lemma hold_debit:
  assumes "finite (dom (accounts st))" and "tokens_debit c who amt st = Inr st'"
  shows "hold d st' + (if d = c then amt else 0) = hold d st" and "finite (dom (accounts st'))"
proof -
  note t = tokens_debit_Inr [OF assms(2)]
  show fin: "finite (dom (accounts st'))" using t(6) [OF assms(1)] .
  show "hold d st' + (if d = c then amt else 0) = hold d st"
    using hold_cong [OF assms(1) fin, of who d] t(1,2,3)
    by (auto simp: bal_get_set split: if_splits)
qed

lemma balance_le_hold: "finite (dom (accounts st)) \<Longrightarrow> bal_get c (account_of st who) \<le> hold c st"
  using mval_le_msum [of "accounts st" "bal_get c" who] by (simp add: mval_bal)

section \<open>Conservation\<close>

definition tokens_inv :: "(coin \<Rightarrow> nat) \<Rightarrow> (coin \<Rightarrow> nat) \<Rightarrow> 'a tokens \<Rightarrow> bool" where
  "tokens_inv lim fl st = (finite (dom (accounts st))
     \<and> (\<forall>c. hold c st + fl c + tk_burned st c = tk_minted st c \<and> tk_minted st c \<le> lim c))"

lemma tokens_invD:
  assumes "tokens_inv lim fl st"
  shows "finite (dom (accounts st))" "hold c st + fl c + tk_burned st c = tk_minted st c"
    "tk_minted st c \<le> lim c"
  using assms by (simp_all add: tokens_inv_def)

lemma inv_emit [simp]: "tokens_inv lim fl (emit e st) = tokens_inv lim fl st"
  by (simp add: tokens_inv_def)

lemma inv_same: "tokens_inv lim fl st \<Longrightarrow> accounts st' = accounts st \<Longrightarrow> same_supply st st' \<Longrightarrow> tokens_inv lim fl st'"
  by (simp add: tokens_inv_def same_supply_def)

lemma credit_step:
  assumes "tokens_inv lim fl st" "amt \<le> fl c" "lim c \<le> u128_max"
  shows "\<exists>st'. tokens_credit c who amt st = Inr st' \<and> tokens_inv lim (fl(c := fl c - amt)) st'"
proof -
  note i = tokens_invD [OF assms(1)]
  have "bal_get c (account_of st who) + amt \<le> u128_max"
    using balance_le_hold [OF i(1), of c who] i(2,3) [of c] assms(2,3) by linarith
  from tokens_credit_total [OF this] obtain st' where st': "tokens_credit c who amt st = Inr st'" ..
  have "hold d st' + (fl(c := fl c - amt)) d + tk_burned st' d = tk_minted st' d \<and> tk_minted st' d \<le> lim d" for d
    using hold_credit(1) [OF i(1) st', of d] tokens_credit_Inr(3) [OF st'] i(2,3) [of d] assms(2)
    by (auto simp: same_supply_def)
  with st' hold_credit(2) [OF i(1) st'] show ?thesis by (auto simp: tokens_inv_def)
qed

lemma credit_or_skip_step:
  assumes "tokens_inv lim fl st" "amt \<le> fl c" "lim c \<le> u128_max"
  shows "tokens_inv lim (fl(c := fl c - amt)) (credit_or_skip c who amt st)"
  using credit_step [OF assms, of who] by auto

lemma debit_step:
  assumes "tokens_inv lim fl st" "tokens_debit c who amt st = Inr st'"
  shows "tokens_inv lim (fl(c := fl c + amt)) st'"
proof -
  note i = tokens_invD [OF assms(1)]
  have "hold d st' + (fl(c := fl c + amt)) d + tk_burned st' d = tk_minted st' d \<and> tk_minted st' d \<le> lim d" for d
    using hold_debit(1) [OF i(1) assms(2), of d] tokens_debit_Inr(4) [OF assms(2)] i(2,3) [of d]
    by (auto simp: same_supply_def)
  with hold_debit(2) [OF i(1) assms(2)] show ?thesis by (simp add: tokens_inv_def)
qed

lemma burn_step:
  assumes "tokens_inv lim fl st" "amt \<le> fl c" "lim c \<le> u128_max"
  shows "tokens_inv lim (fl(c := fl c - amt)) (add_burned c amt st)"
proof -
  note i = tokens_invD [OF assms(1)]
  have "tk_burned st c + amt \<le> u128_max" using i(2,3) [of c] assms(2,3) by linarith
  then have "hold d (add_burned c amt st) + (fl(c := fl c - amt)) d + tk_burned (add_burned c amt st) d
      = tk_minted (add_burned c amt st) d \<and> tk_minted (add_burned c amt st) d \<le> lim d" for d
    using i(2,3) [of d] assms(2) by auto
  with i(1) show ?thesis by (simp add: tokens_inv_def)
qed


section \<open>Transfers and fees keep the invariant\<close>

text \<open>The bound on the limits, once: a cap is a \<open>u128\<close>.\<close>

definition lim_ok :: "tokens_config \<Rightarrow> (coin \<Rightarrow> nat) \<Rightarrow> bool" where
  "lim_ok cfg lim = (\<forall>c. cap (curve_of cfg c) \<le> lim c \<and> lim c \<le> u128_max)"

lemma lim_okD: "lim_ok cfg lim \<Longrightarrow> cap (curve_of cfg c) \<le> lim c" "lim_ok cfg lim \<Longrightarrow> lim c \<le> u128_max"
  by (simp_all add: lim_ok_def)

lemma fun_upd_plus_minus: "(fl(c := fl c + amt))(c := (fl(c := fl c + amt)) c - (amt::nat)) = fl"
  by auto

lemma do_transfer_inv:
  assumes inv: "tokens_inv lim fl st" and lim: "\<And>c. lim c \<le> u128_max"
  shows "tokens_inv lim fl (snd (do_transfer c frm dst amt st))"
proof (cases "amt = 0 \<or> frm = dst")
  case True
  with inv show ?thesis by (auto simp: do_transfer_def)
next
  case False
  show ?thesis
  proof (cases "tokens_debit c frm amt st")
    case (Inl e)
    with False inv show ?thesis by (simp add: do_transfer_def)
  next
    case (Inr st1)
    then have inv1: "tokens_inv lim (fl(c := fl c + amt)) st1" by (rule debit_step [OF inv])
    have le: "amt \<le> (fl(c := fl c + amt)) c" by simp
    obtain st2 where st2: "tokens_credit c dst amt st1 = Inr st2"
      "tokens_inv lim ((fl(c := fl c + amt))(c := (fl(c := fl c + amt)) c - amt)) st2"
      using credit_step [OF inv1 le lim, of dst] by blast
    with False Inr show ?thesis
      by (simp only: do_transfer_def fun_upd_plus_minus) simp
  qed
qed

text \<open>Under the invariant a transfer fails for its two documented reasons only: never by overflow.\<close>

lemma do_transfer_result:
  assumes inv: "tokens_inv lim fl st" and lim: "\<And>c. lim c \<le> u128_max"
  shows "fst (do_transfer c frm dst amt st) =
    (if amt = 0 \<or> frm = dst then Inl InvalidTransfer
     else if tokens_balance st frm c < amt then Inl InsufficientFunds else Inr ())"
proof (cases "tokens_debit c frm amt st")
  case (Inl e)
  then have "tokens_balance st frm c < amt" and "e = InsufficientFunds"
    by (auto simp: tokens_debit_def Let_def tokens_balance_def split: if_splits)
  with Inl show ?thesis by (simp add: do_transfer_def)
next
  case (Inr st1)
  then have inv1: "tokens_inv lim (fl(c := fl c + amt)) st1" by (rule debit_step [OF inv])
  have le: "amt \<le> (fl(c := fl c + amt)) c" by simp
  obtain st2 where "tokens_credit c dst amt st1 = Inr st2"
    using credit_step [OF inv1 le lim, of dst] by blast
  with Inr tokens_debit_Inr(1) [OF Inr] show ?thesis by (simp add: do_transfer_def tokens_balance_def)
qed

lemma charge_fee_inv:
  assumes inv: "tokens_inv lim fl st" and lim: "\<And>c. lim c \<le> u128_max"
  shows "tokens_inv lim fl (snd (tokens_charge_fee cfg payer node fee st))"
proof (cases "fee = 0")
  case True
  with inv show ?thesis by (simp add: tokens_charge_fee_def)
next
  case nz: False
  let ?burn = "burn_amount fee (fee_burn_bps cfg)"
  let ?to = "fee - ?burn"
  have burn: "?burn \<le> fee" by (rule burn_amount_le)
  show ?thesis
  proof (cases "tokens_debit Hlq payer fee st")
    case (Inl e)
    with nz inv show ?thesis by (simp add: tokens_charge_fee_def Let_def)
  next
    case (Inr st1)
    then have inv1: "tokens_inv lim (fl(Hlq := fl Hlq + fee)) st1" by (rule debit_step [OF inv])
    define st3 where "st3 = (if 0 < ?to \<or> payer = node then credit_or_skip Hlq node ?to st1 else st1)"
    have le: "?to \<le> (fl(Hlq := fl Hlq + fee)) Hlq" by simp
    obtain st2 where st2: "tokens_credit Hlq node ?to st1 = Inr st2"
      using credit_step [OF inv1 le lim, of node] by blast
    have eq: "(fl(Hlq := fl Hlq + fee))(Hlq := (fl(Hlq := fl Hlq + fee)) Hlq - ?to) = fl(Hlq := fl Hlq + ?burn)"
      using burn by auto
    have paid: "tokens_inv lim (fl(Hlq := fl Hlq + ?burn)) (credit_or_skip Hlq node ?to st1)"
      using credit_or_skip_step [OF inv1 le lim, of node] by (simp only: eq)
    have "tokens_inv lim (fl(Hlq := fl Hlq + ?burn)) st1" if "?to = 0"
    proof -
      from that burn have "?burn = fee" by simp
      with inv1 show ?thesis by simp
    qed
    with paid have inv3: "tokens_inv lim (fl(Hlq := fl Hlq + ?burn)) st3"
      unfolding st3_def by (cases "0 < ?to \<or> payer = node") auto
    have res: "snd (tokens_charge_fee cfg payer node fee st) =
       emit (FeeCharged payer node ?burn ?to) (if 0 < ?burn then add_burned Hlq ?burn st3 else st3)"
      using nz Inr st2 by (auto simp: tokens_charge_fee_def Let_def st3_def)
    have "tokens_inv lim fl (add_burned Hlq ?burn st3)"
      using burn_step [OF inv3, of ?burn Hlq] lim by simp
    with inv3 show ?thesis unfolding res by auto
  qed
qed

lemma fee_withdraw_inv:
  assumes "tokens_inv lim fl st" "fee_withdraw payer amt st = Inr st'"
  shows "tokens_inv lim (fl(Hlq := fl Hlq + amt)) st'"
  using assms debit_step [OF assms(1), of Hlq payer amt st'] by (auto simp: fee_withdraw_def split: if_splits)

lemma fee_refund_inv:
  assumes "tokens_inv lim fl st" "amt \<le> fl Hlq" "\<And>c. lim c \<le> u128_max"
  shows "tokens_inv lim (fl(Hlq := fl Hlq - amt)) (fee_refund payer amt st)"
  using assms credit_or_skip_step [OF assms(1,2,3), of payer] by (auto simp: fee_refund_def)

lemma fee_settle_inv:
  assumes inv: "tokens_inv lim fl st" and le: "fee \<le> fl Hlq" and lim: "\<And>c. lim c \<le> u128_max"
  shows "tokens_inv lim (fl(Hlq := fl Hlq - fee)) (fee_settle cfg payer author fee st)"
proof (cases "fee = 0")
  case True
  with inv show ?thesis by (simp add: fee_settle_def)
next
  case nz: False
  let ?burn = "burn_amount fee (fee_burn_bps cfg)"
  let ?to = "fee - ?burn"
  have burn: "?burn \<le> fee" by (rule burn_amount_le)
  have all_burn: "tokens_inv lim (fl(Hlq := fl Hlq - fee)) (add_burned Hlq fee st)"
    using burn_step [OF inv le lim] .
  show ?thesis
  proof (cases "\<exists>node. author = Some node \<and> 0 < ?to \<and> \<not> is_founder st node")
    case False
    then have "fee_settle cfg payer author fee st = emit (FeeCharged payer payer fee 0) (add_burned Hlq fee st)"
      using nz by (auto simp: fee_settle_def Let_def split: option.splits)
    with all_burn show ?thesis by simp
  next
    case True
    then obtain node where node: "author = Some node" "0 < ?to" "\<not> is_founder st node" by blast
    let ?st1 = "credit_or_skip Hlq node ?to st"
    have "?to \<le> fl Hlq" using le by simp
    from credit_or_skip_step [OF inv this lim, of node]
    have inv1: "tokens_inv lim (fl(Hlq := fl Hlq - ?to)) ?st1" .
    have "tokens_inv lim ((fl(Hlq := fl Hlq - ?to))(Hlq := (fl(Hlq := fl Hlq - ?to)) Hlq - ?burn)) (add_burned Hlq ?burn ?st1)"
      using burn_step [OF inv1, of ?burn Hlq] le burn lim by simp
    moreover have "(fl(Hlq := fl Hlq - ?to))(Hlq := (fl(Hlq := fl Hlq - ?to)) Hlq - ?burn) = fl(Hlq := fl Hlq - fee)"
      using burn le by auto
    ultimately have "tokens_inv lim (fl(Hlq := fl Hlq - fee)) (add_burned Hlq ?burn ?st1)" by simp
    moreover have "fee_settle cfg payer author fee st =
        emit (FeeCharged payer node ?burn ?to) (if 0 < ?burn then add_burned Hlq ?burn ?st1 else ?st1)"
      using nz node by (simp add: fee_settle_def Let_def)
    ultimately show ?thesis using inv1 burn by (cases "?burn = 0") auto
  qed
qed

end
