(* ===== verification/TokensEpoch.thy ===== *)
theory TokensEpoch
imports TokensInvariants
begin

text \<open>
  The era emission \<open>run_epoch\<close> of the tokens pallet: it conserves coins, respects the caps, pays
  founders nothing, keeps the existence references balanced, and its weights are capped against the
  median. And the bounds of the feeless lane.
\<close>

section \<open>The emission conserves coins and respects the caps\<close>

text \<open>What a pay loop keeps, stated over the coins it has handed out so far.\<close>

lemma pay_hosts_keep:
  assumes "finite (dom (accounts st))"
    and "hold Hlq st + sum_list (map snd xs) \<le> u128_max"
    and "m + sum_list (map snd xs) \<le> u128_max"
    and "pay_hosts xs st m = (st', m')"
  shows "finite (dom (accounts st')) \<and> hold Hlq st' + m = hold Hlq st + m' \<and> hold Sov st' = hold Sov st
    \<and> m \<le> m' \<and> m' \<le> m + sum_list (map snd xs) \<and> same_supply st st'"
  using assms
proof (induction xs st m rule: pay_hosts.induct)
  case (1 st m)
  then show ?case by simp
next
  case (2 acct share rest st m)
  show ?case
  proof (cases "is_founder st acct \<or> share = 0")
    case True
    with "2.prems" have "finite (dom (accounts st')) \<and> hold Hlq st' + m = hold Hlq st + m'
       \<and> hold Sov st' = hold Sov st \<and> m \<le> m' \<and> m' \<le> m + sum_list (map snd rest) \<and> same_supply st st'"
      by (intro "2.IH"(1)) auto
    then show ?thesis by auto
  next
    case False
    have "bal_get Hlq (account_of st acct) + share \<le> u128_max"
      using balance_le_hold [OF "2.prems"(1), of Hlq acct] "2.prems"(2) by simp
    from tokens_credit_total [OF this] obtain st1 where c: "tokens_credit Hlq acct share st = Inr st1" ..
    note h = hold_credit [OF "2.prems"(1) c] and s1 = tokens_credit_Inr(3) [OF c]
    have m: "sat_add u128_max m share = m + share" using "2.prems"(3) by simp
    have "finite (dom (accounts st')) \<and> hold Hlq st' + (m + share) = hold Hlq st1 + m'
       \<and> hold Sov st' = hold Sov st1 \<and> m + share \<le> m'
       \<and> m' \<le> (m + share) + sum_list (map snd rest) \<and> same_supply st1 st'"
      using False c m h "2.prems" "2.IH"(2) [OF False] by simp
    with h s1 show ?thesis by (auto intro: same_supply_trans)
  qed
qed

lemma pay_nodes_keep:
  assumes "finite (dom (accounts st))"
    and "hold Hlq st + sum_list (map (\<lambda>x. fst (snd x)) xs) \<le> u128_max"
    and "hold Sov st + sum_list (map (\<lambda>x. snd (snd x)) xs) \<le> u128_max"
    and "hm + sum_list (map (\<lambda>x. fst (snd x)) xs) \<le> u128_max"
    and "sm + sum_list (map (\<lambda>x. snd (snd x)) xs) \<le> u128_max"
    and "pay_nodes xs st hm sm = (st', hm', sm')"
  shows "finite (dom (accounts st')) \<and> hold Hlq st' + hm = hold Hlq st + hm'
    \<and> hold Sov st' + sm = hold Sov st + sm'
    \<and> hm \<le> hm' \<and> hm' \<le> hm + sum_list (map (\<lambda>x. fst (snd x)) xs)
    \<and> sm \<le> sm' \<and> sm' \<le> sm + sum_list (map (\<lambda>x. snd (snd x)) xs) \<and> same_supply st st'"
  using assms
proof (induction xs arbitrary: st hm sm)
  case Nil
  then show ?case by simp
next
  case (Cons x rest)
  obtain acct hs ss where x: "x = (acct, hs, ss)" by (cases x) auto
  show ?case
  proof (cases "is_founder st acct")
    case True
    with Cons.prems x have "finite (dom (accounts st')) \<and> hold Hlq st' + hm = hold Hlq st + hm'
      \<and> hold Sov st' + sm = hold Sov st + sm' \<and> hm \<le> hm' \<and> hm' \<le> hm + sum_list (map (\<lambda>x. fst (snd x)) rest)
      \<and> sm \<le> sm' \<and> sm' \<le> sm + sum_list (map (\<lambda>x. snd (snd x)) rest) \<and> same_supply st st'"
      by (intro Cons.IH) auto
    with x show ?thesis by auto
  next
    case False
    define st1 where "st1 = (if 0 < hs then credit_or_skip Hlq acct hs st else st)"
    define st2 where "st2 = (if 0 < ss then credit_or_skip Sov acct ss st1 else st1)"
    have "bal_get Hlq (account_of st acct) + hs \<le> u128_max"
      using balance_le_hold [OF Cons.prems(1), of Hlq acct] Cons.prems(2) x by simp
    from tokens_credit_total [OF this] obtain sa where ca: "tokens_credit Hlq acct hs st = Inr sa" ..
    have st1: "finite (dom (accounts st1))" "hold Hlq st1 = hold Hlq st + hs" "hold Sov st1 = hold Sov st"
      "same_supply st st1"
      using hold_credit [OF Cons.prems(1) ca] tokens_credit_Inr(3) [OF ca] ca Cons.prems(1)
      by (auto simp: st1_def)
    have "bal_get Sov (account_of st1 acct) + ss \<le> u128_max"
      using balance_le_hold [OF st1(1), of Sov acct] st1(3) Cons.prems(3) x by simp
    from tokens_credit_total [OF this] obtain sb where cb: "tokens_credit Sov acct ss st1 = Inr sb" ..
    have st2: "finite (dom (accounts st2))" "hold Hlq st2 = hold Hlq st + hs" "hold Sov st2 = hold Sov st + ss"
      "same_supply st st2"
      using hold_credit [OF st1(1) cb] tokens_credit_Inr(3) [OF cb] cb st1
      by (auto simp: st2_def intro: same_supply_trans)
    have run: "pay_nodes rest st2 (hm + hs) (sm + ss) = (st', hm', sm')"
      using Cons.prems(4,5,6) False x by (auto simp: st1_def st2_def split: if_splits)
    have "finite (dom (accounts st')) \<and> hold Hlq st' + (hm + hs) = hold Hlq st2 + hm'
      \<and> hold Sov st' + (sm + ss) = hold Sov st2 + sm'
      \<and> hm + hs \<le> hm' \<and> hm' \<le> (hm + hs) + sum_list (map (\<lambda>x. fst (snd x)) rest)
      \<and> sm + ss \<le> sm' \<and> sm' \<le> (sm + ss) + sum_list (map (\<lambda>x. snd (snd x)) rest) \<and> same_supply st2 st'"
      using Cons.prems x st2 by (intro Cons.IH [OF _ _ _ _ _ run]) auto
    with x st2 show ?thesis by (auto intro: same_supply_trans)
  qed
qed

lemma hosting_phase_keep:
  assumes inv: "tokens_inv lim fl st" and lim: "lim_ok cfg lim"
    and pool: "tk_minted st Hlq + host_pool \<le> lim Hlq"
    and run: "hosting_phase cfg hosts host_pool st = (st', hm)"
  shows "tokens_inv lim fl st' \<and> hm \<le> host_pool \<and> tk_minted st' = (tk_minted st)(Hlq := tk_minted st Hlq + hm)"
proof (cases "0 < host_pool")
  case False
  with run inv show ?thesis by (simp add: hosting_phase_def)
next
  case True
  note i = tokens_invD [OF inv]
  let ?ws = "cap_weights (service_cap_k cfg) (map snd hosts)"
  let ?xs = "zip (map fst hosts) (split_service_reward host_pool ?ws)"
  have max: "tk_minted st Hlq + host_pool \<le> u128_max" using pool lim_okD(2) [OF lim, of Hlq] by linarith
  have len: "length (map fst hosts) = length ?ws"
    by (cases hosts) (simp_all add: cap_weights_def Let_def)
  have sum: "sum_list (map snd ?xs) \<le> host_pool"
    using emission.split_zip_sum [OF _ len] max by simp
  obtain st1 m where p: "pay_hosts ?xs st 0 = (st1, m)" by fastforce
  have bound: "hold Hlq st + sum_list (map snd ?xs) \<le> u128_max"
    using i(2) [of Hlq] sum max by linarith
  have k: "finite (dom (accounts st1)) \<and> hold Hlq st1 + 0 = hold Hlq st + m \<and> hold Sov st1 = hold Sov st
    \<and> 0 \<le> m \<and> m \<le> 0 + sum_list (map snd ?xs) \<and> same_supply st st1"
    using bound sum max by (intro pay_hosts_keep [OF i(1) bound _ p]) simp
  have m: "m \<le> host_pool" using k sum by linarith
  have st': "st' = (if 0 < m then add_minted Hlq m st1 else st1)" "hm = m"
    using run True p by (auto simp: hosting_phase_def Let_def)
  have tk: "tk_minted st' = (tk_minted st)(Hlq := tk_minted st Hlq + m)"
    using k m max st' by (auto simp: same_supply_def)
  have "hold c st' + fl c + tk_burned st' c = tk_minted st' c \<and> tk_minted st' c \<le> lim c" for c
    using i(2,3) [of c] k m pool st' unfolding tk by (cases c) (auto simp: same_supply_def)
  with k st' m tk show ?thesis by (auto simp: tokens_inv_def)
qed

lemma length_cap_weights [simp]: "length (cap_weights k ws) = length ws"
  by (simp add: cap_weights_def Let_def)

lemma service_phase_keep:
  assumes inv: "tokens_inv lim fl st" and lim: "lim_ok cfg lim"
    and pools: "tk_minted st Hlq + hp \<le> lim Hlq" "tk_minted st Sov + sp \<le> lim Sov"
    and run: "service_phase cfg nodes hp sp st = (st', hm, sm)"
  shows "tokens_inv lim fl st' \<and> hm \<le> hp \<and> sm \<le> sp"
proof -
  note i = tokens_invD [OF inv]
  let ?ws = "cap_weights (service_cap_k cfg) (map (\<lambda>(_, w, _). w) nodes)"
  let ?vs = "cap_weights (service_cap_k cfg) (map (\<lambda>(_, w, streak). sat_mul u64_max w (max streak 1)) nodes)"
  let ?hs = "split_service_reward hp ?ws" and ?ss = "split_service_reward sp ?vs"
  let ?xs = "zip (map fst nodes) (zip ?hs ?ss)"
  have max: "tk_minted st Hlq + hp \<le> u128_max" "tk_minted st Sov + sp \<le> u128_max"
    using pools lim_okD(2) [OF lim, of Hlq] lim_okD(2) [OF lim, of Sov] by linarith+
  have snds: "map snd ?xs = zip ?hs ?ss" by (simp add: map_snd_zip)
  have "map (\<lambda>x. fst (snd x)) ?xs = map fst (map snd ?xs)"
    and "map (\<lambda>x. snd (snd x)) ?xs = map snd (map snd ?xs)" by (simp_all only: map_map o_def)
  then have "map (\<lambda>x. fst (snd x)) ?xs = ?hs" and "map (\<lambda>x. snd (snd x)) ?xs = ?ss"
    unfolding snds by simp_all
  then have sums: "sum_list (map (\<lambda>x. fst (snd x)) ?xs) \<le> hp" "sum_list (map (\<lambda>x. snd (snd x)) ?xs) \<le> sp"
    using emission.split_sum [of hp ?ws] emission.split_sum [of sp ?vs] max by simp_all
  obtain st1 h s where p: "pay_nodes ?xs st 0 0 = (st1, h, s)" by (metis prod_cases3)
  have k: "finite (dom (accounts st1)) \<and> hold Hlq st1 + 0 = hold Hlq st + h \<and> hold Sov st1 + 0 = hold Sov st + s
    \<and> 0 \<le> h \<and> h \<le> 0 + sum_list (map (\<lambda>x. fst (snd x)) ?xs)
    \<and> 0 \<le> s \<and> s \<le> 0 + sum_list (map (\<lambda>x. snd (snd x)) ?xs) \<and> same_supply st st1"
    using i(2) [of Hlq] i(2) [of Sov] sums max
    by (intro pay_nodes_keep [OF i(1) _ _ _ _ p]) linarith+
  have hs: "h \<le> hp" "s \<le> sp" using k sums by linarith+
  have st': "st' = (let st2 = (if 0 < h then add_minted Hlq h st1 else st1)
      in if 0 < s then add_minted Sov s st2 else st2)" "hm = h" "sm = s"
    using run p by (auto simp: service_phase_def Let_def)
  have tk: "tk_minted st' = (tk_minted st)(Hlq := tk_minted st Hlq + h, Sov := tk_minted st Sov + s)"
    using k hs max st' by (auto simp: same_supply_def Let_def fun_eq_iff)
  have "hold c st' + fl c + tk_burned st' c = tk_minted st' c \<and> tk_minted st' c \<le> lim c" for c
    using i(2,3) [of c] k hs pools st' unfolding tk by (cases c) (auto simp: same_supply_def Let_def)
  with k st' hs show ?thesis by (auto simp: tokens_inv_def Let_def)
qed

lemma inv_tk_epoch [simp]: "tokens_inv lim fl (st\<lparr>tk_epoch := n\<rparr>) = tokens_inv lim fl st"
  by (simp add: tokens_inv_def)

lemma inv_feeless [simp]:
  "tokens_inv lim fl (st\<lparr>feeless_weight_this_block := a, feeless_count_this_block := b\<rparr>) = tokens_inv lim fl st"
  by (simp add: tokens_inv_def)

lemma scheduled_pool_room: "lim_ok cfg lim \<Longrightarrow> tokens_inv lim fl st \<Longrightarrow> tk_minted st c + scheduled_pool cfg c e st \<le> lim c"
  using emission.minted_within [OF tokens_invD(3) [of lim fl st c] lim_okD(1) [of cfg lim c] order_refl]
  by (simp add: scheduled_pool_def)

lemma hosting_share_le: "sat_mul u128_max t (min b 10000) div 10000 \<le> t"
proof -
  have "sat_mul u128_max t (min b 10000) \<le> t * 10000"
    using sat_mul_le(2) [of u128_max t "min b 10000"] by (meson le_trans min.cobounded2 mult_le_mono2)
  then show ?thesis using div_le_mono [of _ "t * 10000" 10000] by simp
qed

lemma scheduled_pool_emit [simp]: "scheduled_pool cfg c e (emit x st) = scheduled_pool cfg c e st"
  by (simp add: scheduled_pool_def)

lemma run_epoch_inv:
  assumes inv: "tokens_inv lim fl st" and lim: "lim_ok cfg lim"
  shows "tokens_inv lim fl (run_epoch cfg svc hst st)"
proof -
  let ?e = "tk_epoch st"
  define nodes where "nodes = filter (\<lambda>(_, w, _). 0 < w) (svc ?e)"
  define hosts where "hosts = filter (\<lambda>(_, d). 0 < d) (hst ?e)"
  let ?st0 = "emit (ReadHosts ?e) (emit (ReadServiceStreak ?e) st)"
  define tranche where "tranche = (if nodes = [] \<and> hosts = [] then 0 else scheduled_pool cfg Hlq ?e st)"
  define hp where "hp = (if hosts = [] then 0 else sat_mul u128_max tranche (min (hosting_share_bps cfg) 10000) div 10000)"
  have room: "tk_minted st Hlq + tranche \<le> lim Hlq"
    using scheduled_pool_room [OF lim inv, of Hlq ?e] tokens_invD(3) [OF inv, of Hlq] by (auto simp: tranche_def)
  have hp: "hp \<le> tranche" using hosting_share_le by (simp add: hp_def)
  obtain st1 hm where h: "hosting_phase cfg hosts hp ?st0 = (st1, hm)" by fastforce
  have "tk_minted ?st0 Hlq + hp \<le> lim Hlq" using room hp by simp
  from hosting_phase_keep [OF _ lim this h, of fl] inv
  have k1: "tokens_inv lim fl st1" "hm \<le> hp" "tk_minted st1 Hlq = tk_minted st Hlq + hm" by simp_all
  obtain st2 hq sq where sv: "(if nodes = [] then (st1, 0, 0)
      else service_phase cfg nodes (tranche - hp) (scheduled_pool cfg Sov ?e st1) st1) = (st2, hq, sq)"
    by (metis prod_cases3)
  have "tokens_inv lim fl st2"
  proof (cases "nodes = []")
    case True
    with sv k1 show ?thesis by simp
  next
    case False
    with sv have sv': "service_phase cfg nodes (tranche - hp) (scheduled_pool cfg Sov ?e st1) st1 = (st2, hq, sq)" by simp
    have "tk_minted st1 Hlq + (tranche - hp) \<le> lim Hlq" using k1 room hp by simp
    from service_phase_keep [OF k1(1) lim this scheduled_pool_room [OF lim k1(1)] sv'] show ?thesis by blast
  qed
  then show ?thesis
    by (simp only: run_epoch_def Let_def nodes_def [symmetric] hosts_def [symmetric] scheduled_pool_emit
        tranche_def [symmetric] hp_def [symmetric] h prod.case sv) simp
qed

lemma tokens_on_finalize_inv:
  "tokens_inv lim fl st \<Longrightarrow> lim_ok cfg lim \<Longrightarrow> tokens_inv lim fl (tokens_on_finalize cfg svc hst n st)"
  by (simp add: tokens_on_finalize_def run_epoch_inv)

lemma tokens_on_initialize_inv: "tokens_inv lim fl (tokens_on_initialize st) = tokens_inv lim fl st"
  by (simp add: tokens_on_initialize_def)

lemma tokens_transfer_inv:
  assumes "tokens_inv lim fl st" "\<And>c. lim c \<le> u128_max" "tokens_transfer frm c dst amt st = Inr st'"
  shows "tokens_inv lim fl st'"
  using do_transfer_inv [OF assms(1,2), of c frm dst amt] assms(3)
  by (auto simp: tokens_transfer_def split: prod.splits sum.splits)

section \<open>The existence references balance\<close>

text \<open>
  \<open>ref_balance\<close> counts the \<open>inc_sufficients\<close> minus the \<open>dec_sufficients\<close> the pallet has made for an
  account. \<open>refs_ok\<close>: it is 1 for an account that holds some coin and 0 for every other, so a
  reference is never leaked and never released twice.
\<close>

fun ref_balance :: "'a \<Rightarrow> 'a tokens_effect list \<Rightarrow> int" where
  "ref_balance who [] = 0"
| "ref_balance who (IncSufficients a # es) = (if a = who then 1 else 0) + ref_balance who es"
| "ref_balance who (DecSufficients a # es) = (if a = who then - 1 else 0) + ref_balance who es"
| "ref_balance who (_ # es) = ref_balance who es"

lemma ref_balance_append [simp]: "ref_balance who (es @ fs) = ref_balance who es + ref_balance who fs"
  by (induction who es rule: ref_balance.induct) simp_all

definition has_coin :: "acct_balances \<Rightarrow> bool" where
  "has_coin b = (0 < bal_hlq b \<or> 0 < bal_sov b)"

lemma has_coin_set: "has_coin (bal_set c v b) = (0 < v \<or> 0 < bal_get (case c of Hlq \<Rightarrow> Sov | Sov \<Rightarrow> Hlq) b)"
  by (cases c) (auto simp: has_coin_def bal_set.simps bal_get.simps)

lemma has_coin_get: "has_coin b = (0 < bal_get c b \<or> 0 < bal_get (case c of Hlq \<Rightarrow> Sov | Sov \<Rightarrow> Hlq) b)"
  by (cases c) (auto simp: has_coin_def bal_get.simps)

definition refs_ok :: "'a tokens \<Rightarrow> bool" where
  "refs_ok st = (\<forall>who. ref_balance who (effects st) = (if has_coin (account_of st who) then 1 else 0))"

lemma refs_ok_cong: "accounts st' = accounts st \<Longrightarrow> effects st' = effects st @ es \<Longrightarrow>
    (\<And>who. ref_balance who es = 0) \<Longrightarrow> refs_ok st' = refs_ok st"
  by (simp add: refs_ok_def account_of_def)

lemma refs_ok_emit [simp]: "(\<And>who. ref_balance who [e] = 0) \<Longrightarrow> refs_ok (emit e st) = refs_ok st"
  by (rule refs_ok_cong) simp_all

lemma refs_ok_supply [simp]: "refs_ok (add_minted c v st) = refs_ok st" "refs_ok (add_burned c v st) = refs_ok st"
  "refs_ok (st\<lparr>tk_epoch := n\<rparr>) = refs_ok st"
  by (simp_all add: refs_ok_def account_of_def)

lemma refs_credit:
  assumes ok: "refs_ok st" and c: "tokens_credit c who amt st = Inr st'"
  shows "refs_ok st'"
  unfolding refs_ok_def
proof
  fix w
  note t = tokens_credit_Inr [OF c]
  have b: "ref_balance w (effects st) = (if has_coin (account_of st w) then 1 else 0)"
    using ok by (simp add: refs_ok_def)
  have acc: "account_of st' w = (if w = who
      then bal_set c (bal_get c (account_of st who) + amt) (account_of st who) else account_of st w)"
    by (simp add: account_of_def t(2))
  show "ref_balance w (effects st') = (if has_coin (account_of st' w) then 1 else 0)"
    using b unfolding acc t(4) by (cases c) (auto simp: has_coin_def bal_get.simps bal_set.simps)
qed

lemma refs_debit:
  assumes ok: "refs_ok st" and d: "tokens_debit c who amt st = Inr st'" and pos: "0 < amt"
  shows "refs_ok st'"
  unfolding refs_ok_def
proof
  fix w
  note t = tokens_debit_Inr [OF d]
  have b: "ref_balance w (effects st) = (if has_coin (account_of st w) then 1 else 0)"
    using ok by (simp add: refs_ok_def)
  have old: "has_coin (account_of st who)" using t(1) pos by (auto simp: has_coin_get [of _ c])
  have acc: "w \<noteq> who \<Longrightarrow> account_of st' w = account_of st w" by (simp add: account_of_def t(3))
  have nc: "bal_hlq (account_of st' who) = 0 \<and> bal_sov (account_of st' who) = 0 \<longleftrightarrow> \<not> has_coin (account_of st' who)"
    by (simp add: has_coin_def)
  show "ref_balance w (effects st') = (if has_coin (account_of st' w) then 1 else 0)"
    using b old acc unfolding t(5) nc by (cases "w = who") auto
qed

lemma refs_skip: "refs_ok st \<Longrightarrow> refs_ok (credit_or_skip c who amt st)"
  by (cases "tokens_credit c who amt st") (auto dest: refs_credit)

lemma refs_transfer: "refs_ok st \<Longrightarrow> refs_ok (snd (do_transfer c frm dst amt st))"
  by (auto simp: do_transfer_def split: sum.splits intro: refs_skip refs_debit refs_credit)

lemma refs_charge_fee:
  assumes "refs_ok st"
  shows "refs_ok (snd (tokens_charge_fee cfg payer node fee st))"
proof (cases "fee = 0 \<or> (\<exists>e. tokens_debit Hlq payer fee st = Inl e)")
  case True
  with assms show ?thesis by (auto simp: tokens_charge_fee_def Let_def)
next
  case False
  then obtain st1 where d: "tokens_debit Hlq payer fee st = Inr st1" and "0 < fee"
    by (cases "tokens_debit Hlq payer fee st") auto
  with assms have "refs_ok st1" by (auto intro: refs_debit)
  then show ?thesis using d \<open>0 < fee\<close> refs_credit [OF \<open>refs_ok st1\<close>, of Hlq node]
    by (simp add: tokens_charge_fee_def Let_def refs_skip split: sum.split)
qed

lemma refs_withdraw: "refs_ok st \<Longrightarrow> fee_withdraw payer amt st = Inr st' \<Longrightarrow> refs_ok st'"
  by (auto simp: fee_withdraw_def split: if_splits intro: refs_debit)

lemma refs_refund: "refs_ok st \<Longrightarrow> refs_ok (fee_refund payer amt st)"
  by (simp add: fee_refund_def refs_skip)

lemma refs_settle: "refs_ok st \<Longrightarrow> refs_ok (fee_settle cfg payer author fee st)"
  by (auto simp: fee_settle_def Let_def refs_skip split: option.splits prod.splits)

section \<open>Lifting a property of credits to the whole emission\<close>

text \<open>
  The emission only credits non-founders, records supply and deposits events. \<open>emission_stable P\<close> says
  that \<open>P\<close> survives each of these; then it survives \<open>run_epoch\<close> (\<open>run_epoch_stable\<close>).
\<close>

definition emission_stable :: "('a tokens \<Rightarrow> bool) \<Rightarrow> bool" where
  "emission_stable P = (\<forall>st. P st \<longrightarrow>
     (\<forall>c who amt. \<not> is_founder st who \<longrightarrow> P (credit_or_skip c who amt st))
     \<and> (\<forall>c v. P (add_minted c v st)) \<and> (\<forall>n. P (st\<lparr>tk_epoch := n\<rparr>))
     \<and> (\<forall>e. (\<forall>who. ref_balance who [e] = 0) \<longrightarrow> P (emit e st)))"

lemma emission_stableD:
  assumes "emission_stable P" "P st"
  shows "\<not> is_founder st who \<Longrightarrow> P (credit_or_skip c who amt st)" "P (add_minted c v st)"
    "P (st\<lparr>tk_epoch := n\<rparr>)" "(\<And>who. ref_balance who [e] = 0) \<Longrightarrow> P (emit e st)"
  using assms unfolding emission_stable_def by blast+

lemma is_founder_skip [simp]: "is_founder (credit_or_skip c who amt st) w = is_founder st w"
  by (cases "tokens_credit c who amt st")
    (auto simp: is_founder_def same_supply_def dest: tokens_credit_Inr(3))

lemma pay_hosts_stable: "emission_stable P \<Longrightarrow> P st \<Longrightarrow> P (fst (pay_hosts xs st m))"
  by (induction xs st m rule: pay_hosts.induct) (simp_all add: emission_stableD)

lemma pay_nodes_stable: "emission_stable P \<Longrightarrow> P st \<Longrightarrow> P (fst (pay_nodes xs st hm sm))"
  by (induction xs arbitrary: st hm sm) (auto simp: Let_def emission_stableD split: prod.splits)

lemma hosting_stable: "emission_stable P \<Longrightarrow> P st \<Longrightarrow> P (fst (hosting_phase cfg hosts pool st))"
  using pay_hosts_stable [of P st]
  by (auto simp: hosting_phase_def Let_def emission_stableD split: prod.splits) (metis fst_conv emission_stableD(2))+

lemma service_stable: "emission_stable P \<Longrightarrow> P st \<Longrightarrow> P (fst (service_phase cfg nodes hp sp st))"
proof -
  assume P: "emission_stable P" "P st"
  have nodes: "pay_nodes xs st a b = (st1, h, s) \<Longrightarrow> P st1" for xs a b st1 h s
    using pay_nodes_stable [OF P, of xs a b] by simp
  show ?thesis
    by (auto simp: service_phase_def Let_def split: prod.splits intro!: emission_stableD(2) [OF P(1)] dest: nodes)
qed

lemma run_epoch_stable:
  assumes P: "emission_stable P" "P st"
  shows "P (run_epoch cfg svc hst st)"
proof -
  note s = emission_stableD [OF P(1)]
  have h: "hosting_phase cfg hosts pool (emit (ReadHosts e) (emit (ReadServiceStreak e) st)) = (st1, m) \<Longrightarrow> P st1"
    for hosts pool e st1 m
    using hosting_stable [OF P(1), of "emit (ReadHosts e) (emit (ReadServiceStreak e) st)" cfg hosts pool] P(2)
    by (simp add: s)
  have v: "P st1 \<Longrightarrow> service_phase cfg nodes hp sp st1 = (st2, x) \<Longrightarrow> P st2" for nodes hp sp st1 st2 x
    using service_stable [OF P(1), of st1 cfg nodes hp sp] by simp
  show ?thesis
    unfolding run_epoch_def Let_def
    by (auto split: prod.splits simp: s if_split_mem1 dest!: h split: if_splits dest: v)
qed

lemma refs_ok_emission_stable: "emission_stable refs_ok"
  unfolding emission_stable_def by (auto simp: refs_skip)

lemma refs_run_epoch: "refs_ok st \<Longrightarrow> refs_ok (run_epoch cfg svc hst st)"
  by (rule run_epoch_stable [OF refs_ok_emission_stable])

section \<open>Founders are paid nothing\<close>

lemma account_credit_other:
  "w \<noteq> who \<Longrightarrow> account_of (credit_or_skip c who amt st) w = account_of st w"
  by (cases "tokens_credit c who amt st") (auto simp: account_of_def dest: tokens_credit_Inr(2))

lemma account_of_supply [simp]:
  "account_of (emit e st) = account_of st" "account_of (add_burned c v st) = account_of st"
  "account_of (add_minted c v st) = account_of st"
  by (simp_all add: account_of_def fun_eq_iff)

lemma account_credit_outside [simp]:
  "is_founder st w \<Longrightarrow> \<not> is_founder st who \<Longrightarrow> account_of (credit_or_skip c who amt st) w = account_of st w"
  by (rule account_credit_other) auto

lemma founders_skip [simp]: "founders (credit_or_skip c who amt st) = founders st"
  by (cases "tokens_credit c who amt st") (auto simp: same_supply_def dest: tokens_credit_Inr(3))

lemma founders_emission_stable:
  "emission_stable (\<lambda>st. founders st = F \<and> (\<forall>f\<in>set F. account_of st f = A f))"
  unfolding emission_stable_def
  by (auto simp: is_founder_def intro: account_credit_other [THEN trans]) (simp_all add: account_of_def)

lemma run_epoch_founder:
  "f \<in> set (founders st) \<Longrightarrow> account_of (run_epoch cfg svc hst st) f = account_of st f"
  using run_epoch_stable [OF founders_emission_stable [of "founders st" "account_of st"], of st cfg svc hst]
  by simp

lemma fee_settle_founder:
  "f \<in> set (founders st) \<Longrightarrow> account_of (fee_settle cfg payer author fee st) f = account_of st f"
  by (auto simp: fee_settle_def Let_def is_founder_def account_credit_other split: option.split)

section \<open>The anti-Sybil cap\<close>

lemma cap_weights_bound:
  assumes "i < length ws"
  shows "cap_weights k ws ! i \<le> ws ! i" and "cap_weights k ws ! i \<le> sort ws ! ((length ws - 1) div 2) * k"
proof -
  let ?m = "sort ws ! ((length ws - 1) div 2)"
  have ws: "ws \<noteq> []" using assms by auto
  let ?l = "min (sat_mul u128_max ?m k) u64_max"
  have eq: "cap_weights k ws ! i = min (ws ! i) ?l"
    using assms ws by (simp add: cap_weights_def Let_def min_def)
  show "cap_weights k ws ! i \<le> ws ! i" by (simp add: eq)
  show "cap_weights k ws ! i \<le> ?m * k" using sat_mul_le(2) [of u128_max ?m k] by (simp add: eq min_le_iff_disj)
qed

text \<open>Half of the participants are at or below the lower median, so it is not a whale's own weight.\<close>

lemma lower_median_count:
  assumes "ws \<noteq> []"
  shows "length ws \<le> 2 * length (filter (\<lambda>w. w \<le> sort ws ! ((length ws - 1) div 2)) ws)"
proof -
  let ?h = "(length ws - 1) div 2"
  let ?m = "sort ws ! ?h"
  have len: "?h < length ws" using assms by (cases ws) auto
  have "length (filter (\<lambda>w. w \<le> ?m) ws) = length (filter (\<lambda>w. w \<le> ?m) (sort ws))"
    by (metis filter_sort length_sort)
  moreover have "Suc ?h \<le> length (filter (\<lambda>w. w \<le> ?m) (sort ws))"
  proof -
    have "filter (\<lambda>w. w \<le> ?m) (take (Suc ?h) (sort ws)) = take (Suc ?h) (sort ws)"
      using len by (auto simp: filter_id_conv in_set_conv_nth intro!: sorted_nth_mono)
    then have "length (filter (\<lambda>w. w \<le> ?m) (take (Suc ?h) (sort ws))) = Suc ?h"
      using len by simp
    moreover have "length (filter (\<lambda>w. w \<le> ?m) (sort ws))
        = length (filter (\<lambda>w. w \<le> ?m) (take (Suc ?h) (sort ws)))
          + length (filter (\<lambda>w. w \<le> ?m) (drop (Suc ?h) (sort ws)))"
      by (metis append_take_drop_id filter_append length_append)
    ultimately show ?thesis by linarith
  qed
  ultimately show ?thesis using len by linarith
qed

section \<open>The feeless lane\<close>

lemma can_feeless_iff:
  "can_feeless cfg now who w a st \<longleftrightarrow> feeless_epoch_blocks cfg \<noteq> 0 \<and> a \<noteq> 0
     \<and> sat_add u64_max (feeless_weight_this_block st) w \<le> feeless_ceiling cfg
     \<and> feeless_count_this_block st < max_feeless_per_block cfg
     \<and> feeless_spent st who (feeless_index cfg now) < a"
  by (simp add: can_feeless_def not_less not_le)

lemma can_feeless_guards:
  "can_feeless cfg now who w a st \<longleftrightarrow> \<not> (feeless_epoch_blocks cfg = 0 \<or> a = 0)
     \<and> \<not> feeless_ceiling cfg < sat_add u64_max (feeless_weight_this_block st) w
     \<and> \<not> max_feeless_per_block cfg \<le> feeless_count_this_block st
     \<and> \<not> a \<le> feeless_spent st who (feeless_index cfg now)"
  by (simp add: can_feeless_iff not_less not_le)

lemma try_feeless_refused: "\<not> can_feeless cfg now who w a st \<Longrightarrow> try_feeless cfg now who w a st = (False, st)"
  unfolding can_feeless_guards try_feeless_def Let_def by argo

lemma try_feeless_granted:
  assumes "can_feeless cfg now who w a st"
  shows "try_feeless cfg now who w a st = (True, st\<lparr>
     feeless_used := (feeless_used st)(who := (feeless_index cfg now,
         sat_add u32_max (feeless_spent st who (feeless_index cfg now)) 1)),
     feeless_first_seen := (if feeless_first_seen st who = None
         then (feeless_first_seen st)(who \<mapsto> feeless_index cfg now) else feeless_first_seen st),
     feeless_weight_this_block := sat_add u64_max (feeless_weight_this_block st) w,
     feeless_count_this_block := sat_add u32_max (feeless_count_this_block st) 1\<rparr>)"
  using assms unfolding can_feeless_guards try_feeless_def Let_def
  by (simp only: if_False simp_thms)

lemma try_feeless_fst: "fst (try_feeless cfg now who w a st) = can_feeless cfg now who w a st"
  by (cases "can_feeless cfg now who w a st") (simp_all add: try_feeless_refused try_feeless_granted)

lemma try_feeless_accounts [simp]:
  "accounts (snd (try_feeless cfg now who w a st)) = accounts st"
  "same_supply st (snd (try_feeless cfg now who w a st))"
  "effects (snd (try_feeless cfg now who w a st)) = effects st"
  by (cases "can_feeless cfg now who w a st";
      simp add: try_feeless_refused try_feeless_granted same_supply_def)+

text \<open>The per-block bounds of the lane, as a state invariant.\<close>

definition feeless_block_ok :: "tokens_config \<Rightarrow> 'a tokens \<Rightarrow> bool" where
  "feeless_block_ok cfg st = (feeless_weight_this_block st \<le> feeless_ceiling cfg
     \<and> feeless_count_this_block st \<le> max_feeless_per_block cfg)"

lemma try_feeless_block_ok:
  assumes "feeless_block_ok cfg st"
  shows "feeless_block_ok cfg (snd (try_feeless cfg now who w a st))"
proof (cases "can_feeless cfg now who w a st")
  case True
  then show ?thesis using sat_add_le(2) [of u32_max "feeless_count_this_block st" 1]
    by (simp add: try_feeless_granted feeless_block_ok_def can_feeless_iff)
next
  case False
  with assms show ?thesis by (simp add: try_feeless_refused)
qed

section \<open>Properties\<close>

text \<open>
  Founders are paid nothing: neither an era's end (whatever the feeds report, the founder among the
  nodes and hosts included) nor the settlement of a fee whose author is a founder changes what a founder
  holds.
\<close>

theorem founders_earn_nothing:
  assumes "f \<in> set (founders st)"
  shows "account_of (tokens_on_finalize cfg svc hst n st) f = account_of st f
    \<and> account_of (fee_settle cfg payer (Some f) fee st) f = account_of st f"
  using assms by (simp add: tokens_on_finalize_def run_epoch_founder fee_settle_founder)

theorem founders_earn_nothing_witness:
  "let st = (empty_tokens :: nat tokens)\<lparr>founders := [4, 7]\<rparr>;
       cfg = \<lparr>hlq_curve = demo_curve, sov_curve = demo_curve, era_blocks = 5, fee_burn_bps = 5000,
         service_cap_k = 2, hosting_share_bps = 1000, feeless_block_bps = 1500, feeless_epoch_blocks = 10,
         max_feeless_per_block = 32, max_block_ref_time = 1000000\<rparr>
   in account_of (tokens_on_finalize cfg (\<lambda>_. [(7, 9, 1), (3, 2, 2)]) (\<lambda>_. [(7, 5)]) 10 st) 7 = account_of st 7
     \<and> account_of (fee_settle cfg 3 (Some 7) 100 st) 7 = account_of st 7"
  unfolding Let_def by (rule founders_earn_nothing) simp

text \<open>
  The anti-Sybil cap: every capped weight is at most \<open>k\<close> times a declared weight \<open>m\<close> that at least
  half of the participants do not exceed, no weight is raised, and a weight within the cap is kept.
\<close>

lemma cap_weights_median:
  assumes "ws \<noteq> []"
  shows "\<exists>m\<in>set ws. length ws \<le> 2 * length (filter (\<lambda>w. w \<le> m) ws)
    \<and> (\<forall>i < length ws. cap_weights k ws ! i \<le> m * k \<and> cap_weights k ws ! i \<le> ws ! i
        \<and> (ws ! i \<le> m * k \<and> ws ! i \<le> u64_max \<longrightarrow> cap_weights k ws ! i = ws ! i))"
proof (rule bexI)
  let ?m = "sort ws ! ((length ws - 1) div 2)"
  have len: "(length ws - 1) div 2 < length ws" using assms by (cases ws) auto
  show "?m \<in> set ws" using len by (metis length_sort nth_mem set_sort)
  have kept: "cap_weights k ws ! i = ws ! i" if "i < length ws" "ws ! i \<le> ?m * k" "ws ! i \<le> u64_max" for i
    using that assms by (auto simp: cap_weights_def Let_def sat_mul_def u64_max_def u128_max_def min_def)
  show "length ws \<le> 2 * length (filter (\<lambda>w. w \<le> ?m) ws)
    \<and> (\<forall>i < length ws. cap_weights k ws ! i \<le> ?m * k \<and> cap_weights k ws ! i \<le> ws ! i
        \<and> (ws ! i \<le> ?m * k \<and> ws ! i \<le> u64_max \<longrightarrow> cap_weights k ws ! i = ws ! i))"
    using lower_median_count [OF assms] cap_weights_bound [of _ ws k] kept by blast
qed

end
