(* ===== verification/Suits.thy ===== *)
theory Suits
imports Main
begin

text \<open>The four dimensions of reputation, \<open>Suit\<close> of \<open>chain/pallet-reputation/src/lib.rs\<close>, which calls of the runtime name too.\<close>

datatype suit = Commerce | Technical | Judicial | Governance

definition all_suits :: "suit list" where
  "all_suits = [Commerce, Technical, Judicial, Governance]"

fun dim_name :: "suit \<Rightarrow> string" where
  "dim_name Commerce = ''commerce''"
| "dim_name Technical = ''technical_contribution''"
| "dim_name Judicial = ''judicial_function''"
| "dim_name Governance = ''governance''"

end
