(* ===== verification/RuntimeFees.thy ===== *)
theory RuntimeFees
imports TokensEpoch Suits
begin

text \<open>
  The transaction-payment adapter \<open>HlqTxPayment\<close> of \<open>chain/runtime/src/lib.rs\<close>: which calls may
  ride the feeless lane, the allowance of a mask, and the withdraw/validate/settle triple; then the
  calls that reach the tokens pallet, interleaved, as one system with its conservation law.

  The allowance reads \<open>pallet_reputation::ReputationSnapshot\<close> through the parameter \<open>snap\<close>; the
  block author read from \<open>pallet_participation\<close> is an argument. The square-root loop runs on
  \<open>u32\<close> and would not end on an age of \<open>u32::MAX\<close> (the saturating square never exceeds it): it is a
  \<open>partial_function\<close>, and \<open>isqrt_loop_value\<close> gives its result for every smaller age.
\<close>

section \<open>The feeless lane's calls\<close>

datatype runtime_pallet =
    Reputation | Directory | Forum | Market | Pacts | BeaconPallet | Justice | MultisigUpgrade
  | OtherPallet string

type_synonym runtime_call = "runtime_pallet \<times> string"

fun feeless_eligible :: "runtime_call \<Rightarrow> bool" where
  "feeless_eligible (Reputation, c) =
     (c \<in> {''attest_evidence'', ''claim_attested_evidence'', ''vouch'', ''revoke_vouch'', ''set_vote_key''})"
| "feeless_eligible (Directory, c) = (c = ''register'')"
| "feeless_eligible (Forum, c) = (c = ''post'')"
| "feeless_eligible (Market, c) =
     (c \<in> {''publish'', ''withdraw'', ''propose_deal'', ''confirm_deal'', ''cancel_deal'', ''reap_deal''})"
| "feeless_eligible (Pacts, c) = (c \<in> {''propose'', ''sign'', ''withdraw'', ''reap'', ''seal''})"
| "feeless_eligible (BeaconPallet, c) = (c \<in> {''commit'', ''reveal''})"
| "feeless_eligible (Justice, c) = (c = ''cast_vote'')"
| "feeless_eligible (MultisigUpgrade, _) = True"
| "feeless_eligible (OtherPallet _, _) = False"

section \<open>The allowance\<close>

text \<open>\<open>while (isqrt + 1).saturating_mul(isqrt + 1) <= age { isqrt += 1 }\<close> on \<open>u32\<close>.\<close>

partial_function (option) isqrt_loop :: "nat \<Rightarrow> nat \<Rightarrow> nat option" where
  "isqrt_loop age i =
     (let j = (i + 1) mod 2 ^ 32
      in if sat_mul u32_max j j \<le> age then isqrt_loop age j else Some i)"

definition allowance_of :: "bool \<Rightarrow> nat \<Rightarrow> nat" where
  "allowance_of has_rep isqrt = min (4 + isqrt + (if has_rep then 4 else 0)) 16"

definition allowance ::
  "tokens_config \<Rightarrow> nat \<Rightarrow> ('a \<Rightarrow> suit \<Rightarrow> nat) \<Rightarrow> 'a \<Rightarrow> 'a tokens \<Rightarrow> nat option" where
  "allowance cfg now snap who st =
     (let age = feeless_age cfg now who st;
          has_rep = list_ex (\<lambda>s. 0 < snap who s) [Commerce, Technical, Judicial, Governance]
      in map_option (allowance_of has_rep) (isqrt_loop age 0))"

section \<open>Withdraw, validate, settle\<close>

datatype hlq_fee_liquidity = Free | Feeless | Secured nat

datatype payment_error = Payment

definition withdraw_secured :: "'a \<Rightarrow> nat \<Rightarrow> 'a tokens \<Rightarrow> payment_error + hlq_fee_liquidity \<times> 'a tokens" where
  "withdraw_secured who fee st =
     (case fee_withdraw who fee st of Inl _ \<Rightarrow> Inl Payment | Inr st' \<Rightarrow> Inr (Secured fee, st'))"

definition withdraw_fee ::
  "tokens_config \<Rightarrow> nat \<Rightarrow> ('a \<Rightarrow> suit \<Rightarrow> nat) \<Rightarrow> 'a \<Rightarrow> runtime_call \<Rightarrow> nat \<Rightarrow> nat \<Rightarrow> 'a tokens \<Rightarrow>
     (payment_error + hlq_fee_liquidity \<times> 'a tokens) option" where
  "withdraw_fee cfg now snap who call ref_time fee st =
     (if fee = 0 then Some (Inr (Free, st))
      else if feeless_eligible call then
        (case allowance cfg now snap who st of
           None \<Rightarrow> None
         | Some a \<Rightarrow>
             (case try_feeless cfg now who ref_time a st of
                (True, st') \<Rightarrow> Some (Inr (Feeless, st'))
              | (False, st') \<Rightarrow> Some (withdraw_secured who fee st')))
      else Some (withdraw_secured who fee st))"

definition can_pay :: "'a \<Rightarrow> nat \<Rightarrow> 'a tokens \<Rightarrow> payment_error + unit" where
  "can_pay who fee st = (if tokens_balance st who Hlq \<ge> fee then Inr () else Inl Payment)"

definition can_withdraw_fee ::
  "tokens_config \<Rightarrow> nat \<Rightarrow> ('a \<Rightarrow> suit \<Rightarrow> nat) \<Rightarrow> 'a \<Rightarrow> runtime_call \<Rightarrow> nat \<Rightarrow> nat \<Rightarrow> 'a tokens \<Rightarrow>
     (payment_error + unit) option" where
  "can_withdraw_fee cfg now snap who call ref_time fee st =
     (if fee = 0 then Some (Inr ())
      else if feeless_eligible call then
        (case allowance cfg now snap who st of
           None \<Rightarrow> None
         | Some a \<Rightarrow> if can_feeless cfg now who ref_time a st then Some (Inr ()) else Some (can_pay who fee st))
      else Some (can_pay who fee st))"

fun correct_and_deposit_fee ::
  "tokens_config \<Rightarrow> 'a \<Rightarrow> 'a option \<Rightarrow> nat \<Rightarrow> hlq_fee_liquidity \<Rightarrow> 'a tokens \<Rightarrow> 'a tokens" where
  "correct_and_deposit_fee cfg who author corrected Free st = st"
| "correct_and_deposit_fee cfg who author corrected Feeless st = st"
| "correct_and_deposit_fee cfg who author corrected (Secured secured) st =
     (let fee = min corrected secured
      in fee_settle cfg who author fee (fee_refund who (secured - fee) st))"

section \<open>The allowance loop ends\<close>

lemma isqrt_loop_step:
  assumes "age < u32_max" "i * i \<le> age"
  shows "isqrt_loop age i = (if (i + 1) * (i + 1) \<le> age then isqrt_loop age (i + 1) else Some i)"
proof -
  have "i < 2 ^ 31"
  proof (rule ccontr)
    assume "\<not> i < 2 ^ 31"
    then have "2 ^ 31 * 2 ^ 31 \<le> i * i" by (intro mult_le_mono) auto
    with assms show False by (simp add: u32_max_def)
  qed
  then have "(i + 1) mod 2 ^ 32 = i + 1" by simp
  moreover have "sat_mul u32_max (i + 1) (i + 1) \<le> age \<longleftrightarrow> (i + 1) * (i + 1) \<le> age"
    using assms(1) by (auto simp: sat_mul_def)
  ultimately show ?thesis by (subst isqrt_loop.simps) (simp only: Let_def)
qed

lemma isqrt_loop_from:
  assumes "age < u32_max" "i * i \<le> age"
  shows "\<exists>r. isqrt_loop age i = Some r \<and> r * r \<le> age \<and> age < (r + 1) * (r + 1)"
  using assms
proof (induction "age - i" arbitrary: i rule: less_induct)
  case less
  show ?case
  proof (cases "(i + 1) * (i + 1) \<le> age")
    case True
    then have "age - (i + 1) < age - i" by simp
    from less.hyps [OF this less.prems(1) True] True show ?thesis
      by (simp only: isqrt_loop_step [OF less.prems] if_True)
  next
    case False
    with less.prems show ?thesis by (auto simp: isqrt_loop_step [OF less.prems])
  qed
qed

lemma isqrt_loop_value:
  "age < u32_max \<Longrightarrow> \<exists>r. isqrt_loop age 0 = Some r \<and> r * r \<le> age \<and> age < (r + 1) * (r + 1)"
  by (rule isqrt_loop_from) simp_all

lemma feeless_age_bound: "now < u32_max * feeless_epoch_blocks cfg \<Longrightarrow> feeless_age cfg now who st < u32_max"
proof -
  assume a: "now < u32_max * feeless_epoch_blocks cfg"
  then have "now div feeless_epoch_blocks cfg < u32_max" by (simp add: less_mult_imp_div_less)
  moreover have "0 < u32_max" by (simp add: u32_max_def)
  ultimately show ?thesis by (auto simp: feeless_age_def feeless_index_def split: option.split)
qed

section \<open>Genesis\<close>

lemma genesis_fund_inv:
  assumes "tokens_inv lim (\<lambda>_. 0) st" "refs_ok st" "distinct (map fst bals)"
    and "\<forall>w\<in>set (map fst bals). accounts st w = None" "\<And>c. lim c \<le> u128_max"
    and "tk_minted st Hlq + sum_list (map (\<lambda>x. fst (snd x)) bals) \<le> lim Hlq"
    and "tk_minted st Sov + sum_list (map (\<lambda>x. snd (snd x)) bals) \<le> lim Sov"
  shows "tokens_inv lim (\<lambda>_. 0) (genesis_fund bals st) \<and> refs_ok (genesis_fund bals st)"
  using assms
proof (induction bals arbitrary: st)
  case Nil
  then show ?case by simp
next
  case (Cons x rest)
  obtain who h s where x: "x = (who, h, s)" by (cases x) auto
  note i = tokens_invD [OF Cons.prems(1)]
  let ?b = "\<lparr>bal_hlq = h, bal_sov = s\<rparr>"
  let ?st1 = "st\<lparr>accounts := (accounts st)(who \<mapsto> ?b)\<rparr>"
  define st2 where "st2 = (if 0 < sat_add u128_max h s then emit (IncSufficients who) ?st1 else ?st1)"
  define st3 where "st3 = (if 0 < h then add_minted Hlq h st2 else st2)"
  define st4 where "st4 = (if 0 < s then add_minted Sov s st3 else st3)"
  have none: "accounts st who = None" using Cons.prems(4) x by simp
  have max: "tk_minted st Hlq + h \<le> u128_max" "tk_minted st Sov + s \<le> u128_max"
    using Cons.prems(5) [of Hlq] Cons.prems(5) [of Sov] Cons.prems(6,7) x by auto
  have acc: "accounts st4 = (accounts st)(who \<mapsto> ?b)" by (simp add: st4_def st3_def st2_def)
  have tk: "tk_minted st4 = (tk_minted st)(Hlq := tk_minted st Hlq + h, Sov := tk_minted st Sov + s)"
    "tk_burned st4 = tk_burned st"
    using max by (auto simp: st4_def st3_def st2_def fun_eq_iff)
  have "hold c st4 = hold c st + bal_get c ?b" for c
    using msum_upd [OF i(1), of "bal_get c" who ?b] none by (simp add: acc)
  then have "hold c st4 + 0 + tk_burned st4 c = tk_minted st4 c \<and> tk_minted st4 c \<le> lim c" for c
    using i(2,3) [of c] Cons.prems(6,7) x by (cases c) (auto simp: tk bal_get.simps)
  with i(1) have inv: "tokens_inv lim (\<lambda>_. 0) st4" by (simp add: tokens_inv_def acc)
  have pos: "0 < sat_add u128_max h s \<longleftrightarrow> has_coin ?b" by (simp add: has_coin_def sat_add_pos_iff)
  have old: "\<not> has_coin (account_of st who)" using none by (simp add: account_of_def has_coin_def zero_balances_def)
  have "refs_ok st2"
    using Cons.prems(2) old unfolding refs_ok_def st2_def pos account_of_def by auto
  then have refs: "refs_ok st4" by (simp add: st4_def st3_def)
  have "tokens_inv lim (\<lambda>_. 0) (genesis_fund rest st4) \<and> refs_ok (genesis_fund rest st4)"
    using Cons.prems x by (intro Cons.IH [OF inv refs]) (auto simp: acc tk)
  then show ?case unfolding st4_def st3_def st2_def x genesis_fund.simps Let_def .
qed

lemma genesis_inv:
  assumes "genesis_build bals fnds = Some st" "\<And>c. lim c \<le> u128_max"
    and "sum_list (map (\<lambda>x. fst (snd x)) bals) \<le> lim Hlq" "sum_list (map (\<lambda>x. snd (snd x)) bals) \<le> lim Sov"
  shows "tokens_inv lim (\<lambda>_. 0) st \<and> refs_ok st"
proof -
  let ?e = "empty_tokens\<lparr>founders := fnds\<rparr>"
  have "tokens_inv lim (\<lambda>_. 0) ?e" "refs_ok ?e"
    by (simp_all add: empty_tokens_def tokens_inv_def refs_ok_def account_of_def has_coin_def zero_balances_def)
  then have "tokens_inv lim (\<lambda>_. 0) (genesis_fund bals ?e) \<and> refs_ok (genesis_fund bals ?e)"
    using assms by (intro genesis_fund_inv) (auto simp: empty_tokens_def genesis_build_def split: if_splits)
  with assms(1) show ?thesis by (simp add: genesis_build_def split: if_splits)
qed

lemma genesis_founders: "genesis_build bals fnds = Some st \<Longrightarrow>
    founders st = fnds \<and> length fnds \<le> 8 \<and> distinct fnds \<and> (\<forall>f\<in>set fnds. accounts st f = None)"
proof -
  assume g: "genesis_build bals fnds = Some st"
  have keep: "founders (genesis_fund bs s) = founders s \<and> (\<forall>f. f \<notin> set (map fst bs) \<longrightarrow>
      accounts (genesis_fund bs s) f = accounts s f)" for bs :: "('a \<times> nat \<times> nat) list" and s
    by (induction bs s rule: genesis_fund.induct) (simp_all add: Let_def)
  from g have st: "st = genesis_fund bals (empty_tokens\<lparr>founders := fnds\<rparr>)"
    and ok: "distinct fnds" "\<forall>f\<in>set fnds. f \<notin> set (map fst bals)" "length fnds \<le> 8"
    by (auto simp: genesis_build_def split: if_splits)
  from ok keep [of bals "empty_tokens\<lparr>founders := fnds\<rparr>"] show ?thesis
    unfolding st by (simp add: empty_tokens_def)
qed

section \<open>The tokens pallet as a system of interleaved calls\<close>

text \<open>
  \<open>outstanding\<close> lists the liquidity that \<open>withdraw_fee\<close> has returned and that the caller has not yet
  handed back to \<open>correct_and_deposit_fee\<close>; \<open>DepositFee\<close> settles one entry of it, once.
\<close>

record 'a fee_rt =
  rt_tokens :: "'a tokens"
  outstanding :: "('a \<times> hlq_fee_liquidity) list"

datatype 'a token_call =
    Transfer 'a coin 'a nat
  | ChargeFee 'a 'a nat
  | WithdrawFee nat "'a \<Rightarrow> suit \<Rightarrow> nat" 'a runtime_call nat nat
  | DepositFee "'a option" nat
  | NewBlock
  | EndBlock nat "nat \<Rightarrow> ('a \<times> nat \<times> nat) list" "nat \<Rightarrow> ('a \<times> nat) list"

datatype token_call_error = CoreError core_error | NotPayable payment_error | NoReturn | NothingOutstanding

fun token_step :: "tokens_config \<Rightarrow> 'a token_call \<Rightarrow> 'a fee_rt \<Rightarrow> token_call_error + 'a fee_rt" where
  "token_step cfg (Transfer frm c dst amt) rt =
     (case tokens_transfer frm c dst amt (rt_tokens rt) of
        Inl e \<Rightarrow> Inl (CoreError e) | Inr st \<Rightarrow> Inr (rt\<lparr>rt_tokens := st\<rparr>))"
| "token_step cfg (ChargeFee payer node fee) rt =
     Inr (rt\<lparr>rt_tokens := snd (tokens_charge_fee cfg payer node fee (rt_tokens rt))\<rparr>)"
| "token_step cfg (WithdrawFee now snap who call ref_time fee) rt =
     (case withdraw_fee cfg now snap who call ref_time fee (rt_tokens rt) of
        None \<Rightarrow> Inl NoReturn
      | Some (Inl e) \<Rightarrow> Inl (NotPayable e)
      | Some (Inr (l, st)) \<Rightarrow> Inr (rt\<lparr>rt_tokens := st, outstanding := (who, l) # outstanding rt\<rparr>))"
| "token_step cfg (DepositFee author corrected) rt =
     (case outstanding rt of
        [] \<Rightarrow> Inl NothingOutstanding
      | (who, l) # rest \<Rightarrow> Inr (rt\<lparr>
          rt_tokens := correct_and_deposit_fee cfg who author corrected l (rt_tokens rt), outstanding := rest\<rparr>))"
| "token_step cfg NewBlock rt = Inr (rt\<lparr>rt_tokens := tokens_on_initialize (rt_tokens rt)\<rparr>)"
| "token_step cfg (EndBlock n svc hst) rt =
     Inr (rt\<lparr>rt_tokens := tokens_on_finalize cfg svc hst n (rt_tokens rt)\<rparr>)"

fun secured :: "hlq_fee_liquidity \<Rightarrow> nat" where
  "secured (Secured v) = v"
| "secured _ = 0"

definition in_flight :: "'a fee_rt \<Rightarrow> coin \<Rightarrow> nat" where
  "in_flight rt c = (case c of Hlq \<Rightarrow> sum_list (map (\<lambda>x. secured (snd x)) (outstanding rt)) | Sov \<Rightarrow> 0)"

definition fee_rt_inv :: "tokens_config \<Rightarrow> (coin \<Rightarrow> nat) \<Rightarrow> 'a fee_rt \<Rightarrow> bool" where
  "fee_rt_inv cfg lim rt = (tokens_inv lim (in_flight rt) (rt_tokens rt) \<and> refs_ok (rt_tokens rt)
     \<and> feeless_block_ok cfg (rt_tokens rt))"

text \<open>\<open>feeless_block_ok\<close> reads two fields that only the lane and the block hook write.\<close>

definition same_lane :: "'a tokens \<Rightarrow> 'a tokens \<Rightarrow> bool" where
  "same_lane st st' = (feeless_weight_this_block st' = feeless_weight_this_block st
     \<and> feeless_count_this_block st' = feeless_count_this_block st)"

lemma same_lane_refl [simp]: "same_lane st st" by (simp add: same_lane_def)

lemma same_lane_ok: "same_lane st st' \<Longrightarrow> feeless_block_ok cfg st' = feeless_block_ok cfg st"
  by (simp add: same_lane_def feeless_block_ok_def)

lemma same_lane_keeps: "feeless_block_ok cfg st \<Longrightarrow> same_lane st st' \<Longrightarrow> feeless_block_ok cfg st'"
  by (simp add: same_lane_ok)

lemma same_lane_emit [simp]:
  "same_lane st (emit e st') = same_lane st st'" "same_lane st (add_minted c v st') = same_lane st st'"
  "same_lane st (add_burned c v st') = same_lane st st'" "same_lane st (st'\<lparr>tk_epoch := n\<rparr>) = same_lane st st'"
  by (simp_all add: same_lane_def emit_def add_minted_def add_burned_def)

lemma lane_credit: "tokens_credit c who amt st = Inr st' \<Longrightarrow> same_lane st st'"
  by (auto simp: tokens_credit_def Let_def same_lane_def emit_def split: option.splits if_splits)

lemma lane_debit: "tokens_debit c who amt st = Inr st' \<Longrightarrow> same_lane st st'"
  by (auto simp: tokens_debit_def Let_def same_lane_def emit_def split: if_splits)

lemma same_lane_trans: "same_lane a b \<Longrightarrow> same_lane b c \<Longrightarrow> same_lane a c"
  by (simp add: same_lane_def)

lemma lane_skip [simp]: "same_lane st (credit_or_skip c who amt st') = same_lane st st'"
  by (cases "tokens_credit c who amt st'") (auto simp: same_lane_def dest: lane_credit)

lemma lane_charge_fee: "same_lane st (snd (tokens_charge_fee cfg payer node fee st))"
  by (auto simp: tokens_charge_fee_def Let_def split: sum.split dest: lane_debit lane_credit
      intro: same_lane_trans)

lemma lane_settle: "same_lane st (fee_settle cfg payer author fee st)"
  by (auto simp: fee_settle_def Let_def split: option.split)

lemma lane_refund [simp]: "same_lane st (fee_refund payer amt st)"
  by (simp add: fee_refund_def)

lemma lane_run_epoch: "same_lane st (run_epoch cfg svc hst st)"
proof -
  have "emission_stable (same_lane st)" by (simp add: emission_stable_def)
  from run_epoch_stable [OF this same_lane_refl] show ?thesis .
qed

lemma lane_do_transfer: "same_lane st (snd (do_transfer c frm dst amt st))"
  by (auto simp: do_transfer_def split: sum.split dest: lane_debit lane_credit intro: same_lane_trans)

lemma in_flight_cong [simp]: "in_flight (rt\<lparr>rt_tokens := st\<rparr>) = in_flight rt"
  by (simp add: in_flight_def fun_eq_iff split: coin.split)

lemma in_flight_push: "in_flight (rt\<lparr>rt_tokens := st, outstanding := (who, l) # outstanding rt\<rparr>)
    = (in_flight rt)(Hlq := in_flight rt Hlq + secured l)"
  by (auto simp: in_flight_def fun_eq_iff split: coin.split)

lemma withdraw_fee_cases:
  assumes "withdraw_fee cfg now snap who call w fee st = Some (Inr (l, st'))"
  shows "(l = Free \<and> st' = st) \<or> (l = Feeless \<and> (\<exists>a. st' = snd (try_feeless cfg now who w a st)))
    \<or> (l = Secured fee \<and> fee_withdraw who fee st = Inr st')"
proof -
  have sec: "withdraw_secured who fee s = Inr (l, st') \<Longrightarrow> l = Secured fee \<and> fee_withdraw who fee s = Inr st'" for s
    by (auto simp: withdraw_secured_def split: sum.splits)
  have tf: "(False, s) = try_feeless cfg now who w a st \<Longrightarrow> s = st" for a s
    using try_feeless_refused [of cfg now who w a st] try_feeless_fst [of cfg now who w a st]
    by (metis fst_conv snd_conv)
  show ?thesis using assms sec tf
    by (auto simp: withdraw_fee_def split: if_splits option.splits prod.splits bool.splits)
      (metis snd_conv)+
qed

lemma try_feeless_inv [simp]:
  "tokens_inv lim fl (snd (try_feeless cfg now who w a st)) = tokens_inv lim fl st"
  "refs_ok (snd (try_feeless cfg now who w a st)) = refs_ok st"
proof -
  have "same_supply st (snd (try_feeless cfg now who w a st))" by simp
  then show "tokens_inv lim fl (snd (try_feeless cfg now who w a st)) = tokens_inv lim fl st"
    by (simp add: tokens_inv_def same_supply_def)
  show "refs_ok (snd (try_feeless cfg now who w a st)) = refs_ok st"
    by (simp add: refs_ok_def account_of_def)
qed

lemma withdraw_step:
  assumes inv: "fee_rt_inv cfg lim rt"
    and w: "withdraw_fee cfg now snap who call w fee (rt_tokens rt) = Some (Inr (l, st'))"
  shows "fee_rt_inv cfg lim (rt\<lparr>rt_tokens := st', outstanding := (who, l) # outstanding rt\<rparr>)"
proof -
  let ?st = "rt_tokens rt"
  have i: "tokens_inv lim (in_flight rt) ?st" "refs_ok ?st" "feeless_block_ok cfg ?st"
    using inv by (simp_all add: fee_rt_inv_def)
  have "tokens_inv lim ((in_flight rt)(Hlq := in_flight rt Hlq + secured l)) st' \<and> refs_ok st' \<and> feeless_block_ok cfg st'"
    using withdraw_fee_cases [OF w]
  proof (elim disjE conjE exE)
    assume s: "l = Secured fee" "fee_withdraw who fee ?st = Inr st'"
    have "same_lane ?st st'" using s(2) by (auto simp: fee_withdraw_def dest: lane_debit split: if_splits)
    with fee_withdraw_inv [OF i(1) s(2)] refs_withdraw [OF i(2) s(2)] same_lane_keeps [OF i(3)] s(1)
    show ?thesis by simp
  qed (use i in \<open>simp_all add: try_feeless_block_ok\<close>)
  then show ?thesis unfolding fee_rt_inv_def in_flight_push by simp
qed

lemma deposit_step:
  assumes inv: "fee_rt_inv cfg lim rt" and lim: "lim_ok cfg lim" and o: "outstanding rt = (who, l) # rest"
  shows "fee_rt_inv cfg lim (rt\<lparr>rt_tokens := correct_and_deposit_fee cfg who author v l (rt_tokens rt), outstanding := rest\<rparr>)"
proof -
  let ?st = "rt_tokens rt"
  have i: "tokens_inv lim (in_flight rt) ?st" "refs_ok ?st" "feeless_block_ok cfg ?st"
    using inv by (simp_all add: fee_rt_inv_def)
  have fl: "in_flight (rt\<lparr>rt_tokens := x, outstanding := rest\<rparr>) = (in_flight rt)(Hlq := in_flight rt Hlq - secured l)"
    "secured l \<le> in_flight rt Hlq" for x
    by (auto simp: in_flight_def o fun_eq_iff split: coin.split)
  show ?thesis
  proof (cases l)
    case (Secured s)
    let ?fee = "min v s"
    let ?fl1 = "(in_flight rt)(Hlq := in_flight rt Hlq - (s - ?fee))"
    have le: "s - ?fee \<le> in_flight rt Hlq" "?fee \<le> ?fl1 Hlq" using fl(2) Secured by auto
    from fee_refund_inv [OF i(1) le(1) lim_okD(2) [OF lim], of who]
    have r: "tokens_inv lim ?fl1 (fee_refund who (s - ?fee) ?st)" .
    from fee_settle_inv [OF r le(2) lim_okD(2) [OF lim], of cfg who author]
    have "tokens_inv lim (?fl1(Hlq := ?fl1 Hlq - ?fee)) (fee_settle cfg who author ?fee (fee_refund who (s - ?fee) ?st))" .
    moreover have "?fl1(Hlq := ?fl1 Hlq - ?fee) = (in_flight rt)(Hlq := in_flight rt Hlq - s)"
      using fl(2) Secured by auto
    ultimately have "tokens_inv lim ((in_flight rt)(Hlq := in_flight rt Hlq - s))
        (fee_settle cfg who author ?fee (fee_refund who (s - ?fee) ?st))" by simp
    moreover have "same_lane ?st (fee_settle cfg who author ?fee (fee_refund who (s - ?fee) ?st))"
      using lane_settle lane_refund by (rule same_lane_trans [rotated])
    ultimately show ?thesis
      using refs_settle [OF refs_refund [OF i(2)]] same_lane_keeps [OF i(3)] unfolding fee_rt_inv_def fl(1)
      by (simp add: Secured Let_def)
  qed (use i fl(1) [of ?st] in \<open>simp_all add: fee_rt_inv_def\<close>)
qed

lemma token_step_inv:
  assumes lim: "lim_ok cfg lim" and inv: "fee_rt_inv cfg lim rt" and step: "token_step cfg c rt = Inr rt'"
  shows "fee_rt_inv cfg lim rt'"
proof -
  let ?st = "rt_tokens rt"
  have i: "tokens_inv lim (in_flight rt) ?st" "refs_ok ?st" "feeless_block_ok cfg ?st"
    using inv by (simp_all add: fee_rt_inv_def)
  have keep: "fee_rt_inv cfg lim (rt\<lparr>rt_tokens := st\<rparr>)"
    if "tokens_inv lim (in_flight rt) st" "refs_ok st" "same_lane ?st st" for st
    using that same_lane_keeps [OF i(3)] by (simp add: fee_rt_inv_def)
  show ?thesis
  proof (cases c)
    case (Transfer frm cn dst amt)
    then obtain st where st: "tokens_transfer frm cn dst amt ?st = Inr st" "rt' = rt\<lparr>rt_tokens := st\<rparr>"
      using step by (auto split: sum.splits)
    then have "st = emit (Transferred cn frm dst amt) (snd (do_transfer cn frm dst amt ?st))"
      by (auto simp: tokens_transfer_def split: prod.splits sum.splits)
    with st(2) show ?thesis
      using do_transfer_inv [OF i(1) lim_okD(2) [OF lim]] refs_transfer [OF i(2)] lane_do_transfer
      by (auto intro!: keep)
  next
    case (ChargeFee payer node fee)
    then show ?thesis using step
        charge_fee_inv [OF i(1) lim_okD(2) [OF lim]] refs_charge_fee [OF i(2)] lane_charge_fee
      by (auto intro!: keep)
  next
    case (WithdrawFee now snap who call w fee)
    then show ?thesis using step withdraw_step [OF inv, of now snap who call w fee] by (auto split: option.splits sum.splits)
  next
    case (DepositFee author v)
    then show ?thesis using step deposit_step [OF inv lim] by (auto split: list.splits)
  next
    case NewBlock
    then show ?thesis using step i
      by (auto simp: fee_rt_inv_def tokens_on_initialize_inv feeless_block_ok_def)
        (simp_all add: tokens_on_initialize_def refs_ok_def account_of_def)
  next
    case (EndBlock n svc hst)
    then show ?thesis using step run_epoch_inv [OF i(1) lim] refs_run_epoch [OF i(2)] lane_run_epoch
      by (auto intro!: keep simp: i tokens_on_finalize_def)
  qed
qed

interpretation fee_calls: call_system "token_step cfg" "\<lambda>_. lim_ok cfg lim" "fee_rt_inv cfg lim"
  for cfg lim
  by unfold_locales (rule token_step_inv)

section \<open>Properties\<close>

definition genesis_rt :: "'a tokens \<Rightarrow> 'a fee_rt" where
  "genesis_rt st = \<lparr>rt_tokens = st, outstanding = []\<rparr>"

lemma genesis_rt_inv:
  assumes "genesis_build bals fnds = Some st" "lim_ok cfg lim"
    and "sum_list (map (\<lambda>x. fst (snd x)) bals) \<le> lim Hlq" "sum_list (map (\<lambda>x. snd (snd x)) bals) \<le> lim Sov"
  shows "fee_rt_inv cfg lim (genesis_rt st)"
proof -
  have "feeless_weight_this_block (genesis_fund bs s) = feeless_weight_this_block s
      \<and> feeless_count_this_block (genesis_fund bs s) = feeless_count_this_block s" for bs :: "('a \<times> nat \<times> nat) list" and s
    by (induction bs s rule: genesis_fund.induct) (simp_all add: Let_def emit_def add_minted_def)
  then have "feeless_block_ok cfg st"
    using assms(1) by (auto simp: genesis_build_def feeless_block_ok_def empty_tokens_def split: if_splits)
  moreover have "in_flight (genesis_rt st) = (\<lambda>_. 0)"
    by (simp add: genesis_rt_def in_flight_def fun_eq_iff split: coin.split)
  ultimately show ?thesis
    using genesis_inv [OF assms(1) lim_okD(2) [OF assms(2)] assms(3,4)]
    by (simp add: fee_rt_inv_def genesis_rt_def)
qed

lemma tokens_system:
  assumes "genesis_build bals fnds = Some st" "lim_ok cfg lim"
    and "sum_list (map (\<lambda>x. fst (snd x)) bals) \<le> lim Hlq" "sum_list (map (\<lambda>x. snd (snd x)) bals) \<le> lim Sov"
  shows "fee_rt_inv cfg lim (run_calls (token_step cfg) calls (genesis_rt st))"
  using fee_calls.run_inv [of cfg lim calls] genesis_rt_inv [OF assms] assms(2) by (simp add: list.pred_set)

text \<open>
  C6: the coins of the tokens pallet are conserved. From a genesis whose balances fit under the caps,
  after any interleaving of transfers, fees withdrawn and settled, feeless grants, block hooks and era
  emissions (whatever the service and hosting feeds report): for each coin, the balances held, plus the
  fees withdrawn and not yet settled, plus what was burned, is exactly what was minted, and that never
  exceeds the cap.
\<close>

theorem tokens_conservation:
  assumes "genesis_build bals fnds = Some st" "lim_ok cfg lim"
    and "sum_list (map (\<lambda>x. fst (snd x)) bals) \<le> lim Hlq" "sum_list (map (\<lambda>x. snd (snd x)) bals) \<le> lim Sov"
    and "rt = run_calls (token_step cfg) calls (genesis_rt st)"
  shows "hold c (rt_tokens rt) + in_flight rt c + tk_burned (rt_tokens rt) c = tk_minted (rt_tokens rt) c
    \<and> tk_minted (rt_tokens rt) c \<le> lim c"
  using tokens_system [OF assms(1-4), of calls] unfolding assms(5) fee_rt_inv_def
  by (auto dest: tokens_invD(2,3))

definition demo_cfg :: tokens_config where
  "demo_cfg = \<lparr>hlq_curve = demo_curve, sov_curve = demo_curve, era_blocks = 5, fee_burn_bps = 5000,
     service_cap_k = 2, hosting_share_bps = 1000, feeless_block_bps = 1500, feeless_epoch_blocks = 10,
     max_feeless_per_block = 32, max_block_ref_time = 1000000\<rparr>"

definition demo_genesis :: "nat tokens" where
  "demo_genesis = the (genesis_build [(1, 100, 5), (2, 60, 0)] [9])"

text \<open>A transfer that empties nothing, a fee of 50 withdrawn, corrected to 30 and settled with an author,
  and an era's end with one service node.\<close>

definition demo_calls :: "nat token_call list" where
  "demo_calls = [NewBlock, Transfer 1 Hlq 3 40, WithdrawFee 5 (\<lambda>_ _. 0) 1 (OtherPallet ''Tokens'', ''transfer'') 10 50,
     Transfer 1 Sov 3 5, DepositFee (Some 2) 30, EndBlock 5 (\<lambda>_. [(3, 7, 1)]) (\<lambda>_. [(2, 4)])]"

lemma demo_genesis_ok: "genesis_build [(1, 100, 5), (2, 60, 0)] [9] = Some demo_genesis"
  by (simp add: demo_genesis_def genesis_build_def)

lemma demo_lim: "lim_ok demo_cfg (\<lambda>_. 1500)"
  unfolding lim_ok_def by (intro allI, case_tac c) (simp_all add: demo_cfg_def demo_curve_def u128_max_def)

theorem tokens_conservation_witness:
  "let rt = run_calls (token_step demo_cfg) demo_calls (genesis_rt demo_genesis)
   in hold Hlq (rt_tokens rt) + in_flight rt Hlq + tk_burned (rt_tokens rt) Hlq = tk_minted (rt_tokens rt) Hlq
     \<and> tk_minted (rt_tokens rt) Hlq \<le> 1500"
  using tokens_conservation [where calls = demo_calls and c = Hlq, OF demo_genesis_ok demo_lim _ _ refl] by (simp add: Let_def)

text \<open>
  The existence references the pallet takes from \<open>frame_system\<close> balance: in every state so reached,
  \<open>inc_sufficients\<close> calls minus \<open>dec_sufficients\<close> calls is 1 for an account that holds a coin and 0 for
  every other.
\<close>

lemma tokens_refs_balance:
  assumes "genesis_build bals fnds = Some st" "lim_ok cfg lim"
    and "sum_list (map (\<lambda>x. fst (snd x)) bals) \<le> lim Hlq" "sum_list (map (\<lambda>x. snd (snd x)) bals) \<le> lim Sov"
    and "rt = run_calls (token_step cfg) calls (genesis_rt st)"
  shows "ref_balance who (effects (rt_tokens rt)) = (if has_coin (account_of (rt_tokens rt) who) then 1 else 0)"
  using tokens_system [OF assms(1-4), of calls] unfolding assms(5) fee_rt_inv_def refs_ok_def by blast

text \<open>
  C8: validation and execution of a fee agree: \<open>can_withdraw_fee\<close> answers exactly what
  \<open>withdraw_fee\<close> will do (granted, refused, or a loop that does not return), for every call, fee and
  state, feeless lane included.
\<close>

theorem can_withdraw_fee_agrees:
  "can_withdraw_fee cfg now snap who call w fee st =
     map_option (\<lambda>r. case r of Inl e \<Rightarrow> Inl e | Inr _ \<Rightarrow> Inr ()) (withdraw_fee cfg now snap who call w fee st)"
proof -
  have pay: "can_pay who fee st = (case withdraw_secured who fee st of Inl e \<Rightarrow> Inl e | Inr _ \<Rightarrow> Inr ())"
    if "fee \<noteq> 0"
    using that by (auto simp: can_pay_def withdraw_secured_def fee_withdraw_def tokens_balance_def
        tokens_debit_def Let_def)
  have lane: "(case try_feeless cfg now who w a st of
        (True, st') \<Rightarrow> Some (Inr (Feeless, st')) | (False, st') \<Rightarrow> Some (withdraw_secured who fee st'))
     = (if can_feeless cfg now who w a st then Some (Inr (Feeless, snd (try_feeless cfg now who w a st)))
        else Some (withdraw_secured who fee st))" for a
    by (simp add: try_feeless_refused try_feeless_granted)
  show ?thesis
    by (simp add: can_withdraw_fee_def withdraw_fee_def lane pay split: option.split)
qed

text \<open>
  The allowance loop returns for every age the block number can reach, and the allowance is
  \<open>4 + floor (sqrt age)\<close>, plus 4 for a mask with standing, capped at 16.
\<close>

theorem allowance_value:
  assumes "now < u32_max * feeless_epoch_blocks cfg"
  shows "\<exists>r. r * r \<le> feeless_age cfg now who st \<and> feeless_age cfg now who st < (r + 1) * (r + 1)
    \<and> allowance cfg now snap who st =
        Some (min 16 (4 + r + (if \<exists>s. 0 < snap who s then 4 else 0)))"
proof -
  from isqrt_loop_value [OF feeless_age_bound [OF assms, of who st]] obtain r
    where r: "isqrt_loop (feeless_age cfg now who st) 0 = Some r" "r * r \<le> feeless_age cfg now who st"
      "feeless_age cfg now who st < (r + 1) * (r + 1)" by blast
  have "list_ex (\<lambda>s. 0 < snap who s) [Commerce, Technical, Judicial, Governance] = (\<exists>s. 0 < snap who s)"
    by simp (metis suit.exhaust)
  with r show ?thesis by (intro exI [of _ r]) (simp add: allowance_def allowance_of_def Let_def min.commute)
qed

theorem allowance_value_witness:
  "\<exists>r. r * r \<le> feeless_age demo_cfg 175 1 demo_genesis
    \<and> feeless_age demo_cfg 175 1 demo_genesis < (r + 1) * (r + 1)
    \<and> allowance demo_cfg 175 (\<lambda>_ s. if s = Technical then 3 else 0) 1 demo_genesis =
        Some (min 16 (4 + r + (if \<exists>s. 0 < (if s = Technical then 3 else 0 :: nat) then 4 else 0)))"
  by (rule allowance_value) (simp add: demo_cfg_def u32_max_def)

end
