(* ===== verification/MultisigUpgrade.thy ===== *)
theory MultisigUpgrade
imports Frame
begin

text \<open>
  The founders' key, \<open>chain/pallet-multisig-upgrade/src/lib.rs\<close>: its storage, genesis, the epoch hook
  and the twelve extrinsics, in the order of the source.

  The block number and the pallet's traits are the fields of \<open>ms_env\<close>, one environment per call:
  \<open>ms_sealed\<close> is \<open>SealedInvariants::current\<close>, \<open>ms_committee\<close> is \<open>committee_weighted\<close> (its heads are
  \<open>committee\<close>), \<open>ms_standing\<close> and \<open>ms_floor\<close> are \<open>StandingInspect\<close>, \<open>ms_blake2\<close> the runtime's
  \<open>blake2_256\<close> and \<open>ms_set_code\<close> tells whether \<open>SetCode::set_code\<close> accepts the blob. Block numbers are
  \<open>u32\<close> (saturating at \<open>u32_max\<close>). Events and the dispatched \<open>set_code\<close> are appended to \<open>ms_log\<close>.
  An extrinsic either fails and leaves the state as it was (the dispatcher's storage transaction) or
  returns the new state.
\<close>

section \<open>Types, storage, environment\<close>

definition SEATS :: nat where "SEATS = 5"
definition THRESHOLD_UPGRADE :: nat where "THRESHOLD_UPGRADE = 3"
definition THRESHOLD_RENEWAL :: nat where "THRESHOLD_RENEWAL = 4"
definition THRESHOLD_DISASTER :: nat where "THRESHOLD_DISASTER = SEATS"
definition MAX_COSIGNS :: nat where "MAX_COSIGNS = 256"

lemmas ms_constants = SEATS_def THRESHOLD_UPGRADE_def THRESHOLD_RENEWAL_def THRESHOLD_DISASTER_def MAX_COSIGNS_def

record invariant_declaration =
  manifesto_hash :: "nat list"
  cap_hlq :: nat
  cap_sov :: nat
  entrenchment_threshold_fp :: int
  entrenchment_required_epochs :: nat
  preserves_validator :: bool

record ms_config =
  initial_life :: nat
  objection_window :: nat
  ms_epoch_length :: nat
  disaster_epochs :: nat

type_synonym blob = "nat list"

record ('a, 'h) ms_env =
  ms_now :: nat
  ms_sealed :: "invariant_declaration option"
  ms_committee :: "('a \<times> nat) list"
  ms_standing :: "'a \<Rightarrow> int"
  ms_floor :: int
  ms_blake2 :: "blob \<Rightarrow> 'h"
  ms_set_code :: "blob \<Rightarrow> bool"

datatype ms_error =
    NotSigner | Burnt | Expired | AlreadyPending | NothingPending | HashMismatch | InvariantsMismatch
  | ObjectionWindowOpen | NotEnoughApprovals | AlreadyApproved | CodeMismatch | RenewalNotDue
  | NoDisaster | NotCommittee | VetoExhausted | TooManyCosigns | InvariantsUnavailable
  | NotEnoughCosigns | LowStanding | AlreadySigner | NotYourSeat | CustodyKeyholeOnly
  | SetCodeRefused

datatype ('a, 'h) ms_effect =
    UpgradeProposed 'h nat
  | UpgradeApproved 'h nat
  | UpgradeVetoed 'h 'a
  | SetCodeDispatched blob
  | UpgradeApplied 'h
  | BurnApproved nat
  | KeyBurned nat
  | RenewalProposed bool
  | RenewalCosigned nat
  | KeyRenewed nat nat bool
  | CessionProposed 'a 'a
  | SeatCeded 'a 'a
  | CommitteeSampleMetric nat

record ('a, 'h) upgrade_proposal =
  up_hash :: 'h
  up_declared :: invariant_declaration
  up_announced :: nat
  up_approvals :: "'a list"

record 'a renewal_proposal =
  rn_disaster :: bool
  rn_proposed :: nat
  rn_approvals :: "'a list"
  rn_cosigns :: "'a list"
  rn_snapshot :: "('a \<times> nat) list"

record 'a cession_proposal =
  ce_from :: 'a
  ce_to :: 'a
  ce_announced :: nat
  ce_approvals :: "'a list"

record ('a, 'h) multisig =
  signers :: "'a list"
  life_end :: nat
  current_window :: nat
  burned :: bool
  pending_upgrade :: "('a, 'h) upgrade_proposal option"
  burn_approvals :: "'a list"
  pending_renewal :: "'a renewal_proposal option"
  veto_spent :: "'h set"
  pending_cession :: "'a cession_proposal option"
  epochs_without_committee :: nat
  custody :: "'a option"
  ms_log :: "('a, 'h) ms_effect list"

definition ms_emit :: "('a, 'h) ms_effect \<Rightarrow> ('a, 'h) multisig \<Rightarrow> ('a, 'h) multisig" where
  "ms_emit e st = st\<lparr>ms_log := ms_log st @ [e]\<rparr>"

section \<open>Genesis and the epoch hook\<close>

definition empty_multisig :: "('a, 'h) multisig" where
  "empty_multisig = \<lparr>signers = [], life_end = 0, current_window = 0, burned = False,
     pending_upgrade = None, burn_approvals = [], pending_renewal = None, veto_spent = {},
     pending_cession = None, epochs_without_committee = 0, custody = None, ms_log = []\<rparr>"

text \<open>\<open>None\<close>: one of the genesis assertions panics.\<close>

definition ms_genesis :: "ms_config \<Rightarrow> 'a list \<Rightarrow> 'a option \<Rightarrow> ('a, 'h) multisig option" where
  "ms_genesis cfg seats cust =
     (if seats = [] then Some empty_multisig
      else if length seats \<noteq> SEATS then None
      else if \<not> distinct seats then None
      else if \<not> (case cust of None \<Rightarrow> True | Some c \<Rightarrow> c \<in> set seats) then None
      else Some (empty_multisig\<lparr>signers := seats, custody := cust,
             life_end := initial_life cfg, current_window := initial_life cfg\<rparr>))"

definition ms_on_initialize ::
  "ms_config \<Rightarrow> nat \<Rightarrow> ('a \<times> nat) list \<Rightarrow> ('a, 'h) multisig \<Rightarrow> ('a, 'h) multisig" where
  "ms_on_initialize cfg n committee st =
     (if n \<noteq> 0 \<and> ms_epoch_length cfg \<noteq> 0 \<and> n mod ms_epoch_length cfg = 0 then
        let missing = (committee = []); prev = epochs_without_committee st;
            count = (if missing then sat_add u32_max prev 1 else 0);
            st1 = st\<lparr>epochs_without_committee := count\<rparr>
        in if missing \<or> prev \<noteq> 0 then ms_emit (CommitteeSampleMetric count) st1 else st1
      else st)"

section \<open>Guards\<close>

definition live_approvals :: "'a list \<Rightarrow> 'a list \<Rightarrow> nat" where
  "live_approvals seats approvals = length (filter (\<lambda>a. a \<in> set seats) approvals)"

definition pending_ttl :: "ms_config \<Rightarrow> nat" where
  "pending_ttl cfg = sat_mul u32_max (objection_window cfg) 4"

definition is_stale :: "ms_config \<Rightarrow> nat \<Rightarrow> nat \<Rightarrow> bool" where
  "is_stale cfg now proposed = (now > sat_add u32_max proposed (pending_ttl cfg))"

definition disaster_holds :: "ms_config \<Rightarrow> nat \<Rightarrow> ('a, 'h) multisig \<Rightarrow> bool" where
  "disaster_holds cfg now st =
     (if epochs_without_committee st \<ge> disaster_epochs cfg then True
      else let grace = sat_mul u32_max (ms_epoch_length cfg) (disaster_epochs cfg)
           in now \<ge> sat_add u32_max (life_end st) grace)"

text \<open>\<open>ensure_alive\<close>, \<open>ensure_signer\<close> and \<open>ensure_not_custody\<close> as the error they end with, if any.\<close>

definition not_alive :: "nat \<Rightarrow> ('a, 'h) multisig \<Rightarrow> ms_error option" where
  "not_alive now st = (if burned st then Some Burnt else if \<not> now < life_end st then Some Expired else None)"

definition is_custody :: "('a, 'h) multisig \<Rightarrow> 'a \<Rightarrow> bool" where
  "is_custody st who = (custody st = Some who)"

definition voice_refused :: "nat \<Rightarrow> 'a \<Rightarrow> ('a, 'h) multisig \<Rightarrow> ms_error option" where
  "voice_refused now who st =
     (if who \<notin> set (signers st) then Some NotSigner
      else if is_custody st who then Some CustodyKeyholeOnly
      else not_alive now st)"

section \<open>Upgrades\<close>

definition propose_upgrade ::
  "('a, 'h) ms_env \<Rightarrow> 'a \<Rightarrow> 'h \<Rightarrow> invariant_declaration \<Rightarrow> ('a, 'h) multisig \<Rightarrow> ms_error + ('a, 'h) multisig" where
  "propose_upgrade env who h declared st =
     (case voice_refused (ms_now env) who st of Some e \<Rightarrow> Inl e | None \<Rightarrow>
      if pending_upgrade st \<noteq> None then Inl AlreadyPending
      else case ms_sealed env of None \<Rightarrow> Inl InvariantsUnavailable | Some sealed \<Rightarrow>
      if \<not> (declared = sealed \<and> preserves_validator declared) then Inl InvariantsMismatch
      else Inr (ms_emit (UpgradeProposed h (ms_now env)) (st\<lparr>pending_upgrade :=
             Some \<lparr>up_hash = h, up_declared = declared, up_announced = ms_now env, up_approvals = [who]\<rparr>\<rparr>)))"

definition approve_upgrade ::
  "('a, 'h) ms_env \<Rightarrow> 'a \<Rightarrow> 'h \<Rightarrow> ('a, 'h) multisig \<Rightarrow> ms_error + ('a, 'h) multisig" where
  "approve_upgrade env who h st =
     (case voice_refused (ms_now env) who st of Some e \<Rightarrow> Inl e | None \<Rightarrow>
      case pending_upgrade st of None \<Rightarrow> Inl NothingPending | Some p \<Rightarrow>
      if up_hash p \<noteq> h then Inl HashMismatch
      else if who \<in> set (up_approvals p) then Inl AlreadyApproved
      else if \<not> length (up_approvals p) < SEATS then Inl AlreadyApproved
      else Inr (ms_emit (UpgradeApproved h (Suc (length (up_approvals p))))
             (st\<lparr>pending_upgrade := Some (p\<lparr>up_approvals := up_approvals p @ [who]\<rparr>)\<rparr>)))"

definition veto_upgrade ::
  "'a \<Rightarrow> 'h \<Rightarrow> ('a, 'h) multisig \<Rightarrow> ms_error + ('a, 'h) multisig" where
  "veto_upgrade who h st =
     (if who \<notin> set (signers st) then Inl NotSigner
      else case pending_upgrade st of None \<Rightarrow> Inl NothingPending | Some p \<Rightarrow>
      if up_hash p \<noteq> h then Inl HashMismatch
      else if h \<in> veto_spent st then Inl VetoExhausted
      else Inr (ms_emit (UpgradeVetoed h who) (st\<lparr>veto_spent := insert h (veto_spent st), pending_upgrade := None\<rparr>)))"

definition apply_upgrade ::
  "ms_config \<Rightarrow> ('a, 'h) ms_env \<Rightarrow> blob \<Rightarrow> ('a, 'h) multisig \<Rightarrow> ms_error + ('a, 'h) multisig" where
  "apply_upgrade cfg env code st =
     (case not_alive (ms_now env) st of Some e \<Rightarrow> Inl e | None \<Rightarrow>
      case pending_upgrade st of None \<Rightarrow> Inl NothingPending | Some p \<Rightarrow>
      let required = (if up_hash p \<in> veto_spent st then THRESHOLD_RENEWAL else THRESHOLD_UPGRADE)
      in if \<not> live_approvals (signers st) (up_approvals p) \<ge> required then Inl NotEnoughApprovals
      else if \<not> ms_now env \<ge> sat_add u32_max (up_announced p) (objection_window cfg) then Inl ObjectionWindowOpen
      else if ms_blake2 env code \<noteq> up_hash p then Inl CodeMismatch
      else if \<not> ms_set_code env code then Inl SetCodeRefused
      else Inr (ms_emit (UpgradeApplied (up_hash p)) ((ms_emit (SetCodeDispatched code) st)\<lparr>pending_upgrade := None\<rparr>)))"

section \<open>The burn\<close>

definition approve_burn ::
  "('a, 'h) ms_env \<Rightarrow> 'a \<Rightarrow> ('a, 'h) multisig \<Rightarrow> ms_error + ('a, 'h) multisig" where
  "approve_burn env who st =
     (if who \<notin> set (signers st) then Inl NotSigner
      else if burned st then Inl Burnt
      else if who \<in> set (burn_approvals st) then Inl AlreadyApproved
      else if \<not> length (burn_approvals st) < SEATS then Inl AlreadyApproved
      else
        let approvals = burn_approvals st @ [who];
            count = live_approvals (signers st) approvals;
            st1 = ms_emit (BurnApproved count) (st\<lparr>burn_approvals := approvals\<rparr>)
        in if count \<ge> THRESHOLD_UPGRADE
           then Inr (ms_emit (KeyBurned (ms_now env)) (st1\<lparr>burned := True, pending_upgrade := None,
                  pending_renewal := None, pending_cession := None\<rparr>))
           else Inr st1)"

section \<open>Renewal\<close>

definition propose_renewal ::
  "ms_config \<Rightarrow> ('a, 'h) ms_env \<Rightarrow> 'a \<Rightarrow> bool \<Rightarrow> ('a, 'h) multisig \<Rightarrow> ms_error + ('a, 'h) multisig" where
  "propose_renewal cfg env who disaster st =
     (if who \<notin> set (signers st) then Inl NotSigner
      else if burned st then Inl Burnt
      else if (case pending_renewal st of None \<Rightarrow> False | Some r \<Rightarrow> \<not> is_stale cfg (ms_now env) (rn_proposed r))
      then Inl AlreadyPending
      else if disaster \<and> \<not> disaster_holds cfg (ms_now env) st then Inl NoDisaster
      else if \<not> disaster \<and> \<not> ms_now env \<ge> life_end st - objection_window cfg then Inl RenewalNotDue
      else
        let snapshot = take MAX_COSIGNS (ms_committee env)
        in if \<not> disaster \<and> snapshot = [] then Inl NotEnoughCosigns
           else Inr (ms_emit (RenewalProposed disaster) (st\<lparr>pending_renewal := Some \<lparr>rn_disaster = disaster,
                  rn_proposed = ms_now env, rn_approvals = [who], rn_cosigns = [], rn_snapshot = snapshot\<rparr>\<rparr>)))"

definition approve_renewal :: "'a \<Rightarrow> ('a, 'h) multisig \<Rightarrow> ms_error + ('a, 'h) multisig" where
  "approve_renewal who st =
     (if who \<notin> set (signers st) then Inl NotSigner
      else if burned st then Inl Burnt
      else case pending_renewal st of None \<Rightarrow> Inl NothingPending | Some r \<Rightarrow>
      if who \<in> set (rn_approvals r) then Inl AlreadyApproved
      else if \<not> length (rn_approvals r) < SEATS then Inl AlreadyApproved
      else Inr (st\<lparr>pending_renewal := Some (r\<lparr>rn_approvals := rn_approvals r @ [who]\<rparr>)\<rparr>))"

definition cosign_renewal :: "'a \<Rightarrow> ('a, 'h) multisig \<Rightarrow> ms_error + ('a, 'h) multisig" where
  "cosign_renewal who st =
     (if burned st then Inl Burnt
      else case pending_renewal st of None \<Rightarrow> Inl NothingPending | Some r \<Rightarrow>
      if rn_disaster r then Inl NoDisaster
      else if \<not> list_ex (\<lambda>(a, _). a = who) (rn_snapshot r) then Inl NotCommittee
      else if who \<in> set (rn_cosigns r) then Inl AlreadyApproved
      else if \<not> length (rn_cosigns r) < MAX_COSIGNS then Inl TooManyCosigns
      else Inr (ms_emit (RenewalCosigned (Suc (length (rn_cosigns r))))
             (st\<lparr>pending_renewal := Some (r\<lparr>rn_cosigns := rn_cosigns r @ [who]\<rparr>)\<rparr>)))"

definition sat_weight :: "('a \<times> nat) list \<Rightarrow> nat" where
  "sat_weight xs = foldl (\<lambda>t (_, w). sat_add u128_max t w) 0 xs"

definition cosigned_majority :: "'a renewal_proposal \<Rightarrow> bool" where
  "cosigned_majority r =
     (let tot = sat_weight (rn_snapshot r);
          signed = sat_weight (filter (\<lambda>(a, _). a \<in> set (rn_cosigns r)) (rn_snapshot r))
      in rn_snapshot r \<noteq> [] \<and> tot > 0 \<and> sat_mul u128_max signed 2 > tot)"

definition renewal_window :: "ms_config \<Rightarrow> bool \<Rightarrow> nat" where
  "renewal_window cfg disaster = max (if disaster then initial_life cfg div 4 else initial_life cfg) 1"

definition apply_renewal ::
  "ms_config \<Rightarrow> ('a, 'h) ms_env \<Rightarrow> ('a, 'h) multisig \<Rightarrow> ms_error + ('a, 'h) multisig" where
  "apply_renewal cfg env st =
     (if burned st then Inl Burnt
      else case pending_renewal st of None \<Rightarrow> Inl NothingPending | Some r \<Rightarrow>
      let live = live_approvals (signers st) (rn_approvals r); now = ms_now env
      in if rn_disaster r \<and> \<not> live \<ge> THRESHOLD_DISASTER then Inl NotEnoughApprovals
      else if rn_disaster r \<and> \<not> disaster_holds cfg now st then Inl NoDisaster
      else if \<not> rn_disaster r \<and> \<not> live \<ge> THRESHOLD_RENEWAL then Inl NotEnoughApprovals
      else if \<not> rn_disaster r \<and> \<not> now \<ge> sat_add u32_max (rn_proposed r) (objection_window cfg)
      then Inl ObjectionWindowOpen
      else if \<not> rn_disaster r \<and> \<not> cosigned_majority r then Inl NotEnoughCosigns
      else
        let window = renewal_window cfg (rn_disaster r);
            le = sat_add u32_max (max now (life_end st)) window
        in Inr (ms_emit (KeyRenewed le window (rn_disaster r))
             (st\<lparr>life_end := le, current_window := window, pending_renewal := None\<rparr>)))"

section \<open>Seat cession\<close>

definition high_standing :: "('a, 'h) ms_env \<Rightarrow> 'a \<Rightarrow> bool" where
  "high_standing env who = (ms_standing env who \<ge> ms_floor env \<and> ms_standing env who > 0)"

definition propose_cession ::
  "ms_config \<Rightarrow> ('a, 'h) ms_env \<Rightarrow> 'a \<Rightarrow> 'a \<Rightarrow> ('a, 'h) multisig \<Rightarrow> ms_error + ('a, 'h) multisig" where
  "propose_cession cfg env who dst st =
     (if who \<notin> set (signers st) then Inl NotSigner
      else if burned st then Inl Burnt
      else if (case pending_cession st of None \<Rightarrow> False | Some c \<Rightarrow> \<not> is_stale cfg (ms_now env) (ce_announced c))
      then Inl AlreadyPending
      else if dst \<in> set (signers st) then Inl AlreadySigner
      else if \<not> high_standing env dst then Inl LowStanding
      else Inr (ms_emit (CessionProposed who dst) (st\<lparr>pending_cession :=
             Some \<lparr>ce_from = who, ce_to = dst, ce_announced = ms_now env, ce_approvals = [who]\<rparr>\<rparr>)))"

definition approve_cession :: "'a \<Rightarrow> ('a, 'h) multisig \<Rightarrow> ms_error + ('a, 'h) multisig" where
  "approve_cession who st =
     (if who \<notin> set (signers st) then Inl NotSigner
      else if burned st then Inl Burnt
      else case pending_cession st of None \<Rightarrow> Inl NothingPending | Some c \<Rightarrow>
      if who \<in> set (ce_approvals c) then Inl AlreadyApproved
      else if \<not> length (ce_approvals c) < SEATS then Inl AlreadyApproved
      else Inr (st\<lparr>pending_cession := Some (c\<lparr>ce_approvals := ce_approvals c @ [who]\<rparr>)\<rparr>))"

text \<open>\<open>iter_mut().find(|s| s == from)\<close> then the assignment: the first match is replaced.\<close>

fun replace_first :: "'a \<Rightarrow> 'a \<Rightarrow> 'a list \<Rightarrow> 'a list" where
  "replace_first frm dst [] = []"
| "replace_first frm dst (s # ss) = (if s = frm then dst # ss else s # replace_first frm dst ss)"

definition apply_cession ::
  "ms_config \<Rightarrow> ('a, 'h) ms_env \<Rightarrow> ('a, 'h) multisig \<Rightarrow> ms_error + ('a, 'h) multisig" where
  "apply_cession cfg env st =
     (if burned st then Inl Burnt
      else case pending_cession st of None \<Rightarrow> Inl NothingPending | Some c \<Rightarrow>
      if \<not> length (ce_approvals c) \<ge> THRESHOLD_UPGRADE then Inl NotEnoughApprovals
      else if \<not> ms_now env \<ge> sat_add u32_max (ce_announced c) (objection_window cfg) then Inl ObjectionWindowOpen
      else if \<not> high_standing env (ce_to c) then Inl LowStanding
      else if ce_to c \<in> set (signers st) then Inl AlreadySigner
      else Inr (ms_emit (SeatCeded (ce_from c) (ce_to c)) (st\<lparr>
             signers := replace_first (ce_from c) (ce_to c) (signers st),
             custody := (if custody st = Some (ce_from c) then Some (ce_to c) else custody st),
             pending_cession := None\<rparr>)))"

section \<open>The pallet as a system\<close>

datatype ('a, 'h) ms_call =
    ProposeUpgrade 'h invariant_declaration
  | ApproveUpgrade 'h
  | VetoUpgrade 'h
  | ApplyUpgrade blob
  | ApproveBurn
  | ProposeRenewal bool
  | ApproveRenewal
  | CosignRenewal
  | ApplyRenewal
  | ProposeCession 'a
  | ApproveCession
  | ApplyCession

fun ms_dispatch ::
  "ms_config \<Rightarrow> ('a, 'h) ms_env \<Rightarrow> 'a \<Rightarrow> ('a, 'h) ms_call \<Rightarrow> ('a, 'h) multisig \<Rightarrow> ms_error + ('a, 'h) multisig" where
  "ms_dispatch cfg env who (ProposeUpgrade h d) st = propose_upgrade env who h d st"
| "ms_dispatch cfg env who (ApproveUpgrade h) st = approve_upgrade env who h st"
| "ms_dispatch cfg env who (VetoUpgrade h) st = veto_upgrade who h st"
| "ms_dispatch cfg env who (ApplyUpgrade code) st = apply_upgrade cfg env code st"
| "ms_dispatch cfg env who ApproveBurn st = approve_burn env who st"
| "ms_dispatch cfg env who (ProposeRenewal d) st = propose_renewal cfg env who d st"
| "ms_dispatch cfg env who ApproveRenewal st = approve_renewal who st"
| "ms_dispatch cfg env who CosignRenewal st = cosign_renewal who st"
| "ms_dispatch cfg env who ApplyRenewal st = apply_renewal cfg env st"
| "ms_dispatch cfg env who (ProposeCession dst) st = propose_cession cfg env who dst st"
| "ms_dispatch cfg env who ApproveCession st = approve_cession who st"
| "ms_dispatch cfg env who ApplyCession st = apply_cession cfg env st"

datatype ('a, 'h) ms_input =
    Extrinsic "('a, 'h) ms_env" 'a "('a, 'h) ms_call"
  | BlockStart nat "('a \<times> nat) list"

fun ms_step :: "ms_config \<Rightarrow> ('a, 'h) ms_input \<Rightarrow> ('a, 'h) multisig \<Rightarrow> ms_error + ('a, 'h) multisig" where
  "ms_step cfg (Extrinsic env who call) st = ms_dispatch cfg env who call st"
| "ms_step cfg (BlockStart n committee) st = Inr (ms_on_initialize cfg n committee st)"

end
