(* ===== verification/MultisigProps.thy ===== *)
theory MultisigProps
imports MultisigUpgrade
begin

text \<open>
  What the founders' key guarantees: the seats stay five distinct accounts with the custody seat among
  them, a burned key is dead for ever, code is only dispatched with the quorum, window and life the pallet
  promises, a renewal needs its quorum and its committee majority and is bounded; and two ways the
  promises in the source's comments are not kept.
\<close>

section \<open>The seats\<close>

definition seats_ok :: "'a list \<Rightarrow> 'a option \<Rightarrow> bool" where
  "seats_ok ss cust = ((ss = [] \<or> length ss = SEATS) \<and> distinct ss \<and> (\<forall>c. cust = Some c \<longrightarrow> c \<in> set ss))"

definition upgrade_ok :: "('a, 'h) upgrade_proposal \<Rightarrow> bool" where
  "upgrade_ok p = (distinct (up_approvals p) \<and> preserves_validator (up_declared p))"

definition renewal_ok :: "'a renewal_proposal \<Rightarrow> bool" where
  "renewal_ok r = (distinct (rn_approvals r) \<and> distinct (rn_cosigns r)
     \<and> set (rn_cosigns r) \<subseteq> fst ` set (rn_snapshot r) \<and> length (rn_snapshot r) \<le> MAX_COSIGNS)"

definition cession_ok :: "'a list \<Rightarrow> 'a cession_proposal \<Rightarrow> bool" where
  "cession_ok ss c = (ce_from c \<in> set ss \<and> distinct (ce_approvals c) \<and> set (ce_approvals c) \<subseteq> set ss)"

definition ms_inv :: "('a, 'h) multisig \<Rightarrow> bool" where
  "ms_inv st = (seats_ok (signers st) (custody st)
     \<and> pred_option upgrade_ok (pending_upgrade st)
     \<and> distinct (burn_approvals st) \<and> length (burn_approvals st) \<le> SEATS
     \<and> pred_option renewal_ok (pending_renewal st)
     \<and> pred_option (cession_ok (signers st)) (pending_cession st)
     \<and> (burned st \<longrightarrow> pending_upgrade st = None \<and> pending_renewal st = None \<and> pending_cession st = None))"

lemma ms_emit_simps [simp]:
  "signers (ms_emit e st) = signers st" "life_end (ms_emit e st) = life_end st"
  "current_window (ms_emit e st) = current_window st" "burned (ms_emit e st) = burned st"
  "pending_upgrade (ms_emit e st) = pending_upgrade st" "burn_approvals (ms_emit e st) = burn_approvals st"
  "pending_renewal (ms_emit e st) = pending_renewal st" "veto_spent (ms_emit e st) = veto_spent st"
  "pending_cession (ms_emit e st) = pending_cession st" "custody (ms_emit e st) = custody st"
  "epochs_without_committee (ms_emit e st) = epochs_without_committee st"
  "ms_log (ms_emit e st) = ms_log st @ [e]"
  by (simp_all add: ms_emit_def)

lemma set_replace_first: "distinct ss \<Longrightarrow> frm \<in> set ss \<Longrightarrow> set (replace_first frm dst ss) = insert dst (set ss - {frm})"
  by (induction ss) auto

lemma length_replace_first [simp]: "length (replace_first frm dst ss) = length ss"
  by (induction ss) auto

lemma distinct_replace_first: "distinct ss \<Longrightarrow> dst \<notin> set ss \<Longrightarrow> distinct (replace_first frm dst ss)"
proof (induction ss)
  case (Cons s ss)
  have "set (replace_first frm dst ss) \<subseteq> insert dst (set ss)"
    by (induction ss) auto
  with Cons show ?case by auto
qed simp

text \<open>The calls that succeed, with the state they reach: one rule per extrinsic.\<close>

lemma voice_None: "voice_refused now who st = None \<longleftrightarrow>
    who \<in> set (signers st) \<and> custody st \<noteq> Some who \<and> \<not> burned st \<and> now < life_end st"
  by (auto simp: voice_refused_def is_custody_def not_alive_def)

lemma alive_None: "not_alive now st = None \<longleftrightarrow> \<not> burned st \<and> now < life_end st"
  by (auto simp: not_alive_def)

lemma propose_upgrade_Inr: "propose_upgrade env who h d st = Inr st' \<longleftrightarrow>
    who \<in> set (signers st) \<and> custody st \<noteq> Some who \<and> \<not> burned st \<and> ms_now env < life_end st
    \<and> pending_upgrade st = None \<and> ms_sealed env = Some d \<and> preserves_validator d
    \<and> st' = ms_emit (UpgradeProposed h (ms_now env)) (st\<lparr>pending_upgrade :=
             Some \<lparr>up_hash = h, up_declared = d, up_announced = ms_now env, up_approvals = [who]\<rparr>\<rparr>)"
  using voice_None [of "ms_now env" who st]
  by (cases "voice_refused (ms_now env) who st") (auto simp: propose_upgrade_def split: option.split)

lemma approve_upgrade_Inr: "approve_upgrade env who h st = Inr st' \<longleftrightarrow> (\<exists>p.
    who \<in> set (signers st) \<and> custody st \<noteq> Some who \<and> \<not> burned st \<and> ms_now env < life_end st
    \<and> pending_upgrade st = Some p \<and> up_hash p = h \<and> who \<notin> set (up_approvals p)
    \<and> length (up_approvals p) < SEATS
    \<and> st' = ms_emit (UpgradeApproved h (Suc (length (up_approvals p))))
             (st\<lparr>pending_upgrade := Some (p\<lparr>up_approvals := up_approvals p @ [who]\<rparr>)\<rparr>))"
  using voice_None [of "ms_now env" who st]
  by (cases "voice_refused (ms_now env) who st") (auto simp: approve_upgrade_def split: option.split)

lemma veto_upgrade_Inr: "veto_upgrade who h st = Inr st' \<longleftrightarrow> (\<exists>p. who \<in> set (signers st)
    \<and> pending_upgrade st = Some p \<and> up_hash p = h \<and> h \<notin> veto_spent st
    \<and> st' = ms_emit (UpgradeVetoed h who) (st\<lparr>veto_spent := insert h (veto_spent st), pending_upgrade := None\<rparr>))"
  by (auto simp: veto_upgrade_def split: option.split)

definition upgrade_quorum :: "('a, 'h) upgrade_proposal \<Rightarrow> ('a, 'h) multisig \<Rightarrow> nat" where
  "upgrade_quorum p st = (if up_hash p \<in> veto_spent st then THRESHOLD_RENEWAL else THRESHOLD_UPGRADE)"

lemma apply_upgrade_Inr: "apply_upgrade cfg env code st = Inr st' \<longleftrightarrow> (\<exists>p.
    \<not> burned st \<and> ms_now env < life_end st \<and> pending_upgrade st = Some p
    \<and> upgrade_quorum p st \<le> live_approvals (signers st) (up_approvals p)
    \<and> sat_add u32_max (up_announced p) (objection_window cfg) \<le> ms_now env
    \<and> ms_blake2 env code = up_hash p \<and> ms_set_code env code
    \<and> st' = ms_emit (UpgradeApplied (up_hash p)) ((ms_emit (SetCodeDispatched code) st)\<lparr>pending_upgrade := None\<rparr>))"
  using alive_None [of "ms_now env" st]
  by (cases "not_alive (ms_now env) st") (auto simp: apply_upgrade_def upgrade_quorum_def Let_def split: option.split)

lemma approve_burn_Inr: "approve_burn env who st = Inr st' \<longleftrightarrow>
    who \<in> set (signers st) \<and> \<not> burned st \<and> who \<notin> set (burn_approvals st) \<and> length (burn_approvals st) < SEATS
    \<and> (let n = live_approvals (signers st) (burn_approvals st @ [who]);
           st1 = ms_emit (BurnApproved n) (st\<lparr>burn_approvals := burn_approvals st @ [who]\<rparr>)
       in st' = (if THRESHOLD_UPGRADE \<le> n then ms_emit (KeyBurned (ms_now env)) (st1\<lparr>burned := True,
              pending_upgrade := None, pending_renewal := None, pending_cession := None\<rparr>) else st1))"
  by (auto simp: approve_burn_def Let_def)

lemma propose_renewal_Inr: "propose_renewal cfg env who d st = Inr st' \<longleftrightarrow>
    who \<in> set (signers st) \<and> \<not> burned st
    \<and> pred_option (\<lambda>r. is_stale cfg (ms_now env) (rn_proposed r)) (pending_renewal st)
    \<and> (if d then disaster_holds cfg (ms_now env) st
       else life_end st - objection_window cfg \<le> ms_now env \<and> take MAX_COSIGNS (ms_committee env) \<noteq> [])
    \<and> st' = ms_emit (RenewalProposed d) (st\<lparr>pending_renewal := Some \<lparr>rn_disaster = d,
        rn_proposed = ms_now env, rn_approvals = [who], rn_cosigns = [],
        rn_snapshot = take MAX_COSIGNS (ms_committee env)\<rparr>\<rparr>)"
  by (auto simp: propose_renewal_def Let_def split: option.split)

lemma approve_renewal_Inr: "approve_renewal who st = Inr st' \<longleftrightarrow> (\<exists>r. who \<in> set (signers st) \<and> \<not> burned st
    \<and> pending_renewal st = Some r \<and> who \<notin> set (rn_approvals r) \<and> length (rn_approvals r) < SEATS
    \<and> st' = st\<lparr>pending_renewal := Some (r\<lparr>rn_approvals := rn_approvals r @ [who]\<rparr>)\<rparr>)"
  by (auto simp: approve_renewal_def split: option.split)

lemma cosign_renewal_Inr: "cosign_renewal who st = Inr st' \<longleftrightarrow> (\<exists>r. \<not> burned st
    \<and> pending_renewal st = Some r \<and> \<not> rn_disaster r \<and> who \<in> fst ` set (rn_snapshot r)
    \<and> who \<notin> set (rn_cosigns r) \<and> length (rn_cosigns r) < MAX_COSIGNS
    \<and> st' = ms_emit (RenewalCosigned (Suc (length (rn_cosigns r))))
             (st\<lparr>pending_renewal := Some (r\<lparr>rn_cosigns := rn_cosigns r @ [who]\<rparr>)\<rparr>))"
proof -
  have "list_ex (\<lambda>(a, _). a = who) xs = (who \<in> fst ` set xs)" for xs :: "('a \<times> nat) list"
    by (induction xs) auto
  then show ?thesis by (auto simp: cosign_renewal_def split: option.split)
qed

definition renewal_quorum :: "ms_config \<Rightarrow> nat \<Rightarrow> 'a renewal_proposal \<Rightarrow> ('a, 'h) multisig \<Rightarrow> bool" where
  "renewal_quorum cfg now r st =
     (if rn_disaster r
      then THRESHOLD_DISASTER \<le> live_approvals (signers st) (rn_approvals r) \<and> disaster_holds cfg now st
      else THRESHOLD_RENEWAL \<le> live_approvals (signers st) (rn_approvals r)
        \<and> sat_add u32_max (rn_proposed r) (objection_window cfg) \<le> now \<and> cosigned_majority r)"

lemma apply_renewal_Inr: "apply_renewal cfg env st = Inr st' \<longleftrightarrow> (\<exists>r. \<not> burned st
    \<and> pending_renewal st = Some r \<and> renewal_quorum cfg (ms_now env) r st
    \<and> (let w = renewal_window cfg (rn_disaster r); le = sat_add u32_max (max (ms_now env) (life_end st)) w
       in st' = ms_emit (KeyRenewed le w (rn_disaster r))
             (st\<lparr>life_end := le, current_window := w, pending_renewal := None\<rparr>)))"
  unfolding apply_renewal_def renewal_quorum_def Let_def guards
  by (cases "pending_renewal st"; cases "rn_disaster (the (pending_renewal st))"; simp)

lemma propose_cession_Inr: "propose_cession cfg env who dst st = Inr st' \<longleftrightarrow>
    who \<in> set (signers st) \<and> \<not> burned st
    \<and> pred_option (\<lambda>c. is_stale cfg (ms_now env) (ce_announced c)) (pending_cession st)
    \<and> dst \<notin> set (signers st) \<and> high_standing env dst
    \<and> st' = ms_emit (CessionProposed who dst) (st\<lparr>pending_cession :=
             Some \<lparr>ce_from = who, ce_to = dst, ce_announced = ms_now env, ce_approvals = [who]\<rparr>\<rparr>)"
  by (auto simp: propose_cession_def split: option.split)

lemma approve_cession_Inr: "approve_cession who st = Inr st' \<longleftrightarrow> (\<exists>c. who \<in> set (signers st) \<and> \<not> burned st
    \<and> pending_cession st = Some c \<and> who \<notin> set (ce_approvals c) \<and> length (ce_approvals c) < SEATS
    \<and> st' = st\<lparr>pending_cession := Some (c\<lparr>ce_approvals := ce_approvals c @ [who]\<rparr>)\<rparr>)"
  by (auto simp: approve_cession_def split: option.split)

lemma apply_cession_Inr: "apply_cession cfg env st = Inr st' \<longleftrightarrow> (\<exists>c. \<not> burned st
    \<and> pending_cession st = Some c \<and> THRESHOLD_UPGRADE \<le> length (ce_approvals c)
    \<and> sat_add u32_max (ce_announced c) (objection_window cfg) \<le> ms_now env
    \<and> high_standing env (ce_to c) \<and> ce_to c \<notin> set (signers st)
    \<and> st' = ms_emit (SeatCeded (ce_from c) (ce_to c)) (st\<lparr>
             signers := replace_first (ce_from c) (ce_to c) (signers st),
             custody := (if custody st = Some (ce_from c) then Some (ce_to c) else custody st),
             pending_cession := None\<rparr>))"
  unfolding apply_cession_def guards by blast

lemmas ms_Inr = propose_upgrade_Inr approve_upgrade_Inr veto_upgrade_Inr apply_upgrade_Inr approve_burn_Inr
  propose_renewal_Inr approve_renewal_Inr cosign_renewal_Inr apply_renewal_Inr propose_cession_Inr
  approve_cession_Inr apply_cession_Inr

section \<open>The invariant\<close>

lemmas ms_ok_defs = upgrade_ok_def renewal_ok_def cession_ok_def

lemma upgrade_calls_inv:
  assumes "ms_inv st"
  shows "propose_upgrade env who h d st = Inr st' \<Longrightarrow> ms_inv st'"
    and "approve_upgrade env who h st = Inr st' \<Longrightarrow> ms_inv st'"
    and "veto_upgrade who h st = Inr st' \<Longrightarrow> ms_inv st'"
    and "apply_upgrade cfg env code st = Inr st' \<Longrightarrow> ms_inv st'"
    and "approve_burn env who st = Inr st' \<Longrightarrow> ms_inv st'"
  using assms by (auto simp: ms_Inr ms_inv_def ms_ok_defs Let_def)

lemma renewal_calls_inv:
  assumes "ms_inv st"
  shows "propose_renewal cfg env who d st = Inr st' \<Longrightarrow> ms_inv st'"
    and "approve_renewal who st = Inr st' \<Longrightarrow> ms_inv st'"
    and "cosign_renewal who st = Inr st' \<Longrightarrow> ms_inv st'"
    and "apply_renewal cfg env st = Inr st' \<Longrightarrow> ms_inv st'"
  using assms by (auto simp: ms_Inr ms_inv_def ms_ok_defs Let_def) (force intro: rev_image_eqI)

lemma seats_ok_replace:
  assumes "seats_ok ss cust" "frm \<in> set ss" "dst \<notin> set ss"
  shows "seats_ok (replace_first frm dst ss) (if cust = Some frm then Some dst else cust)"
  using assms distinct_replace_first [of ss dst frm] set_replace_first [of ss frm dst]
  by (cases ss) (auto simp: seats_ok_def)

lemma cession_calls_inv:
  assumes "ms_inv st"
  shows "propose_cession cfg env who dst st = Inr st' \<Longrightarrow> ms_inv st'"
    and "approve_cession who st = Inr st' \<Longrightarrow> ms_inv st'"
  using assms by (auto simp: ms_Inr ms_inv_def ms_ok_defs)

lemma apply_cession_inv:
  assumes "ms_inv st" "apply_cession cfg env st = Inr st'"
  shows "ms_inv st'"
proof -
  from assms(2) obtain c where c: "\<not> burned st" "pending_cession st = Some c" "ce_to c \<notin> set (signers st)"
    and st': "st' = ms_emit (SeatCeded (ce_from c) (ce_to c)) (st\<lparr>
             signers := replace_first (ce_from c) (ce_to c) (signers st),
             custody := (if custody st = Some (ce_from c) then Some (ce_to c) else custody st),
             pending_cession := None\<rparr>)"
    unfolding apply_cession_Inr by blast
  have "ce_from c \<in> set (signers st)" "seats_ok (signers st) (custody st)"
    using assms(1) c by (simp_all add: ms_inv_def cession_ok_def)
  with seats_ok_replace [of "signers st" "custody st" "ce_from c" "ce_to c"] c(3)
  have "seats_ok (signers st') (custody st')" by (simp add: st')
  with assms(1) c(1) show ?thesis by (simp add: ms_inv_def st')
qed

lemma ms_dispatch_inv: "ms_inv st \<Longrightarrow> ms_dispatch cfg env who call st = Inr st' \<Longrightarrow> ms_inv st'"
  by (cases call) (auto intro: upgrade_calls_inv renewal_calls_inv cession_calls_inv apply_cession_inv)

lemma ms_on_initialize_simps [simp]:
  "signers (ms_on_initialize cfg n cm st) = signers st" "life_end (ms_on_initialize cfg n cm st) = life_end st"
  "burned (ms_on_initialize cfg n cm st) = burned st"
  "pending_upgrade (ms_on_initialize cfg n cm st) = pending_upgrade st"
  "burn_approvals (ms_on_initialize cfg n cm st) = burn_approvals st"
  "pending_renewal (ms_on_initialize cfg n cm st) = pending_renewal st"
  "veto_spent (ms_on_initialize cfg n cm st) = veto_spent st"
  "pending_cession (ms_on_initialize cfg n cm st) = pending_cession st"
  "custody (ms_on_initialize cfg n cm st) = custody st"
  by (simp_all add: ms_on_initialize_def Let_def)

lemma ms_step_inv: "ms_inv st \<Longrightarrow> ms_step cfg i st = Inr st' \<Longrightarrow> ms_inv st'"
  by (cases i) (auto simp: ms_inv_def [of "ms_on_initialize _ _ _ _"] ms_inv_def [symmetric]
      dest: ms_dispatch_inv)

interpretation ms_calls: call_system "ms_step cfg" "\<lambda>_. True" ms_inv
  for cfg
  by unfold_locales (rule ms_step_inv)

lemma ms_genesis_inv: "ms_genesis cfg seats cust = Some st \<Longrightarrow> ms_inv st"
  by (auto simp: ms_genesis_def empty_multisig_def ms_inv_def seats_ok_def split: if_splits option.splits)

lemma ms_reachable_inv: "ms_genesis cfg seats cust = Some st \<Longrightarrow> ms_inv (run_calls (ms_step cfg) is st)"
  by (rule ms_calls.run_inv) (auto simp: list.pred_set intro: ms_genesis_inv)

section \<open>Facts that every call respects\<close>

lemma dispatch_seats:
  assumes "ms_dispatch cfg env who call st = Inr st'"
  shows "length (signers st') = length (signers st)" and "(custody st' = None) = (custody st = None)"
  using assms by (cases call; simp only: ms_dispatch.simps ms_Inr Let_def; elim exE conjE; simp split: if_split)+

interpretation ms_seat_count: call_system "ms_step cfg" "\<lambda>_. True"
    "\<lambda>st. length (signers st) = n \<and> (custody st = None) = b"
  for cfg n b
proof
  fix c :: "('a, 'b) ms_input" and s s' :: "('a, 'b) multisig"
  assume "length (signers s) = n \<and> (custody s = None) = b" "ms_step cfg c s = Inr s'"
  then show "length (signers s') = n \<and> (custody s' = None) = b"
    by (cases c) (auto dest: dispatch_seats)
qed

lemma dispatch_burned:
  assumes "ms_inv st" "burned st"
  shows "\<exists>e. ms_dispatch cfg env who call st = Inl e"
proof (rule ccontr)
  assume "\<nexists>e. ms_dispatch cfg env who call st = Inl e"
  then obtain st' where "ms_dispatch cfg env who call st = Inr st'" by (cases "ms_dispatch cfg env who call st") auto
  with assms show False by (cases call) (auto simp: ms_Inr ms_inv_def)
qed

text \<open>The code blobs that have been dispatched, in order.\<close>

fun dispatched :: "('a, 'h) ms_effect list \<Rightarrow> blob list" where
  "dispatched [] = []"
| "dispatched (SetCodeDispatched code # es) = code # dispatched es"
| "dispatched (_ # es) = dispatched es"

lemma dispatched_append [simp]: "dispatched (es @ fs) = dispatched es @ dispatched fs"
  by (induction es rule: dispatched.induct) simp_all

lemma dispatch_code:
  assumes "ms_dispatch cfg env who call st = Inr st'" "dispatched (ms_log st') \<noteq> dispatched (ms_log st)"
  shows "\<exists>code. call = ApplyUpgrade code \<and> dispatched (ms_log st') = dispatched (ms_log st) @ [code]"
  using assms by (cases call; simp only: ms_dispatch.simps ms_Inr Let_def; elim exE conjE; simp split: if_splits)

lemma dispatched_on_initialize [simp]:
  "dispatched (ms_log (ms_on_initialize cfg n cm st)) = dispatched (ms_log st)"
  by (simp add: ms_on_initialize_def Let_def)

lemma live_card: "distinct xs \<Longrightarrow> live_approvals ss xs = card (set xs \<inter> set ss)"
  using distinct_card [of "filter (\<lambda>a. a \<in> set ss) xs"]
  by (simp add: live_approvals_def Int_def conj_commute)

lemma live_le_length: "live_approvals ss xs \<le> length xs"
  by (simp add: live_approvals_def)

text \<open>What a burned key keeps, whatever is called.\<close>

definition dead_key :: "('a, 'h) multisig \<Rightarrow> ('a, 'h) multisig \<Rightarrow> bool" where
  "dead_key st st' = (ms_inv st' \<and> burned st' \<and> signers st' = signers st \<and> life_end st' = life_end st
     \<and> pending_upgrade st' = None \<and> pending_renewal st' = None \<and> pending_cession st' = None
     \<and> dispatched (ms_log st') = dispatched (ms_log st))"

interpretation ms_dead: call_system "ms_step cfg" "\<lambda>_. True" "dead_key st"
  for cfg st
proof
  fix c :: "('a, 'b) ms_input" and s s' :: "('a, 'b) multisig"
  assume d: "dead_key st s" and step: "ms_step cfg c s = Inr s'"
  have "ms_inv s'" using d step by (auto simp: dead_key_def intro: ms_step_inv)
  then show "dead_key st s'"
  proof (cases c)
    case (Extrinsic env who call)
    with d step dispatch_burned [of s cfg env who call] show ?thesis by (auto simp: dead_key_def)
  next
    case (BlockStart n cm)
    with d step \<open>ms_inv s'\<close> show ?thesis by (auto simp: dead_key_def)
  qed
qed

lemma dead_key_start: "ms_inv st \<Longrightarrow> burned st \<Longrightarrow> dead_key st st"
  by (simp add: dead_key_def ms_inv_def)

fun renews :: "('a, 'h) ms_input \<Rightarrow> bool" where
  "renews (Extrinsic _ _ ApplyRenewal) = True"
| "renews _ = False"

lemma dispatch_life_end:
  "ms_dispatch cfg env who call st = Inr st' \<Longrightarrow> call \<noteq> ApplyRenewal \<Longrightarrow> life_end st' = life_end st"
  by (cases call) (auto simp: ms_Inr Let_def)

interpretation ms_sunset: call_system "ms_step cfg" "\<lambda>i. \<not> renews i" "\<lambda>st. life_end st = le"
  for cfg le
proof
  fix c :: "('a, 'b) ms_input" and s s' :: "('a, 'b) multisig"
  assume a: "\<not> renews c" "life_end s = le" "ms_step cfg c s = Inr s'"
  show "life_end s' = le"
  proof (cases c)
    case (Extrinsic env who call)
    with a(1) have "call \<noteq> ApplyRenewal" by auto
    with Extrinsic a(2,3) dispatch_life_end [of cfg env who call s s'] show ?thesis by simp
  qed (use a in auto)
qed

section \<open>Properties\<close>

text \<open>
  The key always has exactly five distinct seats, and the custody restriction always sits on one of
  them: after any sequence of extrinsics and blocks, failed calls included.
\<close>

theorem ms_five_seats:
  assumes "ms_genesis cfg seats cust = Some st" "seats \<noteq> []"
    and "st' = run_calls (ms_step cfg) inputs st"
  shows "length (signers st') = 5 \<and> distinct (signers st')
    \<and> (cust \<noteq> None \<longrightarrow> (\<exists>c\<in>set (signers st'). custody st' = Some c))"
proof -
  have g: "length (signers st) = 5" "(custody st = None) = (cust = None)"
    using assms(1,2) by (auto simp: ms_genesis_def SEATS_def split: if_splits)
  have "length (signers st') = length (signers st) \<and> (custody st' = None) = (custody st = None)"
    unfolding assms(3) by (rule ms_seat_count.run_inv) (simp_all add: list.pred_set)
  moreover have "seats_ok (signers st') (custody st')"
    using ms_reachable_inv [OF assms(1), of inputs] unfolding assms(3) by (simp add: ms_inv_def)
  ultimately show ?thesis using g by (auto simp: seats_ok_def)
qed

definition demo_ms :: ms_config where
  "demo_ms = \<lparr>initial_life = 1000, objection_window = 10, ms_epoch_length = 20, disaster_epochs = 14\<rparr>"

definition demo_decl :: invariant_declaration where
  "demo_decl = \<lparr>manifesto_hash = [77], cap_hlq = 540, cap_sov = 54, entrenchment_threshold_fp = 333,
     entrenchment_required_epochs = 7, preserves_validator = True\<rparr>"

text \<open>A network where account 6 has standing, a blob hashes to its sum, and every blob is accepted.\<close>

definition demo_env :: "nat \<Rightarrow> (nat, nat) ms_env" where
  "demo_env now = \<lparr>ms_now = now, ms_sealed = Some demo_decl, ms_committee = [(20, 3), (21, 4), (22, 2)],
     ms_standing = (\<lambda>a. if a = 6 \<or> a = 1 then 100 else 0), ms_floor = 10, ms_blake2 = sum_list, ms_set_code = (\<lambda>_. True)\<rparr>"

definition demo_key :: "(nat, nat) multisig" where
  "demo_key = the (ms_genesis demo_ms [1, 2, 3, 4, 5] (Some 5))"

lemma demo_key_genesis: "ms_genesis demo_ms [1, 2, 3, 4, 5] (Some 5) = Some demo_key"
  by (simp add: demo_key_def ms_genesis_def SEATS_def)

definition demo_cession :: "(nat, nat) ms_input list" where
  "demo_cession = [Extrinsic (demo_env 1) 5 (ProposeCession 6), Extrinsic (demo_env 2) 1 ApproveCession,
     Extrinsic (demo_env 3) 2 ApproveCession, Extrinsic (demo_env 11) 9 ApplyCession]"

theorem ms_five_seats_witness:
  "length (signers (run_calls (ms_step demo_ms) demo_cession demo_key)) = 5
    \<and> distinct (signers (run_calls (ms_step demo_ms) demo_cession demo_key))
    \<and> (\<exists>c\<in>set (signers (run_calls (ms_step demo_ms) demo_cession demo_key)).
          custody (run_calls (ms_step demo_ms) demo_cession demo_key) = Some c)"
  using ms_five_seats [OF demo_key_genesis _ refl, of demo_cession] by (elim meta_impE) blast+

text \<open>
  C13: a burned key is dead for ever: from a reachable state in which it is burned, every extrinsic fails,
  whoever calls it, and no later sequence of calls and blocks revives it, moves a seat or the expiry,
  opens a proposal or dispatches code.
\<close>

theorem ms_burned_forever:
  assumes "ms_genesis cfg seats cust = Some st0" "st = run_calls (ms_step cfg) before st0" "burned st"
  shows "(\<exists>e. ms_dispatch cfg env who call (run_calls (ms_step cfg) after st) = Inl e)
    \<and> dead_key st (run_calls (ms_step cfg) after st)"
proof -
  have inv: "ms_inv st" using ms_reachable_inv [OF assms(1)] by (simp add: assms(2))
  have "dead_key st (run_calls (ms_step cfg) after st)"
    by (rule ms_dead.run_inv) (simp_all add: list.pred_set dead_key_start [OF inv assms(3)])
  then show ?thesis using dispatch_burned by (auto simp: dead_key_def)
qed

definition demo_burn :: "(nat, nat) ms_input list" where
  "demo_burn = [Extrinsic (demo_env 4) 1 (ProposeUpgrade 8 demo_decl), Extrinsic (demo_env 4) 1 ApproveBurn,
     Extrinsic (demo_env 4) 5 ApproveBurn, Extrinsic (demo_env 5) 3 ApproveBurn]"

lemma demo_key_eq: "demo_key = empty_multisig\<lparr>signers := [1, 2, 3, 4, 5], custody := Some 5,
    life_end := 1000, current_window := 1000\<rparr>"
  by (simp add: demo_key_def ms_genesis_def SEATS_def demo_ms_def)

lemmas ms_eval = demo_key_eq demo_ms_def demo_env_def demo_decl_def ms_constants empty_multisig_def
  voice_refused_def not_alive_def is_custody_def live_approvals_def high_standing_def sat_add_def
  u32_max_def apply_call_def

lemma demo_burned: "burned (run_calls (ms_step demo_ms) demo_burn demo_key)"
  by (simp add: demo_burn_def propose_upgrade_def approve_burn_def Let_def ms_eval)

theorem ms_burned_forever_witness:
  "(\<exists>e. ms_dispatch demo_ms (demo_env 9) 2 (ProposeRenewal False) (run_calls (ms_step demo_ms)
        [BlockStart 20 [], Extrinsic (demo_env 21) 2 (ProposeUpgrade 8 demo_decl)]
        (run_calls (ms_step demo_ms) demo_burn demo_key)) = Inl e)
    \<and> dead_key (run_calls (ms_step demo_ms) demo_burn demo_key) (run_calls (ms_step demo_ms)
        [BlockStart 20 [], Extrinsic (demo_env 21) 2 (ProposeUpgrade 8 demo_decl)]
        (run_calls (ms_step demo_ms) demo_burn demo_key))"
  by (rule ms_burned_forever [OF demo_key_genesis refl demo_burned])

text \<open>
  C14: code is dispatched only as the source promises. If a call in a reachable state dispatches anything,
  it is \<open>apply_upgrade\<close> with one blob; the key is neither burned nor expired; the pending proposal
  carries that blob's hash and a declaration that preserves the validator; its objection window has
  elapsed; and at least three accounts (four if the hash was vetoed before) that hold a seat at that very
  block have approved it.
\<close>

theorem ms_code_only_with_quorum:
  assumes "ms_genesis cfg seats cust = Some st0" "st = run_calls (ms_step cfg) before st0"
    and "ms_dispatch cfg env who call st = Inr st'" "dispatched (ms_log st') \<noteq> dispatched (ms_log st)"
  shows "\<exists>code p. call = ApplyUpgrade code \<and> dispatched (ms_log st') = dispatched (ms_log st) @ [code]
    \<and> pending_upgrade st = Some p \<and> ms_blake2 env code = up_hash p \<and> preserves_validator (up_declared p)
    \<and> \<not> burned st \<and> ms_now env < life_end st
    \<and> sat_add u32_max (up_announced p) (objection_window cfg) \<le> ms_now env
    \<and> (if up_hash p \<in> veto_spent st then 4 else 3) \<le> card (set (up_approvals p) \<inter> set (signers st))"
proof -
  from dispatch_code [OF assms(3,4)] obtain code
    where code: "call = ApplyUpgrade code" "dispatched (ms_log st') = dispatched (ms_log st) @ [code]" by blast
  have "apply_upgrade cfg env code st = Inr st'" using assms(3) by (simp add: code(1))
  then obtain p where p: "\<not> burned st" "ms_now env < life_end st" "pending_upgrade st = Some p"
    "upgrade_quorum p st \<le> live_approvals (signers st) (up_approvals p)"
    "sat_add u32_max (up_announced p) (objection_window cfg) \<le> ms_now env" "ms_blake2 env code = up_hash p"
    unfolding apply_upgrade_Inr by blast
  have "upgrade_ok p" using ms_reachable_inv [OF assms(1), of before] p(3) by (simp add: assms(2) ms_inv_def)
  with p code show ?thesis
    by (auto simp: upgrade_ok_def live_card upgrade_quorum_def ms_constants split: if_splits)
qed

definition demo_upgrade :: "(nat, nat) ms_input list" where
  "demo_upgrade = [Extrinsic (demo_env 4) 1 (ProposeUpgrade 8 demo_decl), Extrinsic (demo_env 5) 2 (ApproveUpgrade 8),
     Extrinsic (demo_env 6) 5 (ApproveUpgrade 8), Extrinsic (demo_env 7) 3 (ApproveUpgrade 8)]"

lemmas ms_calls_def = propose_upgrade_def approve_upgrade_def veto_upgrade_def apply_upgrade_def
  approve_burn_def propose_cession_def approve_cession_def apply_cession_def

lemma demo_upgrade_state: "run_calls (ms_step demo_ms) demo_upgrade demo_key = demo_key\<lparr>
    pending_upgrade := Some \<lparr>up_hash = 8, up_declared = demo_decl, up_announced = 4, up_approvals = [1, 2, 3]\<rparr>,
    ms_log := [UpgradeProposed 8 4, UpgradeApproved 8 2, UpgradeApproved 8 3]\<rparr>"
  by (simp add: demo_upgrade_def ms_calls_def Let_def ms_eval ms_emit_def)

lemma demo_upgrade_applies: "\<exists>st'. ms_dispatch demo_ms (demo_env 14) 9 (ApplyUpgrade [3, 5])
      (run_calls (ms_step demo_ms) demo_upgrade demo_key) = Inr st'
    \<and> dispatched (ms_log st') \<noteq> dispatched (ms_log (run_calls (ms_step demo_ms) demo_upgrade demo_key))"
  unfolding demo_upgrade_state by (simp add: ms_calls_def Let_def ms_eval)

theorem ms_code_only_with_quorum_witness:
  "\<exists>st' code p. ms_dispatch demo_ms (demo_env 14) 9 (ApplyUpgrade [3, 5])
        (run_calls (ms_step demo_ms) demo_upgrade demo_key) = Inr st'
    \<and> pending_upgrade (run_calls (ms_step demo_ms) demo_upgrade demo_key) = Some p
    \<and> ms_blake2 (demo_env 14) code = up_hash p
    \<and> (if up_hash p \<in> veto_spent (run_calls (ms_step demo_ms) demo_upgrade demo_key) then 4 else 3)
        \<le> card (set (up_approvals p) \<inter> set (signers (run_calls (ms_step demo_ms) demo_upgrade demo_key)))"
proof -
  from demo_upgrade_applies obtain st' where st': "ms_dispatch demo_ms (demo_env 14) 9 (ApplyUpgrade [3, 5])
      (run_calls (ms_step demo_ms) demo_upgrade demo_key) = Inr st'"
    "dispatched (ms_log st') \<noteq> dispatched (ms_log (run_calls (ms_step demo_ms) demo_upgrade demo_key))" by blast
  from ms_code_only_with_quorum [OF demo_key_genesis refl st'] st'(1) show ?thesis by blast
qed

definition upgrade_verb :: "('a, 'h) ms_call \<Rightarrow> bool" where
  "upgrade_verb call = (case call of ProposeUpgrade _ _ \<Rightarrow> True | ApproveUpgrade _ \<Rightarrow> True | ApplyUpgrade _ \<Rightarrow> True | _ \<Rightarrow> False)"

lemma expired_verb_fails:
  assumes "life_end st \<le> ms_now env" "upgrade_verb call"
  shows "\<exists>e. ms_dispatch cfg env who call st = Inl e"
proof (rule ccontr)
  assume "\<nexists>e. ms_dispatch cfg env who call st = Inl e"
  then obtain st' where "ms_dispatch cfg env who call st = Inr st'" by (cases "ms_dispatch cfg env who call st") auto
  with assms show False by (cases call) (auto simp: ms_Inr upgrade_verb_def)
qed

text \<open>
  The key is dead by default: as long as no renewal is applied the expiry does not move, whatever
  else is called, and from the expiry on no upgrade can be proposed, approved or applied.
\<close>

theorem ms_dead_by_default:
  assumes "\<And>i. i \<in> set inputs \<Longrightarrow> \<not> renews i" "life_end st \<le> ms_now env" "upgrade_verb call"
  shows "life_end (run_calls (ms_step cfg) inputs st) = life_end st
    \<and> (\<exists>e. ms_dispatch cfg env who call (run_calls (ms_step cfg) inputs st) = Inl e)"
proof -
  have "life_end (run_calls (ms_step cfg) inputs st) = life_end st"
    by (rule ms_sunset.run_inv) (use assms(1) in \<open>simp_all add: list.pred_set\<close>)
  with expired_verb_fails [OF _ assms(3)] assms(2) show ?thesis by simp
qed

theorem ms_dead_by_default_witness:
  "life_end (run_calls (ms_step demo_ms) demo_upgrade demo_key) = life_end demo_key
    \<and> (\<exists>e. ms_dispatch demo_ms (demo_env 1000) 9 (ApplyUpgrade [3, 5])
          (run_calls (ms_step demo_ms) demo_upgrade demo_key) = Inl e)"
  by (rule ms_dead_by_default) (auto simp: demo_upgrade_def ms_eval upgrade_verb_def)

text \<open>
  What moves the expiry is a renewal whose quorum stands: all five current seats and the disaster
  condition, or four current seats, the objection window elapsed and co-signatures from the frozen
  snapshot carrying more than half of its weight. It grants at most one initial life (a quarter of it in a
  disaster; at least one block), counted from the later of now and the old expiry.
\<close>

theorem ms_renewal_bounded:
  assumes "ms_genesis cfg seats cust = Some st0" "st = run_calls (ms_step cfg) before st0"
    and "ms_dispatch cfg env who call st = Inr st'" "life_end st' \<noteq> life_end st"
  shows "\<exists>r. call = ApplyRenewal \<and> pending_renewal st = Some r \<and> \<not> burned st
    \<and> (if rn_disaster r
       then card (set (rn_approvals r) \<inter> set (signers st)) = 5 \<and> disaster_holds cfg (ms_now env) st
       else 4 \<le> card (set (rn_approvals r) \<inter> set (signers st))
         \<and> sat_add u32_max (rn_proposed r) (objection_window cfg) \<le> ms_now env
         \<and> set (rn_cosigns r) \<subseteq> fst ` set (rn_snapshot r)
         \<and> sat_weight (rn_snapshot r) < 2 * sat_weight (filter (\<lambda>(a, _). a \<in> set (rn_cosigns r)) (rn_snapshot r)))
    \<and> life_end st' \<le> max (ms_now env) (life_end st)
        + max 1 (if rn_disaster r then initial_life cfg div 4 else initial_life cfg)"
proof -
  have call: "call = ApplyRenewal" using dispatch_life_end [OF assms(3)] assms(4) by blast
  then have "apply_renewal cfg env st = Inr st'" using assms(3) by simp
  then obtain r where r: "\<not> burned st" "pending_renewal st = Some r" "renewal_quorum cfg (ms_now env) r st"
    and st': "life_end st' = sat_add u32_max (max (ms_now env) (life_end st)) (renewal_window cfg (rn_disaster r))"
    unfolding apply_renewal_Inr Let_def by fastforce
  have inv: "ms_inv st" using ms_reachable_inv [OF assms(1), of before] by (simp add: assms(2))
  then have ok: "renewal_ok r" "length (signers st) \<le> 5" "distinct (signers st)"
    using r(2) by (auto simp: ms_inv_def seats_ok_def ms_constants)
  have "card (set (rn_approvals r) \<inter> set (signers st)) \<le> 5"
    using ok(2) by (meson Int_lower2 List.finite_set card_length card_mono le_trans)
  moreover have "sat_weight (rn_snapshot r) < 2 * sat_weight (filter (\<lambda>(a, _). a \<in> set (rn_cosigns r)) (rn_snapshot r))"
    if "cosigned_majority r"
    using that sat_mul_le(2) [of u128_max "sat_weight (filter (\<lambda>(a, _). a \<in> set (rn_cosigns r)) (rn_snapshot r))" 2]
    by (simp add: cosigned_majority_def Let_def)
  moreover have "life_end st' \<le> max (ms_now env) (life_end st)
        + max 1 (if rn_disaster r then initial_life cfg div 4 else initial_life cfg)"
    unfolding st' using sat_add_le(2) by (auto simp: renewal_window_def max.commute)
  ultimately show ?thesis using r call ok(1)
    by (auto simp: renewal_quorum_def renewal_ok_def live_card ms_constants split: if_splits)
qed

definition demo_renewal :: "(nat, nat) ms_input list" where
  "demo_renewal = [Extrinsic (demo_env 992) 1 (ProposeRenewal False), Extrinsic (demo_env 993) 2 ApproveRenewal,
     Extrinsic (demo_env 994) 5 ApproveRenewal, Extrinsic (demo_env 995) 3 ApproveRenewal,
     Extrinsic (demo_env 996) 20 CosignRenewal, Extrinsic (demo_env 997) 22 CosignRenewal]"

lemma demo_renewal_state: "run_calls (ms_step demo_ms) demo_renewal demo_key = demo_key\<lparr>
    pending_renewal := Some \<lparr>rn_disaster = False, rn_proposed = 992, rn_approvals = [1, 2, 5, 3],
      rn_cosigns = [20, 22], rn_snapshot = [(20, 3), (21, 4), (22, 2)]\<rparr>,
    ms_log := [RenewalProposed False, RenewalCosigned 1, RenewalCosigned 2]\<rparr>"
  by (simp add: demo_renewal_def propose_renewal_def approve_renewal_def cosign_renewal_def Let_def
      ms_eval ms_emit_def)

lemma demo_renewal_applies: "\<exists>st'. ms_dispatch demo_ms (demo_env 1005) 9 ApplyRenewal
      (run_calls (ms_step demo_ms) demo_renewal demo_key) = Inr st'
    \<and> life_end st' \<noteq> life_end (run_calls (ms_step demo_ms) demo_renewal demo_key)"
  unfolding demo_renewal_state
  by (simp add: apply_renewal_def Let_def ms_eval cosigned_majority_def sat_weight_def sat_mul_def
      u128_max_def renewal_window_def)

theorem ms_renewal_bounded_witness:
  "\<exists>st' r. ms_dispatch demo_ms (demo_env 1005) 9 ApplyRenewal
        (run_calls (ms_step demo_ms) demo_renewal demo_key) = Inr st'
    \<and> pending_renewal (run_calls (ms_step demo_ms) demo_renewal demo_key) = Some r
    \<and> life_end st' \<le> max (ms_now (demo_env 1005)) (life_end (run_calls (ms_step demo_ms) demo_renewal demo_key))
        + max 1 (if rn_disaster r then initial_life demo_ms div 4 else initial_life demo_ms)"
proof -
  from demo_renewal_applies obtain st' where st': "ms_dispatch demo_ms (demo_env 1005) 9 ApplyRenewal
      (run_calls (ms_step demo_ms) demo_renewal demo_key) = Inr st'"
    "life_end st' \<noteq> life_end (run_calls (ms_step demo_ms) demo_renewal demo_key)" by blast
  from ms_renewal_bounded [OF demo_key_genesis refl st'] st'(1) show ?thesis by blast
qed

section \<open>Where the promises of the comments are not kept\<close>

text \<open>Calls in whose environment no blob hashes to \<open>h\<close>: what \<open>h\<close> chosen at random gives.\<close>

definition no_preimage :: "'h \<Rightarrow> ('a, 'h) ms_input \<Rightarrow> bool" where
  "no_preimage h i = (case i of Extrinsic env _ _ \<Rightarrow> (\<forall>code. ms_blake2 env code \<noteq> h) | BlockStart _ _ \<Rightarrow> True)"

definition slot_blocked :: "'h \<Rightarrow> blob list \<Rightarrow> ('a, 'h) multisig \<Rightarrow> bool" where
  "slot_blocked h codes st = (dispatched (ms_log st) = codes
     \<and> (burned st \<and> pending_upgrade st = None
        \<or> (h \<in> veto_spent st \<and> (\<exists>p. pending_upgrade st = Some p \<and> up_hash p = h))))"

lemma dispatch_blocked:
  assumes "slot_blocked h codes st" "\<And>code. ms_blake2 env code \<noteq> h" "ms_dispatch cfg env who call st = Inr st'"
  shows "slot_blocked h codes st'"
  using assms(3,1,2)
  by (cases call; simp only: ms_dispatch.simps ms_Inr Let_def slot_blocked_def; elim exE conjE;
      simp split: if_splits; elim disjE exE conjE; simp)

interpretation ms_blocked: call_system "ms_step cfg" "no_preimage h" "slot_blocked h codes"
  for cfg h codes
proof
  fix c :: "('a, 'b) ms_input" and s s' :: "('a, 'b) multisig"
  assume "no_preimage h c" "slot_blocked h codes s" "ms_step cfg c s = Inr s'"
  then show "slot_blocked h codes s'"
    by (cases c) (auto simp: no_preimage_def slot_blocked_def [of h codes "ms_on_initialize _ _ _ _"]
        slot_blocked_def [symmetric] dest: dispatch_blocked)
qed

text \<open>
  C17: one seat can take the upgrade slot hostage for ever, against \<open>veto_upgrade\<close>'s comment ("one seat
  can force the harder round, never hold the chain hostage forever"). A seat proposes a hash that no blob
  has, vetoes its own proposal and proposes it again: these three calls succeed, the veto of that hash
  is spent, and whatever is called afterwards, by anybody, the slot stays taken by that hash (or the key is
  burned), so no other upgrade can be proposed and no code is ever dispatched again.
\<close>

theorem one_seat_blocks_upgrades:
  assumes "who \<in> set (signers st)" "custody st \<noteq> Some who" "\<not> burned st" "ms_now env < life_end st"
    and "pending_upgrade st = None" "h \<notin> veto_spent st" "ms_sealed env = Some d" "preserves_validator d"
    and "\<And>i. i \<in> set inputs \<Longrightarrow> no_preimage h i"
  defines "attack \<equiv> [Extrinsic env who (ProposeUpgrade h d), Extrinsic env who (VetoUpgrade h),
       Extrinsic env who (ProposeUpgrade h d)]"
  shows "slot_blocked h (dispatched (ms_log st)) (run_calls (ms_step cfg) (attack @ inputs) st)"
proof -
  have p: "propose_upgrade env who h d s = Inr (ms_emit (UpgradeProposed h (ms_now env)) (s\<lparr>pending_upgrade :=
        Some \<lparr>up_hash = h, up_declared = d, up_announced = ms_now env, up_approvals = [who]\<rparr>\<rparr>))"
    if "signers s = signers st" "custody s = custody st" "burned s = burned st" "life_end s = life_end st"
      "pending_upgrade s = None" for s
    using assms(1-8) that by (simp add: propose_upgrade_Inr)
  have "slot_blocked h (dispatched (ms_log st)) (run_calls (ms_step cfg) attack st)"
    using assms(1,5,6) by (simp add: attack_def p veto_upgrade_def slot_blocked_def)
  then have "slot_blocked h (dispatched (ms_log st)) (run_calls (ms_step cfg) inputs (run_calls (ms_step cfg) attack st))"
    by (rule ms_blocked.run_inv [where s = "run_calls (ms_step cfg) attack st", rotated])
      (use assms(9) in \<open>simp add: list.pred_set\<close>)
  then show ?thesis by (simp add: run_calls_append)
qed

text \<open>Four honest seats against seat 3: in this environment no blob hashes to 13.\<close>

definition honest_env :: "nat \<Rightarrow> (nat, nat) ms_env" where
  "honest_env now = (demo_env now)\<lparr>ms_blake2 := (\<lambda>code. if sum_list code = 13 then 14 else sum_list code)\<rparr>"

definition rescue :: "(nat, nat) ms_input list" where
  "rescue = [Extrinsic (honest_env 50) 1 (VetoUpgrade 13), Extrinsic (honest_env 50) 1 (ProposeUpgrade 8 demo_decl),
     Extrinsic (honest_env 900) 2 (ProposeUpgrade 8 demo_decl), Extrinsic (honest_env 900) 2 (ApplyUpgrade [8])]"

theorem one_seat_blocks_upgrades_witness:
  "slot_blocked 13 (dispatched (ms_log demo_key)) (run_calls (ms_step demo_ms)
     ([Extrinsic (demo_env 4) 3 (ProposeUpgrade 13 demo_decl), Extrinsic (demo_env 4) 3 (VetoUpgrade 13),
       Extrinsic (demo_env 4) 3 (ProposeUpgrade 13 demo_decl)] @ rescue) demo_key)"
proof (rule one_seat_blocks_upgrades)
  show "no_preimage 13 i" if "i \<in> set rescue" for i
    using that by (auto simp: rescue_def no_preimage_def honest_env_def)
qed (simp_all add: ms_eval)

lemma dispatch_burn_full:
  assumes "length (burn_approvals st) = SEATS" "ms_dispatch cfg env who call st = Inr st'"
  shows "burn_approvals st' = burn_approvals st \<and> burned st' = burned st"
proof (cases "call = ApproveBurn")
  case True
  with assms show ?thesis by (simp add: approve_burn_Inr)
next
  case False
  then show ?thesis using assms(2)
    by (cases call; simp only: ms_dispatch.simps ms_Inr Let_def; elim exE conjE; simp)
qed

interpretation ms_unburnable: call_system "ms_step cfg" "\<lambda>_. True"
    "\<lambda>st. length (burn_approvals st) = SEATS \<and> \<not> burned st"
  for cfg
proof
  fix c :: "('a, 'b) ms_input" and s s' :: "('a, 'b) multisig"
  assume "length (burn_approvals s) = SEATS \<and> \<not> burned s" "ms_step cfg c s = Inr s'"
  then show "length (burn_approvals s') = SEATS \<and> \<not> burned s'"
    by (cases c) (auto simp: dispatch_burn_full)
qed

text \<open>
  Approvals of ceded seats can make the key unburnable, against \<open>approve_burn\<close>'s promise that three
  approvals burn it. \<open>BurnApprovals\<close> holds five entries and is never pruned: once five accounts have
  approved without three of them holding a seat at the fifth, nobody can add an approval any more and no
  sequence of calls ever burns the key.
\<close>

theorem burn_list_full_unburnable:
  assumes "length (burn_approvals st) = 5" "\<not> burned st"
  shows "\<not> burned (run_calls (ms_step cfg) inputs st)"
proof -
  have "length (burn_approvals (run_calls (ms_step cfg) inputs st)) = SEATS
      \<and> \<not> burned (run_calls (ms_step cfg) inputs st)"
    by (rule ms_unburnable.run_inv) (use assms in \<open>simp_all add: list.pred_set SEATS_def\<close>)
  then show ?thesis by blast
qed

text \<open>A network where every account has standing; seat 1 is ceded to 6, 7 and 8 in turn, with the approvals
  of 2 and 3, each holder approving the burn first; then 2 and 3 approve it.\<close>

definition open_env :: "nat \<Rightarrow> (nat, nat) ms_env" where
  "open_env now = (demo_env now)\<lparr>ms_standing := (\<lambda>_. 50)\<rparr>"

definition burn_then_cede :: "nat \<Rightarrow> nat \<Rightarrow> nat \<Rightarrow> (nat, nat) ms_input list" where
  "burn_then_cede now frm dst = [Extrinsic (open_env now) frm ApproveBurn,
     Extrinsic (open_env now) frm (ProposeCession dst), Extrinsic (open_env now) 2 ApproveCession,
     Extrinsic (open_env now) 3 ApproveCession, Extrinsic (open_env (now + 10)) 9 ApplyCession]"

definition ghosts :: "(nat, nat) ms_input list" where
  "ghosts = burn_then_cede 1 1 6 @ burn_then_cede 20 6 7 @ burn_then_cede 40 7 8
     @ [Extrinsic (open_env 60) 2 ApproveBurn, Extrinsic (open_env 60) 3 ApproveBurn]"

lemma burn_then_cede_run:
  assumes "\<not> burned st" "length bs < 5" "now + 10 < u32_max" "frm \<notin> set bs" "live_approvals ss (bs @ [frm]) < 3"
    and "burn_approvals st = bs" "signers st = ss" "{2, 3, frm} \<subseteq> set ss" "frm \<noteq> 2" "frm \<noteq> 3" "dst \<notin> set ss"
    and "pending_cession st = None"
  shows "\<not> burned (run_calls (ms_step demo_ms) (burn_then_cede now frm dst) st)
    \<and> burn_approvals (run_calls (ms_step demo_ms) (burn_then_cede now frm dst) st) = bs @ [frm]
    \<and> signers (run_calls (ms_step demo_ms) (burn_then_cede now frm dst) st) = replace_first frm dst ss
    \<and> pending_cession (run_calls (ms_step demo_ms) (burn_then_cede now frm dst) st) = None"
  using assms
  by (simp add: burn_then_cede_def open_env_def demo_env_def demo_ms_def approve_burn_def propose_cession_def
      approve_cession_def apply_cession_def high_standing_def ms_constants Let_def)

lemma ghosts_state: "\<not> burned (run_calls (ms_step demo_ms) ghosts demo_key)
    \<and> burn_approvals (run_calls (ms_step demo_ms) ghosts demo_key) = [1, 6, 7, 2, 3]"
proof -
  let ?a = "run_calls (ms_step demo_ms) (burn_then_cede 1 1 6) demo_key"
  let ?b = "run_calls (ms_step demo_ms) (burn_then_cede 20 6 7) ?a"
  let ?c = "run_calls (ms_step demo_ms) (burn_then_cede 40 7 8) ?b"
  have a: "\<not> burned ?a \<and> burn_approvals ?a = [1] \<and> signers ?a = [6, 2, 3, 4, 5] \<and> pending_cession ?a = None"
    using burn_then_cede_run [of demo_key "[]" 1 1 "[1, 2, 3, 4, 5]" 6]
    by (simp add: demo_key_eq empty_multisig_def u32_max_def live_approvals_def)
  have b: "\<not> burned ?b \<and> burn_approvals ?b = [1, 6] \<and> signers ?b = [7, 2, 3, 4, 5] \<and> pending_cession ?b = None"
    using a burn_then_cede_run [of ?a "[1]" 20 6 "[6, 2, 3, 4, 5]" 7]
    by (simp add: u32_max_def live_approvals_def)
  have c: "\<not> burned ?c \<and> burn_approvals ?c = [1, 6, 7] \<and> signers ?c = [8, 2, 3, 4, 5] \<and> pending_cession ?c = None"
    using b burn_then_cede_run [of ?b "[1, 6]" 40 7 "[7, 2, 3, 4, 5]" 8]
    by (simp add: u32_max_def live_approvals_def)
  have "run_calls (ms_step demo_ms) ghosts demo_key = run_calls (ms_step demo_ms)
      [Extrinsic (open_env 60) 2 ApproveBurn, Extrinsic (open_env 60) 3 ApproveBurn] ?c"
    by (simp only: ghosts_def run_calls_append)
  with c show ?thesis by (simp add: approve_burn_def ms_constants Let_def live_approvals_def)
qed

theorem burn_list_full_unburnable_witness:
  "\<not> burned (run_calls (ms_step demo_ms)
     [Extrinsic (open_env 61) 4 ApproveBurn, Extrinsic (open_env 61) 5 ApproveBurn, Extrinsic (open_env 61) 8 ApproveBurn]
     (run_calls (ms_step demo_ms) ghosts demo_key))"
  by (rule burn_list_full_unburnable) (simp_all add: ghosts_state)

definition custody_votes :: "(nat, nat) ms_input list" where
  "custody_votes = [Extrinsic (demo_env 4) 1 (ProposeUpgrade 8 demo_decl), Extrinsic (demo_env 5) 2 (ApproveUpgrade 8),
     Extrinsic (demo_env 5) 1 (ProposeCession 6), Extrinsic (demo_env 5) 2 ApproveCession,
     Extrinsic (demo_env 5) 3 ApproveCession, Extrinsic (demo_env 15) 9 ApplyCession,
     Extrinsic (demo_env 16) 5 (ProposeCession 1), Extrinsic (demo_env 16) 2 ApproveCession,
     Extrinsic (demo_env 16) 3 ApproveCession, Extrinsic (demo_env 26) 9 ApplyCession,
     Extrinsic (demo_env 27) 3 (ApproveUpgrade 8)]"

lemma custody_votes_state: "pending_upgrade (run_calls (ms_step demo_ms) custody_votes demo_key) =
      Some \<lparr>up_hash = 8, up_declared = demo_decl, up_announced = 4, up_approvals = [1, 2, 3]\<rparr>
    \<and> signers (run_calls (ms_step demo_ms) custody_votes demo_key) = [6, 2, 3, 4, 1]
    \<and> custody (run_calls (ms_step demo_ms) custody_votes demo_key) = Some 1
    \<and> veto_spent (run_calls (ms_step demo_ms) custody_votes demo_key) = {}
    \<and> burned (run_calls (ms_step demo_ms) custody_votes demo_key) = False
    \<and> life_end (run_calls (ms_step demo_ms) custody_votes demo_key) = 1000"
  by (simp add: custody_votes_def ms_calls_def Let_def ms_eval)

text \<open>
  An approval can end up cast by the custody seat, against the comment of \<open>GenesisConfig::custody\<close>
  ("code only ever passes with founder votes"). A seat that approved an upgrade, ceded its place and was
  then given the custody seat counts among the three approvals that apply the upgrade: only two of
  them are of seats with a voice.
\<close>

lemma custody_approval_counts:
  "let st = run_calls (ms_step demo_ms) custody_votes demo_key
   in \<exists>p st'. pending_upgrade st = Some p
     \<and> ms_dispatch demo_ms (demo_env 28) 9 (ApplyUpgrade [8]) st = Inr st'
     \<and> dispatched (ms_log st') = dispatched (ms_log st) @ [[8]]
     \<and> (\<exists>c\<in>set (up_approvals p). custody st = Some c)
     \<and> card (set (up_approvals p) \<inter> set (signers st) - {c. custody st = Some c}) = 2"
  using custody_votes_state
  by (simp add: Let_def apply_upgrade_Inr upgrade_quorum_def ms_constants live_approvals_def demo_env_def
      demo_ms_def sat_add_def u32_max_def)

end
