(* ===== verification/OpenSlots.thy ===== *)
theory OpenSlots
imports Frame
begin

text \<open>
  The open-entry quota that the market and the pacts pallets share: a table of entries by increasing id,
  and per owner a counter of the entries that are not finished yet, taken when an entry is added and
  released (\<open>mutate_exists\<close>: a counter that reaches zero is removed) when it is finished or removed. The
  locale states the quota once over what an entry is; the pallets interpret it on theirs.
\<close>

definition slot_count :: "('a \<rightharpoonup> nat) \<Rightarrow> 'a \<Rightarrow> nat" where
  "slot_count cnt who = (case cnt who of None \<Rightarrow> 0 | Some n \<Rightarrow> n)"

text \<open>\<open>free_deal_slot\<close> of the market and \<open>close_open_slot\<close> of the pacts are this function.\<close>

definition release_slot :: "'a \<Rightarrow> ('a \<rightharpoonup> nat) \<Rightarrow> ('a \<rightharpoonup> nat)" where
  "release_slot who cnt =
     (let left = slot_count cnt who - 1
      in if left = 0 then cnt(who := None) else cnt(who \<mapsto> left))"

lemma slot_count_release: "slot_count (release_slot who cnt) w = slot_count cnt w - (if w = who then 1 else 0)"
  by (auto simp: release_slot_def Let_def slot_count_def)

lemma slot_count_take: "slot_count (cnt(who \<mapsto> n)) w = (if w = who then n else slot_count cnt w)"
  by (simp add: slot_count_def)

lemma count_list_distinct: "distinct xs \<Longrightarrow> count_list xs x = (if x \<in> set xs then 1 else 0)"
  by (induction xs) auto

locale open_quota =
  fixes is_open :: "'r \<Rightarrow> bool"
    and owner :: "'r \<Rightarrow> 'a"
    and finish :: "'r \<Rightarrow> 'r"
  assumes finish_closed: "\<not> is_open (finish r)"
begin

definition open_ids :: "(nat \<rightharpoonup> 'r) \<Rightarrow> 'a \<Rightarrow> nat set" where
  "open_ids m who = {i. \<exists>r. m i = Some r \<and> is_open r \<and> owner r = who}"

definition quota_ok :: "nat \<Rightarrow> (nat \<rightharpoonup> 'r) \<Rightarrow> ('a \<rightharpoonup> nat) \<Rightarrow> nat \<Rightarrow> bool" where
  "quota_ok mx m cnt nxt = ((\<forall>i\<in>dom m. i < nxt)
     \<and> (\<forall>who. card (open_ids m who) = slot_count cnt who \<and> slot_count cnt who \<le> mx))"

lemma finite_open: "quota_ok mx m cnt nxt \<Longrightarrow> finite (open_ids m who)"
  by (rule finite_subset [of _ "{..<nxt}"]) (auto simp: quota_ok_def open_ids_def)

lemma quota_start: "quota_ok mx Map.empty Map.empty nxt"
  by (simp add: quota_ok_def open_ids_def slot_count_def)

lemma quota_add:
  assumes "quota_ok mx m cnt nxt" "is_open r" "slot_count cnt (owner r) < mx"
  shows "quota_ok mx (m(nxt \<mapsto> r)) (cnt(owner r \<mapsto> slot_count cnt (owner r) + 1)) (nxt + 1)"
proof -
  have new: "nxt \<notin> dom m" using assms(1) by (auto simp: quota_ok_def)
  then have "open_ids (m(nxt \<mapsto> r)) who = (if who = owner r then insert nxt (open_ids m who) else open_ids m who)" for who
    using assms(2) by (auto simp: open_ids_def)
  moreover have "nxt \<notin> open_ids m who" for who using new by (auto simp: open_ids_def)
  ultimately show ?thesis
    using assms finite_open [OF assms(1)] by (auto simp: quota_ok_def slot_count_take less_Suc_eq)
qed

text \<open>An open entry leaves the open set, whatever is written in its place, and its slot is released.\<close>

lemma quota_leave:
  assumes "quota_ok mx m cnt nxt" "m i = Some r" "is_open r"
    and "m' = m(i := v)" "\<And>q. v = Some q \<Longrightarrow> \<not> is_open q"
  shows "quota_ok mx m' (release_slot (owner r) cnt) nxt"
proof -
  have "open_ids m' who = open_ids m who - (if who = owner r then {i} else {})" for who
    using assms(2-5) by (auto simp: open_ids_def split: if_splits)
  moreover have "i \<in> open_ids m (owner r)" using assms(2,3) by (simp add: open_ids_def)
  moreover have "i < nxt" using assms(1,2) by (auto simp: quota_ok_def)
  ultimately show ?thesis
    using assms(1,4) finite_open [OF assms(1)]
    by (auto simp: quota_ok_def slot_count_release split: if_splits) (meson diff_le_self le_trans)+
qed

lemma quota_remove:
  "quota_ok mx m cnt nxt \<Longrightarrow> m i = Some r \<Longrightarrow> is_open r \<Longrightarrow> quota_ok mx (m(i := None)) (release_slot (owner r) cnt) nxt"
  by (erule quota_leave) auto

lemma quota_finish:
  "quota_ok mx m cnt nxt \<Longrightarrow> m i = Some r \<Longrightarrow> is_open r \<Longrightarrow>
    quota_ok mx (m(i \<mapsto> finish q)) (release_slot (owner r) cnt) nxt"
  by (erule quota_leave) (auto simp: finish_closed)

lemma quota_touch:
  assumes "quota_ok mx m cnt nxt" "m i = Some r" "is_open q = is_open r" "owner q = owner r"
  shows "quota_ok mx (m(i \<mapsto> q)) cnt nxt"
proof -
  have "open_ids (m(i \<mapsto> q)) who = open_ids m who" for who
    using assms(2-4) by (auto simp: open_ids_def)
  moreover have "i < nxt" using assms(1,2) by (auto simp: quota_ok_def)
  ultimately show ?thesis using assms(1) by (auto simp: quota_ok_def)
qed

end

text \<open>
  The listing that the market and the news pallet share: entries by increasing id that are never removed, only marked
  as withdrawn by their owner, and per owner the bounded list of the ids not withdrawn.
\<close>

locale active_listing =
  fixes owner :: "'r \<Rightarrow> 'a"
    and withdrawn :: "'r \<Rightarrow> bool"
    and withdraw :: "'r \<Rightarrow> 'r"
  assumes withdraw_marks: "withdrawn (withdraw r)"
    and withdraw_owner: "owner (withdraw r) = owner r"
begin

definition active_ids :: "(nat \<rightharpoonup> 'r) \<Rightarrow> 'a \<Rightarrow> nat set" where
  "active_ids m who = {i. \<exists>r. m i = Some r \<and> owner r = who \<and> \<not> withdrawn r}"

definition listed_ok :: "nat \<Rightarrow> (nat \<rightharpoonup> 'r) \<Rightarrow> ('a \<Rightarrow> nat list) \<Rightarrow> nat \<Rightarrow> bool" where
  "listed_ok mx m lst nxt = ((\<forall>i\<in>dom m. i < nxt)
     \<and> (\<forall>who. distinct (lst who) \<and> length (lst who) \<le> mx \<and> set (lst who) = active_ids m who))"

lemma listed_start: "listed_ok mx Map.empty (\<lambda>_. []) nxt"
  by (simp add: listed_ok_def active_ids_def)

lemma listed_add:
  assumes "listed_ok mx m lst nxt" "\<not> withdrawn r" "length (lst (owner r)) < mx"
  shows "listed_ok mx (m(nxt \<mapsto> r)) (lst(owner r := lst (owner r) @ [nxt])) (nxt + 1)"
proof -
  have new: "nxt \<notin> dom m" "nxt \<notin> active_ids m w" for w using assms(1) by (auto simp: listed_ok_def active_ids_def)
  then have "active_ids (m(nxt \<mapsto> r)) w = (if w = owner r then insert nxt (active_ids m w) else active_ids m w)" for w
    using assms(2) by (auto simp: active_ids_def)
  then show ?thesis using assms new by (auto simp: listed_ok_def less_Suc_eq)
qed

lemma listed_withdraw:
  assumes "listed_ok mx m lst nxt" "m i = Some r" "\<not> withdrawn r"
  shows "listed_ok mx (m(i \<mapsto> withdraw r)) (lst(owner r := filter (\<lambda>x. x \<noteq> i) (lst (owner r)))) nxt"
proof -
  have "active_ids (m(i \<mapsto> withdraw r)) w = (if w = owner r then active_ids m w - {i} else active_ids m w)" for w
    using assms(2,3) withdraw_marks by (auto simp: active_ids_def)
  moreover have "i < nxt" using assms(1,2) by (auto simp: listed_ok_def)
  ultimately show ?thesis
    using assms(1) by (auto simp: listed_ok_def intro: le_trans [OF length_filter_le])
qed

end

end
