(* ===== verification/MarketPallet.thy ===== *)
theory MarketPallet
imports OpenSlots
begin

text \<open>
  The market, \<open>chain/pallet-market/src/lib.rs\<close>: offers and two-party deals, all six extrinsics.

  \<open>gate who\<close> is \<open>PublishGate::ensure_can_publish\<close> (the runtime's postage rule; \<open>None\<close> is Ok, \<open>Some e\<close>
  its dispatch error), a parameter. \<open>OnDealClosed::on_deal_closed\<close> and the events are appended to
  \<open>mk_log\<close>. The category argument is a \<open>BoundedVec\<close>, bounded when it is decoded. Ids are \<open>u64\<close>, block
  numbers \<open>u32\<close>.
\<close>

section \<open>Storage\<close>

record 'a deal =
  dl_offer :: nat
  dl_proposer :: 'a
  dl_counterparty :: 'a
  dl_at :: nat
  dl_expires :: nat
  dl_closed :: bool

record 'a offer =
  of_offerer :: 'a
  of_detail :: nat
  of_category :: "nat list"
  of_at :: nat
  of_withdrawn :: bool

record market_config =
  max_open_deals :: nat
  deal_ttl :: nat
  max_per_mask :: nat

datatype 'a market_event =
    Published nat 'a nat
  | OfferWithdrawn nat
  | DealProposed nat nat 'a 'a
  | OnDealClosed nat 'a 'a
  | DealClosed nat nat
  | DealCancelled nat
  | DealReaped nat

datatype 'e market_error =
    OfferNotFound | NotYourOffer | AlreadyWithdrawn | TooManyActiveOffers | NotAPartyToOffer | SelfDeal
  | DealNotFound | NotYourDeal | DealAlreadyClosed | TooManyOpenDeals | DealExpired | DealNotExpired
  | GateError 'e

record 'a market =
  next_id :: nat
  next_deal_id :: nat
  deals :: "nat \<rightharpoonup> 'a deal"
  open_deals_of :: "'a \<rightharpoonup> nat"
  offers :: "nat \<rightharpoonup> 'a offer"
  offers_of :: "'a \<Rightarrow> nat list"
  mk_log :: "'a market_event list"

definition empty_market :: "'a market" where
  "empty_market = \<lparr>next_id = 0, next_deal_id = 0, deals = Map.empty, open_deals_of = Map.empty,
     offers = Map.empty, offers_of = (\<lambda>_. []), mk_log = []\<rparr>"

definition mk_emit :: "'a market_event list \<Rightarrow> 'a market \<Rightarrow> 'a market" where
  "mk_emit es st = st\<lparr>mk_log := mk_log st @ es\<rparr>"

section \<open>Offers\<close>

definition publish ::
  "market_config \<Rightarrow> ('a \<Rightarrow> 'e option) \<Rightarrow> nat \<Rightarrow> 'a \<Rightarrow> nat \<Rightarrow> nat list \<Rightarrow> 'a market \<Rightarrow> 'e market_error + 'a market" where
  "publish cfg gate now offerer detail category st =
     (case gate offerer of Some e \<Rightarrow> Inl (GateError e) | None \<Rightarrow>
      let i = next_id st
      in if \<not> length (offers_of st offerer) < max_per_mask cfg then Inl TooManyActiveOffers
         else Inr (mk_emit [Published i offerer detail] (st\<lparr>
           offers_of := (offers_of st)(offerer := offers_of st offerer @ [i]),
           offers := (offers st)(i \<mapsto> \<lparr>of_offerer = offerer, of_detail = detail, of_category = category,
             of_at = now, of_withdrawn = False\<rparr>),
           next_id := sat_add u64_max i 1\<rparr>)))"

definition withdraw_offer :: "'a \<Rightarrow> nat \<Rightarrow> 'a market \<Rightarrow> 'e market_error + 'a market" where
  "withdraw_offer who i st =
     (case offers st i of None \<Rightarrow> Inl OfferNotFound | Some o1 \<Rightarrow>
      if of_offerer o1 \<noteq> who then Inl NotYourOffer
      else if of_withdrawn o1 then Inl AlreadyWithdrawn
      else Inr (mk_emit [OfferWithdrawn i] (st\<lparr>
        offers := (offers st)(i \<mapsto> o1\<lparr>of_withdrawn := True\<rparr>),
        offers_of := (offers_of st)(who := filter (\<lambda>x. x \<noteq> i) (offers_of st who))\<rparr>)))"

section \<open>Deals\<close>

definition propose_deal ::
  "market_config \<Rightarrow> nat \<Rightarrow> 'a \<Rightarrow> nat \<Rightarrow> 'a \<Rightarrow> 'a market \<Rightarrow> 'e market_error + 'a market" where
  "propose_deal cfg now proposer i counterparty st =
     (if proposer = counterparty then Inl SelfDeal
      else case offers st i of None \<Rightarrow> Inl OfferNotFound | Some o1 \<Rightarrow>
      if of_withdrawn o1 then Inl AlreadyWithdrawn
      else if \<not> (of_offerer o1 = proposer \<or> of_offerer o1 = counterparty) then Inl NotAPartyToOffer
      else if \<not> slot_count (open_deals_of st) proposer < max_open_deals cfg then Inl TooManyOpenDeals
      else
        let d = next_deal_id st
        in Inr (mk_emit [DealProposed d i proposer counterparty] (st\<lparr>
          open_deals_of := (open_deals_of st)(proposer \<mapsto> slot_count (open_deals_of st) proposer + 1),
          deals := (deals st)(d \<mapsto> \<lparr>dl_offer = i, dl_proposer = proposer, dl_counterparty = counterparty,
            dl_at = now, dl_expires = sat_add u32_max now (deal_ttl cfg), dl_closed = False\<rparr>),
          next_deal_id := sat_add u64_max d 1\<rparr>)))"

definition confirm_deal :: "nat \<Rightarrow> 'a \<Rightarrow> nat \<Rightarrow> 'a market \<Rightarrow> 'e market_error + 'a market" where
  "confirm_deal now who d st =
     (case deals st d of None \<Rightarrow> Inl DealNotFound | Some dl \<Rightarrow>
      if dl_counterparty dl \<noteq> who then Inl NotYourDeal
      else if dl_closed dl then Inl DealAlreadyClosed
      else if \<not> now \<le> dl_expires dl then Inl DealExpired
      else case offers st (dl_offer dl) of None \<Rightarrow> Inl OfferNotFound | Some o1 \<Rightarrow>
      if of_withdrawn o1 then Inl AlreadyWithdrawn
      else Inr (mk_emit [OnDealClosed (dl_offer dl) (dl_proposer dl) (dl_counterparty dl), DealClosed d (dl_offer dl)]
        (st\<lparr>deals := (deals st)(d \<mapsto> dl\<lparr>dl_closed := True\<rparr>),
            open_deals_of := release_slot (dl_proposer dl) (open_deals_of st)\<rparr>)))"

definition cancel_deal :: "'a \<Rightarrow> nat \<Rightarrow> 'a market \<Rightarrow> 'e market_error + 'a market" where
  "cancel_deal who d st =
     (case deals st d of None \<Rightarrow> Inl DealNotFound | Some dl \<Rightarrow>
      if dl_proposer dl \<noteq> who then Inl NotYourDeal
      else if dl_closed dl then Inl DealAlreadyClosed
      else Inr (mk_emit [DealCancelled d] (st\<lparr>deals := (deals st)(d := None),
             open_deals_of := release_slot who (open_deals_of st)\<rparr>)))"

definition reap_deal :: "nat \<Rightarrow> nat \<Rightarrow> 'a market \<Rightarrow> 'e market_error + 'a market" where
  "reap_deal now d st =
     (case deals st d of None \<Rightarrow> Inl DealNotFound | Some dl \<Rightarrow>
      if dl_closed dl then Inl DealAlreadyClosed
      else if \<not> now > dl_expires dl then Inl DealNotExpired
      else Inr (mk_emit [DealReaped d] (st\<lparr>deals := (deals st)(d := None),
             open_deals_of := release_slot (dl_proposer dl) (open_deals_of st)\<rparr>)))"

datatype 'a market_call =
    Publish 'a nat "nat list"
  | WithdrawOffer 'a nat
  | ProposeDeal 'a nat 'a
  | ConfirmDeal 'a nat
  | CancelDeal 'a nat
  | ReapDeal 'a nat

text \<open>A call is dispatched at a block number, with the postage rule as it stands there.\<close>

fun market_step ::
  "market_config \<Rightarrow> nat \<times> ('a \<Rightarrow> 'e option) \<times> 'a market_call \<Rightarrow> 'a market \<Rightarrow> 'e market_error + 'a market" where
  "market_step cfg (now, gate, Publish who detail cat) st = publish cfg gate now who detail cat st"
| "market_step cfg (now, gate, WithdrawOffer who i) st = withdraw_offer who i st"
| "market_step cfg (now, gate, ProposeDeal who i cp) st = propose_deal cfg now who i cp st"
| "market_step cfg (now, gate, ConfirmDeal who d) st = confirm_deal now who d st"
| "market_step cfg (now, gate, CancelDeal who d) st = cancel_deal who d st"
| "market_step cfg (now, gate, ReapDeal who d) st = reap_deal now d st"

section \<open>The invariant\<close>

interpretation deal_quota: open_quota "\<lambda>d. \<not> dl_closed d" dl_proposer "\<lambda>d. d\<lparr>dl_closed := True\<rparr>"
  by unfold_locales simp

text \<open>The deals the log reports as closed.\<close>

fun closed_in_log :: "'a market_event list \<Rightarrow> nat list" where
  "closed_in_log [] = []"
| "closed_in_log (DealClosed d i # es) = d # closed_in_log es"
| "closed_in_log (_ # es) = closed_in_log es"

lemma closed_in_log_append [simp]: "closed_in_log (es @ fs) = closed_in_log es @ closed_in_log fs"
  by (induction es rule: closed_in_log.induct) simp_all

definition deal_parties_ok :: "(nat \<rightharpoonup> 'a offer) \<Rightarrow> 'a deal \<Rightarrow> bool" where
  "deal_parties_ok ofs d = (dl_proposer d \<noteq> dl_counterparty d
     \<and> (\<exists>o1. ofs (dl_offer d) = Some o1 \<and> of_offerer o1 \<in> {dl_proposer d, dl_counterparty d}))"

interpretation offer_listing: active_listing of_offerer of_withdrawn "\<lambda>o1. o1\<lparr>of_withdrawn := True\<rparr>"
  by unfold_locales simp_all

definition listing_ok :: "market_config \<Rightarrow> 'a market \<Rightarrow> bool" where
  "listing_ok cfg st = offer_listing.listed_ok (max_per_mask cfg) (offers st) (offers_of st) (next_id st)"

definition closed_ids :: "'a market \<Rightarrow> nat set" where
  "closed_ids st = {d. \<exists>dl. deals st d = Some dl \<and> dl_closed dl}"

definition market_ok :: "market_config \<Rightarrow> 'a market \<Rightarrow> bool" where
  "market_ok cfg st = (deal_quota.quota_ok (max_open_deals cfg) (deals st) (open_deals_of st) (next_deal_id st)
     \<and> listing_ok cfg st
     \<and> (\<forall>d dl. deals st d = Some dl \<longrightarrow> deal_parties_ok (offers st) dl)
     \<and> distinct (closed_in_log (mk_log st)) \<and> set (closed_in_log (mk_log st)) = closed_ids st)"

lemma market_okD:
  assumes "market_ok cfg st"
  shows "deal_quota.quota_ok (max_open_deals cfg) (deals st) (open_deals_of st) (next_deal_id st)"
    "listing_ok cfg st" "deals st d = Some dl \<Longrightarrow> deal_parties_ok (offers st) dl"
    "distinct (closed_in_log (mk_log st))" "set (closed_in_log (mk_log st)) = closed_ids st"
  using assms by (auto simp: market_ok_def)

definition ids_left :: "'a market \<Rightarrow> bool" where
  "ids_left st = (next_id st < u64_max \<and> next_deal_id st < u64_max)"

lemma mk_emit_simps [simp]:
  "next_id (mk_emit es st) = next_id st" "next_deal_id (mk_emit es st) = next_deal_id st"
  "deals (mk_emit es st) = deals st" "open_deals_of (mk_emit es st) = open_deals_of st"
  "offers (mk_emit es st) = offers st" "offers_of (mk_emit es st) = offers_of st"
  "mk_log (mk_emit es st) = mk_log st @ es"
  by (simp_all add: mk_emit_def)

lemma parties_mono: "deal_parties_ok ofs d \<Longrightarrow>
    (\<And>i o1. ofs i = Some o1 \<Longrightarrow> \<exists>o2. ofs' i = Some o2 \<and> of_offerer o2 = of_offerer o1) \<Longrightarrow> deal_parties_ok ofs' d"
  unfolding deal_parties_ok_def by metis

lemma publish_ok:
  assumes ok: "market_ok cfg st" and left: "ids_left st" and p: "publish cfg gate now who detail cat st = Inr st'"
  shows "market_ok cfg st'"
proof -
  note o = market_okD [OF ok]
  let ?i = "next_id st"
  from p have len: "length (offers_of st who) < max_per_mask cfg"
    and st': "st' = mk_emit [Published ?i who detail] (st\<lparr>
           offers_of := (offers_of st)(who := offers_of st who @ [?i]),
           offers := (offers st)(?i \<mapsto> \<lparr>of_offerer = who, of_detail = detail, of_category = cat,
             of_at = now, of_withdrawn = False\<rparr>),
           next_id := sat_add u64_max ?i 1\<rparr>)"
    unfolding publish_def Let_def guards by auto
  let ?o = "\<lparr>of_offerer = who, of_detail = detail, of_category = cat, of_at = now, of_withdrawn = False\<rparr>"
  have new: "offers st ?i = None" using o(2) unfolding listing_ok_def offer_listing.listed_ok_def by fastforce
  have "listing_ok cfg st'"
    using offer_listing.listed_add [OF o(2) [unfolded listing_ok_def], of ?o] len left
    by (simp add: st' listing_ok_def ids_left_def)
  moreover have "deal_parties_ok (offers st') dl" if "deals st' d = Some dl" for d dl
    using that by (intro parties_mono [OF o(3) [of d]]) (auto simp: st' new)
  ultimately show ?thesis using o by (simp add: market_ok_def st' closed_ids_def)
qed

lemma withdraw_offer_ok:
  assumes ok: "market_ok cfg st" and p: "withdraw_offer who i st = Inr st'"
  shows "market_ok cfg st'"
proof -
  note o = market_okD [OF ok]
  from p obtain o1 where o1: "offers st i = Some o1" "of_offerer o1 = who" "\<not> of_withdrawn o1"
    and st': "st' = mk_emit [OfferWithdrawn i] (st\<lparr>
        offers := (offers st)(i \<mapsto> o1\<lparr>of_withdrawn := True\<rparr>),
        offers_of := (offers_of st)(who := filter (\<lambda>x. x \<noteq> i) (offers_of st who))\<rparr>)"
    unfolding withdraw_offer_def guards by auto
  have "listing_ok cfg st'"
    using offer_listing.listed_withdraw [OF o(2) [unfolded listing_ok_def] o1(1,3)] o1(2) by (simp add: st' listing_ok_def)
  moreover have "deal_parties_ok (offers st') dl" if "deals st' d = Some dl" for d dl
    using that by (intro parties_mono [OF o(3) [of d]]) (auto simp: st' o1)
  ultimately show ?thesis using o by (simp add: market_ok_def st' closed_ids_def)
qed

lemma propose_deal_ok:
  assumes ok: "market_ok cfg st" and left: "ids_left st" and p: "propose_deal cfg now who i cp st = Inr st'"
  shows "market_ok cfg st'"
proof -
  note o = market_okD [OF ok]
  let ?d = "next_deal_id st"
  let ?dl = "\<lparr>dl_offer = i, dl_proposer = who, dl_counterparty = cp, dl_at = now,
     dl_expires = sat_add u32_max now (deal_ttl cfg), dl_closed = False\<rparr>"
  from p obtain o1 where g: "who \<noteq> cp" "offers st i = Some o1" "of_offerer o1 = who \<or> of_offerer o1 = cp"
      "slot_count (open_deals_of st) who < max_open_deals cfg"
    and st': "st' = mk_emit [DealProposed ?d i who cp] (st\<lparr>
          open_deals_of := (open_deals_of st)(who \<mapsto> slot_count (open_deals_of st) who + 1),
          deals := (deals st)(?d \<mapsto> ?dl), next_deal_id := sat_add u64_max ?d 1\<rparr>)"
    unfolding propose_deal_def Let_def guards by auto
  have new: "deals st ?d = None" using o(1) unfolding deal_quota.quota_ok_def by fastforce
  have "deal_quota.quota_ok (max_open_deals cfg) (deals st') (open_deals_of st') (next_deal_id st')"
    using deal_quota.quota_add [OF o(1), of ?dl] g left by (simp add: st' ids_left_def)
  moreover have "closed_ids st' = closed_ids st" using new by (auto simp: st' closed_ids_def)
  ultimately show ?thesis using o g by (auto simp: market_ok_def st' listing_ok_def deal_parties_ok_def)
qed

lemma deal_leaves_ok:
  assumes ok: "market_ok cfg st" and dl: "deals st d = Some dl" "\<not> dl_closed dl"
  shows "closed_in_log es = [] \<Longrightarrow> market_ok cfg (mk_emit es (st\<lparr>deals := (deals st)(d := None),
       open_deals_of := release_slot (dl_proposer dl) (open_deals_of st)\<rparr>))"
    and "market_ok cfg (mk_emit [OnDealClosed i a b, DealClosed d i] (st\<lparr>deals := (deals st)(d \<mapsto> dl\<lparr>dl_closed := True\<rparr>),
       open_deals_of := release_slot (dl_proposer dl) (open_deals_of st)\<rparr>))"
proof -
  note o = market_okD [OF ok]
  assume es: "closed_in_log es = []"
  have "closed_ids (st\<lparr>deals := (deals st)(d := None)\<rparr>) = closed_ids st" using dl by (auto simp: closed_ids_def)
  then show "market_ok cfg (mk_emit es (st\<lparr>deals := (deals st)(d := None),
       open_deals_of := release_slot (dl_proposer dl) (open_deals_of st)\<rparr>))"
    using o deal_quota.quota_remove [OF o(1) dl(1)] dl es
    by (auto simp: market_ok_def listing_ok_def closed_ids_def split: if_splits)
next
  note o = market_okD [OF ok]
  have new: "d \<notin> closed_ids st" using dl by (simp add: closed_ids_def)
  have "closed_ids (st\<lparr>deals := (deals st)(d \<mapsto> dl\<lparr>dl_closed := True\<rparr>)\<rparr>) = insert d (closed_ids st)"
    by (auto simp: closed_ids_def)
  then show "market_ok cfg (mk_emit [OnDealClosed i a b, DealClosed d i] (st\<lparr>deals := (deals st)(d \<mapsto> dl\<lparr>dl_closed := True\<rparr>),
       open_deals_of := release_slot (dl_proposer dl) (open_deals_of st)\<rparr>))"
    using o deal_quota.quota_finish [OF o(1) dl(1), of dl] dl new
    by (auto simp: market_ok_def listing_ok_def deal_parties_ok_def closed_ids_def)
qed

lemma market_step_ok:
  assumes ok: "market_ok cfg st" and left: "ids_left st" and step: "market_step cfg c st = Inr st'"
  shows "market_ok cfg st'"
proof -
  obtain now gate call where c: "c = (now, gate, call)" by (cases c)
  show ?thesis
  proof (cases call)
    case (ConfirmDeal who d)
    then show ?thesis using step deal_leaves_ok(2) [OF ok] by (auto simp: c confirm_deal_def guards)
  next
    case (CancelDeal who d)
    then show ?thesis using step deal_leaves_ok(1) [OF ok, of d] by (auto simp: c cancel_deal_def guards)
  next
    case (ReapDeal who d)
    then show ?thesis using step deal_leaves_ok(1) [OF ok, of d] by (auto simp: c reap_deal_def guards)
  qed (use step publish_ok [OF ok left] withdraw_offer_ok [OF ok] propose_deal_ok [OF ok left] in \<open>auto simp: c\<close>)
qed

lemma market_step_ids: "market_step cfg c st = Inr st' \<Longrightarrow> ids_left st' \<Longrightarrow> ids_left st"
proof -
  assume step: "market_step cfg c st = Inr st'" and left: "ids_left st'"
  obtain now gate call where c: "c = (now, gate, call)" by (cases c)
  have "next_id st \<le> next_id st' \<or> next_id st' = u64_max"
    "next_deal_id st \<le> next_deal_id st' \<or> next_deal_id st' = u64_max"
    using step by (cases call; auto simp: c publish_def withdraw_offer_def propose_deal_def confirm_deal_def
        cancel_deal_def reap_deal_def guards Let_def sat_add_def)+
  with left show ?thesis by (auto simp: ids_left_def)
qed

lemma market_ok_empty: "market_ok cfg empty_market"
  by (simp add: market_ok_def empty_market_def listing_ok_def closed_ids_def deal_quota.quota_start offer_listing.listed_start)

interpretation market_calls: call_system "market_step cfg" "\<lambda>_. True" "\<lambda>st. ids_left st \<longrightarrow> market_ok cfg st"
  for cfg
  by unfold_locales (metis market_step_ids market_step_ok)

lemma market_reachable: "ids_left (run_calls (market_step cfg) calls empty_market) \<Longrightarrow>
    market_ok cfg (run_calls (market_step cfg) calls empty_market)"
  using market_calls.run_inv [of calls empty_market cfg, OF _ impI [OF market_ok_empty]] by (simp add: list.pred_set)

text \<open>A closed deal stays as it is.\<close>

lemma deal_frozen:
  assumes step: "market_step cfg c st = Inr st'" and ok: "market_ok cfg st"
    and dl: "deals st d = Some dl" "dl_closed dl"
  shows "deals st' d = Some dl"
proof -
  obtain now gate call where c: "c = (now, gate, call)" by (cases c)
  have "d < next_deal_id st" using market_okD(1) [OF ok] dl(1) by (auto simp: deal_quota.quota_ok_def)
  then show ?thesis
    using step dl by (cases call; auto simp: c publish_def withdraw_offer_def propose_deal_def confirm_deal_def
        cancel_deal_def reap_deal_def guards Let_def)
qed

interpretation market_frozen: call_system "market_step cfg" "\<lambda>_. True"
    "\<lambda>st. ids_left st \<longrightarrow> market_ok cfg st \<and> deals st d = Some dl \<and> dl_closed dl"
  for cfg d dl
  by unfold_locales (metis market_step_ids market_step_ok deal_frozen)

section \<open>Properties\<close>

text \<open>
  The market's books are exact. After any calls that leave ids to give: the counter that rations a
  mask's open deals is the number of its deals not closed, at most \<open>MaxOpenDealsPerMask\<close>; and its listing is
  exactly its offers not withdrawn, without repetition and at most \<open>MaxPerMask\<close>.
\<close>

theorem market_books_exact:
  assumes "st = run_calls (market_step cfg) calls empty_market" "ids_left st"
  shows "card {d. \<exists>dl. deals st d = Some dl \<and> \<not> dl_closed dl \<and> dl_proposer dl = who} = slot_count (open_deals_of st) who
    \<and> slot_count (open_deals_of st) who \<le> max_open_deals cfg
    \<and> set (offers_of st who) = {i. \<exists>o1. offers st i = Some o1 \<and> of_offerer o1 = who \<and> \<not> of_withdrawn o1}
    \<and> distinct (offers_of st who) \<and> length (offers_of st who) \<le> max_per_mask cfg"
proof -
  have ok: "market_ok cfg st" using market_reachable assms by blast
  from market_okD(1,2) [OF ok] show ?thesis
    by (simp add: deal_quota.quota_ok_def deal_quota.open_ids_def listing_ok_def offer_listing.listed_ok_def offer_listing.active_ids_def)
qed

definition demo_market :: market_config where
  "demo_market = \<lparr>max_open_deals = 2, deal_ttl = 100, max_per_mask = 3\<rparr>"

definition demo_trades :: "(nat \<times> (nat \<Rightarrow> unit option) \<times> nat market_call) list" where
  "demo_trades = [(1, \<lambda>_. None, Publish 7 55 [1]), (2, \<lambda>_. None, Publish 7 56 []), (3, \<lambda>_. None, ProposeDeal 8 0 7),
     (4, \<lambda>_. None, ProposeDeal 7 1 9), (5, \<lambda>_. None, ConfirmDeal 7 0), (6, \<lambda>_. None, WithdrawOffer 7 0)]"

lemma demo_trades_eval: "deals (run_calls (market_step demo_market) demo_trades empty_market) 0
      = Some \<lparr>dl_offer = 0, dl_proposer = 8, dl_counterparty = 7, dl_at = 3, dl_expires = 103, dl_closed = True\<rparr>"
  and demo_trades_left: "ids_left (run_calls (market_step demo_market) demo_trades empty_market)"
  by (simp_all add: demo_trades_def demo_market_def empty_market_def publish_def withdraw_offer_def
      propose_deal_def confirm_deal_def mk_emit_def apply_call_def slot_count_def release_slot_def Let_def
      sat_add_def u64_max_def u32_max_def ids_left_def)

theorem market_books_exact_witness:
  "let st = run_calls (market_step demo_market) demo_trades empty_market
   in card {d. \<exists>dl. deals st d = Some dl \<and> \<not> dl_closed dl \<and> dl_proposer dl = 7} = slot_count (open_deals_of st) 7
     \<and> slot_count (open_deals_of st) 7 \<le> max_open_deals demo_market
     \<and> set (offers_of st 7) = {i. \<exists>o1. offers st i = Some o1 \<and> of_offerer o1 = 7 \<and> \<not> of_withdrawn o1}
     \<and> distinct (offers_of st 7) \<and> length (offers_of st 7) \<le> max_per_mask demo_market"
  unfolding Let_def by (rule market_books_exact [OF refl demo_trades_left])

text \<open>
  A closed deal is final and counted once. Once a deal is closed, later calls never change or remove
  it, its closure is reported exactly once, and its two parties differ and one of them is the offerer of
  its offer.
\<close>

theorem closed_deal_final:
  fixes before after :: "(nat \<times> ('a \<Rightarrow> 'e option) \<times> 'a market_call) list"
  assumes "st = run_calls (market_step cfg) before empty_market" "deals st d = Some dl" "dl_closed dl"
    and "st' = run_calls (market_step cfg) after st" "ids_left st'"
  shows "deals st' d = Some dl \<and> count_list (closed_in_log (mk_log st')) d = 1
    \<and> dl_proposer dl \<noteq> dl_counterparty dl
    \<and> (\<exists>o1. offers st' (dl_offer dl) = Some o1 \<and> of_offerer o1 \<in> {dl_proposer dl, dl_counterparty dl})"
proof -
  have st': "st' = run_calls (market_step cfg) (before @ after) empty_market"
    using assms(1,4) by (simp add: run_calls_append)
  have ok': "market_ok cfg st'" using market_reachable assms(5) unfolding st' by blast
  have "ids_left st \<longrightarrow> market_ok cfg st" unfolding assms(1) using market_reachable by blast
  with assms(2,3) have "ids_left st \<longrightarrow> market_ok cfg st \<and> deals st d = Some dl \<and> dl_closed dl" by blast
  from market_frozen.run_inv [OF _ this, of after] have d: "deals st' d = Some dl"
    using assms(4,5) by (simp add: list.pred_set)
  have "d \<in> set (closed_in_log (mk_log st'))"
    using market_okD(5) [OF ok'] d assms(3) by (simp add: closed_ids_def)
  with market_okD(4) [OF ok'] have "count_list (closed_in_log (mk_log st')) d = 1"
    by (simp add: count_list_distinct)
  with d market_okD(3) [OF ok' d] show ?thesis by (simp add: deal_parties_ok_def)
qed

theorem closed_deal_final_witness:
  "\<exists>st st' dl. deals st' 0 = Some dl \<and> dl_closed dl \<and> st' = run_calls (market_step demo_market) demo_trades st
     \<and> count_list (closed_in_log (mk_log st')) 0 = 1"
proof -
  let ?st = "run_calls (market_step demo_market) demo_trades empty_market"
  have "?st = run_calls (market_step demo_market) ([] :: (nat \<times> (nat \<Rightarrow> unit option) \<times> nat market_call) list) ?st" by simp
  from closed_deal_final [OF refl demo_trades_eval _ this demo_trades_left]
  have "count_list (closed_in_log (mk_log ?st)) 0 = 1" by simp
  with demo_trades_eval show ?thesis by (intro exI [of _ empty_market] exI [of _ ?st]) simp
qed

text \<open>
  A deal closes only by consent in time: the call that closes it is \<open>confirm_deal\<close> signed by its
  counterparty, not after its expiry, and while its offer is still on the market.
\<close>

theorem deal_closes_by_consent:
  assumes "market_step cfg (now, gate, call) st = Inr st'" "deals st' d = Some dl" "dl_closed dl"
    and "\<not> (\<exists>dl0. deals st d = Some dl0 \<and> dl_closed dl0)"
  shows "call = ConfirmDeal (dl_counterparty dl) d \<and> now \<le> dl_expires dl
    \<and> deals st d = Some (dl\<lparr>dl_closed := False\<rparr>)
    \<and> (\<exists>o1. offers st (dl_offer dl) = Some o1 \<and> \<not> of_withdrawn o1)"
  using assms
  by (cases call) (auto simp: publish_def withdraw_offer_def propose_deal_def confirm_deal_def
      cancel_deal_def reap_deal_def guards Let_def split: if_splits)

theorem deal_closes_by_consent_witness:
  "\<exists>st' (dl :: nat deal). market_step demo_market (5, \<lambda>_. (None :: unit option), ConfirmDeal 7 0)
        (run_calls (market_step demo_market) (take 4 demo_trades) empty_market) = Inr st'
    \<and> (\<exists>o1. offers (run_calls (market_step demo_market) (take 4 demo_trades) empty_market) (dl_offer dl) = Some o1
          \<and> \<not> of_withdrawn o1)"
proof -
  let ?st = "run_calls (market_step demo_market) (take 4 demo_trades) empty_market"
  have "\<exists>st' dl. market_step demo_market (5, \<lambda>_. (None :: unit option), ConfirmDeal 7 0) ?st = Inr st'
      \<and> deals st' 0 = Some dl \<and> dl_closed dl \<and> \<not> (\<exists>dl0. deals ?st 0 = Some dl0 \<and> dl_closed dl0)"
    by (simp add: demo_trades_def demo_market_def empty_market_def publish_def
      propose_deal_def confirm_deal_def mk_emit_def apply_call_def slot_count_def Let_def
      sat_add_def u64_max_def u32_max_def)
  then obtain st' dl where w: "market_step demo_market (5, \<lambda>_. (None :: unit option), ConfirmDeal 7 0) ?st = Inr st'"
    "deals st' 0 = Some dl" "dl_closed dl" "\<not> (\<exists>dl0. deals ?st 0 = Some dl0 \<and> dl_closed dl0)" by blast
  from deal_closes_by_consent [OF w] w(1) show ?thesis by (intro exI [of _ st'] exI [of _ dl]) simp
qed

end
