(* ===== verification/PactsPallet.thy ===== *)
theory PactsPallet
imports OpenSlots
begin

text \<open>
  Private pacts, \<open>chain/pallet-pacts/src/lib.rs\<close>: the five extrinsics. The document never reaches the
  chain, so a commitment or a sealed key is any value (\<open>'c\<close>). \<open>parties\<close> is a \<open>BoundedVec\<close> argument: its
  bound \<open>MaxParties\<close> is enforced when it is decoded. Ids are \<open>u64\<close>, block numbers \<open>u32\<close>.
\<close>

section \<open>Storage\<close>

record ('a, 'c) pact =
  pa_commitment :: 'c
  pa_proposer :: 'a
  pa_parties :: "'a list"
  pa_signed :: "'a list"
  pa_at :: nat
  pa_expires :: nat
  pa_completed :: bool

record pacts_config =
  max_parties :: nat
  max_open_per_mask :: nat
  max_pact_ttl :: nat

datatype ('a, 'c) pacts_event =
    PactProposed nat 'a 'c
  | PactSigned nat 'a
  | PactCompleted nat 'c
  | PactWithdrawn nat
  | PactReaped nat
  | PactSealed 'c

datatype pacts_error =
    TooFewParties | DuplicateParty | NotAParty | BadTtl | TooManyOpenPacts | PactNotFound | AlreadySigned
  | AlreadyCompleted | PactExpired | PactNotExpired | NotProposer | AlreadySealed

record ('a, 'c) pacts =
  next_pact_id :: nat
  pacts :: "nat \<rightharpoonup> ('a, 'c) pact"
  open_of :: "'a \<rightharpoonup> nat"
  sealed :: "'c \<rightharpoonup> nat"
  pa_log :: "('a, 'c) pacts_event list"

definition empty_pacts :: "('a, 'c) pacts" where
  "empty_pacts = \<lparr>next_pact_id = 0, pacts = Map.empty, open_of = Map.empty, sealed = Map.empty, pa_log = []\<rparr>"

definition pa_emit :: "('a, 'c) pacts_event list \<Rightarrow> ('a, 'c) pacts \<Rightarrow> ('a, 'c) pacts" where
  "pa_emit es st = st\<lparr>pa_log := pa_log st @ es\<rparr>"

section \<open>The extrinsics\<close>

text \<open>The duplicate check of \<open>propose\<close>: for each position, no later position holds the same mask.\<close>

fun has_duplicate :: "'a list \<Rightarrow> bool" where
  "has_duplicate [] = False"
| "has_duplicate (p # ps) = (list_ex (\<lambda>q. q = p) ps \<or> has_duplicate ps)"

definition pact_propose ::
  "pacts_config \<Rightarrow> nat \<Rightarrow> 'a \<Rightarrow> 'c \<Rightarrow> 'a list \<Rightarrow> nat \<Rightarrow> ('a, 'c) pacts \<Rightarrow> pacts_error + ('a, 'c) pacts" where
  "pact_propose cfg now who commitment parties ttl st =
     (if \<not> length parties \<ge> 2 then Inl TooFewParties
      else if has_duplicate parties then Inl DuplicateParty
      else if who \<notin> set parties then Inl NotAParty
      else if \<not> (ttl \<noteq> 0 \<and> ttl \<le> max_pact_ttl cfg) then Inl BadTtl
      else if \<not> slot_count (open_of st) who < max_open_per_mask cfg then Inl TooManyOpenPacts
      else if \<not> 0 < max_parties cfg then Inl TooFewParties
      else
        let i = next_pact_id st
        in Inr (pa_emit [PactProposed i who commitment] (st\<lparr>
          open_of := (open_of st)(who \<mapsto> slot_count (open_of st) who + 1),
          pacts := (pacts st)(i \<mapsto> \<lparr>pa_commitment = commitment, pa_proposer = who, pa_parties = parties,
            pa_signed = [who], pa_at = now, pa_expires = sat_add u32_max now ttl, pa_completed = False\<rparr>),
          next_pact_id := sat_add u64_max i 1\<rparr>)))"

definition pact_sign ::
  "pacts_config \<Rightarrow> nat \<Rightarrow> 'a \<Rightarrow> nat \<Rightarrow> ('a, 'c) pacts \<Rightarrow> pacts_error + ('a, 'c) pacts" where
  "pact_sign cfg now who i st =
     (case pacts st i of None \<Rightarrow> Inl PactNotFound | Some p \<Rightarrow>
      if pa_completed p then Inl AlreadyCompleted
      else if \<not> now \<le> pa_expires p then Inl PactExpired
      else if who \<notin> set (pa_parties p) then Inl NotAParty
      else if who \<in> set (pa_signed p) then Inl AlreadySigned
      else if \<not> length (pa_signed p) < max_parties cfg then Inl AlreadySigned
      else
        let signed = pa_signed p @ [who]
        in if length signed = length (pa_parties p)
           then Inr (pa_emit [PactSigned i who, PactCompleted i (pa_commitment p)] (st\<lparr>
                  pacts := (pacts st)(i \<mapsto> p\<lparr>pa_signed := signed, pa_completed := True\<rparr>),
                  open_of := release_slot (pa_proposer p) (open_of st)\<rparr>))
           else Inr (pa_emit [PactSigned i who] (st\<lparr>pacts := (pacts st)(i \<mapsto> p\<lparr>pa_signed := signed\<rparr>)\<rparr>)))"

definition pact_withdraw :: "'a \<Rightarrow> nat \<Rightarrow> ('a, 'c) pacts \<Rightarrow> pacts_error + ('a, 'c) pacts" where
  "pact_withdraw who i st =
     (case pacts st i of None \<Rightarrow> Inl PactNotFound | Some p \<Rightarrow>
      if pa_proposer p \<noteq> who then Inl NotProposer
      else if pa_completed p then Inl AlreadyCompleted
      else Inr (pa_emit [PactWithdrawn i] (st\<lparr>pacts := (pacts st)(i := None),
             open_of := release_slot who (open_of st)\<rparr>)))"

definition pact_reap :: "nat \<Rightarrow> nat \<Rightarrow> ('a, 'c) pacts \<Rightarrow> pacts_error + ('a, 'c) pacts" where
  "pact_reap now i st =
     (case pacts st i of None \<Rightarrow> Inl PactNotFound | Some p \<Rightarrow>
      if pa_completed p then Inl AlreadyCompleted
      else if \<not> now > pa_expires p then Inl PactNotExpired
      else Inr (pa_emit [PactReaped i] (st\<lparr>pacts := (pacts st)(i := None),
             open_of := release_slot (pa_proposer p) (open_of st)\<rparr>)))"

definition pact_seal :: "nat \<Rightarrow> 'c \<Rightarrow> ('a, 'c) pacts \<Rightarrow> pacts_error + ('a, 'c) pacts" where
  "pact_seal now key st =
     (if sealed st key \<noteq> None then Inl AlreadySealed
      else Inr (pa_emit [PactSealed key] (st\<lparr>sealed := (sealed st)(key \<mapsto> now)\<rparr>)))"

datatype ('a, 'c) pacts_call =
    PactPropose 'a 'c "'a list" nat
  | PactSign 'a nat
  | PactWithdraw 'a nat
  | PactReap 'a nat
  | PactSeal 'a 'c

fun pacts_step ::
  "pacts_config \<Rightarrow> nat \<times> ('a, 'c) pacts_call \<Rightarrow> ('a, 'c) pacts \<Rightarrow> pacts_error + ('a, 'c) pacts" where
  "pacts_step cfg (now, PactPropose who c ps ttl) st = pact_propose cfg now who c ps ttl st"
| "pacts_step cfg (now, PactSign who i) st = pact_sign cfg now who i st"
| "pacts_step cfg (now, PactWithdraw who i) st = pact_withdraw who i st"
| "pacts_step cfg (now, PactReap who i) st = pact_reap now i st"
| "pacts_step cfg (now, PactSeal who k) st = pact_seal now k st"

section \<open>The invariant\<close>

lemma has_duplicate_iff: "has_duplicate ps \<longleftrightarrow> \<not> distinct ps"
  by (induction ps) (auto simp: list_ex_iff)

interpretation pact_quota: open_quota "\<lambda>p. \<not> pa_completed p" pa_proposer "\<lambda>p. p\<lparr>pa_completed := True\<rparr>"
  by unfold_locales simp

definition pact_ok :: "('a, 'c) pact \<Rightarrow> bool" where
  "pact_ok p = (distinct (pa_parties p) \<and> 2 \<le> length (pa_parties p) \<and> distinct (pa_signed p)
     \<and> set (pa_signed p) \<subseteq> set (pa_parties p) \<and> pa_proposer p \<in> set (pa_signed p)
     \<and> pa_completed p = (set (pa_signed p) = set (pa_parties p)))"

definition pacts_ok :: "pacts_config \<Rightarrow> ('a, 'c) pacts \<Rightarrow> bool" where
  "pacts_ok cfg st = (pact_quota.quota_ok (max_open_per_mask cfg) (pacts st) (open_of st) (next_pact_id st)
     \<and> (\<forall>i p. pacts st i = Some p \<longrightarrow> pact_ok p))"

lemma pact_new_ok:
  assumes "distinct ps" "2 \<le> length ps" "who \<in> set ps"
  shows "pact_ok \<lparr>pa_commitment = c, pa_proposer = who, pa_parties = ps, pa_signed = [who], pa_at = n,
    pa_expires = e, pa_completed = False\<rparr>"
proof -
  have "card (set ps) = length ps" by (rule distinct_card [OF assms(1)])
  then have "set ps \<noteq> {who}" using assms(2) by auto
  with assms show ?thesis by (auto simp: pact_ok_def)
qed

lemma pact_signed_ok:
  assumes "pact_ok p" "\<not> pa_completed p" "who \<in> set (pa_parties p)" "who \<notin> set (pa_signed p)"
  defines "done \<equiv> length (pa_signed p @ [who]) = length (pa_parties p)"
  shows "pact_ok (p\<lparr>pa_signed := pa_signed p @ [who], pa_completed := done\<rparr>)"
proof -
  let ?s = "pa_signed p @ [who]"
  have d: "distinct ?s" "distinct (pa_parties p)" "set ?s \<subseteq> set (pa_parties p)"
    using assms by (auto simp: pact_ok_def)
  then have "card (set ?s) = length ?s" "card (set (pa_parties p)) = length (pa_parties p)"
    by (simp_all only: distinct_card)
  with d(3) have "done = (set ?s = set (pa_parties p))"
    unfolding done_def by (metis List.finite_set card_subset_eq)
  with assms d show ?thesis by (auto simp: pact_ok_def)
qed

definition pact_ids_left :: "('a, 'c) pacts \<Rightarrow> bool" where
  "pact_ids_left st = (next_pact_id st < u64_max)"

lemma pa_emit_simps [simp]:
  "next_pact_id (pa_emit es st) = next_pact_id st" "pacts (pa_emit es st) = pacts st"
  "open_of (pa_emit es st) = open_of st" "sealed (pa_emit es st) = sealed st"
  "pa_log (pa_emit es st) = pa_log st @ es"
  by (simp_all add: pa_emit_def)

lemma pact_propose_ok:
  assumes ok: "pacts_ok cfg st" and left: "pact_ids_left st" and p: "pact_propose cfg now who c ps ttl st = Inr st'"
  shows "pacts_ok cfg st'"
proof -
  let ?p = "\<lparr>pa_commitment = c, pa_proposer = who, pa_parties = ps, pa_signed = [who], pa_at = now,
     pa_expires = sat_add u32_max now ttl, pa_completed = False\<rparr>"
  from p have g: "distinct ps" "2 \<le> length ps" "who \<in> set ps" "slot_count (open_of st) who < max_open_per_mask cfg"
    and st': "st' = pa_emit [PactProposed (next_pact_id st) who c] (st\<lparr>
          open_of := (open_of st)(who \<mapsto> slot_count (open_of st) who + 1),
          pacts := (pacts st)(next_pact_id st \<mapsto> ?p), next_pact_id := sat_add u64_max (next_pact_id st) 1\<rparr>)"
    unfolding pact_propose_def Let_def guards by (simp_all add: has_duplicate_iff)
  have q: "pact_quota.quota_ok (max_open_per_mask cfg) (pacts st) (open_of st) (next_pact_id st)"
    using ok by (simp add: pacts_ok_def)
  have "pact_quota.quota_ok (max_open_per_mask cfg) (pacts st') (open_of st') (next_pact_id st')"
    using pact_quota.quota_add [OF q, of ?p] g left by (simp add: st' pact_ids_left_def)
  then show ?thesis using ok pact_new_ok [OF g(1-3)] by (simp add: pacts_ok_def st')
qed

lemma pact_sign_ok:
  assumes ok: "pacts_ok cfg st" and s: "pact_sign cfg now who i st = Inr st'"
  shows "pacts_ok cfg st'"
proof -
  from s obtain p where p: "pacts st i = Some p" "\<not> pa_completed p" "who \<in> set (pa_parties p)" "who \<notin> set (pa_signed p)"
    unfolding pact_sign_def guards by auto
  let ?done = "length (pa_signed p @ [who]) = length (pa_parties p)"
  let ?p = "p\<lparr>pa_signed := pa_signed p @ [who], pa_completed := ?done\<rparr>"
  from s p have st': "pacts st' = (pacts st)(i \<mapsto> ?p)" "next_pact_id st' = next_pact_id st"
    "open_of st' = (if ?done then release_slot (pa_proposer p) (open_of st) else open_of st)"
    by (auto simp: pact_sign_def guards Let_def split: if_splits)
  have q: "pact_quota.quota_ok (max_open_per_mask cfg) (pacts st) (open_of st) (next_pact_id st)" "pact_ok p"
    using ok p(1) by (simp_all add: pacts_ok_def)
  have "pact_quota.quota_ok (max_open_per_mask cfg) (pacts st') (open_of st') (next_pact_id st')"
    using pact_quota.quota_leave [OF q(1) p(1,2), of "pacts st'" "Some ?p"] p
      pact_quota.quota_touch [OF q(1) p(1), of ?p] by (cases ?done) (simp_all add: st')
  then show ?thesis using ok pact_signed_ok [OF q(2) p(2-4)] by (simp add: pacts_ok_def st')
qed

lemma pact_leave_ok:
  assumes "pacts_ok cfg st" "pacts st i = Some p" "\<not> pa_completed p"
  shows "pacts_ok cfg (pa_emit es (st\<lparr>pacts := (pacts st)(i := None), open_of := release_slot (pa_proposer p) (open_of st)\<rparr>))"
  using assms pact_quota.quota_remove [of _ "pacts st" _ _ i p] by (simp add: pacts_ok_def)

lemma pacts_step_ok:
  assumes ok: "pacts_ok cfg st" and left: "pact_ids_left st" and step: "pacts_step cfg c st = Inr st'"
  shows "pacts_ok cfg st'"
proof -
  obtain now call where c: "c = (now, call)" by (cases c)
  show ?thesis
  proof (cases call)
    case (PactWithdraw who i)
    then show ?thesis using step pact_leave_ok [OF ok, of i] by (auto simp: c pact_withdraw_def guards)
  next
    case (PactReap who i)
    then show ?thesis using step pact_leave_ok [OF ok, of i] by (auto simp: c pact_reap_def guards)
  next
    case (PactSeal who k)
    then show ?thesis using step ok by (auto simp: c pact_seal_def guards pacts_ok_def)
  qed (use step pact_propose_ok [OF ok left] pact_sign_ok [OF ok] in \<open>auto simp: c\<close>)
qed

lemma pacts_step_ids: "pacts_step cfg c st = Inr st' \<Longrightarrow> pact_ids_left st' \<Longrightarrow> pact_ids_left st"
proof -
  assume step: "pacts_step cfg c st = Inr st'" and left: "pact_ids_left st'"
  obtain now call where c: "c = (now, call)" by (cases c)
  have "next_pact_id st \<le> next_pact_id st' \<or> next_pact_id st' = u64_max"
    using step by (cases call; auto simp: c pact_propose_def pact_sign_def pact_withdraw_def pact_reap_def
        pact_seal_def guards Let_def sat_add_def split: if_splits)
  with left show ?thesis by (auto simp: pact_ids_left_def)
qed

lemma pacts_ok_empty: "pacts_ok cfg empty_pacts"
  by (simp add: pacts_ok_def empty_pacts_def pact_quota.quota_start)

interpretation pacts_calls: call_system "pacts_step cfg" "\<lambda>_. True" "\<lambda>st. pact_ids_left st \<longrightarrow> pacts_ok cfg st"
  for cfg
  by unfold_locales (metis pacts_step_ids pacts_step_ok)

lemma pacts_reachable: "pact_ids_left (run_calls (pacts_step cfg) calls empty_pacts) \<Longrightarrow>
    pacts_ok cfg (run_calls (pacts_step cfg) calls empty_pacts)"
  using pacts_calls.run_inv [of calls empty_pacts cfg, OF _ impI [OF pacts_ok_empty]] by (simp add: list.pred_set)

lemma pact_frozen:
  assumes step: "pacts_step cfg c st = Inr st'" and ok: "pacts_ok cfg st"
    and p: "pacts st i = Some p" "pa_completed p"
  shows "pacts st' i = Some p"
proof -
  obtain now call where c: "c = (now, call)" by (cases c)
  have "i < next_pact_id st" using ok p(1) by (auto simp: pacts_ok_def pact_quota.quota_ok_def)
  then show ?thesis
    using step p by (cases call; auto simp: c pact_propose_def pact_sign_def pact_withdraw_def pact_reap_def
        pact_seal_def guards Let_def split: if_splits)
qed

interpretation pacts_frozen: call_system "pacts_step cfg" "\<lambda>_. True"
    "\<lambda>st. pact_ids_left st \<longrightarrow> pacts_ok cfg st \<and> pacts st i = Some p \<and> pa_completed p"
  for cfg i p
  by unfold_locales (metis pacts_step_ids pacts_step_ok pact_frozen)

interpretation seals_frozen: call_system "pacts_step cfg" "\<lambda>_. True" "\<lambda>st. sealed st k = Some b"
  for cfg k b
proof
  fix c :: "nat \<times> ('a, 'b) pacts_call" and s s' :: "('a, 'b) pacts"
  assume k: "sealed s k = Some b" and step: "pacts_step cfg c s = Inr s'"
  obtain now call where c: "c = (now, call)" by (cases c)
  show "sealed s' k = Some b"
    using step k by (cases call; auto simp: c pact_propose_def pact_sign_def pact_withdraw_def pact_reap_def
        pact_seal_def guards Let_def split: if_splits)
qed

section \<open>Properties\<close>

text \<open>
  C23: a pact is completed exactly when every one of its (at least two, distinct) parties has signed, each
  once and only parties having signed, the proposer among them; and a proposer's open counter is exactly
  the number of its unfinished pacts, at most \<open>MaxOpenPerMask\<close>.
\<close>

theorem pact_completed_iff_all_signed:
  assumes "st = run_calls (pacts_step cfg) calls empty_pacts" "pact_ids_left st" "pacts st i = Some p"
  shows "(pa_completed p \<longleftrightarrow> set (pa_signed p) = set (pa_parties p))
    \<and> distinct (pa_signed p) \<and> set (pa_signed p) \<subseteq> set (pa_parties p) \<and> pa_proposer p \<in> set (pa_signed p)
    \<and> distinct (pa_parties p) \<and> 2 \<le> length (pa_parties p)
    \<and> card {j. \<exists>q. pacts st j = Some q \<and> \<not> pa_completed q \<and> pa_proposer q = who} = slot_count (open_of st) who
    \<and> slot_count (open_of st) who \<le> max_open_per_mask cfg"
proof -
  have "pacts_ok cfg st" using pacts_reachable assms(1,2) by blast
  then show ?thesis using assms(3)
    by (simp add: pacts_ok_def pact_ok_def pact_quota.quota_ok_def pact_quota.open_ids_def)
qed

definition demo_pacts :: pacts_config where
  "demo_pacts = \<lparr>max_parties = 4, max_open_per_mask = 2, max_pact_ttl = 50\<rparr>"

definition demo_signing :: "(nat \<times> (nat, nat) pacts_call) list" where
  "demo_signing = [(1, PactPropose 1 99 [1, 2, 3] 20), (2, PactSign 2 0), (3, PactPropose 1 98 [2, 1] 5),
     (4, PactSeal 9 7), (5, PactSign 3 0)]"

lemma demo_signing_eval:
  "pacts (run_calls (pacts_step demo_pacts) demo_signing empty_pacts) 0 = Some \<lparr>pa_commitment = 99,
     pa_proposer = 1, pa_parties = [1, 2, 3], pa_signed = [1, 2, 3], pa_at = 1, pa_expires = 21, pa_completed = True\<rparr>"
  and demo_signing_left: "pact_ids_left (run_calls (pacts_step demo_pacts) demo_signing empty_pacts)"
  and demo_signing_seal: "sealed (run_calls (pacts_step demo_pacts) demo_signing empty_pacts) 7 = Some 4"
  by (simp_all add: demo_signing_def demo_pacts_def empty_pacts_def pact_propose_def pact_sign_def pact_seal_def
      pa_emit_def apply_call_def slot_count_def release_slot_def Let_def sat_add_def u64_max_def u32_max_def
      pact_ids_left_def)

theorem pact_completed_iff_all_signed_witness:
  "\<exists>p. pacts (run_calls (pacts_step demo_pacts) demo_signing empty_pacts) 0 = Some p
    \<and> (pa_completed p \<longleftrightarrow> set (pa_signed p) = set (pa_parties p))
    \<and> card {j. \<exists>q. pacts (run_calls (pacts_step demo_pacts) demo_signing empty_pacts) j = Some q
          \<and> \<not> pa_completed q \<and> pa_proposer q = 1}
        = slot_count (open_of (run_calls (pacts_step demo_pacts) demo_signing empty_pacts)) 1"
  using pact_completed_iff_all_signed [OF refl demo_signing_left demo_signing_eval, of 1] demo_signing_eval
  by (elim conjE) (intro exI conjI; assumption)

text \<open>
  What is recorded is permanent: a completed pact is never changed, withdrawn or reaped by any later
  calls, and a sealed key keeps the block it was first seen at.
\<close>

theorem pacts_permanent:
  assumes "st = run_calls (pacts_step cfg) before empty_pacts" "pacts st i = Some p" "pa_completed p"
    and "sealed st k = Some b" "st' = run_calls (pacts_step cfg) after st" "pact_ids_left st'"
  shows "pacts st' i = Some p \<and> sealed st' k = Some b"
proof -
  have "pact_ids_left st \<longrightarrow> pacts_ok cfg st" unfolding assms(1) using pacts_reachable by blast
  with assms(2,3) have "pact_ids_left st \<longrightarrow> pacts_ok cfg st \<and> pacts st i = Some p \<and> pa_completed p" by simp
  from pacts_frozen.run_inv [OF _ this, of after] have "pacts st' i = Some p"
    using assms(5,6) by (simp add: list.pred_set)
  moreover from seals_frozen.run_inv [OF _ assms(4), of after cfg] have "sealed st' k = Some b"
    using assms(5) by (simp add: list.pred_set)
  ultimately show ?thesis ..
qed

theorem pacts_permanent_witness:
  "let st = run_calls (pacts_step demo_pacts) demo_signing empty_pacts;
       st' = run_calls (pacts_step demo_pacts) [(70, PactReap 5 0), (71, PactSeal 5 7), (72, PactWithdraw 1 0)] st
   in pacts st' 0 = pacts st 0 \<and> sealed st' 7 = Some 4"
proof -
  let ?st = "run_calls (pacts_step demo_pacts) demo_signing empty_pacts"
  let ?a = "[(70, PactReap 5 0), (71, PactSeal 5 7), (72, PactWithdraw 1 0)] :: (nat \<times> (nat, nat) pacts_call) list"
  have left: "pact_ids_left (run_calls (pacts_step demo_pacts) ?a ?st)"
    by (simp add: demo_signing_def demo_pacts_def empty_pacts_def pact_propose_def pact_sign_def pact_seal_def
      pact_reap_def pact_withdraw_def pa_emit_def apply_call_def slot_count_def release_slot_def Let_def
      sat_add_def u64_max_def u32_max_def pact_ids_left_def)
  from pacts_permanent [OF refl demo_signing_eval _ demo_signing_seal refl left] demo_signing_eval
  show ?thesis unfolding Let_def by simp
qed

end
