(* ===== verification/Snowball.thy ===== *)
theory Snowball
imports Frame
begin

text \<open>
  The voting core of finality: the binary node of \<open>chain/consensus-core/src/snowball.rs\<close> and its
  generalisation to block hashes, \<open>chain/consensus-core/src/finality.rs\<close>. A colour is a \<open>u8\<close>; a block hash
  is a value of any linearly ordered type (the byte order of \<open>[u8; 32]\<close>). Counts and streaks are \<open>u32\<close>
  in the source and count responses and rounds, so they are natural numbers here.

  The locale \<open>voter\<close> states what both are: a machine that hears, each round, of a leading value and its
  votes. Its lemmas (a decision is frozen, and is backed by \<open>beta\<close> consecutive rounds) are proved once.
\<close>

section \<open>The binary node\<close>

record snowball_params =
  sb_k :: nat
  sb_alpha :: nat
  sb_beta :: nat
  sb_max_rounds :: nat

definition default_params :: snowball_params where
  "default_params = \<lparr>sb_k = 20, sb_alpha = 14, sb_beta = 12, sb_max_rounds = 80\<rparr>"

record 'c voter_state =
  pref :: 'c
  streak :: nat
  decision :: "'c option"

type_synonym snowball_node = "nat voter_state"

definition new_node :: "'c \<Rightarrow> 'c voter_state" where
  "new_node initial = \<lparr>pref = initial, streak = 0, decision = None\<rparr>"

definition is_decided :: "'c voter_state \<Rightarrow> bool" where
  "is_decided n = (decision n \<noteq> None)"

text \<open>The result is the node after the round and what \<open>observe_round\<close> returns.\<close>

definition observe_round ::
  "nat list \<Rightarrow> snowball_params \<Rightarrow> bool \<Rightarrow> snowball_node \<Rightarrow> snowball_node \<times> nat option" where
  "observe_round votes p reaches_quorum n =
     (if decision n \<noteq> None then (n, None)
      else
        let ones = length (filter (\<lambda>c. c = 1) votes);
            zeros = length votes - ones;
            (color, count) = (if ones \<ge> zeros then (1, ones) else (0, zeros))
        in if count \<ge> sb_alpha p then
             let n1 = (if color = pref n then n\<lparr>streak := streak n + 1\<rparr> else n\<lparr>pref := color, streak := 1\<rparr>)
             in if streak n1 \<ge> sb_beta p \<and> reaches_quorum
                then (n1\<lparr>decision := Some color\<rparr>, Some color) else (n1, None)
           else (n\<lparr>streak := 0\<rparr>, None))"

section \<open>The finality round on hashes\<close>

text \<open>The tally of \<open>leading\<close>: how often each hash was voted (the \<open>BTreeMap\<close> of counts), in key order.\<close>

definition tally :: "'h::linorder list \<Rightarrow> ('h \<times> nat) list" where
  "tally votes = map (\<lambda>h. (h, length (filter (\<lambda>v. v = h) votes))) (sort (remdups votes))"

text \<open>\<open>max_by\<close> keeps the last of the maximal entries.\<close>

definition entry_le :: "'h::linorder \<times> nat \<Rightarrow> 'h \<times> nat \<Rightarrow> bool" where
  "entry_le a b = (snd a < snd b \<or> (snd a = snd b \<and> fst a \<le> fst b))"

fun max_entry :: "('h::linorder \<times> nat) list \<Rightarrow> ('h \<times> nat) option" where
  "max_entry [] = None"
| "max_entry (x # xs) = Some (foldl (\<lambda>best y. if entry_le best y then y else best) x xs)"

definition leading :: "'h::linorder list \<Rightarrow> ('h \<times> nat) option" where
  "leading votes = (if votes = [] then None else max_entry (tally votes))"

definition finality_observe ::
  "'h::linorder list \<Rightarrow> snowball_params \<Rightarrow> bool \<Rightarrow> 'h voter_state \<Rightarrow> 'h voter_state \<times> 'h option" where
  "finality_observe votes p reaches_quorum n =
     (if decision n \<noteq> None then (n, None)
      else case leading votes of
        Some (color, count) \<Rightarrow>
          if count \<ge> sb_alpha p then
            let n1 = (if color = pref n then n\<lparr>streak := streak n + 1\<rparr> else n\<lparr>pref := color, streak := 1\<rparr>)
            in if streak n1 \<ge> sb_beta p \<and> reaches_quorum
               then (n1\<lparr>decision := Some color\<rparr>, Some color) else (n1, None)
          else (n\<lparr>streak := 0\<rparr>, None)
      | None \<Rightarrow> (n\<lparr>streak := 0\<rparr>, None))"

text \<open>A whole run: the received votes of each round, with whether the quorum was reachable in it.\<close>

primrec binary_run :: "snowball_params \<Rightarrow> (nat list \<times> bool) list \<Rightarrow> snowball_node \<Rightarrow> snowball_node" where
  "binary_run p [] n = n"
| "binary_run p (r # rs) n = binary_run p rs (fst (observe_round (fst r) p (snd r) n))"

primrec finality_run :: "snowball_params \<Rightarrow> ('h::linorder list \<times> bool) list \<Rightarrow> 'h voter_state \<Rightarrow> 'h voter_state" where
  "finality_run p [] n = n"
| "finality_run p (r # rs) n = finality_run p rs (fst (finality_observe (fst r) p (snd r) n))"

section \<open>The common contract\<close>

text \<open>
  \<open>hears r c\<close>: the votes \<open>r\<close> carry a quorum of at least \<open>alpha\<close> for \<open>c\<close>. A voter is decided for ever,
  reinforces the one value it hears a quorum for, and decides it only at the end of \<open>beta\<close> such rounds
  while the network quorum is reachable.
\<close>

locale voter =
  fixes observe :: "'v \<Rightarrow> bool \<Rightarrow> 'c voter_state \<Rightarrow> 'c voter_state \<times> 'c option"
    and hears :: "'v \<Rightarrow> 'c \<Rightarrow> bool"
    and beta :: nat
  assumes frozen: "decision n \<noteq> None \<Longrightarrow> observe r q n = (n, None)"
    and unheard: "decision n = None \<Longrightarrow> \<nexists>c. hears r c \<Longrightarrow> observe r q n = (n\<lparr>streak := 0\<rparr>, None)"
    and heard: "decision n = None \<Longrightarrow> hears r c \<Longrightarrow>
      \<exists>n1. pref n1 = c \<and> streak n1 = (if c = pref n then streak n + 1 else 1) \<and> decision n1 = None
        \<and> observe r q n = (if beta \<le> streak n1 \<and> q then (n1\<lparr>decision := Some c\<rparr>, Some c) else (n1, None))"
begin

primrec rounds :: "('v \<times> bool) list \<Rightarrow> 'c voter_state \<Rightarrow> 'c voter_state" where
  "rounds [] n = n"
| "rounds (r # rs) n = rounds rs (fst (observe (fst r) (snd r) n))"

lemma rounds_append: "rounds (rs @ ss) n = rounds ss (rounds rs n)"
  by (induction rs arbitrary: n) simp_all

lemma rounds_frozen: "decision n \<noteq> None \<Longrightarrow> rounds rs n = n"
  by (induction rs) (simp_all add: frozen)

text \<open>The last \<open>streak\<close> rounds all carried a quorum for the current preference.\<close>

definition backed :: "('v \<times> bool) list \<Rightarrow> 'c voter_state \<Rightarrow> bool" where
  "backed rs n = (streak n \<le> length rs \<and> (\<forall>r\<in>set (drop (length rs - streak n) rs). hears (fst r) (pref n)))"

lemma backed_step:
  assumes b: "backed rs n" and d: "decision n = None"
  shows "backed (rs @ [r]) (fst (observe (fst r) (snd r) n))
    \<and> (\<forall>c. decision (fst (observe (fst r) (snd r) n)) = Some c \<longrightarrow>
        pref (fst (observe (fst r) (snd r) n)) = c \<and> snd r \<and> hears (fst r) c
        \<and> beta \<le> streak (fst (observe (fst r) (snd r) n)))"
proof (cases "\<exists>c. hears (fst r) c")
  case False
  with unheard [OF d, of "fst r" "snd r"] d show ?thesis by (simp add: backed_def)
next
  case True
  then obtain c where c: "hears (fst r) c" by blast
  from heard [OF d c, of "snd r"] obtain n1 where n1: "pref n1 = c"
    "streak n1 = (if c = pref n then streak n + 1 else 1)" "decision n1 = None"
    "observe (fst r) (snd r) n = (if beta \<le> streak n1 \<and> snd r then (n1\<lparr>decision := Some c\<rparr>, Some c) else (n1, None))"
    by blast
  have "backed (rs @ [r]) n1"
    using b c n1(1,2) by (auto simp: backed_def Suc_diff_le)
  then have "backed (rs @ [r]) (fst (observe (fst r) (snd r) n))" by (simp add: n1(4) backed_def)
  moreover have "pref (fst (observe (fst r) (snd r) n)) = c" "streak (fst (observe (fst r) (snd r) n)) = streak n1"
    "decision (fst (observe (fst r) (snd r) n)) = (if beta \<le> streak n1 \<and> snd r then Some c else None)"
    using n1 by simp_all
  ultimately show ?thesis using c by auto
qed

lemma rounds_backed:
  assumes "streak n = 0" "decision n = None"
  shows "(decision (rounds rs n) = None \<longrightarrow> backed rs (rounds rs n))
    \<and> (\<forall>c. decision (rounds rs n) = Some c \<longrightarrow> (\<exists>xs ys zs r. rs = xs @ ys @ r # zs \<and> beta \<le> Suc (length ys)
        \<and> (\<forall>s\<in>set ys. hears (fst s) c) \<and> hears (fst r) c \<and> snd r))"
proof (induction rs rule: rev_induct)
  case Nil
  with assms show ?case by (simp add: backed_def)
next
  case (snoc r rs)
  let ?n = "rounds rs n"
  show ?case
  proof (cases "decision ?n = None")
    case False
    then have same: "rounds (rs @ [r]) n = ?n" by (simp add: rounds_append frozen)
    show ?thesis unfolding same
    proof (intro conjI allI impI)
      assume "decision ?n = None" with False show "backed (rs @ [r]) ?n" by simp
    next
      fix c assume "decision ?n = Some c"
      with snoc obtain xs ys zs q where "rs = xs @ ys @ q # zs" "beta \<le> Suc (length ys)"
        "\<forall>s\<in>set ys. hears (fst s) c" "hears (fst q) c" "snd q" by blast
      then show "\<exists>xs ys zs q. rs @ [r] = xs @ ys @ q # zs \<and> beta \<le> Suc (length ys)
          \<and> (\<forall>s\<in>set ys. hears (fst s) c) \<and> hears (fst q) c \<and> snd q"
        by (intro exI [of _ xs] exI [of _ ys] exI [of _ "zs @ [r]"] exI [of _ q]) simp
    qed
  next
    case True
    let ?m = "fst (observe (fst r) (snd r) ?n)"
    have step: "rounds (rs @ [r]) n = ?m" by (simp add: rounds_append)
    have b: "backed (rs @ [r]) ?m" and dec: "\<And>c. decision ?m = Some c \<Longrightarrow> pref ?m = c \<and> snd r \<and> hears (fst r) c \<and> beta \<le> streak ?m"
      using backed_step [of rs ?n r] snoc True by blast+
    show ?thesis unfolding step
    proof (intro conjI allI impI)
      fix c assume "decision ?m = Some c"
      from dec [OF this] have d: "pref ?m = c" "snd r" "hears (fst r) c" "beta \<le> streak ?m" by blast+
      let ?k = "length rs - (streak ?m - 1)"
      have "rs @ [r] = take ?k rs @ drop ?k rs @ r # []" by simp
      moreover have "beta \<le> Suc (length (drop ?k rs))" using b d(4) by (auto simp: backed_def)
      moreover have "\<forall>s\<in>set (drop ?k rs). hears (fst s) c"
        using b d(1) by (cases "streak ?m") (auto simp: backed_def)
      ultimately show "\<exists>xs ys zs q. rs @ [r] = xs @ ys @ q # zs \<and> beta \<le> Suc (length ys)
          \<and> (\<forall>s\<in>set ys. hears (fst s) c) \<and> hears (fst q) c \<and> snd q"
        using d by blast
    qed (rule b)
  qed
qed

end

section \<open>The binary node is a voter\<close>

definition binary_leading :: "nat list \<Rightarrow> nat \<times> nat" where
  "binary_leading votes =
     (let ones = length (filter (\<lambda>c. c = 1) votes); zeros = length votes - ones
      in if ones \<ge> zeros then (1, ones) else (0, zeros))"

definition binary_hears :: "snowball_params \<Rightarrow> nat list \<Rightarrow> nat \<Rightarrow> bool" where
  "binary_hears p votes c = (fst (binary_leading votes) = c \<and> sb_alpha p \<le> snd (binary_leading votes))"

lemma observe_round_alt: "observe_round votes p q n =
    (if decision n \<noteq> None then (n, None)
     else if sb_alpha p \<le> snd (binary_leading votes) then
        let color = fst (binary_leading votes);
            n1 = (if color = pref n then n\<lparr>streak := streak n + 1\<rparr> else n\<lparr>pref := color, streak := 1\<rparr>)
        in if sb_beta p \<le> streak n1 \<and> q then (n1\<lparr>decision := Some color\<rparr>, Some color) else (n1, None)
     else (n\<lparr>streak := 0\<rparr>, None))"
  unfolding observe_round_def binary_leading_def Let_def
  by (cases "length votes - length (filter (\<lambda>c. c = 1) votes) \<le> length (filter (\<lambda>c. c = 1) votes)") simp_all

interpretation binary: voter "\<lambda>votes q n. observe_round votes p q n" "binary_hears p" "sb_beta p"
  for p
proof
  fix n :: snowball_node and r q c
  assume d: "decision n = None" and h: "binary_hears p r c"
  let ?n1 = "if c = pref n then n\<lparr>streak := streak n + 1\<rparr> else n\<lparr>pref := c, streak := 1\<rparr>"
  show "\<exists>n1. pref n1 = c \<and> streak n1 = (if c = pref n then streak n + 1 else 1) \<and> decision n1 = None
      \<and> observe_round r p q n = (if sb_beta p \<le> streak n1 \<and> q then (n1\<lparr>decision := Some c\<rparr>, Some c) else (n1, None))"
    using d h by (intro exI [of _ ?n1]) (auto simp: observe_round_alt binary_hears_def Let_def)
qed (auto simp: observe_round_alt binary_hears_def Let_def)

section \<open>The leading hash\<close>

abbreviation vote_count :: "'h list \<Rightarrow> 'h \<Rightarrow> nat" where
  "vote_count votes h \<equiv> length (filter (\<lambda>v. v = h) votes)"

lemma entry_le_trans: "entry_le a b \<Longrightarrow> entry_le b c \<Longrightarrow> entry_le a c"
  unfolding entry_le_def by force

lemma fold_max_entry:
  "\<exists>m. foldl (\<lambda>best y. if entry_le best y then y else best) x xs = m \<and> m \<in> set (x # xs)
    \<and> (\<forall>y\<in>set (x # xs). entry_le y m)"
proof (induction xs arbitrary: x)
  case Nil
  then show ?case by (simp add: entry_le_def)
next
  case (Cons y ys)
  let ?b = "if entry_le x y then y else x"
  from Cons.IH [of ?b] obtain m where m: "foldl (\<lambda>best y. if entry_le best y then y else best) ?b ys = m"
    "m \<in> set (?b # ys)" "\<forall>z\<in>set (?b # ys). entry_le z m" by blast
  have "entry_le x ?b" "entry_le y ?b" by (auto simp: entry_le_def)
  moreover have "entry_le ?b m" using m(3) by simp
  ultimately have "entry_le x m" "entry_le y m" by (blast intro: entry_le_trans)+
  with m show ?case by (auto split: if_splits)
qed

lemma leading_Some:
  assumes "leading votes = Some (h, n)"
  shows "h \<in> set votes" "n = vote_count votes h"
    "vote_count votes g < n \<or> (vote_count votes g = n \<and> (g \<le> h \<or> g \<notin> set votes))"
proof -
  from assms have "votes \<noteq> []" and m: "max_entry (tally votes) = Some (h, n)"
    by (auto simp: leading_def split: if_splits)
  from m obtain x xs where t: "tally votes = x # xs" by (cases "tally votes") auto
  from fold_max_entry [of x xs] m t have mem: "(h, n) \<in> set (tally votes)" and max: "\<forall>y\<in>set (tally votes). entry_le y (h, n)"
    by auto
  show "h \<in> set votes" "n = vote_count votes h" using mem by (auto simp: tally_def)
  show "vote_count votes g < n \<or> (vote_count votes g = n \<and> (g \<le> h \<or> g \<notin> set votes))"
  proof (cases "g \<in> set votes")
    case True
    then have "(g, vote_count votes g) \<in> set (tally votes)" by (auto simp: tally_def)
    with max show ?thesis by (auto simp: entry_le_def)
  next
    case False
    then have "vote_count votes g = 0" by (induction votes) auto
    with False show ?thesis by (cases n) auto
  qed
qed

lemma leading_None [simp]: "leading votes = None \<longleftrightarrow> votes = []"
proof (cases "votes = []")
  case False
  then have "set (tally votes) \<noteq> {}" by (auto simp: tally_def)
  with False show ?thesis by (cases "tally votes") (simp_all add: leading_def)
qed (simp add: leading_def)

lemma leading_unique:
  assumes "h \<in> set votes" "n = vote_count votes h"
    and "\<And>g. g \<in> set votes \<Longrightarrow> vote_count votes g < n \<or> (vote_count votes g = n \<and> g \<le> h)"
  shows "leading votes = Some (h, n)"
proof -
  obtain g m where l: "leading votes = Some (g, m)" using assms(1) by (cases "leading votes") auto
  note L = leading_Some [OF l]
  have a: "n < m \<or> (n = m \<and> h \<le> g)" using L(3) [of h] assms(1,2) by blast
  have b: "m < n \<or> (m = n \<and> g \<le> h)" using assms(3) [OF L(1)] L(2) by simp
  from a b have "g = h" by force
  with L(2) assms(2) l show ?thesis by simp
qed

definition hash_hears :: "snowball_params \<Rightarrow> 'h::linorder list \<Rightarrow> 'h \<Rightarrow> bool" where
  "hash_hears p votes c = (\<exists>n. leading votes = Some (c, n) \<and> sb_alpha p \<le> n)"

interpretation finality: voter "\<lambda>votes q n. finality_observe votes p q n" "hash_hears p" "sb_beta p"
  for p
proof
  fix n :: "'a::linorder voter_state" and r :: "'a list" and q and c :: 'a
  assume d: "decision n = None" and h: "hash_hears p r c"
  let ?n1 = "if c = pref n then n\<lparr>streak := streak n + 1\<rparr> else n\<lparr>pref := c, streak := 1\<rparr>"
  show "\<exists>n1. pref n1 = c \<and> streak n1 = (if c = pref n then streak n + 1 else 1) \<and> decision n1 = None
      \<and> finality_observe r p q n = (if sb_beta p \<le> streak n1 \<and> q then (n1\<lparr>decision := Some c\<rparr>, Some c) else (n1, None))"
    using d h by (intro exI [of _ ?n1]) (auto simp: finality_observe_def hash_hears_def Let_def)
qed (auto simp: finality_observe_def hash_hears_def split: option.split)

lemma finality_run_rounds: "finality.rounds p rs n = finality_run p rs n"
  by (induction rs arbitrary: n) simp_all

section \<open>Properties\<close>

text \<open>
  C25: finality is irreversible and earned. Whatever a member of the committee hears in later rounds, a
  decision it has taken stays; and a decision for a hash can only come at the end of \<open>beta\<close> consecutive
  rounds in each of which that hash led with at least \<open>alpha\<close> of the votes received, the last one while
  the network quorum was reachable.
\<close>

theorem finality_irreversible_and_earned:
  fixes rs later :: "('h::linorder list \<times> bool) list"
  assumes "n = finality_run p rs (new_node initial)" "decision n = Some h"
  shows "finality_run p later n = n
    \<and> (\<exists>xs ys zs r. rs = xs @ ys @ r # zs \<and> sb_beta p \<le> Suc (length ys) \<and> snd r
        \<and> (\<forall>s\<in>set (ys @ [r]). sb_alpha p \<le> length (filter (\<lambda>v. v = h) (fst s))
            \<and> (\<forall>g. length (filter (\<lambda>v. v = g) (fst s)) \<le> length (filter (\<lambda>v. v = h) (fst s)))))"
proof
  show "finality_run p later n = n" using assms(2) by (simp add: finality_run_rounds [symmetric] finality.rounds_frozen)
  have hears: "sb_alpha p \<le> vote_count votes h \<and> (\<forall>g. vote_count votes g \<le> vote_count votes h)"
    if "hash_hears p votes h" for votes :: "'h list"
    using that leading_Some(2,3) unfolding hash_hears_def by (metis eq_iff less_imp_le)
  obtain xs ys zs r where "rs = xs @ ys @ r # zs" "sb_beta p \<le> Suc (length ys)" "snd r"
    "\<forall>s\<in>set ys. hash_hears p (fst s) h" "hash_hears p (fst r) h"
    using finality.rounds_backed [of "new_node initial" p rs] assms by (auto simp: new_node_def finality_run_rounds)
  with hears show "\<exists>xs ys zs r. rs = xs @ ys @ r # zs \<and> sb_beta p \<le> Suc (length ys) \<and> snd r
        \<and> (\<forall>s\<in>set (ys @ [r]). sb_alpha p \<le> length (filter (\<lambda>v. v = h) (fst s))
            \<and> (\<forall>g. length (filter (\<lambda>v. v = g) (fst s)) \<le> length (filter (\<lambda>v. v = h) (fst s))))"
    by (intro exI [of _ xs] exI [of _ ys] exI [of _ zs] exI [of _ r]) auto
qed

definition tiny_params :: snowball_params where
  "tiny_params = \<lparr>sb_k = 4, sb_alpha = 3, sb_beta = 2, sb_max_rounds = 9\<rparr>"

definition tiny_rounds :: "(nat list \<times> bool) list" where
  "tiny_rounds = [([5, 5, 8, 8], True), ([8, 8, 8, 5], True), ([8, 8, 8], True), ([5, 5, 5, 5], True)]"

lemma tiny_decides: "decision (finality_run tiny_params tiny_rounds (new_node 5)) = Some 8"
  by (simp add: tiny_rounds_def tiny_params_def new_node_def finality_observe_def leading_def tally_def
      entry_le_def Let_def)

theorem finality_irreversible_and_earned_witness:
  "finality_run tiny_params [([5, 5, 5, 5], True)] (finality_run tiny_params tiny_rounds (new_node 5))
     = finality_run tiny_params tiny_rounds (new_node 5)"
  using finality_irreversible_and_earned [OF refl tiny_decides] by blast

definition rename_node :: "('c \<Rightarrow> 'h) \<Rightarrow> 'c voter_state \<Rightarrow> 'h voter_state" where
  "rename_node f n = \<lparr>pref = f (pref n), streak = streak n, decision = map_option f (decision n)\<rparr>"

lemma leading_binary:
  fixes f :: "nat \<Rightarrow> 'h::linorder"
  assumes f: "f 0 < f 1" and v: "set votes \<subseteq> {0, 1}" and ne: "votes \<noteq> []"
  shows "leading (map f votes) = Some (f (fst (binary_leading votes)), snd (binary_leading votes))"
proof -
  let ?ones = "length (filter (\<lambda>c. c = 1) votes)" and ?zeros = "length (filter (\<lambda>c. c = 0) votes)"
  have z: "length votes = ?ones + ?zeros" using v by (induction votes) auto
  have inj: "f c = f 1 \<longleftrightarrow> c = 1" "f c = f 0 \<longleftrightarrow> c = 0" if "c \<in> {0, 1}" for c using f that by auto
  have "filter (\<lambda>v. v = f 1) (map f votes) = map f (filter (\<lambda>c. c = 1) votes)"
    "filter (\<lambda>v. v = f 0) (map f votes) = map f (filter (\<lambda>c. c = 0) votes)"
    using v inj by (induction votes) auto
  then have c: "vote_count (map f votes) (f 1) = ?ones" "vote_count (map f votes) (f 0) = ?zeros" by simp_all
  have in1: "f 1 \<in> set (map f votes)" if "0 < ?ones" using that by (induction votes) (auto split: if_splits)
  have in0: "f 0 \<in> set (map f votes)" if "0 < ?zeros" using that by (induction votes) (auto split: if_splits)
  have two: "g = f 0 \<or> g = f 1" if "g \<in> set (map f votes)" for g using that v by auto
  have bl: "binary_leading votes = (if ?zeros \<le> ?ones then (1, ?ones) else (0, ?zeros))"
    using z by (simp add: binary_leading_def Let_def)
  have pos: "0 < ?ones + ?zeros" using z ne by (metis length_greater_0_conv)
  show ?thesis
  proof (cases "?zeros \<le> ?ones")
    case True
    have "leading (map f votes) = Some (f 1, ?ones)"
    proof (rule leading_unique)
      show "f 1 \<in> set (map f votes)" using True pos by (intro in1) linarith
      show "vote_count (map f votes) g < ?ones \<or> vote_count (map f votes) g = ?ones \<and> g \<le> f 1"
        if "g \<in> set (map f votes)" for g using two [OF that] True c f by fastforce
    qed (simp only: c)
    with True bl show ?thesis by simp
  next
    case False
    have "leading (map f votes) = Some (f 0, ?zeros)"
    proof (rule leading_unique)
      show "f 0 \<in> set (map f votes)" using False by (intro in0) linarith
      show "vote_count (map f votes) g < ?zeros \<or> vote_count (map f votes) g = ?zeros \<and> g \<le> f 0"
        if "g \<in> set (map f votes)" for g using two [OF that] False c by fastforce
    qed (simp only: c)
    with False bl show ?thesis by simp
  qed
qed

lemma observe_renamed:
  fixes f :: "nat \<Rightarrow> 'h::linorder"
  assumes f: "f 0 < f 1" and a: "1 \<le> sb_alpha p" and v: "set votes \<subseteq> {0, 1}" and n: "pref n \<in> {0, 1}"
  shows "finality_observe (map f votes) p q (rename_node f n)
    = (rename_node f (fst (observe_round votes p q n)), map_option f (snd (observe_round votes p q n)))"
    and "pref (fst (observe_round votes p q n)) \<in> {0, 1}"
proof -
  let ?c = "fst (binary_leading votes)" and ?k = "snd (binary_leading votes)"
  have c: "?c \<in> {0, 1}" by (simp add: binary_leading_def Let_def)
  have eq: "f ?c = f (pref n) \<longleftrightarrow> ?c = pref n" using f c n by auto
  show "pref (fst (observe_round votes p q n)) \<in> {0, 1}"
    using c n by (simp add: observe_round_alt Let_def)
  show "finality_observe (map f votes) p q (rename_node f n)
    = (rename_node f (fst (observe_round votes p q n)), map_option f (snd (observe_round votes p q n)))"
  proof (cases "votes = []")
    case True
    with a show ?thesis
      by (simp add: finality_observe_def observe_round_alt rename_node_def binary_leading_def leading_def)
  next
    case False
    note l = leading_binary [OF f v False]
    show ?thesis
      by (simp add: finality_observe_def observe_round_alt l Let_def rename_node_def eq)
  qed
qed

text \<open>
  C26: on two hashes the finality round is the validated binary node: with a positive quorum, for any two
  hashes \<open>f 0 < f 1\<close>, running it on the votes renamed by \<open>f\<close> gives, round after round, the binary node's
  state renamed by \<open>f\<close>, ties included.
\<close>

theorem finality_refines_snowball:
  fixes f :: "nat \<Rightarrow> 'h::linorder"
  assumes "f 0 < f 1" "1 \<le> sb_alpha p" "pref n \<in> {0, 1}" "\<And>r. r \<in> set rs \<Longrightarrow> set (fst r) \<subseteq> {0, 1}"
  shows "finality_run p (map (\<lambda>r. (map f (fst r), snd r)) rs) (rename_node f n) = rename_node f (binary_run p rs n)"
  using assms(3,4)
proof (induction rs arbitrary: n)
  case (Cons r rs)
  have v: "set (fst r) \<subseteq> {0, 1}" using Cons.prems(2) by simp
  from observe_renamed [OF assms(1,2) v Cons.prems(1)] Cons.prems(2)
  show ?case by (simp add: Cons.IH)
qed simp

theorem finality_refines_snowball_witness:
  "let rs = [([0, 1, 1, 0], True), ([1, 1, 1], False), ([], True), ([1, 0, 1, 1], True), ([1, 1, 1, 1], True)]
   in finality_run tiny_params (map (\<lambda>r. (map (\<lambda>c. 100 + 7 * c) (fst r), snd r)) rs) (rename_node (\<lambda>c. 100 + 7 * c) (new_node 0))
      = rename_node (\<lambda>c. 100 + 7 * c :: nat) (binary_run tiny_params rs (new_node 0))"
  unfolding Let_def by (rule finality_refines_snowball) (auto simp: tiny_params_def new_node_def)

end
