(* ===== verification/Sha256.thy ===== *)
theory Sha256
imports Frame "HOL-Library.Word" "HOL-Library.Char_ord"
begin

text \<open>
  SHA-256 as \<open>chain/consensus-core/src/sha256.rs\<close> writes it, on 32-bit words with their wrapping addition,
  and the hexadecimal form of a digest (\<open>sha256.rs\<close> and \<open>beacon.rs\<close>). Bytes are \<open>8 word\<close>, strings are
  lists of characters. The commit-reveal beacon and the sortition are keyed by it.
\<close>

unbundle bit_operations_syntax

type_synonym byte = "8 word"
type_synonym w32 = "32 word"

text \<open>The table \<open>K\<close>, in the rows of the source.\<close>

definition K :: "w32 list" where
  "K = concat [
     [0x428a2f98, 0x71374491, 0xb5c0fbcf, 0xe9b5dba5, 0x3956c25b, 0x59f111f1, 0x923f82a4, 0xab1c5ed5],
     [0xd807aa98, 0x12835b01, 0x243185be, 0x550c7dc3, 0x72be5d74, 0x80deb1fe, 0x9bdc06a7, 0xc19bf174],
     [0xe49b69c1, 0xefbe4786, 0x0fc19dc6, 0x240ca1cc, 0x2de92c6f, 0x4a7484aa, 0x5cb0a9dc, 0x76f988da],
     [0x983e5152, 0xa831c66d, 0xb00327c8, 0xbf597fc7, 0xc6e00bf3, 0xd5a79147, 0x06ca6351, 0x14292967],
     [0x27b70a85, 0x2e1b2138, 0x4d2c6dfc, 0x53380d13, 0x650a7354, 0x766a0abb, 0x81c2c92e, 0x92722c85],
     [0xa2bfe8a1, 0xa81a664b, 0xc24b8b70, 0xc76c51a3, 0xd192e819, 0xd6990624, 0xf40e3585, 0x106aa070],
     [0x19a4c116, 0x1e376c08, 0x2748774c, 0x34b0bcb5, 0x391c0cb3, 0x4ed8aa4a, 0x5b9cca4f, 0x682e6ff3],
     [0x748f82ee, 0x78a5636f, 0x84c87814, 0x8cc70208, 0x90befffa, 0xa4506ceb, 0xbef9a3f7, 0xc67178f2]]"

definition H0 :: "w32 list" where
  "H0 = [0x6a09e667, 0xbb67ae85, 0x3c6ef372, 0xa54ff53a, 0x510e527f, 0x9b05688c, 0x1f83d9ab, 0x5be0cd19]"

section \<open>Bytes and words\<close>

definition be32 :: "byte \<Rightarrow> byte \<Rightarrow> byte \<Rightarrow> byte \<Rightarrow> w32" where
  "be32 a b c d = push_bit 24 (ucast a) OR push_bit 16 (ucast b) OR push_bit 8 (ucast c) OR ucast d"

definition to_be32 :: "w32 \<Rightarrow> byte list" where
  "to_be32 w = [ucast (drop_bit 24 w), ucast (drop_bit 16 w), ucast (drop_bit 8 w), ucast w]"

definition to_be64 :: "64 word \<Rightarrow> byte list" where
  "to_be64 w = map (\<lambda>i. ucast (drop_bit (8 * i) w)) (rev [0..<8])"

definition rotr :: "nat \<Rightarrow> w32 \<Rightarrow> w32" where
  "rotr n w = word_rotr n w"

section \<open>Padding and the message schedule\<close>

text \<open>\<open>while msg.len() % 64 != 56 { msg.push(0) }\<close>\<close>

function zero_pad :: "byte list \<Rightarrow> byte list" where
  "zero_pad msg = (if length msg mod 64 \<noteq> 56 then zero_pad (msg @ [0]) else msg)"
  by auto

lemma mod_120_64: "(120 - r) mod 64 = (if r \<le> 56 then 56 - r else 120 - r)" if "r < 64" for r :: nat
proof (cases "r \<le> 56")
  case True
  then have "120 - r = (56 - r) + 64" by linarith
  then have "(120 - r) mod 64 = (56 - r) mod 64" by (simp only: mod_add_self2)
  with True show ?thesis by simp
qed (use that in simp)

lemma pad_measure: "n mod 64 \<noteq> 56 \<Longrightarrow> (120 - Suc n mod 64) mod 64 < (120 - n mod 64) mod (64::nat)"
proof -
  assume "n mod 64 \<noteq> 56"
  moreover have "n mod 64 < 64" by simp
  moreover have "Suc n mod 64 = (if n mod 64 = 63 then 0 else Suc (n mod 64))" by (simp add: mod_Suc)
  moreover have "Suc n mod 64 < 64" by simp
  ultimately show ?thesis unfolding mod_120_64 [OF \<open>n mod 64 < 64\<close>] mod_120_64 [OF \<open>Suc n mod 64 < 64\<close>]
    by (auto split: if_splits)
qed

termination zero_pad
  by (relation "measure (\<lambda>msg. (120 - length msg mod 64) mod 64)") (simp_all add: pad_measure)

definition padded :: "byte list \<Rightarrow> byte list" where
  "padded data =
     (let bit_len = (of_nat (length data) :: 64 word) * 8
      in zero_pad (data @ [0x80]) @ to_be64 bit_len)"

fun chunks64 :: "nat \<Rightarrow> byte list \<Rightarrow> byte list list" where
  "chunks64 0 msg = []"
| "chunks64 (Suc n) msg = (if msg = [] then [] else take 64 msg # chunks64 n (drop 64 msg))"

fun words_of :: "byte list \<Rightarrow> w32 list" where
  "words_of (a # b # c # d # rest) = be32 a b c d # words_of rest"
| "words_of _ = []"

text \<open>\<open>w[i]\<close> for \<open>i\<close> from 16: the schedule so far is extended by one word.\<close>

definition next_w :: "w32 list \<Rightarrow> w32" where
  "next_w w =
     (let i = length w; w15 = w ! (i - 15); w2 = w ! (i - 2);
          s0 = (rotr 7 w15 XOR rotr 18 w15) XOR drop_bit 3 w15;
          s1 = (rotr 17 w2 XOR rotr 19 w2) XOR drop_bit 10 w2
      in w ! (i - 16) + s0 + w ! (i - 7) + s1)"

definition schedule :: "byte list \<Rightarrow> w32 list" where
  "schedule chunk = ((\<lambda>w. w @ [next_w w]) ^^ 48) (words_of chunk)"

section \<open>Compression\<close>

type_synonym regs = "w32 \<times> w32 \<times> w32 \<times> w32 \<times> w32 \<times> w32 \<times> w32 \<times> w32"

definition round256 :: "w32 \<Rightarrow> w32 \<Rightarrow> regs \<Rightarrow> regs" where
  "round256 k w = (\<lambda>(a, b, c, d, e, f, g, hh).
     let s1 = (rotr 6 e XOR rotr 11 e) XOR rotr 25 e;
         ch = (e AND f) XOR ((NOT e) AND g);
         t1 = hh + s1 + ch + k + w;
         s0 = (rotr 2 a XOR rotr 13 a) XOR rotr 22 a;
         maj = ((a AND b) XOR (a AND c)) XOR (b AND c);
         t2 = s0 + maj
     in (t1 + t2, a, b, c, d + t1, e, f, g))"

fun regs_list :: "regs \<Rightarrow> w32 list" where
  "regs_list (a, b, c, d, e, f, g, h) = [a, b, c, d, e, f, g, h]"

definition compress :: "w32 list \<Rightarrow> byte list \<Rightarrow> w32 list" where
  "compress h chunk =
     (let r0 = (h ! 0, h ! 1, h ! 2, h ! 3, h ! 4, h ! 5, h ! 6, h ! 7);
          r = fold (\<lambda>(k, w). round256 k w) (zip K (schedule chunk)) r0
      in map (\<lambda>(x, y). x + y) (zip h (regs_list r)))"

definition sha256 :: "byte list \<Rightarrow> byte list" where
  "sha256 data =
     (let msg = padded data
      in concat (map to_be32 (fold (\<lambda>c h. compress h c) (chunks64 (length msg) msg) H0)))"

section \<open>Hexadecimal\<close>

definition hexchars :: string where
  "hexchars = ''0123456789abcdef''"

definition hex_digit :: "byte \<Rightarrow> char" where
  "hex_digit b = hexchars ! unat b"

definition hex :: "byte list \<Rightarrow> string" where
  "hex digest = concat (map (\<lambda>b. [hex_digit (drop_bit 4 b), hex_digit (b AND 0x0f)]) digest)"

definition bytes_of :: "string \<Rightarrow> byte list" where
  "bytes_of s = map of_char s"

section \<open>The shape of a digest\<close>

declare zero_pad.simps [simp del]

lemma zero_pad_replicate: "\<exists>k < 64. zero_pad msg = msg @ replicate k 0 \<and> (length msg + k) mod 64 = 56"
proof (induction msg rule: zero_pad.induct)
  case (1 msg)
  show ?case
  proof (cases "length msg mod 64 = 56")
    case True
    then show ?thesis by (intro exI [of _ 0]) (simp add: zero_pad.simps [of msg])
  next
    case False
    with 1 obtain k where k: "k < 64" "zero_pad (msg @ [0]) = (msg @ [0]) @ replicate k 0"
      "(Suc (length msg) + k) mod 64 = 56" by auto
    have "k \<noteq> 63" using k(3) False by auto
    with k False show ?thesis
      by (intro exI [of _ "Suc k"]) (simp add: zero_pad.simps [of msg])
  qed
qed

lemma length_to_be64 [simp]: "length (to_be64 w) = 8"
  by (simp add: to_be64_def)

lemma length_compress: "length h = 8 \<Longrightarrow> length (compress h c) = 8"
proof -
  have "length (regs_list r) = 8" for r by (cases r rule: regs_list.cases) simp
  then show "length h = 8 \<Longrightarrow> length (compress h c) = 8" by (simp add: compress_def Let_def)
qed

lemma concat_chunks64: "length msg \<le> 64 * n \<Longrightarrow> concat (chunks64 n msg) = msg"
  by (induction n msg rule: chunks64.induct) auto

lemma chunks64_full: "64 dvd length msg \<Longrightarrow> c \<in> set (chunks64 n msg) \<Longrightarrow> length c = 64"
proof (induction n msg rule: chunks64.induct)
  case (2 n msg)
  show ?case
  proof (cases "msg = []")
    case False
    with "2.prems"(1) have "64 \<le> length msg" by (auto dest: dvd_imp_le)
    moreover have "64 dvd length (drop 64 msg)" using "2.prems"(1) by simp
    ultimately show ?thesis using 2 False by auto
  qed (use 2 in simp)
qed simp

lemma length_digest: "length (sha256 data) = 32"
proof -
  have "length (fold (\<lambda>c h. compress h c) cs h) = 8" if "length h = 8" for cs h
    using that by (induction cs arbitrary: h) (simp_all add: length_compress)
  then have 8: "length (fold (\<lambda>c h. compress h c) cs H0) = 8" for cs by (simp add: H0_def)
  have "length (concat (map to_be32 ws)) = 4 * length ws" for ws by (induction ws) (simp_all add: to_be32_def)
  with 8 show ?thesis by (simp add: sha256_def Let_def)
qed

section \<open>Reading hexadecimal back\<close>

definition hex_value :: "char \<Rightarrow> byte" where
  "hex_value c = of_nat (length (takeWhile (\<lambda>d. d \<noteq> c) hexchars))"

fun unhex :: "string \<Rightarrow> byte list" where
  "unhex (a # b # rest) = (push_bit 4 (hex_value a) OR hex_value b) # unhex rest"
| "unhex _ = []"

lemma hex_positions: "\<forall>n\<in>set [0..<16]. length (takeWhile (\<lambda>d. d \<noteq> hexchars ! n) hexchars) = n"
  by code_simp

lemma hex_value_digit: "b < 16 \<Longrightarrow> hex_value (hex_digit b) = b"
proof -
  assume "b < 16"
  then have "unat b < 16" by (simp add: word_less_nat_alt)
  then have "unat b \<in> set [0..<16]" by simp
  with hex_positions have "length (takeWhile (\<lambda>d. d \<noteq> hexchars ! unat b) hexchars) = unat b" by blast
  then show ?thesis by (simp add: hex_value_def hex_digit_def)
qed

lemma byte_nibbles:
  fixes b :: byte
  shows "drop_bit 4 b < 16" "b AND 15 < 16" "push_bit 4 (drop_bit 4 b) OR (b AND 15) = b"
proof -
  have "unat b < 256" using unsigned_less [of b] by simp
  then have "unat (drop_bit 4 b) < 16" unfolding unat_drop_bit_eq by (simp add: drop_bit_eq_div)
  then show "drop_bit 4 b < 16" by (simp add: word_less_nat_alt)
  have "b AND 15 = take_bit 4 b" by (simp add: take_bit_eq_mask mask_eq_exp_minus_1)
  then show "b AND 15 < 16"
    by (simp add: word_less_nat_alt unsigned_take_bit_eq take_bit_nat_less_exp [of 4, simplified])
  show "push_bit 4 (drop_bit 4 b) OR (b AND 15) = b"
    unfolding \<open>b AND 15 = take_bit 4 b\<close>
    by (rule bit_word_eqI) (auto simp: bit_or_iff bit_push_bit_iff bit_drop_bit_eq bit_take_bit_iff)
qed

lemma unhex_hex: "unhex (hex bs) = bs"
  by (induction bs) (simp_all add: hex_def hex_value_digit byte_nibbles)

lemma hex_inject [simp]: "hex a = hex b \<longleftrightarrow> a = b"
  by (metis unhex_hex)

section \<open>Properties\<close>

text \<open>
  The padding and the digest have the standard's shape, for every input: the message, one byte
  \<open>0x80\<close>, fewer than 64 zero bytes and the 64-bit big-endian bit length fill a whole number of 64-byte
  blocks; the blocks are the padded message cut in 64-byte pieces; a digest is 32 bytes long.
\<close>

theorem sha256_shape:
  "(\<exists>k < 64. padded data = data @ [0x80] @ replicate k 0 @ to_be64 (of_nat (8 * length data)))
    \<and> 64 dvd length (padded data)
    \<and> concat (chunks64 (length (padded data)) (padded data)) = padded data
    \<and> list_all (\<lambda>c. length c = 64) (chunks64 (length (padded data)) (padded data))
    \<and> length (sha256 data) = 32"
proof -
  obtain k where k: "k < 64" "zero_pad (data @ [0x80]) = (data @ [0x80]) @ replicate k 0"
    "(length (data @ [0x80]) + k) mod 64 = 56" using zero_pad_replicate [of "data @ [0x80]"] by blast
  have p: "padded data = data @ [0x80] @ replicate k 0 @ to_be64 (of_nat (8 * length data))"
    using k(2) by (simp add: padded_def Let_def mult.commute)
  have "(length (padded data)) mod 64 = ((length (data @ [0x80]) + k) mod 64 + 8) mod 64"
    unfolding p by (simp add: mod_simps ac_simps)
  then have dvd: "64 dvd length (padded data)" using k(3) by (simp add: dvd_eq_mod_eq_0)
  show ?thesis using k(1) p dvd concat_chunks64 [of "padded data"] chunks64_full [OF dvd] length_digest by (auto simp: list_all_iff)
qed

text \<open>
  The hexadecimal form loses nothing: reading it back gives the bytes (so distinct accounts, seeds and
  digests have distinct string keys).
\<close>

lemma hex_roundtrip: "unhex (hex bs) = bs \<and> (hex bs = hex cs \<longrightarrow> bs = cs)"
  by (simp add: unhex_hex)

end
