(* ===== verification/Sortition.thy ===== *)
theory Sortition
imports Sha256 "HOL-Library.AList" "HOL-Library.Signed_Division"
begin

text \<open>
  The fixed-point sortition, \<open>chain/consensus-core/src/sortition_fp.rs\<close>: the Poisson weights, their CDF,
  the seats of a draw, the VRF value, the committee election and the single-source finality committee.

  Where the source works on non-negative \<open>i128\<close> values (the callers have returned on \<open>lam_fp <= 0\<close>) the
  model uses natural numbers, on which \<open>/\<close> and \<open>div\<close> agree; \<open>exp_neg_fp\<close>, which multiplies by a
  negative factor, uses integers with the truncating \<open>sdiv\<close>. The intermediate products stay below
  \<open>2^127\<close> for a \<open>u32\<close> \<open>tau\<close> and reputations below \<open>10^29\<close>. A \<open>BTreeMap\<close> is an association list with
  distinct keys; no result depends on its order. The two window loops end because the weight decreases
  beyond the mode; they are total functions with that measure.
\<close>

definition FP :: nat where "FP = 1000000000"
definition E_INV_FP :: nat where "E_INV_FP = 367879441"
definition POISSON_ANCHOR :: nat where "POISSON_ANCHOR = 1000000000000000000"

definition fp_mul :: "nat \<Rightarrow> nat \<Rightarrow> nat" where "fp_mul a b = a * b div FP"
definition fp_div :: "nat \<Rightarrow> nat \<Rightarrow> nat" where "fp_div a b = a * FP div b"

section \<open>The exponential\<close>

text \<open>The Taylor loop from \<open>k\<close> with \<open>n\<close> terms left to take: it stops early on a zero term.\<close>

fun exp_taylor :: "nat \<Rightarrow> int \<Rightarrow> int \<Rightarrow> int \<Rightarrow> int \<Rightarrow> int" where
  "exp_taylor 0 k f t acc = acc"
| "exp_taylor (Suc n) k f t acc =
     (let t1 = (t * (- f)) sdiv int FP sdiv k; acc1 = acc + t1
      in if t1 = 0 then acc1 else exp_taylor n (k + 1) f t1 acc1)"

fun exp_power :: "nat \<Rightarrow> int \<Rightarrow> int" where
  "exp_power 0 r = r"
| "exp_power (Suc n) r =
     (let r1 = (r * int E_INV_FP) sdiv int FP in if r1 = 0 then r1 else exp_power n r1)"

definition exp_neg_fp :: "int \<Rightarrow> int" where
  "exp_neg_fp lam =
     (if lam \<le> 0 then int FP
      else let n = lam sdiv int FP; f = lam - n * int FP
           in max 0 (min (int FP) (exp_power (nat n) (exp_taylor 20 1 f (int FP) (int FP)))))"

section \<open>The Poisson weights\<close>

text \<open>Upwards from the mode: \<open>w[k+1] = w[k] * lam / (k+1)\<close> until it underflows to zero.\<close>

function poisson_up :: "nat \<Rightarrow> nat \<Rightarrow> nat \<Rightarrow> nat list" where
  "poisson_up lam k w =
     (let w1 = w * lam div FP div (k + 1)
      in if w1 = 0 then [] else w1 # poisson_up lam (k + 1) w1)"
  by auto

lemma poisson_up_decreases:
  assumes "lam div FP \<le> k" "w * lam div FP div (k + 1) \<noteq> 0"
  shows "w * lam div FP div (k + 1) < w"
proof -
  have fp: "0 < FP" by (simp add: FP_def)
  from assms(2) have w: "0 < w" by (cases w) auto
  have "lam < FP * (k + 1)"
    using assms(1) fp by (metis Suc_eq_plus1 div_less_iff_less_mult le_imp_less_Suc mult.commute)
  then have "w * lam < w * (FP * (k + 1))" using w by simp
  then have "w * lam div (FP * (k + 1)) < w" by (simp add: less_mult_imp_div_less)
  then show ?thesis by (simp only: div_mult2_eq)
qed

termination poisson_up
proof (relation "measures [\<lambda>(lam, k, w). lam div FP - k, \<lambda>(lam, k, w). w]")
  fix lam k w w1 assume w1: "w1 = w * lam div FP div (k + 1)" and nz: "w1 \<noteq> 0"
  show "((lam, k + 1, w1), lam, k, w) \<in> measures [\<lambda>(lam, k, w). lam div FP - k, \<lambda>(lam, k, w). w]"
  proof (cases "lam div FP \<le> k")
    case True
    with poisson_up_decreases [OF this, of w] w1 nz show ?thesis by simp
  next
    case False
    then have "lam div FP - (k + 1) < lam div FP - k" by linarith
    then show ?thesis by simp
  qed
qed simp

declare poisson_up.simps [simp del]

text \<open>Downwards from the mode: \<open>w[k-1] = w[k] * k / lam\<close>, to index 0 or an underflow.\<close>

fun poisson_down :: "nat \<Rightarrow> nat \<Rightarrow> nat \<Rightarrow> nat list" where
  "poisson_down lam 0 w = []"
| "poisson_down lam (Suc k) w =
     (let w1 = w * Suc k * FP div lam in if w1 = 0 then [] else w1 # poisson_down lam k w1)"

definition poisson_weights_fp :: "nat \<Rightarrow> nat list \<times> nat" where
  "poisson_weights_fp lam =
     (let m = lam div FP;
          up = POISSON_ANCHOR # poisson_up lam m POISSON_ANCHOR;
          down = poisson_down lam m POISSON_ANCHOR;
          wts = replicate (m - length down) 0 @ rev down @ up
      in (wts, sum_list wts))"

definition poisson_cdf_fp :: "nat \<Rightarrow> nat \<Rightarrow> nat" where
  "poisson_cdf_fp j lam =
     (if lam = 0 then FP
      else let (wts, tot) = poisson_weights_fp lam
           in if tot = 0 then FP
              else let upper = min j (length wts - 1); partial = sum_list (take (upper + 1) wts)
                   in min (partial * FP div tot) FP)"

section \<open>Seats\<close>

text \<open>The walk of \<open>sortition_seats_fp\<close> with \<open>n\<close> candidates left, at candidate \<open>j\<close>.\<close>

fun seats_walk :: "nat \<Rightarrow> nat list \<Rightarrow> nat \<Rightarrow> nat \<Rightarrow> nat \<Rightarrow> nat \<Rightarrow> nat" where
  "seats_walk 0 wts tot value_fp cum j = j"
| "seats_walk (Suc n) wts tot value_fp cum j =
     (let cum1 = (if j < length wts then cum + wts ! j else cum)
      in if value_fp < min (cum1 * FP div tot) FP then j
         else seats_walk n wts tot value_fp cum1 (j + 1))"

definition sortition_seats_fp :: "nat \<Rightarrow> nat \<Rightarrow> nat \<Rightarrow> nat" where
  "sortition_seats_fp value_fp lam max_seats =
     (if lam = 0 then 0
      else let (wts, tot) = poisson_weights_fp lam
           in if tot = 0 then 0 else seats_walk max_seats wts tot value_fp 0 0)"

definition vrf_value_fp :: "string \<Rightarrow> string \<Rightarrow> nat" where
  "vrf_value_fp sk seed =
     (let d = sha256 (bytes_of sk @ bytes_of ''|'' @ bytes_of seed);
          top = foldl (\<lambda>t b. t * 256 + unat b) 0 (take 8 d)
      in top * FP div 2 ^ 64)"

section \<open>The election\<close>

definition seat_of ::
  "(string \<times> string) list \<Rightarrow> string \<Rightarrow> nat \<Rightarrow> nat \<Rightarrow> string \<times> int \<Rightarrow> (string \<times> nat) option" where
  "seat_of keys seed tau tot = (\<lambda>(node, r).
     if r \<le> 0 then None
     else
       let share = fp_div (nat r) tot; lam = fp_mul (tau * FP) share
       in case map_of keys node of
            None \<Rightarrow> None
          | Some sk \<Rightarrow>
              let seats = sortition_seats_fp (vrf_value_fp sk seed) lam 64
              in if seats > 0 then Some (node, seats) else None)"

definition elect_committee_fp ::
  "(string \<times> int) list \<Rightarrow> (string \<times> string) list \<Rightarrow> string \<Rightarrow> nat \<Rightarrow> (string \<times> nat) list" where
  "elect_committee_fp reputation keys seed tau =
     (let tot = sum_list (map (\<lambda>(_, r). if r > 0 then nat r else 0) reputation)
      in if tot = 0 then [] else List.map_filter (seat_of keys seed tau tot) reputation)"

section \<open>The finality committee\<close>

fun digits :: "nat \<Rightarrow> string" where
  "digits n = (if n < 10 then [''0123456789'' ! n] else digits (n div 10) @ [''0123456789'' ! (n mod 10)])"

declare digits.simps [simp del]

text \<open>Collecting pairs into a \<open>BTreeMap\<close>: a later pair replaces an earlier one with its key.\<close>

definition collect :: "('k \<times> 'v) list \<Rightarrow> ('k \<times> 'v) list" where
  "collect xs = fold (\<lambda>(k, v) m. AList.update k v m) xs []"

fun redraw ::
  "nat \<Rightarrow> nat \<Rightarrow> nat \<Rightarrow> (nat \<Rightarrow> 'x list) \<Rightarrow> 'x list \<Rightarrow> 'x list" where
  "redraw 0 retry flr draw best = best"
| "redraw (Suc n) retry flr draw best =
     (if length best < flr then
        let r = draw (retry + 1)
        in redraw n (retry + 1) flr draw (if length r > length best then r else best)
      else best)"

definition use_beacon :: "(byte list \<times> int) list \<Rightarrow> (byte list \<times> string) list \<Rightarrow> bool" where
  "use_beacon reputation committed =
     (let total_reputable = length (filter (\<lambda>(_, r). r > 0) reputation);
          want = min 4 total_reputable
      in if committed = [] \<or> want = 0 then False
         else length (filter (\<lambda>(acc, r). r > 0 \<and> map_of (collect committed) acc \<noteq> None) reputation) \<ge> want)"

text \<open>The end of \<open>elect_finality_committee\<close>: the draw over the eligible ids, the liveness floor with its
  salted retries, and the elected accounts.\<close>

definition finality_draw ::
  "(byte list \<times> int) list \<Rightarrow> (string \<times> int) list \<Rightarrow> (string \<times> string) list \<Rightarrow> string \<Rightarrow> nat \<Rightarrow> byte list set" where
  "finality_draw reputation rep_by_id keys seed tau =
     (let elected = elect_committee_fp rep_by_id keys seed tau;
          eligible = length (filter (\<lambda>(_, r). r > 0) rep_by_id);
          flr = min 4 eligible;
          best = redraw 32 0 flr (\<lambda>i. elect_committee_fp rep_by_id keys (seed @ ''-retry-'' @ digits i) tau) elected
      in set (map fst (filter (\<lambda>(acc, _). hex acc \<in> set (map fst best)) reputation)))"

definition elect_finality_committee ::
  "(byte list \<times> int) list \<Rightarrow> byte list list \<Rightarrow> (byte list \<times> string) list \<Rightarrow> byte list \<Rightarrow>
     nat \<Rightarrow> nat \<Rightarrow> string \<Rightarrow> bool \<Rightarrow> byte list set" where
  "elect_finality_committee reputation0 bound committed beacon epoch tau prefix halted =
     (let reputation = filter (\<lambda>(acc, _). acc \<in> set bound) reputation0
      in if halted \<or> reputation = [] then {}
         else if \<not> use_beacon reputation committed then
           finality_draw reputation (collect (map (\<lambda>(acc, r). (hex acc, r)) reputation))
             (collect (map (\<lambda>(acc, r). (hex acc, ''sk-'' @ hex acc)) reputation))
             (prefix @ ''-'' @ digits epoch) tau
         else
           let kmap = collect committed;
               seated = filter (\<lambda>(acc, _). map_of kmap acc \<noteq> None) reputation
           in finality_draw reputation (collect (map (\<lambda>(acc, r). (hex acc, r)) seated))
                (collect (map (\<lambda>(acc, r). (hex acc, the (map_of kmap acc))) seated))
                (prefix @ ''-'' @ hex beacon) tau)"

section \<open>The CDF and its inverse\<close>

lemma weights_total_pos: "0 < snd (poisson_weights_fp lam)"
  by (simp add: poisson_weights_fp_def Let_def POISSON_ANCHOR_def)

lemma weights_total: "snd (poisson_weights_fp lam) = sum_list (fst (poisson_weights_fp lam))"
  by (simp add: poisson_weights_fp_def Let_def)

lemma weights_nonempty: "fst (poisson_weights_fp lam) \<noteq> []"
  by (simp add: poisson_weights_fp_def Let_def)

text \<open>The mass up to and including index \<open>j\<close>; past the window it is the total.\<close>

definition mass :: "nat list \<Rightarrow> nat \<Rightarrow> nat" where
  "mass wts j = sum_list (take (j + 1) wts)"

lemma mass_mono: "i \<le> j \<Longrightarrow> mass wts i \<le> mass wts j"
proof -
  assume "i \<le> j"
  then have "take (j + 1) wts = take (i + 1) wts @ take (j - i) (drop (i + 1) wts)"
    using take_add [of "i + 1" "j - i" wts] by simp
  then show ?thesis by (simp add: mass_def)
qed

lemma mass_le: "mass wts j \<le> sum_list wts"
proof -
  have "sum_list wts = mass wts j + sum_list (drop (j + 1) wts)"
    unfolding mass_def by (metis append_take_drop_id sum_list_append)
  then show ?thesis by linarith
qed

lemma mass_end: "length wts \<le> j + 1 \<Longrightarrow> mass wts j = sum_list wts"
  by (simp add: mass_def)

lemma mass_0: "mass wts 0 = (if 0 < length wts then wts ! 0 else 0)"
  by (cases wts) (simp_all add: mass_def)

lemma mass_Suc: "mass wts (Suc j) = (if Suc j < length wts then mass wts j + wts ! Suc j else mass wts j)"
  by (simp add: mass_def take_Suc_conv_app_nth)

lemma cdf_mass:
  "0 < lam \<Longrightarrow> poisson_cdf_fp j lam =
     min (mass (fst (poisson_weights_fp lam)) j * FP div snd (poisson_weights_fp lam)) FP"
proof -
  assume lam: "0 < lam"
  obtain wts tot where w: "poisson_weights_fp lam = (wts, tot)" by fastforce
  have tot: "0 < tot" and ne: "wts \<noteq> []"
    using weights_total_pos [of lam] weights_nonempty [of lam] by (simp_all add: w)
  have "sum_list (take (min j (length wts - 1) + 1) wts) = mass wts j"
    using ne by (cases "j \<le> length wts - 1") (auto simp: mass_def min_def)
  with lam tot show ?thesis by (simp add: poisson_cdf_fp_def w Let_def)
qed

lemma cdf_mono: "i \<le> j \<Longrightarrow> poisson_cdf_fp i lam \<le> poisson_cdf_fp j lam"
proof (cases "lam = 0")
  case False
  assume "i \<le> j"
  then have "mass (fst (poisson_weights_fp lam)) i * FP \<le> mass (fst (poisson_weights_fp lam)) j * FP"
    by (intro mult_right_mono mass_mono) simp_all
  from div_le_mono [OF this] False show ?thesis by (simp add: cdf_mass min.coboundedI1 min_le_iff_disj)
qed (simp add: poisson_cdf_fp_def)

lemma cdf_le: "poisson_cdf_fp j lam \<le> FP"
  by (cases "lam = 0") (simp_all add: cdf_mass, simp add: poisson_cdf_fp_def)

lemma cdf_end: "length (fst (poisson_weights_fp lam)) \<le> j + 1 \<Longrightarrow> poisson_cdf_fp j lam = FP"
proof (cases "lam = 0")
  case False
  assume "length (fst (poisson_weights_fp lam)) \<le> j + 1"
  with False weights_total_pos [of lam] show ?thesis
    by (simp add: cdf_mass mass_end weights_total)
qed (simp add: poisson_cdf_fp_def)

lemma seats_walk_spec:
  assumes "0 < lam" "cum = (if j = 0 then 0 else mass (fst (poisson_weights_fp lam)) (j - 1))"
    and "\<And>i. i < j \<Longrightarrow> poisson_cdf_fp i lam \<le> v"
  shows "seats_walk n (fst (poisson_weights_fp lam)) (snd (poisson_weights_fp lam)) v cum j = s \<Longrightarrow>
    j \<le> s \<and> s \<le> j + n \<and> (s < j + n \<longrightarrow> v < poisson_cdf_fp s lam) \<and> (\<forall>i < s. poisson_cdf_fp i lam \<le> v)"
  using assms
proof (induction n arbitrary: cum j)
  case 0
  then show ?case by auto
next
  case (Suc n)
  let ?w = "fst (poisson_weights_fp lam)" and ?t = "snd (poisson_weights_fp lam)"
  let ?cum1 = "if j < length ?w then cum + ?w ! j else cum"
  have cum1: "?cum1 = mass ?w j"
    using Suc.prems(3) mass_0 [of ?w] mass_Suc [of ?w "j - 1"] by (cases j) simp_all
  have cdf: "poisson_cdf_fp j lam = min (?cum1 * FP div ?t) FP" unfolding cum1 by (rule cdf_mass [OF Suc.prems(2)])
  have step: "(if v < poisson_cdf_fp j lam then j else seats_walk n ?w ?t v ?cum1 (j + 1)) = s"
    using Suc.prems(1) by (simp only: seats_walk.simps Let_def cdf [symmetric])
  show ?case
  proof (cases "v < poisson_cdf_fp j lam")
    case True
    with step have "s = j" by simp
    with True Suc.prems(4) show ?thesis by auto
  next
    case False
    have run: "seats_walk n ?w ?t v ?cum1 (j + 1) = s" using step False by (simp only: if_False)
    have "j + 1 \<le> s \<and> s \<le> j + 1 + n \<and> (s < j + 1 + n \<longrightarrow> v < poisson_cdf_fp s lam) \<and> (\<forall>i < s. poisson_cdf_fp i lam \<le> v)"
    proof (rule Suc.IH [OF run Suc.prems(2)])
      show "?cum1 = (if j + 1 = 0 then 0 else mass ?w (j + 1 - 1))" using cum1 by simp
      show "poisson_cdf_fp i lam \<le> v" if "i < j + 1" for i
        using that False Suc.prems(4) [of i] by (cases "i = j") auto
    qed
    then show ?thesis by auto
  qed
qed

lemma seats_inverse:
  assumes "0 < lam"
  shows "sortition_seats_fp v lam n \<le> n
    \<and> (sortition_seats_fp v lam n < n \<longrightarrow> v < poisson_cdf_fp (sortition_seats_fp v lam n) lam)
    \<and> (\<forall>i < sortition_seats_fp v lam n. poisson_cdf_fp i lam \<le> v)"
proof -
  have "sortition_seats_fp v lam n = seats_walk n (fst (poisson_weights_fp lam)) (snd (poisson_weights_fp lam)) v 0 0"
    using assms weights_total_pos [of lam] by (simp add: sortition_seats_fp_def case_prod_beta Let_def)
  from seats_walk_spec [OF assms _ _ this [symmetric]] show ?thesis by simp
qed

lemma seats_zero_value: "0 < lam \<Longrightarrow> FP \<le> v \<Longrightarrow> sortition_seats_fp v lam n = n"
  using seats_inverse [of lam v n] cdf_le [of "sortition_seats_fp v lam n" lam] by (cases "sortition_seats_fp v lam n < n") auto

section \<open>Who is elected\<close>

lemma elect_member:
  assumes "(node, seats) \<in> set (elect_committee_fp rep keys seed tau)"
  shows "\<exists>r. (node, r) \<in> set rep \<and> 0 < r \<and> node \<in> fst ` set keys \<and> 1 \<le> seats \<and> seats \<le> 64"
proof -
  obtain tot where "(node, seats) \<in> set (List.map_filter (seat_of keys seed tau tot) rep)"
    using assms by (auto simp: elect_committee_fp_def Let_def split: if_splits)
  then obtain nd r where m: "(nd, r) \<in> set rep" "seat_of keys seed tau tot (nd, r) = Some (node, seats)"
    by (auto simp: List.map_filter_def)
  have b: "sortition_seats_fp v lam 64 \<le> 64" for v lam
    using seats_inverse [of lam v 64] by (cases "lam = 0") (simp_all add: sortition_seats_fp_def)
  from m(2) have "nd = node" "0 < r" "0 < seats" "seats \<le> 64" "map_of keys node \<noteq> None"
    using b by (auto simp: seat_of_def Let_def split: if_splits option.splits)
  with m(1) show ?thesis by (intro exI [of _ r]) (auto simp: weak_map_of_SomeI dest!: map_of_SomeD intro: rev_image_eqI)
qed

lemma collect_snoc: "collect (xs @ [(k, v)]) = AList.update k v (collect xs)"
  by (simp add: collect_def)

lemma map_of_collect: "map_of (collect xs) k = map_of (rev xs) k"
proof (induction xs rule: rev_induct)
  case (snoc x xs)
  then show ?case by (cases x) (simp add: collect_snoc update_conv')
qed (simp add: collect_def)

lemma distinct_collect: "distinct (map fst (collect xs))"
  by (induction xs rule: rev_induct) (auto simp: collect_def distinct_update split: prod.splits)

lemma set_collect: "set (collect xs) \<subseteq> set xs"
proof
  fix x assume "x \<in> set (collect xs)"
  then have "map_of (collect xs) (fst x) = Some (snd x)"
    by (intro map_of_is_SomeI [OF distinct_collect]) simp
  then have "map_of (rev xs) (fst x) = Some (snd x)" by (simp only: map_of_collect)
  from map_of_SomeD [OF this] show "x \<in> set xs" by simp
qed

lemma redraw_keeps:
  assumes "\<And>i. P (draw i)" "P best"
  shows "P (redraw n retry flr draw best)"
  using assms(2) by (induction n arbitrary: retry best) (simp_all add: Let_def assms(1))

lemma finality_draw_member:
  assumes "acc \<in> finality_draw rep ids keys seed tau" "set ids \<subseteq> (\<lambda>(acc, r). (hex acc, r)) ` set rep"
  shows "\<exists>r. (acc, r) \<in> set rep \<and> 0 < r"
proof -
  let ?P = "\<lambda>best :: (string \<times> nat) list. \<forall>node\<in>set (map fst best). \<exists>r. (node, r) \<in> set ids \<and> 0 < r"
  have "?P (elect_committee_fp ids keys s tau)" for s using elect_member by fastforce
  then have "?P (redraw n k flr (\<lambda>i. elect_committee_fp ids keys (seed @ ''-retry-'' @ digits i) tau)
      (elect_committee_fp ids keys seed tau))" for n k flr
    by (intro redraw_keeps [where P = ?P]) blast+
  with assms(1) obtain r where "(hex acc, r) \<in> set ids" "0 < r"
    unfolding finality_draw_def Let_def by fastforce
  with assms(2) show ?thesis by (intro exI [of _ r]) auto
qed

lemma finality_member:
  assumes "acc \<in> elect_finality_committee reputation bound committed beacon epoch tau prefix halted"
  shows "\<not> halted \<and> acc \<in> set bound \<and> (\<exists>r. (acc, r) \<in> set reputation \<and> 0 < r)"
proof -
  let ?rep = "filter (\<lambda>(acc, _). acc \<in> set bound) reputation"
  have h: "\<not> halted" using assms by (auto simp: elect_finality_committee_def)
  have sub: "set (collect (map (\<lambda>(acc, r). (hex acc, r)) xs)) \<subseteq> (\<lambda>(acc, r). (hex acc, r)) ` set ?rep"
    if "set xs \<subseteq> set ?rep" for xs
    using set_collect [of "map (\<lambda>(acc, r). (hex acc, r)) xs"] that by fastforce
  have ne: "(?rep = []) = False" using assms by (auto simp: elect_finality_committee_def)
  let ?s = "filter (\<lambda>(acc, _). map_of (collect committed) acc \<noteq> None) ?rep"
  obtain xs keys seed where "acc \<in> finality_draw ?rep (collect (map (\<lambda>(acc, r). (hex acc, r)) xs)) keys seed tau"
    "set xs \<subseteq> set ?rep"
  proof (cases "use_beacon ?rep committed")
    case True
    from assms have "acc \<in> finality_draw ?rep (collect (map (\<lambda>(acc, r). (hex acc, r)) ?s))
        (collect (map (\<lambda>(acc, r). (hex acc, the (map_of (collect committed) acc))) ?s)) (prefix @ ''-'' @ hex beacon) tau"
      by (simp only: elect_finality_committee_def Let_def h ne True simp_thms if_True if_False)
    moreover have "set ?s \<subseteq> set ?rep" by (rule filter_is_subset)
    ultimately show thesis by (rule that)
  next
    case False
    from assms have "acc \<in> finality_draw ?rep (collect (map (\<lambda>(acc, r). (hex acc, r)) ?rep))
        (collect (map (\<lambda>(acc, r). (hex acc, ''sk-'' @ hex acc)) ?rep)) (prefix @ ''-'' @ digits epoch) tau"
      by (simp only: elect_finality_committee_def Let_def h ne False simp_thms if_True if_False)
    then show thesis by (rule that) (rule order_refl)
  qed
  note d = this
  from finality_draw_member [OF d(1) sub [OF d(2)]] obtain r where "(acc, r) \<in> set ?rep" "0 < r" by blast
  with h show ?thesis by auto
qed

section \<open>Properties\<close>

text \<open>
  Only accounts that can vote and have standing sit on the finality committee: every elected account
  has a node bound to it and positive reputation; a halted network, or one with no bound account, elects
  nobody.
\<close>

theorem finality_committee_members:
  "(\<forall>acc \<in> elect_finality_committee reputation bound committed beacon epoch tau prefix halted.
      acc \<in> set bound \<and> (\<exists>r. (acc, r) \<in> set reputation \<and> 0 < r))
    \<and> (halted \<or> bound = [] \<longrightarrow>
        elect_finality_committee reputation bound committed beacon epoch tau prefix halted = {})"
proof (intro conjI ballI impI)
  fix acc assume "acc \<in> elect_finality_committee reputation bound committed beacon epoch tau prefix halted"
  from finality_member [OF this] show "acc \<in> set bound" "\<exists>r. (acc, r) \<in> set reputation \<and> 0 < r" by simp_all
next
  assume "halted \<or> bound = []"
  then show "elect_finality_committee reputation bound committed beacon epoch tau prefix halted = {}"
    by (auto simp: elect_finality_committee_def)
qed

theorem finality_committee_members_witness:
  "elect_finality_committee [([1], 5), ([2], 7)] [] [([1], ''k'')] [0] 3 4 ''p'' False = {}
    \<and> elect_finality_committee [([1], 5), ([2], 7)] [[1], [2]] [] [0] 3 4 ''p'' True = {}"
  using finality_committee_members [of "[([1], 5), ([2], 7)]" "[]" "[([1], ''k'')]" "[0]" 3 4 "''p''" False]
    finality_committee_members [of "[([1], 5), ([2], 7)]" "[[1], [2]]" "[]" "[0]" 3 4 "''p''" True]
  by simp

text \<open>
  A few committers cannot capture the committee. While fewer than \<open>min 4 n\<close> of the \<open>n\<close> bound reputable
  accounts have a committed key, the committed keys and the beacon have no influence: the committee is the
  one elected with no key committed, under any other beacon.
\<close>

theorem lone_committers_ignored:
  assumes "length (filter (\<lambda>(acc, r). acc \<in> set bound \<and> 0 < r \<and> acc \<in> fst ` set committed) reputation)
    < min 4 (length (filter (\<lambda>(acc, r). acc \<in> set bound \<and> 0 < r) reputation))"
  shows "elect_finality_committee reputation bound committed beacon epoch tau prefix halted
    = elect_finality_committee reputation bound [] beacon' epoch tau prefix halted"
proof -
  let ?rep = "filter (\<lambda>(acc, _). acc \<in> set bound) reputation"
  have key: "map_of (collect committed) acc \<noteq> None \<longleftrightarrow> acc \<in> fst ` set committed" for acc
    by (simp add: map_of_collect map_of_eq_None_iff)
  have "filter (\<lambda>(acc, r). r > 0 \<and> map_of (collect committed) acc \<noteq> None) ?rep
      = filter (\<lambda>(acc, r). acc \<in> set bound \<and> 0 < r \<and> acc \<in> fst ` set committed) reputation"
    "filter (\<lambda>(_, r). r > 0) ?rep = filter (\<lambda>(acc, r). acc \<in> set bound \<and> 0 < r) reputation"
    unfolding key filter_filter by (auto intro: filter_cong)
  with assms have "\<not> use_beacon ?rep committed" by (auto simp: use_beacon_def Let_def)
  moreover have "\<not> use_beacon ?rep []" by (simp add: use_beacon_def Let_def)
  ultimately show ?thesis by (simp add: elect_finality_committee_def Let_def)
qed

theorem lone_committers_ignored_witness:
  "elect_finality_committee [([1], 5), ([2], 7), ([3], 0)] [[1], [2], [3]] [([1], ''mine''), ([3], ''mine too'')] [9] 3 4 ''p'' False
    = elect_finality_committee [([1], 5), ([2], 7), ([3], 0)] [[1], [2], [3]] [] [0] 3 4 ''p'' False"
  by (rule lone_committers_ignored) simp

text \<open>
  The seats of a draw are the inverse of the Poisson CDF: at most the cap, and below the cap the least
  number whose CDF exceeds the draw; the CDF itself is monotone, bounded by one and reaches one.
\<close>

theorem seats_are_inverse_cdf:
  assumes "0 < lam"
  shows "sortition_seats_fp v lam n \<le> n
    \<and> (sortition_seats_fp v lam n < n \<longrightarrow> v < poisson_cdf_fp (sortition_seats_fp v lam n) lam)
    \<and> (\<forall>i < sortition_seats_fp v lam n. poisson_cdf_fp i lam \<le> v)
    \<and> (\<forall>i j. i \<le> j \<longrightarrow> poisson_cdf_fp i lam \<le> poisson_cdf_fp j lam \<and> poisson_cdf_fp j lam \<le> FP)
    \<and> (\<exists>j. poisson_cdf_fp j lam = FP)"
  using seats_inverse [OF assms, of v n] cdf_mono cdf_le cdf_end [of lam] by (meson le_add1)

theorem seats_are_inverse_cdf_witness:
  "sortition_seats_fp 400000000 2500000000 64 \<le> 64
    \<and> list_all (\<lambda>i. poisson_cdf_fp i 2500000000 \<le> 400000000) [0..<sortition_seats_fp 400000000 2500000000 64]"
  using seats_are_inverse_cdf [of 2500000000 400000000 64] by (simp add: list_all_iff)

section \<open>A lone candidate\<close>

text \<open>With sixty expected seats for one account the weight of no seat underflows, so it is seated whatever the draw.\<close>

lemma poisson_down_rec: "poisson_down lam n w = (if n = 0 then [] else let w1 = w * n * FP div lam in
   if w1 = 0 then [] else w1 # poisson_down lam (n - 1) w1)"
  by (cases n) (simp_all add: Let_def)

lemma poisson_down_60: "length (poisson_down 60000000000 60 POISSON_ANCHOR) < 60"
  by (simp add: poisson_down_rec POISSON_ANCHOR_def FP_def)

lemma cdf_60: "poisson_cdf_fp 0 60000000000 = 0"
proof -
  have "\<exists>xs. fst (poisson_weights_fp 60000000000) = 0 # xs"
    using poisson_down_60 by (cases "60 - length (poisson_down 60000000000 60 POISSON_ANCHOR)")
      (simp_all add: poisson_weights_fp_def Let_def FP_def)
  then show ?thesis
    using weights_total_pos [of 60000000000] by (auto simp: poisson_cdf_fp_def case_prod_beta Let_def)
qed

lemma seats_60: "0 < sortition_seats_fp v 60000000000 64"
  using seats_inverse [of 60000000000 v 64] cdf_60 by (cases "sortition_seats_fp v 60000000000 64 = 0") auto

lemma redraw_enough: "flr \<le> length best \<Longrightarrow> redraw n retry flr draw best = best"
  by (cases n) simp_all

lemma sole_member_elected:
  assumes "0 < r"
  shows "elect_finality_committee [(acc, r)] [acc] [] bcn e 60 prefix False = {acc}"
proof -
  have "fp_mul (60 * FP) (fp_div (nat r) (nat r)) = 60000000000"
    using assms by (simp add: fp_div_def fp_mul_def FP_def)
  then have one: "elect_committee_fp [(hex acc, r)] [(hex acc, sk)] seed 60
      = [(hex acc, sortition_seats_fp (vrf_value_fp sk seed) 60000000000 64)]" for seed sk
    using assms seats_60 [of "vrf_value_fp sk seed"]
    by (simp add: elect_committee_fp_def seat_of_def List.map_filter_simps Let_def)
  have "finality_draw [(acc, r)] [(hex acc, r)] [(hex acc, sk)] seed 60 = {acc}" for seed sk
    using assms by (simp add: finality_draw_def one redraw_enough Let_def)
  then show ?thesis
    by (simp add: elect_finality_committee_def use_beacon_def collect_def Let_def)
qed

end
