(* ===== verification/BeaconCore.thy ===== *)
theory BeaconCore
imports Sortition "HOL-Library.List_Lexorder" "HOL-Library.Multiset"
begin

text \<open>
  The commit-reveal beacon, \<open>chain/consensus-core/src/beacon.rs\<close>: commitments, the deferred seed, the
  verified keys, the committed election and the \<open>BeaconState\<close> pipeline. A \<open>BTreeMap\<close> is an
  association list with distinct keys; the seed sorts its contributions (\<open>Vec<u8>\<close> lexicographically), so
  it does not depend on the order of the map.
\<close>

type_synonym commitment = "byte list"

section \<open>Commitments and the seed\<close>

definition commit :: "byte list \<Rightarrow> commitment" where
  "commit secret = sha256 secret"

definition verify_reveal :: "commitment \<Rightarrow> byte list \<Rightarrow> bool" where
  "verify_reveal c secret = (sha256 secret = c)"

definition mix :: "commitment \<Rightarrow> byte list \<Rightarrow> commitment" where
  "mix acc contribution = sha256 (acc @ contribution)"

definition beacon_seed :: "commitment \<Rightarrow> byte list list \<Rightarrow> commitment" where
  "beacon_seed prev contributions = foldl mix prev (sort contributions)"

section \<open>Verified keys and the committed election\<close>

definition verified_secret_keys :: "(string \<times> commitment \<times> byte list) list \<Rightarrow> (string \<times> string) list" where
  "verified_secret_keys reveals =
     map (\<lambda>(node, c, s). (node, hex (sha256 s))) (filter (\<lambda>(node, c, s). verify_reveal c s) reveals)"

text \<open>The reputation of the nodes with a key, as the elections restrict it.\<close>

definition keyed_reputation :: "(string \<times> int) list \<Rightarrow> (string \<times> string) list \<Rightarrow> (string \<times> int) list" where
  "keyed_reputation reputation keys =
     List.map_filter (\<lambda>(node, _). map_option (\<lambda>r. (node, r)) (map_of reputation node)) keys"

definition elect_committee_committed ::
  "(string \<times> int) list \<Rightarrow> (string \<times> commitment \<times> byte list) list \<Rightarrow> commitment \<Rightarrow> nat \<Rightarrow> (string \<times> nat) list" where
  "elect_committee_committed reputation reveals prev_beacon tau =
     (let contributions = map (\<lambda>(_, _, s). s) reveals;
          seed = hex (beacon_seed prev_beacon contributions);
          keys = verified_secret_keys reveals
      in elect_committee_fp (keyed_reputation reputation keys) keys seed tau)"

section \<open>The pipeline\<close>

record beacon_state =
  beacon :: commitment
  active_keys :: "(string \<times> string) list"
  pending :: "(string \<times> commitment) list"
  awaiting :: "(string \<times> commitment) list"
  staged :: "(string \<times> byte list) list"

definition beacon_new :: "commitment \<Rightarrow> beacon_state" where
  "beacon_new genesis = \<lparr>beacon = genesis, active_keys = [], pending = [], awaiting = [], staged = []\<rparr>"

definition beacon_commit :: "string \<Rightarrow> commitment \<Rightarrow> beacon_state \<Rightarrow> beacon_state" where
  "beacon_commit node c st = st\<lparr>pending := AList.update node c (pending st)\<rparr>"

definition beacon_reveal :: "string \<Rightarrow> byte list \<Rightarrow> beacon_state \<Rightarrow> bool \<times> beacon_state" where
  "beacon_reveal node secret st =
     (case map_of (awaiting st) node of
        Some c \<Rightarrow> if verify_reveal c secret then (True, st\<lparr>staged := AList.update node secret (staged st)\<rparr>)
                  else (False, st)
      | None \<Rightarrow> (False, st))"

definition beacon_roll :: "beacon_state \<Rightarrow> beacon_state" where
  "beacon_roll st = st\<lparr>
     beacon := beacon_seed (beacon st) (map snd (staged st)),
     active_keys := map (\<lambda>(node, s). (node, hex (sha256 s))) (staged st),
     awaiting := pending st,
     pending := [],
     staged := []\<rparr>"

definition beacon_seed_hex :: "beacon_state \<Rightarrow> string" where
  "beacon_seed_hex st = hex (beacon st)"

definition beacon_elect :: "beacon_state \<Rightarrow> (string \<times> int) list \<Rightarrow> nat \<Rightarrow> (string \<times> nat) list" where
  "beacon_elect st reputation tau =
     elect_committee_fp (keyed_reputation reputation (active_keys st)) (active_keys st) (beacon_seed_hex st) tau"

datatype beacon_op = BCommit string commitment | BReveal string "byte list" | BRoll

fun beacon_step :: "beacon_op \<Rightarrow> beacon_state \<Rightarrow> beacon_state" where
  "beacon_step (BCommit node c) st = beacon_commit node c st"
| "beacon_step (BReveal node s) st = snd (beacon_reveal node s st)"
| "beacon_step BRoll st = beacon_roll st"

definition beacon_run :: "beacon_op list \<Rightarrow> beacon_state \<Rightarrow> beacon_state" where
  "beacon_run ops st = fold beacon_step ops st"

section \<open>Where an active key comes from\<close>

text \<open>The last commitment of a node in the epoch that ends the history \<open>h\<close>.\<close>

definition committed_now :: "string \<Rightarrow> commitment \<Rightarrow> beacon_op list \<Rightarrow> bool" where
  "committed_now node c h = (\<exists>pre e. h = pre @ BCommit node c # e \<and> BRoll \<notin> set e \<and> (\<forall>d. BCommit node d \<notin> set e))"

definition committed_before :: "string \<Rightarrow> commitment \<Rightarrow> beacon_op list \<Rightarrow> bool" where
  "committed_before node c h = (\<exists>g e. h = g @ BRoll # e \<and> BRoll \<notin> set e \<and> committed_now node c g)"

definition revealed_now :: "string \<Rightarrow> byte list \<Rightarrow> beacon_op list \<Rightarrow> bool" where
  "revealed_now node s h = (\<exists>g e. h = g @ BReveal node s # e \<and> BRoll \<notin> set e \<and> committed_before node (sha256 s) g)"

definition key_earned :: "string \<Rightarrow> string \<Rightarrow> beacon_op list \<Rightarrow> bool" where
  "key_earned node k h = (\<exists>g e s. h = g @ BRoll # e \<and> BRoll \<notin> set e \<and> revealed_now node s g \<and> k = hex (sha256 s))"

lemma committed_now_step:
  assumes "committed_now node c h"
  shows "x \<noteq> BRoll \<Longrightarrow> (\<And>d. x \<noteq> BCommit node d) \<Longrightarrow> committed_now node c (h @ [x])"
proof -
  assume x: "x \<noteq> BRoll" "\<And>d. x \<noteq> BCommit node d"
  from assms obtain pre e where "h = pre @ BCommit node c # e" "BRoll \<notin> set e" "\<forall>d. BCommit node d \<notin> set e"
    by (auto simp: committed_now_def)
  with x show ?thesis unfolding committed_now_def by (intro exI [of _ pre] exI [of _ "e @ [x]"]) auto
qed

lemma committed_now_self: "committed_now node c (h @ [BCommit node c])"
  unfolding committed_now_def by (intro exI [of _ h] exI [of _ "[]"]) simp

lemma history_step:
  assumes "x \<noteq> BRoll"
  shows "committed_before node c h \<Longrightarrow> committed_before node c (h @ [x])"
    and "revealed_now node s h \<Longrightarrow> revealed_now node s (h @ [x])"
    and "key_earned node k h \<Longrightarrow> key_earned node k (h @ [x])"
proof -
  assume "committed_before node c h"
  then obtain g e where "h = g @ BRoll # e" "BRoll \<notin> set e" "committed_now node c g" by (auto simp: committed_before_def)
  with assms show "committed_before node c (h @ [x])"
    unfolding committed_before_def by (intro exI [of _ g] exI [of _ "e @ [x]"]) auto
next
  assume "revealed_now node s h"
  then obtain g e where "h = g @ BReveal node s # e" "BRoll \<notin> set e" "committed_before node (sha256 s) g"
    by (auto simp: revealed_now_def)
  with assms show "revealed_now node s (h @ [x])"
    unfolding revealed_now_def by (intro exI [of _ g] exI [of _ "e @ [x]"]) auto
next
  assume "key_earned node k h"
  then obtain g e s where "h = g @ BRoll # e" "BRoll \<notin> set e" "revealed_now node s g" "k = hex (sha256 s)"
    by (auto simp: key_earned_def)
  with assms show "key_earned node k (h @ [x])"
    unfolding key_earned_def by (intro exI [of _ g] exI [of _ "e @ [x]"] exI [of _ s]) auto
qed

definition beacon_hist :: "beacon_op list \<Rightarrow> beacon_state \<Rightarrow> bool" where
  "beacon_hist h st = ((\<forall>node c. map_of (pending st) node = Some c \<longrightarrow> committed_now node c h)
     \<and> (\<forall>node c. map_of (awaiting st) node = Some c \<longrightarrow> committed_before node c h)
     \<and> (\<forall>node s. map_of (staged st) node = Some s \<longrightarrow> revealed_now node s h)
     \<and> (\<forall>node k. map_of (active_keys st) node = Some k \<longrightarrow> key_earned node k h))"

lemma beacon_hist_step:
  assumes "beacon_hist h st"
  shows "beacon_hist (h @ [x]) (beacon_step x st)"
proof -
  have p: "map_of (pending st) node = Some c \<Longrightarrow> committed_now node c h"
    and a: "map_of (awaiting st) node = Some c \<Longrightarrow> committed_before node c h"
    and s: "map_of (staged st) node = Some sec \<Longrightarrow> revealed_now node sec h"
    and k: "map_of (active_keys st) node = Some key \<Longrightarrow> key_earned node key h" for node c sec key
    using assms by (auto simp: beacon_hist_def)
  show ?thesis
  proof (cases x)
    case (BCommit node c)
    then have x: "x \<noteq> BRoll" by simp
    have "committed_now w d (h @ [x])" if "map_of (AList.update node c (pending st)) w = Some d" for w d
      using that p [of w d] committed_now_step [of w d h x] committed_now_self BCommit
      by (cases "w = node") (auto simp: update_conv')
    with a s k history_step [OF x, of _ _ h] show ?thesis
      unfolding beacon_hist_def BCommit by (simp add: beacon_commit_def)
  next
    case (BReveal node sec)
    then have x: "x \<noteq> BRoll" "\<And>w d. x \<noteq> BCommit w d" by simp_all
    have r: "revealed_now node sec (h @ [x])" if "map_of (awaiting st) node = Some c" "verify_reveal c sec" for c
      using a [OF that(1)] that(2) BReveal unfolding revealed_now_def
      by (intro exI [of _ h] exI [of _ "[]"]) (simp add: verify_reveal_def)
    have same: "beacon_hist (h @ [x]) st"
      unfolding beacon_hist_def using p a s k committed_now_step [OF _ x] history_step [OF x(1)] by simp
    show ?thesis
    proof (cases "\<exists>c. map_of (awaiting st) node = Some c \<and> verify_reveal c sec")
      case True
      then obtain c where c: "map_of (awaiting st) node = Some c" "verify_reveal c sec" by blast
      then have st': "beacon_step x st = st\<lparr>staged := AList.update node sec (staged st)\<rparr>"
        by (simp add: BReveal beacon_reveal_def)
      show ?thesis using same r [OF c] unfolding st' beacon_hist_def by (simp add: update_conv')
    next
      case False
      then have "beacon_step x st = st"
        by (auto simp: BReveal beacon_reveal_def split: option.split)
      with same show ?thesis by simp
    qed
  next
    case BRoll
    have b: "committed_before node c (h @ [BRoll])" if "map_of (pending st) node = Some c" for node c
      using p [OF that] unfolding committed_before_def by (intro exI [of _ h] exI [of _ "[]"]) simp
    have e: "key_earned node (hex (sha256 sec)) (h @ [BRoll])" if "map_of (staged st) node = Some sec" for node sec
      using s [OF that] unfolding key_earned_def by (intro exI [of _ h] exI [of _ "[]"] exI [of _ sec]) simp
    have m: "map_of (map (\<lambda>(n, v). (n, hex (sha256 v))) xs) node = map_option (\<lambda>v. hex (sha256 v)) (map_of xs node)"
      for xs :: "(string \<times> byte list) list" and node by (induction xs) auto
    show ?thesis using BRoll b e by (auto simp: beacon_hist_def beacon_roll_def m)
  qed
qed

lemma beacon_hist_run: "beacon_hist ops (beacon_run ops (beacon_new g))"
  by (induction ops rule: rev_induct)
    (simp_all add: beacon_run_def beacon_hist_step, simp add: beacon_hist_def beacon_new_def)

section \<open>Properties\<close>

text \<open>
  C32: no key can be chosen to suit the seed. Whatever nodes commit, reveal and roll, a key active in an
  epoch is the hash of a secret its node revealed in the epoch before, and whose hash was the last thing it
  had committed to in the epoch before that: one whole epoch earlier than the fold that makes the seed.
\<close>

theorem active_key_committed_earlier:
  assumes "map_of (active_keys (beacon_run ops (beacon_new g))) node = Some k"
  shows "\<exists>pre e1 e2 e3 e4 s. ops = pre @ BCommit node (commit s) # e1 @ BRoll # e2 @ BReveal node s # e3 @ BRoll # e4
    \<and> BRoll \<notin> set (e1 @ e2 @ e3 @ e4) \<and> (\<forall>d. BCommit node d \<notin> set e1) \<and> k = hex (commit s)"
proof -
  have "key_earned node k ops" using beacon_hist_run [of ops g] assms by (simp add: beacon_hist_def)
  then obtain g1 e4 s where 1: "ops = g1 @ BRoll # e4" "BRoll \<notin> set e4" "revealed_now node s g1" "k = hex (sha256 s)"
    by (auto simp: key_earned_def)
  from 1(3) obtain g2 e3 where 2: "g1 = g2 @ BReveal node s # e3" "BRoll \<notin> set e3" "committed_before node (sha256 s) g2"
    by (auto simp: revealed_now_def)
  from 2(3) obtain g3 e2 where 3: "g2 = g3 @ BRoll # e2" "BRoll \<notin> set e2" "committed_now node (sha256 s) g3"
    by (auto simp: committed_before_def)
  from 3(3) obtain pre e1 where 4: "g3 = pre @ BCommit node (sha256 s) # e1" "BRoll \<notin> set e1" "\<forall>d. BCommit node d \<notin> set e1"
    by (auto simp: committed_now_def)
  from 1 2 3 4 show ?thesis
    by (intro exI [of _ pre] exI [of _ e1] exI [of _ e2] exI [of _ e3] exI [of _ e4] exI [of _ s])
      (simp add: commit_def)
qed

definition demo_epochs :: "beacon_op list" where
  "demo_epochs = [BCommit ''n'' (commit [1, 2]), BRoll, BReveal ''n'' [1, 2], BRoll]"

lemma demo_epochs_key: "map_of (active_keys (beacon_run demo_epochs (beacon_new [0]))) ''n'' = Some (hex (sha256 [1, 2]))"
  by (simp add: demo_epochs_def beacon_run_def beacon_new_def beacon_commit_def beacon_roll_def
      beacon_reveal_def verify_reveal_def commit_def)

theorem active_key_committed_earlier_witness:
  "\<exists>pre e1 e2 e3 e4 s. demo_epochs = pre @ BCommit ''n'' (commit s) # e1 @ BRoll # e2 @ BReveal ''n'' s # e3 @ BRoll # e4
    \<and> BRoll \<notin> set (e1 @ e2 @ e3 @ e4) \<and> (\<forall>d. BCommit ''n'' d \<notin> set e1) \<and> hex (sha256 [1, 2]) = hex (commit s)"
  by (rule active_key_committed_earlier [OF demo_epochs_key])

text \<open>
  A committed election seats only nodes whose reveal opens their commitment and whose reputation is
  positive, each with between 1 and 64 seats; and the seed it is drawn with does not depend on the order
  in which the reveals are listed.
\<close>

lemma committed_election_members:
  "(\<forall>(node, seats) \<in> set (elect_committee_committed reputation reveals prev tau).
      1 \<le> seats \<and> seats \<le> 64 \<and> (\<exists>r. (node, r) \<in> set reputation \<and> 0 < r)
      \<and> (\<exists>c s. (node, c, s) \<in> set reveals \<and> sha256 s = c))
    \<and> (mset reveals = mset reveals' \<longrightarrow>
        beacon_seed prev (map (\<lambda>(_, _, s). s) reveals) = beacon_seed prev (map (\<lambda>(_, _, s). s) reveals'))"
proof (intro conjI ballI impI)
  fix x assume x: "x \<in> set (elect_committee_committed reputation reveals prev tau)"
  obtain node seats where ns: "x = (node, seats)" by (cases x)
  obtain r where r: "(node, r) \<in> set (keyed_reputation reputation (verified_secret_keys reveals))" "0 < r"
    "1 \<le> seats" "seats \<le> 64" "node \<in> fst ` set (verified_secret_keys reveals)"
    using elect_member x by (fastforce simp: ns elect_committee_committed_def Let_def)
  from r(1) have "(node, r) \<in> set reputation"
    by (auto simp: keyed_reputation_def List.map_filter_def dest: map_of_SomeD)
  moreover from r(5) obtain c s where "(node, c, s) \<in> set reveals" "sha256 s = c"
    by (auto simp: verified_secret_keys_def verify_reveal_def)
  ultimately show "case x of (node, seats) \<Rightarrow> 1 \<le> seats \<and> seats \<le> 64 \<and> (\<exists>r. (node, r) \<in> set reputation \<and> 0 < r)
      \<and> (\<exists>c s. (node, c, s) \<in> set reveals \<and> sha256 s = c)"
    using r(2-4) by (auto simp: ns)
next
  assume "mset reveals = mset reveals'"
  then have "mset (map (\<lambda>(_, _, s). s) reveals) = mset (map (\<lambda>(_, _, s). s) reveals')"
    by (simp only: mset_map)
  then have "sort (map (\<lambda>(_, _, s). s) reveals) = sort (map (\<lambda>(_, _, s). s) reveals')"
    by (intro properties_for_sort) simp_all
  then show "beacon_seed prev (map (\<lambda>(_, _, s). s) reveals) = beacon_seed prev (map (\<lambda>(_, _, s). s) reveals')"
    by (simp add: beacon_seed_def)
qed

end
