(* ===== verification/BeaconPallet.thy ===== *)
theory BeaconPallet
imports BeaconCore Frame
begin

text \<open>
  The beacon pallet, \<open>chain/pallet-beacon/src/lib.rs\<close>, and its refinement of the core's pipeline
  (\<open>BeaconCore\<close>). Storage maps are partial functions; \<open>iter\<close> visits the keys of \<open>Staged\<close> in the
  storage's own order, given by the parameter \<open>ord\<close> of each call (\<open>iter_ok\<close>: each key once).
\<close>

section \<open>Storage and operations\<close>

record beacon_config =
  max_secret_len :: nat
  bp_epoch_length :: nat

datatype 'a bp_event = Committed 'a | Revealed 'a | BeaconRolled commitment nat

datatype bp_error = BadReveal | SecretTooLong

record 'a beacon_pallet =
  bp_beacon :: commitment
  bp_pending :: "'a \<rightharpoonup> commitment"
  bp_awaiting :: "'a \<rightharpoonup> commitment"
  bp_staged :: "'a \<rightharpoonup> byte list"
  bp_active :: "'a \<rightharpoonup> byte list"
  bp_log :: "'a bp_event list"

definition bp_genesis :: "commitment \<Rightarrow> 'a beacon_pallet" where
  "bp_genesis g = \<lparr>bp_beacon = g, bp_pending = Map.empty, bp_awaiting = Map.empty, bp_staged = Map.empty,
     bp_active = Map.empty, bp_log = []\<rparr>"

definition bp_emit :: "'a bp_event \<Rightarrow> 'a beacon_pallet \<Rightarrow> 'a beacon_pallet" where
  "bp_emit e st = st\<lparr>bp_log := bp_log st @ [e]\<rparr>"

definition bp_commit :: "'a \<Rightarrow> commitment \<Rightarrow> 'a beacon_pallet \<Rightarrow> 'a beacon_pallet" where
  "bp_commit who c st = bp_emit (Committed who) (st\<lparr>bp_pending := (bp_pending st)(who \<mapsto> c)\<rparr>)"

definition bp_reveal :: "beacon_config \<Rightarrow> 'a \<Rightarrow> byte list \<Rightarrow> 'a beacon_pallet \<Rightarrow> bp_error + 'a beacon_pallet" where
  "bp_reveal cfg who secret st =
     (case bp_awaiting st who of None \<Rightarrow> Inl BadReveal | Some c \<Rightarrow>
      if \<not> verify_reveal c secret then Inl BadReveal
      else if \<not> length secret \<le> max_secret_len cfg then Inl SecretTooLong
      else Inr (bp_emit (Revealed who) (st\<lparr>bp_staged := (bp_staged st)(who \<mapsto> secret)\<rparr>)))"

definition bp_roll :: "beacon_config \<Rightarrow> (('a \<rightharpoonup> byte list) \<Rightarrow> 'a list) \<Rightarrow> 'a beacon_pallet \<Rightarrow> 'a beacon_pallet" where
  "bp_roll cfg ord st =
     (let staged = map (\<lambda>who. (who, the (bp_staged st who))) (ord (bp_staged st));
          new = beacon_seed (bp_beacon st) (map snd staged);
          kept = filter (\<lambda>(who, s). length s \<le> max_secret_len cfg) staged
      in bp_emit (BeaconRolled new (length kept)) (st\<lparr>
           bp_beacon := new,
           bp_active := fold (\<lambda>(who, s) m. m(who \<mapsto> s)) kept Map.empty,
           bp_awaiting := bp_pending st,
           bp_pending := Map.empty,
           bp_staged := Map.empty\<rparr>))"

definition bp_on_initialize ::
  "beacon_config \<Rightarrow> (('a \<rightharpoonup> byte list) \<Rightarrow> 'a list) \<Rightarrow> nat \<Rightarrow> 'a beacon_pallet \<Rightarrow> 'a beacon_pallet" where
  "bp_on_initialize cfg ord n st =
     (if n \<noteq> 0 \<and> bp_epoch_length cfg \<noteq> 0 \<and> n mod bp_epoch_length cfg = 0 then bp_roll cfg ord st else st)"

definition seed_hex :: "'a beacon_pallet \<Rightarrow> string" where
  "seed_hex st = hex (bp_beacon st)"

definition committed_key :: "'a \<Rightarrow> 'a beacon_pallet \<Rightarrow> string option" where
  "committed_key who st = map_option (\<lambda>s. hex (sha256 s)) (bp_active st who)"

definition is_active :: "'a \<Rightarrow> 'a beacon_pallet \<Rightarrow> bool" where
  "is_active who st = (bp_active st who \<noteq> None)"

definition active_committed_keys :: "(('a \<rightharpoonup> byte list) \<Rightarrow> 'a list) \<Rightarrow> 'a beacon_pallet \<Rightarrow> ('a \<times> string) list" where
  "active_committed_keys ord st = map (\<lambda>who. (who, hex (sha256 (the (bp_active st who))))) (ord (bp_active st))"

datatype 'a bp_call = BpCommit 'a commitment | BpReveal 'a "byte list" | BpBlock nat

fun bp_step ::
  "beacon_config \<Rightarrow> (('a \<rightharpoonup> byte list) \<Rightarrow> 'a list) \<times> 'a bp_call \<Rightarrow> 'a beacon_pallet \<Rightarrow> bp_error + 'a beacon_pallet" where
  "bp_step cfg (ord, BpCommit who c) st = Inr (bp_commit who c st)"
| "bp_step cfg (ord, BpReveal who s) st = bp_reveal cfg who s st"
| "bp_step cfg (ord, BpBlock n) st = Inr (bp_on_initialize cfg ord n st)"

definition iter_ok :: "(('a \<rightharpoonup> byte list) \<Rightarrow> 'a list) \<Rightarrow> bool" where
  "iter_ok ord = (\<forall>m. finite (dom m) \<longrightarrow> set (ord m) = dom m \<and> distinct (ord m))"

section \<open>The core's view\<close>

text \<open>A map against an association list, accounts named by \<open>nm\<close>.\<close>

definition same_map :: "('a \<Rightarrow> string) \<Rightarrow> ('a \<rightharpoonup> 'v) \<Rightarrow> (string \<times> 'v) list \<Rightarrow> bool" where
  "same_map nm m xs = (distinct (map fst xs) \<and> fst ` set xs = nm ` dom m \<and> (\<forall>a. map_of xs (nm a) = m a))"

definition views :: "beacon_config \<Rightarrow> ('a \<Rightarrow> string) \<Rightarrow> 'a beacon_pallet \<Rightarrow> beacon_state \<Rightarrow> bool" where
  "views cfg nm st core = (bp_beacon st = beacon core
     \<and> same_map nm (bp_pending st) (pending core) \<and> same_map nm (bp_awaiting st) (awaiting core)
     \<and> same_map nm (bp_staged st) (staged core)
     \<and> same_map nm (\<lambda>a. committed_key a st) (active_keys core)
     \<and> (\<forall>a s. bp_staged st a = Some s \<longrightarrow> length s \<le> max_secret_len cfg))"

text \<open>What the core is told while the pallet processes its calls: the refused ones never reach it.\<close>

fun core_op :: "beacon_config \<Rightarrow> ('a \<Rightarrow> string) \<Rightarrow> 'a bp_call \<Rightarrow> beacon_op list" where
  "core_op cfg nm (BpCommit who c) = [BCommit (nm who) c]"
| "core_op cfg nm (BpReveal who s) = [BReveal (nm who) s]"
| "core_op cfg nm (BpBlock n) =
     (if n \<noteq> 0 \<and> bp_epoch_length cfg \<noteq> 0 \<and> n mod bp_epoch_length cfg = 0 then [BRoll] else [])"

fun core_ops ::
  "beacon_config \<Rightarrow> ('a \<Rightarrow> string) \<Rightarrow> ((('a \<rightharpoonup> byte list) \<Rightarrow> 'a list) \<times> 'a bp_call) list \<Rightarrow> 'a beacon_pallet \<Rightarrow> beacon_op list" where
  "core_ops cfg nm [] st = []"
| "core_ops cfg nm (c # cs) st =
     (case bp_step cfg c st of
        Inl _ \<Rightarrow> core_ops cfg nm cs st
      | Inr st' \<Rightarrow> core_op cfg nm (snd c) @ core_ops cfg nm cs st')"

lemma same_map_update:
  assumes "inj nm" "same_map nm m xs"
  shows "same_map nm (m(a \<mapsto> v)) (AList.update (nm a) v xs)"
proof -
  have "map_of (AList.update (nm a) v xs) (nm b) = (m(a \<mapsto> v)) b" for b
    using assms by (simp add: same_map_def update_conv' inj_eq)
  moreover have "fst ` set (AList.update (nm a) v xs) = nm ` dom (m(a \<mapsto> v))"
  proof -
    have "fst ` set (AList.update (nm a) v xs) = dom (map_of (AList.update (nm a) v xs))"
      by (simp add: dom_map_of_conv_image_fst)
    also have "\<dots> = insert (nm a) (fst ` set xs)" by (simp add: update_conv' dom_map_of_conv_image_fst)
    also have "\<dots> = nm ` dom (m(a \<mapsto> v))" using assms(2) by (auto simp: same_map_def)
    finally show ?thesis .
  qed
  ultimately show ?thesis using assms(2) by (simp add: same_map_def distinct_update)
qed

lemma same_map_empty: "same_map nm Map.empty []"
  by (simp add: same_map_def)

lemma same_map_finite: "inj nm \<Longrightarrow> same_map nm m xs \<Longrightarrow> finite (dom m)"
  by (metis (no_types, lifting) finite_imageD finite_imageI finite_set inj_on_subset same_map_def subset_UNIV)

lemma same_map_values:
  assumes "inj nm" "same_map nm m xs" "set ord = dom m" "distinct ord"
  shows "mset (map (\<lambda>a. the (m a)) ord) = mset (map snd xs)"
proof -
  have k: "mset (map fst xs) = mset (map nm ord)"
  proof (rule iffD1 [OF set_eq_iff_mset_eq_distinct])
    show "distinct (map fst xs)" using assms(2) by (simp add: same_map_def)
    show "distinct (map nm ord)" using assms(4) inj_on_subset [OF assms(1) subset_UNIV] by (simp add: distinct_map)
    show "set (map fst xs) = set (map nm ord)" using assms(2,3) by (simp add: same_map_def)
  qed
  have "snd e = the (map_of xs (fst e))" if "e \<in> set xs" for e
    using assms(2) that by (cases e) (simp add: same_map_def)
  then have "map snd xs = map (\<lambda>n. the (map_of xs n)) (map fst xs)" by simp
  then have "mset (map snd xs) = mset (map (\<lambda>n. the (map_of xs n)) (map fst xs))" by (rule arg_cong)
  also have "\<dots> = image_mset (\<lambda>n. the (map_of xs n)) (mset (map fst xs))" by (rule mset_map)
  also have "\<dots> = image_mset (\<lambda>n. the (map_of xs n)) (mset (map nm ord))" by (simp only: k)
  also have "\<dots> = mset (map (\<lambda>n. the (map_of xs n)) (map nm ord))" by (simp only: mset_map)
  also have "map (\<lambda>n. the (map_of xs n)) (map nm ord) = map (\<lambda>a. the (m a)) ord"
    using assms(2) by (simp add: same_map_def)
  finally show ?thesis ..
qed

lemma beacon_seed_mset: "mset xs = mset ys \<Longrightarrow> beacon_seed prev xs = beacon_seed prev ys"
  unfolding beacon_seed_def by (metis mset_sort properties_for_sort sorted_sort)

lemma fold_upd: "distinct (map fst xs) \<Longrightarrow>
    fold (\<lambda>(k, v) m. m(k \<mapsto> v)) xs m0 k = (case map_of xs k of Some v \<Rightarrow> Some v | None \<Rightarrow> m0 k)"
proof (induction xs arbitrary: m0)
  case (Cons x xs)
  obtain a b where x: "x = (a, b)" by (cases x)
  have "map_of xs a = None" using Cons.prems by (simp add: x map_of_eq_None_iff)
  with Cons show ?case by (cases "k = a") (simp_all add: x split: option.split)
qed simp

lemma view_commit: "inj nm \<Longrightarrow> views cfg nm st core \<Longrightarrow> views cfg nm (bp_commit who c st) (beacon_commit (nm who) c core)"
  using same_map_update [of nm "bp_pending st" "pending core" who c]
  by (simp add: views_def bp_commit_def beacon_commit_def bp_emit_def committed_key_def)

lemma view_reveal:
  assumes "inj nm" "views cfg nm st core" "bp_reveal cfg who s st = Inr st'"
  shows "views cfg nm st' (snd (beacon_reveal (nm who) s core))"
proof -
  obtain c where c: "bp_awaiting st who = Some c" "verify_reveal c s" "length s \<le> max_secret_len cfg"
    "st' = bp_emit (Revealed who) (st\<lparr>bp_staged := (bp_staged st)(who \<mapsto> s)\<rparr>)"
    using assms(3) unfolding bp_reveal_def guards by blast
  have "map_of (awaiting core) (nm who) = Some c" using assms(2) c(1) by (simp add: views_def same_map_def)
  with c assms same_map_update [of nm "bp_staged st" "staged core" who s] show ?thesis
    by (simp add: views_def beacon_reveal_def bp_emit_def committed_key_def)
qed

lemma view_roll:
  assumes "inj nm" "views cfg nm st core" "iter_ok ord"
  shows "views cfg nm (bp_roll cfg ord st) (beacon_roll core)"
proof -
  let ?o = "ord (bp_staged st)"
  let ?staged = "map (\<lambda>who. (who, the (bp_staged st who))) ?o"
  have s: "same_map nm (bp_staged st) (staged core)" using assms(2) by (simp add: views_def)
  have o: "set ?o = dom (bp_staged st)" "distinct ?o"
    using assms(3) same_map_finite [OF assms(1) s] by (simp_all add: iter_ok_def)
  have short: "length (the (bp_staged st a)) \<le> max_secret_len cfg" if "a \<in> set ?o" for a
    using that o(1) assms(2) by (auto simp: views_def)
  have kept: "filter (\<lambda>(who, s). length s \<le> max_secret_len cfg) ?staged = ?staged"
    using short by (auto intro: filter_True)
  have d: "distinct (map fst ?staged)" using o(2) by (simp add: comp_def)
  have "map_of ?staged a = bp_staged st a" for a
  proof (cases "a \<in> set ?o")
    case True
    then show ?thesis using o(1) by (auto simp: map_of_map_restrict comp_def)
  next
    case False
    then have "bp_staged st a = None" using o(1) by auto
    with False show ?thesis by (simp add: map_of_eq_None_iff image_image)
  qed
  then have act: "fold (\<lambda>(who, s) m. m(who \<mapsto> s)) ?staged Map.empty = bp_staged st"
    by (auto simp: fold_upd [OF d] split: option.split)
  have seed: "beacon_seed (beacon core) (map (snd \<circ> (\<lambda>who. (who, the (bp_staged st who)))) ?o) = beacon_seed (beacon core) (map snd (staged core))"
    using beacon_seed_mset [OF same_map_values [OF assms(1) s o]] assms(2) by (simp add: views_def comp_def)
  have keys: "same_map nm (\<lambda>a. map_option (\<lambda>s. hex (sha256 s)) (bp_staged st a))
      (map (\<lambda>(node, s). (node, hex (sha256 s))) (staged core))"
  proof -
    have f: "map fst (map (\<lambda>(node, s). (node, hex (sha256 s))) (staged core)) = map fst (staged core)" by auto
    have m: "map_of (map (\<lambda>(n, v). (n, hex (sha256 v))) xs) k = map_option (\<lambda>v. hex (sha256 v)) (map_of xs k)"
      for xs :: "(string \<times> byte list) list" and k by (induction xs) auto
    have "dom (\<lambda>a. map_option (\<lambda>s. hex (sha256 s)) (bp_staged st a)) = dom (bp_staged st)" by auto
    with s f show ?thesis unfolding same_map_def m set_map [symmetric] f by simp
  qed
  show ?thesis
    using assms(2) keys
    by (simp add: same_map_empty views_def bp_roll_def beacon_roll_def bp_emit_def Let_def kept act seed committed_key_def)
qed

lemma refused_changes_nothing: "bp_step cfg c st = Inl e \<Longrightarrow> apply_call (bp_step cfg c) st = st"
  by simp

lemma view_step:
  assumes "inj nm" "views cfg nm st core" "iter_ok (fst c)" "bp_step cfg c st = Inr st'"
  shows "views cfg nm st' (beacon_run (core_op cfg nm (snd c)) core)"
proof -
  obtain ord call where c: "c = (ord, call)" by (cases c)
  show ?thesis
    using assms view_commit [OF assms(1,2)] view_reveal [OF assms(1,2)] view_roll [OF assms(1,2)]
    by (cases call) (auto simp: c beacon_run_def bp_on_initialize_def)
qed

lemma beacon_run_append: "beacon_run (xs @ ys) st = beacon_run ys (beacon_run xs st)"
  by (simp add: beacon_run_def)

lemma view_run:
  assumes "inj nm"
  shows "views cfg nm st core \<Longrightarrow> list_all (\<lambda>c. iter_ok (fst c)) calls \<Longrightarrow>
    views cfg nm (run_calls (bp_step cfg) calls st) (beacon_run (core_ops cfg nm calls st) core)"
proof (induction calls arbitrary: st core)
  case (Cons c calls)
  show ?case
  proof (cases "bp_step cfg c st")
    case (Inl e)
    with Cons show ?thesis by simp
  next
    case (Inr st')
    from Cons.IH [OF view_step [OF assms Cons.prems(1) _ Inr]] Cons.prems Inr show ?thesis
      by (simp add: beacon_run_append)
  qed
qed (simp add: beacon_run_def)

section \<open>Properties\<close>

text \<open>
  C33: the beacon pallet refines the core's pipeline. Processing any calls and blocks, the pallet serves exactly what
  \<open>BeaconState\<close> serves after the commitments, reveals and rolls the pallet accepted: the same seed and,
  for every account, the same committed key, in whatever order the storage iterates; so a key it serves was
  committed to one whole epoch before the fold.
\<close>

theorem beacon_pallet_refines:
  assumes "inj nm" "list_all (\<lambda>c. iter_ok (fst c)) calls"
    and "st = run_calls (bp_step cfg) calls (bp_genesis g)"
    and "core = beacon_run (core_ops cfg nm calls (bp_genesis g)) (beacon_new g)"
  shows "seed_hex st = beacon_seed_hex core
    \<and> committed_key who st = map_of (active_keys core) (nm who)
    \<and> is_active who st = (nm who \<in> fst ` set (active_keys core))
    \<and> (committed_key who st = Some k \<longrightarrow> key_earned (nm who) k (core_ops cfg nm calls (bp_genesis g)))"
proof -
  have "views cfg nm (bp_genesis g) (beacon_new g)"
    by (simp add: views_def bp_genesis_def beacon_new_def same_map_empty committed_key_def)
  from view_run [OF assms(1) this assms(2)] have v: "views cfg nm st core" by (simp add: assms(3,4))
  then have k: "committed_key who st = map_of (active_keys core) (nm who)"
    by (simp add: views_def same_map_def)
  moreover have "is_active who st = (nm who \<in> fst ` set (active_keys core))"
  proof -
    have "is_active who st = (map_of (active_keys core) (nm who) \<noteq> None)"
      unfolding k [symmetric] by (simp add: is_active_def committed_key_def)
    then show ?thesis by (simp only: map_of_eq_None_iff not_not)
  qed
  moreover have "key_earned (nm who) k (core_ops cfg nm calls (bp_genesis g))" if "committed_key who st = Some k"
    using beacon_hist_run [of "core_ops cfg nm calls (bp_genesis g)" g] that k
    by (simp add: beacon_hist_def assms(4))
  ultimately show ?thesis using v by (simp add: views_def seed_hex_def beacon_seed_hex_def)
qed

definition demo_beacon :: beacon_config where
  "demo_beacon = \<lparr>max_secret_len = 4, bp_epoch_length = 10\<rparr>"

definition demo_order :: "(string \<rightharpoonup> byte list) \<Rightarrow> string list" where
  "demo_order m = sorted_list_of_set (dom m)"

definition demo_epoch_calls :: "(((string \<rightharpoonup> byte list) \<Rightarrow> string list) \<times> string bp_call) list" where
  "demo_epoch_calls = [(demo_order, BpCommit ''n'' (commit [1, 2])), (demo_order, BpBlock 10),
     (demo_order, BpReveal ''n'' [1, 2]), (demo_order, BpReveal ''m'' [1]), (demo_order, BpBlock 15), (demo_order, BpBlock 20)]"

lemma demo_epoch_calls_key:
  "committed_key ''n'' (run_calls (bp_step demo_beacon) demo_epoch_calls (bp_genesis [0])) = Some (hex (sha256 [1, 2]))"
  by (simp add: demo_epoch_calls_def demo_beacon_def demo_order_def bp_genesis_def bp_commit_def bp_emit_def bp_reveal_def
      bp_on_initialize_def bp_roll_def committed_key_def apply_call_def Let_def verify_reveal_def commit_def)

theorem beacon_pallet_refines_witness:
  "key_earned ''n'' (hex (sha256 [1, 2])) (core_ops demo_beacon (\<lambda>s. s) demo_epoch_calls (bp_genesis [0]))"
proof -
  have "iter_ok demo_order" by (simp add: iter_ok_def demo_order_def)
  then have "list_all (\<lambda>c. iter_ok (fst c)) demo_epoch_calls" by (simp add: demo_epoch_calls_def)
  from beacon_pallet_refines [OF inj_on_id2 this refl refl, of demo_beacon "[0]" "''n''" "hex (sha256 [1, 2])"]
  show ?thesis by (simp add: demo_epoch_calls_key)
qed

end
