(* ===== verification/JusticePallet.thy ===== *)
theory JusticePallet
imports Sortition "HOL-Library.Product_Lexorder"
begin

text \<open>
  Disputes and their juries, \<open>chain/pallet-justice/src/lib.rs\<close>: filing, the deferred draw, votes and the
  verdict.

  What the runtime wires in is in \<open>ju_env\<close>, one environment per call or block: the reputation snapshot
  (\<open>ReputationInspect\<close>), the interest tests (\<open>InterestInspect\<close>), the beacon (\<open>BeaconInspect\<close>), the
  rectifier (\<open>RectifyOnVerdict\<close>: \<open>ju_on_guilty\<close> returns the loss it applied; the call itself is logged),
  the block number, the parent hash as the draw formats it, and an account's SCALE encoding. The
  \<open>Permill\<close> roundings of \<open>sp_arithmetic\<close> are the configuration's functions \<open>guilt_ceil\<close>, \<open>quorum_ceil\<close>
  and \<open>depth2_floor\<close>. Ids are \<open>u64\<close>, block numbers \<open>u32\<close>.
\<close>

section \<open>Storage\<close>

datatype case_status = Open | ResolvedGuilty | ResolvedNotGuilty | Lapsed | AwaitingJury

record 'a jcase =
  cs_plaintiff :: 'a
  cs_defendant :: 'a
  cs_fact_hash :: nat
  cs_dimension :: nat
  cs_loss :: nat
  cs_status :: case_status
  cs_opened_at :: nat

record justice_config =
  max_case_evidence :: nat
  jury_size :: nat
  max_jury :: nat
  max_interested :: nat
  voting_window :: nat
  jury_draw_delay :: nat
  interest_cooling :: nat
  max_draws_per_block :: nat
  guilt_ceil :: "nat \<Rightarrow> nat"
  quorum_ceil :: "nat \<Rightarrow> nat"
  depth2_floor :: "nat \<Rightarrow> nat"

record 'a ju_env =
  ju_now :: nat
  ju_reputation :: "('a \<times> int) list"
  ju_has_interest :: "'a \<Rightarrow> 'a list \<Rightarrow> bool"
  ju_relation_depth :: "'a \<Rightarrow> 'a list \<Rightarrow> nat option"
  ju_disqualified :: "'a \<Rightarrow> 'a list \<Rightarrow> bool"
  ju_excludes_at_draw :: "'a \<Rightarrow> 'a list \<Rightarrow> nat \<Rightarrow> bool"
  ju_seed :: string
  ju_committed_key :: "'a \<Rightarrow> string option"
  ju_owns_evidence :: "nat \<Rightarrow> 'a \<Rightarrow> nat \<Rightarrow> bool"
  ju_on_guilty :: "'a \<Rightarrow> nat \<Rightarrow> nat \<Rightarrow> nat list \<Rightarrow> nat"
  ju_parent :: string
  ju_encode :: "'a \<Rightarrow> byte list"

datatype 'a justice_event =
    CaseFiled nat 'a 'a nat
  | CaseOpened nat 'a 'a nat
  | JuryUnavailable nat
  | Depth2JurorsSeated nat "('a \<times> 'a \<times> nat \<times> int) list"
  | VoteCast nat 'a bool
  | CaseLapsed nat nat nat
  | ConsentNullified nat 'a
  | OnGuilty 'a nat nat "nat list"
  | MarkedUnderVerdict 'a nat
  | CaseResolved nat bool nat nat nat

datatype justice_error =
    SelfCase | JuryNotDrawn | DrawQueueFull | TooManyInterested | UnknownCase | NotOpen | NotAJuror
  | Interested | VotingStillOpen | QuorumNotReached | PartyCannotClose | ForeignEvidence
  | TooManyEvidenceRefs | BadDimension | UnrelatedInterested

record 'a justice =
  draw_queue :: "nat \<Rightarrow> nat list"
  next_case_id :: nat
  cases :: "nat \<rightharpoonup> 'a jcase"
  case_evidence :: "nat \<Rightarrow> nat list"
  guilty_marks :: "'a \<Rightarrow> nat list"
  incapacity_case :: "nat set"
  jury :: "nat \<Rightarrow> 'a list"
  parties :: "nat \<Rightarrow> 'a list"
  votes :: "nat \<Rightarrow> 'a \<rightharpoonup> bool"
  ju_log :: "'a justice_event list"

definition MAX_GUILTY_MARKS :: nat where "MAX_GUILTY_MARKS = 64"

definition empty_justice :: "'a justice" where
  "empty_justice = \<lparr>draw_queue = (\<lambda>_. []), next_case_id = 0, cases = Map.empty, case_evidence = (\<lambda>_. []),
     guilty_marks = (\<lambda>_. []), incapacity_case = {}, jury = (\<lambda>_. []), parties = (\<lambda>_. []),
     votes = (\<lambda>_. Map.empty), ju_log = []\<rparr>"

definition ju_emit :: "'a justice_event list \<Rightarrow> 'a justice \<Rightarrow> 'a justice" where
  "ju_emit es st = st\<lparr>ju_log := ju_log st @ es\<rparr>"

section \<open>Filing\<close>

text \<open>The first of \<open>n\<close> blocks from \<open>at\<close> whose draw queue has room.\<close>

fun find_slot :: "justice_config \<Rightarrow> nat \<Rightarrow> (nat \<Rightarrow> nat list) \<Rightarrow> nat \<Rightarrow> nat option" where
  "find_slot cfg 0 q at = None"
| "find_slot cfg (Suc n) q at =
     (if length (q at) < max_draws_per_block cfg then Some at
      else find_slot cfg n q (sat_add u32_max at 1))"

definition do_open ::
  "justice_config \<Rightarrow> 'a ju_env \<Rightarrow> 'a \<Rightarrow> 'a \<Rightarrow> nat \<Rightarrow> nat \<Rightarrow> nat \<Rightarrow> nat list \<Rightarrow> 'a list \<Rightarrow> bool \<Rightarrow>
     'a justice \<Rightarrow> justice_error + 'a justice" where
  "do_open cfg env plaintiff defendant fact_hash dimension loss evidence_ids extra incapacity st =
     (if \<not> dimension < 4 then Inl BadDimension
      else if plaintiff = defendant then Inl SelfCase
      else if \<not> length evidence_ids \<le> max_case_evidence cfg then Inl TooManyEvidenceRefs
      else if \<not> length extra \<le> max_interested cfg then Inl TooManyInterested
      else
        let ids = sort (remdups evidence_ids)
        in if \<not> list_all (\<lambda>i. ju_owns_evidence env i defendant dimension) ids then Inl ForeignEvidence
        else if \<not> length ids \<le> max_case_evidence cfg then Inl TooManyEvidenceRefs
        else if \<not> list_all (\<lambda>x. ju_has_interest env x [plaintiff, defendant]) extra then Inl UnrelatedInterested
        else
          let ps = [plaintiff, defendant] @ extra
          in if \<not> length ps \<le> max_interested cfg then Inl TooManyInterested
          else
            let cid = next_case_id st; now = ju_now env
            in case find_slot cfg 64 (draw_queue st) (sat_add u32_max now (jury_draw_delay cfg)) of
                 None \<Rightarrow> Inl DrawQueueFull
               | Some draw_at \<Rightarrow> Inr (ju_emit [CaseFiled cid plaintiff defendant draw_at] (st\<lparr>
                   draw_queue := (draw_queue st)(draw_at := draw_queue st draw_at @ [cid]),
                   cases := (cases st)(cid \<mapsto> \<lparr>cs_plaintiff = plaintiff, cs_defendant = defendant,
                     cs_fact_hash = fact_hash, cs_dimension = dimension, cs_loss = loss,
                     cs_status = AwaitingJury, cs_opened_at = now\<rparr>),
                   case_evidence := (case_evidence st)(cid := ids),
                   incapacity_case := (if incapacity then insert cid (incapacity_case st) else incapacity_case st),
                   parties := (parties st)(cid := ps),
                   next_case_id := sat_add u64_max cid 1\<rparr>)))"

definition open_case ::
  "justice_config \<Rightarrow> 'a ju_env \<Rightarrow> 'a \<Rightarrow> 'a \<Rightarrow> nat \<Rightarrow> nat \<Rightarrow> nat \<Rightarrow> nat list \<Rightarrow> 'a list \<Rightarrow>
     'a justice \<Rightarrow> justice_error + 'a justice" where
  "open_case cfg env plaintiff defendant fact_hash dimension loss evidence_ids extra st =
     do_open cfg env plaintiff defendant fact_hash dimension loss evidence_ids extra False st"

definition open_incapacity_case ::
  "justice_config \<Rightarrow> 'a ju_env \<Rightarrow> 'a \<Rightarrow> 'a \<Rightarrow> nat \<Rightarrow> 'a list \<Rightarrow> 'a justice \<Rightarrow> justice_error + 'a justice" where
  "open_incapacity_case cfg env plaintiff subject fact_hash extra st =
     do_open cfg env plaintiff subject fact_hash 2 0 [] extra True st"

section \<open>The draw\<close>

definition jury_pool :: "justice_config \<Rightarrow> 'a ju_env \<Rightarrow> 'a list \<Rightarrow> nat \<Rightarrow> ('a \<times> int) list" where
  "jury_pool cfg env ps cutoff =
     filter (\<lambda>(_, w). w > 0)
       (map (\<lambda>(acc, rep). (acc, if ju_relation_depth env acc ps = Some 2 then int (depth2_floor cfg (nat rep)) else rep))
         (filter (\<lambda>(acc, rep). rep > 0 \<and> \<not> ju_excludes_at_draw env acc ps cutoff) (ju_reputation env)))"

text \<open>The candidates with the sortition key each is drawn by; on the beacon path, only those with one.\<close>

definition jury_candidates :: "'a ju_env \<Rightarrow> ('a \<times> int) list \<Rightarrow> ('a \<times> int \<times> string) list" where
  "jury_candidates env pool =
     (let want = min 4 (length pool);
          committed = length (filter (\<lambda>(a, _). ju_committed_key env a \<noteq> None) pool);
          use_beacon = (want > 0 \<and> committed \<ge> want)
      in List.map_filter (\<lambda>(acc, rep).
           if use_beacon then map_option (\<lambda>k. (acc, rep, k)) (ju_committed_key env acc)
           else Some (acc, rep, ''sk-'' @ hex (ju_encode env acc))) pool)"

text \<open>\<open>id.parse::<usize>()\<close> on a decimal numeral.\<close>

definition digit_value :: "char \<Rightarrow> nat option" where
  "digit_value c = (let i = length (takeWhile (\<lambda>d. d \<noteq> c) ''0123456789'') in if i < 10 then Some i else None)"

definition parse_usize :: "string \<Rightarrow> nat option" where
  "parse_usize s = (if s = [] then None
     else fold (\<lambda>c acc. case (acc, digit_value c) of (Some n, Some d) \<Rightarrow> Some (n * 10 + d) | _ \<Rightarrow> None) s (Some 0))"

text \<open>One draw: the winners as index and seats, most seats first, at most \<open>MaxJury\<close>.\<close>

definition jury_tally ::
  "justice_config \<Rightarrow> (string \<times> int) list \<Rightarrow> (string \<times> string) list \<Rightarrow> string \<Rightarrow> (nat \<times> nat) list" where
  "jury_tally cfg reputation keys s =
     (let seats = elect_committee_fp reputation keys s (jury_size cfg);
          won = List.map_filter (\<lambda>(i, n). if n \<ge> 1 then map_option (\<lambda>j. (j, n)) (parse_usize i) else None) seats
      in take (max_jury cfg) (sort_key (\<lambda>(i, n). (- int n, i)) won))"

definition draw_jury :: "justice_config \<Rightarrow> 'a ju_env \<Rightarrow> nat \<Rightarrow> 'a list \<Rightarrow> nat \<Rightarrow> 'a list" where
  "draw_jury cfg env cid ps cutoff =
     (let cands = jury_candidates env (jury_pool cfg env ps cutoff);
          eligible = map fst cands;
          ids = map digits [0..<length cands];
          reputation = zip ids (map (\<lambda>(_, rep, _). rep) cands);
          keys = zip ids (map (\<lambda>(_, _, k). k) cands)
      in if eligible = [] then []
         else
           let seed = ''hlq-jury-'' @ digits cid @ ''-'' @ ju_seed env @ ''-'' @ ju_parent env;
               flr = min 4 (length eligible);
               best = redraw 32 0 flr (\<lambda>r. jury_tally cfg reputation keys (seed @ ''-retry-'' @ digits r))
                        (jury_tally cfg reputation keys seed)
           in List.map_filter (\<lambda>(i, _). if i < length eligible then Some (eligible ! i) else None) best)"

definition depth2_relations ::
  "justice_config \<Rightarrow> 'a ju_env \<Rightarrow> 'a list \<Rightarrow> 'a list \<Rightarrow> ('a \<times> 'a \<times> nat \<times> int) list" where
  "depth2_relations cfg env js ps =
     List.map_filter (\<lambda>j. case find (\<lambda>p. case ju_relation_depth env j [p] of Some d \<Rightarrow> d \<ge> 2 | None \<Rightarrow> False) ps of
        None \<Rightarrow> None
      | Some p \<Rightarrow>
          let base = (case find (\<lambda>(a, _). a = j) (ju_reputation env) of Some (_, r) \<Rightarrow> r | None \<Rightarrow> 0)
          in Some (j, p, the (ju_relation_depth env j [p]), int (depth2_floor cfg (nat (max base 0))))) js"

definition seat_jury :: "justice_config \<Rightarrow> 'a ju_env \<Rightarrow> nat \<Rightarrow> 'a justice \<Rightarrow> 'a justice" where
  "seat_jury cfg env cid st =
     (case cases st cid of
        None \<Rightarrow> st
      | Some c \<Rightarrow>
          if cs_status c \<noteq> AwaitingJury then st
          else
            let ps = parties st cid;
                cutoff = cs_opened_at c - interest_cooling cfg;
                jurors = draw_jury cfg env cid ps cutoff;
                jury_bv = (if length jurors \<le> max_jury cfg then jurors else [])
            in if jury_bv = [] then
                 ju_emit [JuryUnavailable cid] (st\<lparr>cases := (cases st)(cid \<mapsto> c\<lparr>cs_status := Lapsed\<rparr>)\<rparr>)
               else
                 let depth2 = depth2_relations cfg env jury_bv ps;
                     st1 = st\<lparr>jury := (jury st)(cid := jury_bv),
                       cases := (cases st)(cid \<mapsto> c\<lparr>cs_status := Open, cs_opened_at := ju_now env\<rparr>)\<rparr>;
                     st2 = ju_emit [CaseOpened cid (cs_plaintiff c) (cs_defendant c) (length jury_bv)] st1
                 in if depth2 \<noteq> [] then ju_emit [Depth2JurorsSeated cid depth2] st2 else st2)"

definition justice_on_initialize :: "justice_config \<Rightarrow> 'a ju_env \<Rightarrow> nat \<Rightarrow> 'a justice \<Rightarrow> 'a justice" where
  "justice_on_initialize cfg env n st =
     fold (seat_jury cfg env) (draw_queue st n) (st\<lparr>draw_queue := (draw_queue st)(n := [])\<rparr>)"

section \<open>Votes and the verdict\<close>

definition cast_vote :: "'a ju_env \<Rightarrow> 'a \<Rightarrow> nat \<Rightarrow> bool \<Rightarrow> 'a justice \<Rightarrow> justice_error + 'a justice" where
  "cast_vote env juror cid guilty st =
     (case cases st cid of None \<Rightarrow> Inl UnknownCase | Some c \<Rightarrow>
      if cs_status c = AwaitingJury then Inl JuryNotDrawn
      else if cs_status c \<noteq> Open then Inl NotOpen
      else if juror \<notin> set (jury st cid) then Inl NotAJuror
      else if ju_disqualified env juror (parties st cid) then Inl Interested
      else Inr (ju_emit [VoteCast cid juror guilty] (st\<lparr>
             votes := (votes st)(cid := (votes st cid)(juror \<mapsto> guilty))\<rparr>)))"

text \<open>The tally of \<open>close_case\<close>: votes cast and guilty votes of the jurors not disqualified.\<close>

fun tally_votes :: "('a \<Rightarrow> bool) \<Rightarrow> ('a \<rightharpoonup> bool) \<Rightarrow> 'a list \<Rightarrow> nat \<times> nat \<Rightarrow> nat \<times> nat" where
  "tally_votes out vs [] r = r"
| "tally_votes out vs (j # js) (cast, guilty) =
     (if out j then tally_votes out vs js (cast, guilty)
      else case vs j of
             Some True \<Rightarrow> tally_votes out vs js (sat_add u32_max cast 1, sat_add u32_max guilty 1)
           | Some False \<Rightarrow> tally_votes out vs js (sat_add u32_max cast 1, guilty)
           | None \<Rightarrow> tally_votes out vs js (cast, guilty))"

definition push_mark :: "nat \<Rightarrow> nat list \<Rightarrow> nat list" where
  "push_mark cid marks = (if length marks \<ge> MAX_GUILTY_MARKS then drop 1 marks else marks) @ [cid]"

definition close_case ::
  "justice_config \<Rightarrow> 'a ju_env \<Rightarrow> 'a \<Rightarrow> nat \<Rightarrow> 'a justice \<Rightarrow> justice_error + 'a justice" where
  "close_case cfg env closer cid st =
     (case cases st cid of None \<Rightarrow> Inl UnknownCase | Some c \<Rightarrow>
      if cs_status c = AwaitingJury then Inl JuryNotDrawn
      else if cs_status c \<noteq> Open then Inl NotOpen
      else
        let window = voting_window cfg; elapsed = ju_now env - cs_opened_at c
        in if \<not> elapsed \<ge> window then Inl VotingStillOpen
        else
          let extended_over = (elapsed \<ge> sat_add u32_max window window); ps = parties st cid
          in if \<not> extended_over \<and> closer \<in> set ps then Inl PartyCannotClose
          else
            let jury_n = length (jury st cid);
                (votes_cast, guilty_votes) =
                  tally_votes (\<lambda>j. ju_disqualified env j ps) (votes st cid) (jury st cid) (0, 0);
                quorum = quorum_ceil cfg jury_n
            in if votes_cast < quorum then
                 (if \<not> extended_over then Inl QuorumNotReached
                  else Inr (ju_emit [CaseLapsed cid votes_cast jury_n]
                         (st\<lparr>cases := (cases st)(cid \<mapsto> c\<lparr>cs_status := Lapsed\<rparr>)\<rparr>)))
               else
                 let needed = guilt_ceil cfg jury_n;
                     guilty = (guilty_votes \<ge> needed \<and> needed > 0);
                     st1 = st\<lparr>cases := (cases st)(cid \<mapsto>
                       c\<lparr>cs_status := (if guilty then ResolvedGuilty else ResolvedNotGuilty)\<rparr>)\<rparr>;
                     def = cs_defendant c;
                     (st2, rectified) =
                       (if guilty then
                          if cid \<in> incapacity_case st then (ju_emit [ConsentNullified cid def] st1, 0)
                          else
                            let applied = ju_on_guilty env def (cs_dimension c) (cs_loss c) (case_evidence st cid)
                            in (ju_emit [OnGuilty def (cs_dimension c) (cs_loss c) (case_evidence st cid),
                                         MarkedUnderVerdict def cid]
                                  (st1\<lparr>guilty_marks := (guilty_marks st)(def := push_mark cid (guilty_marks st def))\<rparr>),
                                applied)
                        else (st1, 0))
                 in Inr (ju_emit [CaseResolved cid guilty guilty_votes jury_n rectified] st2))"

datatype 'a justice_op =
    OpenCase 'a 'a nat nat nat "nat list" "'a list"
  | OpenIncapacityCase 'a 'a nat "'a list"
  | CastVote 'a nat bool
  | CloseCase 'a nat
  | BlockBegins nat

fun justice_step ::
  "justice_config \<Rightarrow> 'a ju_env \<times> 'a justice_op \<Rightarrow> 'a justice \<Rightarrow> justice_error + 'a justice" where
  "justice_step cfg (env, OpenCase pl df h d loss ids ex) st = open_case cfg env pl df h d loss ids ex st"
| "justice_step cfg (env, OpenIncapacityCase pl s h ex) st = open_incapacity_case cfg env pl s h ex st"
| "justice_step cfg (env, CastVote j cid g) st = cast_vote env j cid g st"
| "justice_step cfg (env, CloseCase w cid) st = close_case cfg env w cid st"
| "justice_step cfg (env, BlockBegins n) st = Inr (justice_on_initialize cfg env n st)"

end
