(* ===== verification/JuryDraw.thy ===== *)
theory JuryDraw
imports JusticePallet
begin

text \<open>
  What the jury draw of \<open>JusticePallet\<close> guarantees: who can sit, how many, that nobody sits twice, and
  what seating writes.
\<close>

section \<open>Numerals round trip\<close>

lemma digit_value_nth: "d < 10 \<Longrightarrow> digit_value (''0123456789'' ! d) = Some d"
proof -
  assume "d < 10"
  then have "d \<in> {0, 1, 2, 3, 4, 5, 6, 7, 8, 9}" by auto
  then show ?thesis by (elim insertE) (simp_all add: digit_value_def)
qed

abbreviation push_digit :: "char \<Rightarrow> nat option \<Rightarrow> nat option" where
  "push_digit c acc \<equiv> (case (acc, digit_value c) of (Some n, Some d) \<Rightarrow> Some (n * 10 + d) | _ \<Rightarrow> None)"

lemma fold_digits: "fold push_digit (digits n) (Some 0) = Some n"
proof (induction n rule: digits.induct)
  case (1 n)
  show ?case
  proof (cases "n < 10")
    case True
    then show ?thesis by (simp add: digits.simps [of n] digit_value_nth)
  next
    case False
    have "digit_value (''0123456789'' ! (n mod 10)) = Some (n mod 10)" by (rule digit_value_nth) simp
    with 1 [OF False] False show ?thesis by (subst digits.simps) simp
  qed
qed

lemma digits_not_empty: "digits n \<noteq> []"
  by (subst digits.simps) simp

lemma parse_usize_digits: "parse_usize (digits n) = Some n"
  using fold_digits [of n] digits_not_empty [of n] by (simp add: parse_usize_def)

section \<open>Filtering maps keep keys\<close>

lemma map_filter_keys:
  assumes "\<And>x y. x \<in> set xs \<Longrightarrow> f x = Some y \<Longrightarrow> g y = h x"
  shows map_filter_keys_set: "g ` set (List.map_filter f xs) \<subseteq> h ` set xs"
    and map_filter_keys_distinct: "distinct (map h xs) \<Longrightarrow> distinct (map g (List.map_filter f xs))"
proof -
  show sub: "g ` set (List.map_filter f xs) \<subseteq> h ` set xs"
    using assms by (force simp: List.map_filter_def)
  show "distinct (map h xs) \<Longrightarrow> distinct (map g (List.map_filter f xs))"
    using assms
  proof (induction xs)
    case (Cons x xs)
    have sub: "g ` set (List.map_filter f xs) \<subseteq> h ` set xs"
      using Cons.prems(2) by (force simp: List.map_filter_def)
    have "distinct (map g (List.map_filter f xs))"
      using Cons.IH Cons.prems by simp
    moreover have "g y \<notin> g ` set (List.map_filter f xs)" if "f x = Some y" for y
      using Cons.prems(1) Cons.prems(2) [of x y] that sub by auto
    ultimately show ?case by (cases "f x") (simp_all add: List.map_filter_simps)
  qed (simp add: List.map_filter_simps)
qed

lemma elect_nodes:
  shows elect_nodes_set: "fst ` set (elect_committee_fp rep keys seed tau) \<subseteq> fst ` set rep"
    and elect_nodes_distinct:
      "distinct (map fst rep) \<Longrightarrow> distinct (map fst (elect_committee_fp rep keys seed tau))"
proof -
  have k: "x \<in> set rep \<Longrightarrow> seat_of keys seed tau t x = Some y \<Longrightarrow> fst y = fst x" for x y t
    by (cases x) (auto simp: seat_of_def Let_def split: if_splits option.splits)
  show "fst ` set (elect_committee_fp rep keys seed tau) \<subseteq> fst ` set rep"
    using map_filter_keys_set [of rep "seat_of keys seed tau _" fst fst, OF k]
    by (simp add: elect_committee_fp_def Let_def)
  show "distinct (map fst rep) \<Longrightarrow> distinct (map fst (elect_committee_fp rep keys seed tau))"
    using map_filter_keys_distinct [of rep "seat_of keys seed tau _" fst fst, OF k]
    by (simp add: elect_committee_fp_def Let_def)
qed

section \<open>One tally\<close>

definition tally_fits :: "nat \<Rightarrow> nat \<Rightarrow> (nat \<times> nat) list \<Rightarrow> bool" where
  "tally_fits cap n won = (length won \<le> cap \<and> distinct (map fst won) \<and> list_all (\<lambda>(i, s). i < n) won)"

lemma jury_tally_fits:
  assumes "map fst rep = map digits [0..<n]"
  shows "tally_fits (max_jury cfg) n (jury_tally cfg rep keys s)"
proof -
  let ?seats = "elect_committee_fp rep keys s (jury_size cfg)"
  let ?f = "\<lambda>(i, m). if m \<ge> 1 then map_option (\<lambda>j. (j, m)) (parse_usize i) else None"
  let ?h = "\<lambda>(i, m :: nat). the (parse_usize i)"
  let ?won = "List.map_filter ?f ?seats"
  have ids: "fst ` set ?seats \<subseteq> digits ` {..<n}"
  proof -
    have "fst ` set rep = digits ` {..<n}" using arg_cong [OF assms, of set] by (auto simp: lessThan_atLeast0)
    with elect_nodes_set [of rep keys s "jury_size cfg"] show ?thesis by simp
  qed
  have inj: "inj_on digits A" for A by (metis inj_onI option.inject parse_usize_digits)
  have d: "distinct (map fst ?seats)"
    by (rule elect_nodes_distinct) (simp add: assms distinct_map inj)
  have p: "inj_on (\<lambda>i. the (parse_usize i)) (fst ` set ?seats)"
    using ids by (rule inj_on_subset [rotated]) (auto simp: inj_on_def parse_usize_digits)
  have "distinct (map ?h ?seats)"
  proof -
    have "map ?h ?seats = map (\<lambda>i. the (parse_usize i)) (map fst ?seats)" by auto
    with d p show ?thesis by (simp only: distinct_map set_map)
  qed
  then have dw: "distinct (map fst ?won)"
    by (rule map_filter_keys_distinct [rotated]) (auto split: if_splits)
  have "fst ` set ?won \<subseteq> ?h ` set ?seats"
    by (rule map_filter_keys_set) (auto split: if_splits)
  also have "\<dots> \<subseteq> {..<n}"
    using ids by (fastforce simp: parse_usize_digits)
  finally have sw: "fst ` set ?won \<subseteq> {..<n}" .
  let ?sorted = "sort_key (\<lambda>(i, m). (- int m, i)) ?won"
  have "distinct (map fst ?sorted)" using dw by (simp only: distinct_map distinct_sort set_sort)
  moreover have "set ?sorted = set ?won" by simp
  ultimately show ?thesis
    using sw set_take_subset [of "max_jury cfg" ?sorted]
    by (fastforce simp: tally_fits_def jury_tally_def Let_def take_map [symmetric] list_all_iff)
qed

section \<open>The drawn jury\<close>

definition beacon_engaged :: "'a ju_env \<Rightarrow> ('a \<times> int) list \<Rightarrow> bool" where
  "beacon_engaged env pool =
     (pool \<noteq> [] \<and> min 4 (length pool) \<le> length (filter (\<lambda>(a, _). ju_committed_key env a \<noteq> None) pool))"

definition may_sit :: "justice_config \<Rightarrow> 'a ju_env \<Rightarrow> 'a list \<Rightarrow> nat \<Rightarrow> 'a \<Rightarrow> bool" where
  "may_sit cfg env ps cutoff j =
     (\<exists>rep. (j, rep) \<in> set (ju_reputation env) \<and> 0 < rep \<and> \<not> ju_excludes_at_draw env j ps cutoff
        \<and> (ju_relation_depth env j ps = Some 2 \<longrightarrow> 0 < depth2_floor cfg (nat rep)))"

lemma jury_pool_member: "(j, w) \<in> set (jury_pool cfg env ps cutoff) \<Longrightarrow> may_sit cfg env ps cutoff j \<and> 0 < w"
  by (force simp: jury_pool_def may_sit_def split: if_splits)

lemma jury_pool_distinct:
  assumes "distinct (map fst (ju_reputation env))"
  shows "distinct (map fst (jury_pool cfg env ps cutoff))"
  using assms unfolding jury_pool_def
  by (intro distinct_map_filter) (simp add: comp_def case_prod_unfold distinct_map_filter)

lemma jury_candidates_keys:
  shows jury_candidates_set: "fst ` set (jury_candidates env pool) \<subseteq> fst ` set pool"
    and jury_candidates_distinct: "distinct (map fst pool) \<Longrightarrow> distinct (map fst (jury_candidates env pool))"
proof -
  have k: "x \<in> set pool \<Longrightarrow> (case x of (acc, rep) \<Rightarrow>
      if b then map_option (\<lambda>k. (acc, rep, k)) (ju_committed_key env acc)
      else Some (acc, rep, ''sk-'' @ hex (ju_encode env acc))) = Some y \<Longrightarrow> fst y = fst x" for x y b
    by (cases x) (auto split: if_splits)
  show "fst ` set (jury_candidates env pool) \<subseteq> fst ` set pool"
    unfolding jury_candidates_def Let_def by (rule map_filter_keys_set) (erule (1) k)
  show "distinct (map fst pool) \<Longrightarrow> distinct (map fst (jury_candidates env pool))"
    unfolding jury_candidates_def Let_def by (rule map_filter_keys_distinct) (erule (1) k)
qed

lemma jury_candidates_committed:
  "beacon_engaged env pool \<Longrightarrow> (j, r, k) \<in> set (jury_candidates env pool) \<Longrightarrow> ju_committed_key env j = Some k"
  by (auto simp: jury_candidates_def beacon_engaged_def Let_def List.map_filter_def split: if_splits)

lemma draw_jury_best:
  obtains won where
    "draw_jury cfg env cid ps cutoff =
       List.map_filter (\<lambda>(i, _). if i < length (map fst (jury_candidates env (jury_pool cfg env ps cutoff)))
          then Some (map fst (jury_candidates env (jury_pool cfg env ps cutoff)) ! i) else None) won"
    "tally_fits (max_jury cfg) (length (jury_candidates env (jury_pool cfg env ps cutoff))) won"
proof -
  let ?cands = "jury_candidates env (jury_pool cfg env ps cutoff)"
  let ?ids = "map digits [0..<length ?cands]"
  let ?rep = "zip ?ids (map (\<lambda>(_, rep, _). rep) ?cands)"
  let ?keys = "zip ?ids (map (\<lambda>(_, _, k). k) ?cands)"
  have ids: "map fst ?rep = map digits [0..<length ?cands]" by simp
  let ?fits = "tally_fits (max_jury cfg) (length ?cands)"
  have best: "?fits (redraw 32 0 flr (\<lambda>r. jury_tally cfg ?rep ?keys (f r)) (jury_tally cfg ?rep ?keys s))" for flr f s
    by (rule redraw_keeps [where P = ?fits]; rule jury_tally_fits [OF ids])
  show thesis
  proof (cases "?cands = []")
    case True
    then have "draw_jury cfg env cid ps cutoff = []"
      by (simp only: draw_jury_def Let_def map_is_Nil_conv simp_thms if_True)
    then show ?thesis by (intro that [of "[]"]) (simp_all add: tally_fits_def List.map_filter_simps)
  next
    case False
    let ?s = "''hlq-jury-'' @ digits cid @ ''-'' @ ju_seed env @ ''-'' @ ju_parent env"
    have "draw_jury cfg env cid ps cutoff =
        List.map_filter (\<lambda>(i, _). if i < length (map fst ?cands) then Some (map fst ?cands ! i) else None)
          (redraw 32 0 (min 4 (length (map fst ?cands)))
            (\<lambda>r. jury_tally cfg ?rep ?keys (?s @ ''-retry-'' @ digits r)) (jury_tally cfg ?rep ?keys ?s))"
      using False by (simp only: draw_jury_def Let_def map_is_Nil_conv if_False append_assoc)
    then show ?thesis using best [of "min 4 (length (map fst ?cands))" "\<lambda>r. ?s @ ''-retry-'' @ digits r" ?s]
      by (rule that)
  qed
qed

lemma draw_jury_members:
  shows draw_jury_set: "set (draw_jury cfg env cid ps cutoff)
      \<subseteq> fst ` set (jury_candidates env (jury_pool cfg env ps cutoff))"
    and draw_jury_length: "length (draw_jury cfg env cid ps cutoff) \<le> max_jury cfg"
    and draw_jury_distinct: "distinct (map fst (ju_reputation env)) \<Longrightarrow> distinct (draw_jury cfg env cid ps cutoff)"
proof -
  let ?el = "map fst (jury_candidates env (jury_pool cfg env ps cutoff))"
  let ?f = "\<lambda>(i :: nat, n :: nat). if i < length ?el then Some (?el ! i) else None"
  obtain won where won: "draw_jury cfg env cid ps cutoff = List.map_filter ?f won"
    "tally_fits (max_jury cfg) (length (jury_candidates env (jury_pool cfg env ps cutoff))) won"
    by (rule draw_jury_best)
  have "set (List.map_filter ?f won) \<subseteq> set ?el" by (fastforce simp: List.map_filter_def split: if_splits)
  then show "set (draw_jury cfg env cid ps cutoff) \<subseteq> fst ` set (jury_candidates env (jury_pool cfg env ps cutoff))"
    by (simp only: won(1) set_map)
  have "length (List.map_filter ?f won) \<le> length won" by (simp add: List.map_filter_def)
  then show "length (draw_jury cfg env cid ps cutoff) \<le> max_jury cfg"
    unfolding won(1) by (rule le_trans) (use won(2) in \<open>simp only: tally_fits_def\<close>)
  assume "distinct (map fst (ju_reputation env))"
  then have d: "distinct ?el" by (intro jury_candidates_distinct jury_pool_distinct)
  let ?h = "\<lambda>(i, n :: nat). ?el ! i"
  have "distinct (map fst won)" and b: "fst ` set won \<subseteq> {..<length ?el}"
    using won(2) by (auto simp: tally_fits_def list_all_iff)
  moreover have "map ?h won = map ((!) ?el) (map fst won)" by auto
  moreover have "inj_on ((!) ?el) (fst ` set won)" using inj_on_nth [OF d] b by auto
  ultimately have "distinct (map ?h won)" by (simp only: distinct_map set_map)
  then have "distinct (map (\<lambda>x. x) (List.map_filter ?f won))"
    by (rule map_filter_keys_distinct [rotated]) (auto split: if_splits)
  then show "distinct (draw_jury cfg env cid ps cutoff)" by (simp only: won(1) map_ident)
qed

lemma draw_jury_may_sit: "j \<in> set (draw_jury cfg env cid ps cutoff) \<Longrightarrow> may_sit cfg env ps cutoff j"
  using draw_jury_set [of cfg env cid ps cutoff] jury_candidates_set [of env "jury_pool cfg env ps cutoff"]
    jury_pool_member [of j _ cfg env ps cutoff] by fastforce

lemma draw_jury_committed:
  "beacon_engaged env (jury_pool cfg env ps cutoff) \<Longrightarrow> j \<in> set (draw_jury cfg env cid ps cutoff) \<Longrightarrow>
     ju_committed_key env j \<noteq> None"
  using draw_jury_set [of cfg env cid ps cutoff] jury_candidates_committed [of env "jury_pool cfg env ps cutoff" j]
  by fastforce

end
