(* ===== verification/JusticeProps.thy ===== *)
theory JusticeProps
imports JuryDraw
begin

text \<open>
  The justice pallet as a system: what each operation writes, the invariants of the docket (cases, draw
  queue, marks), and the properties of trials built on them.
\<close>

section \<open>What the operations write\<close>

definition awaiting :: "'a justice \<Rightarrow> nat \<Rightarrow> bool" where
  "awaiting st cid = (\<exists>c. cases st cid = Some c \<and> cs_status c = AwaitingJury)"

definition marks_of :: "nat \<Rightarrow> 'a justice_event list \<Rightarrow> nat" where
  "marks_of cid es = length (filter (\<lambda>e. case e of MarkedUnderVerdict _ i \<Rightarrow> i = cid | _ \<Rightarrow> False) es)"

lemma marks_of_append [simp]: "marks_of cid (es @ fs) = marks_of cid es + marks_of cid fs"
  by (simp add: marks_of_def)

definition filed ::
  "'a \<Rightarrow> 'a \<Rightarrow> nat \<Rightarrow> nat \<Rightarrow> nat \<Rightarrow> nat list \<Rightarrow> 'a list \<Rightarrow> bool \<Rightarrow> nat \<Rightarrow> nat \<Rightarrow> 'a justice \<Rightarrow> 'a justice" where
  "filed pl df h d loss ids extra incapacity now draw_at st =
     (let cid = next_case_id st in ju_emit [CaseFiled cid pl df draw_at] (st\<lparr>
        draw_queue := (draw_queue st)(draw_at := draw_queue st draw_at @ [cid]),
        cases := (cases st)(cid \<mapsto> \<lparr>cs_plaintiff = pl, cs_defendant = df, cs_fact_hash = h, cs_dimension = d,
          cs_loss = loss, cs_status = AwaitingJury, cs_opened_at = now\<rparr>),
        case_evidence := (case_evidence st)(cid := ids),
        incapacity_case := (if incapacity then insert cid (incapacity_case st) else incapacity_case st),
        parties := (parties st)(cid := [pl, df] @ extra),
        next_case_id := sat_add u64_max cid 1\<rparr>))"

lemma find_slot_room: "find_slot cfg n q at = Some d \<Longrightarrow> length (q d) < max_draws_per_block cfg"
  by (induction cfg n q at rule: find_slot.induct) (simp_all split: if_splits)

lemma find_slot_first: "0 < n \<Longrightarrow> length (q at) < max_draws_per_block cfg \<Longrightarrow> find_slot cfg n q at = Some at"
  by (cases n) simp_all

lemma find_slot_later: "find_slot cfg n q at = Some d \<Longrightarrow> at \<le> u32_max \<Longrightarrow> at \<le> d"
proof (induction cfg n q at rule: find_slot.induct)
  case (2 cfg n q at)
  show ?case
  proof (cases "length (q at) < max_draws_per_block cfg")
    case False
    then have "sat_add u32_max at 1 \<le> d" using 2 by (simp add: sat_add_def)
    with 2(3) show ?thesis by (auto simp: sat_add_def split: if_splits)
  qed (use 2 in simp)
qed simp

lemma do_open_effect:
  assumes "do_open cfg env pl df h d loss ev extra incapacity st = Inr st'"
  obtains draw_at where
    "st' = filed pl df h d loss (sort (remdups ev)) extra incapacity (ju_now env) draw_at st"
    "find_slot cfg 64 (draw_queue st) (sat_add u32_max (ju_now env) (jury_draw_delay cfg)) = Some draw_at"
    "d < 4" "pl \<noteq> df" "length (remdups ev) \<le> max_case_evidence cfg" "2 + length extra \<le> max_interested cfg"
    "list_all (\<lambda>i. ju_owns_evidence env i df d) ev"
  using assms unfolding do_open_def Let_def guards
  by (elim conjE exE) (simp add: filed_def Let_def list_all_iff)

definition seated :: "justice_config \<Rightarrow> 'a ju_env \<Rightarrow> nat \<Rightarrow> 'a jcase \<Rightarrow> 'a justice \<Rightarrow> 'a list" where
  "seated cfg env cid c st = draw_jury cfg env cid (parties st cid) (cs_opened_at c - interest_cooling cfg)"

lemma seat_jury_idle: "\<not> awaiting st cid \<Longrightarrow> seat_jury cfg env cid st = st"
  by (cases "cases st cid") (simp_all add: seat_jury_def awaiting_def)

lemma seat_jury_effect:
  assumes "cases st cid = Some c" "cs_status c = AwaitingJury" "st' = seat_jury cfg env cid st"
  shows "cases st' = (cases st)(cid \<mapsto> (if seated cfg env cid c st = [] then c\<lparr>cs_status := Lapsed\<rparr>
           else c\<lparr>cs_status := Open, cs_opened_at := ju_now env\<rparr>))"
    and "jury st' = (if seated cfg env cid c st = [] then jury st else (jury st)(cid := seated cfg env cid c st))"
    and "draw_queue st' = draw_queue st" "next_case_id st' = next_case_id st" "case_evidence st' = case_evidence st"
    and "incapacity_case st' = incapacity_case st" "parties st' = parties st" "votes st' = votes st"
    and "guilty_marks st' = guilty_marks st" "marks_of i (ju_log st') = marks_of i (ju_log st)"
  unfolding assms(3) seat_jury_def Let_def seated_def
  using assms(1,2) draw_jury_length [of cfg env cid "parties st cid" "cs_opened_at c - interest_cooling cfg"]
  by (simp_all add: ju_emit_def marks_of_def)

lemma cast_vote_effect:
  assumes "cast_vote env j cid g st = Inr st'"
  obtains c where "cases st cid = Some c" "cs_status c = Open" "j \<in> set (jury st cid)"
    "\<not> ju_disqualified env j (parties st cid)"
    "st' = ju_emit [VoteCast cid j g] (st\<lparr>votes := (votes st)(cid := (votes st cid)(j \<mapsto> g))\<rparr>)"
  using assms unfolding cast_vote_def guards by blast

definition punished :: "'a justice \<Rightarrow> nat \<Rightarrow> bool" where
  "punished st cid = (\<exists>c. cases st cid = Some c \<and> cs_status c = ResolvedGuilty \<and> cid \<notin> incapacity_case st)"

definition settled :: "'a jcase \<Rightarrow> bool" where
  "settled c = (cs_status c = Lapsed \<or> cs_status c = ResolvedGuilty \<or> cs_status c = ResolvedNotGuilty)"

lemma close_case_effect:
  assumes "close_case cfg env closer cid st = Inr st'"
  obtains c v where "cases st cid = Some c" "cs_status c = Open"
    "v = Lapsed \<or> v = ResolvedGuilty \<or> v = ResolvedNotGuilty"
    "cases st' = (cases st)(cid \<mapsto> c\<lparr>cs_status := v\<rparr>)"
    "draw_queue st' = draw_queue st" "next_case_id st' = next_case_id st" "case_evidence st' = case_evidence st"
    "incapacity_case st' = incapacity_case st" "jury st' = jury st" "parties st' = parties st" "votes st' = votes st"
    "guilty_marks st' = (if v = ResolvedGuilty \<and> cid \<notin> incapacity_case st
       then (guilty_marks st)(cs_defendant c := push_mark cid (guilty_marks st (cs_defendant c))) else guilty_marks st)"
    "\<And>i. marks_of i (ju_log st') = marks_of i (ju_log st)
       + (if i = cid \<and> v = ResolvedGuilty \<and> cid \<notin> incapacity_case st then 1 else 0)"
proof -
  from assms obtain c where c: "cases st cid = Some c" "cs_status c = Open"
    unfolding close_case_def Let_def guards by blast
  show thesis
  proof (rule that [of c "the (map_option cs_status (cases st' cid))"])
  qed (use assms c in \<open>auto simp: close_case_def Let_def ju_emit_def marks_of_def split: if_splits prod.splits\<close>)
qed

section \<open>Invariants\<close>

definition case_ids_left :: "'a justice \<Rightarrow> bool" where
  "case_ids_left st = (next_case_id st < u64_max)"

definition case_ok :: "justice_config \<Rightarrow> 'a justice \<Rightarrow> nat \<Rightarrow> 'a jcase \<Rightarrow> bool" where
  "case_ok cfg st cid c =
     (cs_plaintiff c \<noteq> cs_defendant c \<and> cs_dimension c < 4
      \<and> take 2 (parties st cid) = [cs_plaintiff c, cs_defendant c] \<and> length (parties st cid) \<le> max_interested cfg
      \<and> sorted (case_evidence st cid) \<and> distinct (case_evidence st cid)
      \<and> length (case_evidence st cid) \<le> max_case_evidence cfg \<and> length (jury st cid) \<le> max_jury cfg
      \<and> (cs_status c = AwaitingJury \<longrightarrow> jury st cid = [])
      \<and> (cs_status c \<in> {Open, ResolvedGuilty, ResolvedNotGuilty} \<longrightarrow> jury st cid \<noteq> [])
      \<and> dom (votes st cid) \<subseteq> set (jury st cid))"

definition docket_ok :: "justice_config \<Rightarrow> 'a justice \<Rightarrow> bool" where
  "docket_ok cfg st =
     ((\<forall>cid c. cases st cid = Some c \<longrightarrow> cid < next_case_id st \<and> case_ok cfg st cid c)
      \<and> (\<forall>cid. cases st cid = None \<longrightarrow> jury st cid = [] \<and> votes st cid = Map.empty)
      \<and> (\<forall>cid\<in>incapacity_case st. cid < next_case_id st))"

definition queue_ok :: "justice_config \<Rightarrow> 'a justice \<Rightarrow> bool" where
  "queue_ok cfg st =
     ((\<forall>n. length (draw_queue st n) \<le> max_draws_per_block cfg \<and> distinct (draw_queue st n))
      \<and> (\<forall>n m cid. cid \<in> set (draw_queue st n) \<and> cid \<in> set (draw_queue st m) \<longrightarrow> n = m)
      \<and> (\<forall>cid. awaiting st cid = (\<exists>n. cid \<in> set (draw_queue st n))))"

definition marks_ok :: "'a justice \<Rightarrow> bool" where
  "marks_ok st =
     ((\<forall>who. length (guilty_marks st who) \<le> MAX_GUILTY_MARKS \<and> distinct (guilty_marks st who))
      \<and> (\<forall>who cid. cid \<in> set (guilty_marks st who) \<longrightarrow>
           punished st cid \<and> map_option cs_defendant (cases st cid) = Some who)
      \<and> (\<forall>cid. marks_of cid (ju_log st) = (if punished st cid then 1 else 0)))"

subsection \<open>The docket\<close>

lemma docket_fresh: "docket_ok cfg st \<Longrightarrow> cases st (next_case_id st) = None"
  by (cases "cases st (next_case_id st)") (auto simp: docket_ok_def)

lemma docket_filed:
  assumes ok: "docket_ok cfg st" and left: "case_ids_left st" and d: "d < 4" "pl \<noteq> df"
    and ids: "length ids \<le> max_case_evidence cfg" "sorted ids" "distinct ids"
    and ex: "2 + length extra \<le> max_interested cfg"
  shows "docket_ok cfg (filed pl df h d loss ids extra inc now at st)"
proof -
  let ?n = "next_case_id st"
  have n: "jury st ?n = []" "votes st ?n = Map.empty"
    using ok docket_fresh [OF ok] by (auto simp: docket_ok_def)
  have nx: "sat_add u64_max ?n (Suc 0) = Suc ?n" using left by (simp add: case_ids_left_def sat_add_def)
  have "cases st cid = Some c \<Longrightarrow> cid < ?n" for cid c using ok by (auto simp: docket_ok_def)
  moreover have "cid \<in> incapacity_case st \<Longrightarrow> cid < ?n" for cid using ok by (auto simp: docket_ok_def)
  ultimately show ?thesis
    using ok n d ids ex unfolding docket_ok_def
    by (auto simp: filed_def ju_emit_def Let_def nx case_ok_def less_Suc_eq)
qed

lemma docket_seated: "docket_ok cfg st \<Longrightarrow> docket_ok cfg (seat_jury cfg env cid st)"
proof (cases "awaiting st cid")
  case True
  assume ok: "docket_ok cfg st"
  from True obtain c where c: "cases st cid = Some c" "cs_status c = AwaitingJury" by (auto simp: awaiting_def)
  have len: "length (seated cfg env cid c st) \<le> max_jury cfg" by (simp add: seated_def draw_jury_length)
  have cok: "case_ok cfg st cid c" using ok c by (simp add: docket_ok_def)
  note eff = seat_jury_effect [OF c refl]
  show ?thesis
    using ok c cok len unfolding docket_ok_def
    by (auto simp: eff case_ok_def)
qed (simp add: seat_jury_idle)

lemma docket_voted:
  assumes ok: "docket_ok cfg st" and "cast_vote env j cid g st = Inr st'"
  shows "docket_ok cfg st'"
  using assms(2)
proof (rule cast_vote_effect)
  fix c assume "cases st cid = Some c" "j \<in> set (jury st cid)"
    and st': "st' = ju_emit [VoteCast cid j g] (st\<lparr>votes := (votes st)(cid := (votes st cid)(j \<mapsto> g))\<rparr>)"
  with ok show ?thesis unfolding docket_ok_def st' ju_emit_def by (auto simp: case_ok_def)
qed

lemma docket_closed:
  assumes ok: "docket_ok cfg st" and "close_case cfg env w cid st = Inr st'"
  shows "docket_ok cfg st'"
  using assms(2)
proof (rule close_case_effect)
  fix c v assume c: "cases st cid = Some c" "cs_status c = Open"
    and v: "v = Lapsed \<or> v = ResolvedGuilty \<or> v = ResolvedNotGuilty"
    and eff: "cases st' = (cases st)(cid \<mapsto> c\<lparr>cs_status := v\<rparr>)" "next_case_id st' = next_case_id st"
      "case_evidence st' = case_evidence st" "incapacity_case st' = incapacity_case st" "jury st' = jury st"
      "parties st' = parties st" "votes st' = votes st"
  have cok: "case_ok cfg st cid c" using ok c by (simp add: docket_ok_def)
  show ?thesis using ok c(1) cok c(2) v unfolding docket_ok_def by (auto simp: eff case_ok_def)
qed

subsection \<open>The draw queue\<close>

lemma queue_filed:
  assumes dok: "docket_ok cfg st" and ok: "queue_ok cfg st"
    and room: "length (draw_queue st at) < max_draws_per_block cfg"
  shows "queue_ok cfg (filed pl df h d loss ids extra inc now at st)"
proof -
  let ?n = "next_case_id st"
  have "\<not> awaiting st ?n" using docket_fresh [OF dok] by (simp add: awaiting_def)
  then have fresh: "?n \<notin> set (draw_queue st n)" for n using ok by (auto simp: queue_ok_def)
  let ?st = "filed pl df h d loss ids extra inc now at st"
  have q: "draw_queue ?st = (draw_queue st)(at := draw_queue st at @ [?n])"
    by (simp add: filed_def ju_emit_def Let_def)
  have a: "awaiting ?st cid = (cid = ?n \<or> awaiting st cid)" for cid
    by (auto simp: filed_def ju_emit_def Let_def awaiting_def)
  let ?q = "(draw_queue st)(at := draw_queue st at @ [?n])"
  have m: "i \<in> set (?q n) \<longleftrightarrow> i \<in> set (draw_queue st n) \<or> (n = at \<and> i = ?n)" for i n by auto
  have l: "length (?q n) \<le> max_draws_per_block cfg \<and> distinct (?q n)" for n
    using ok room fresh by (auto simp: queue_ok_def)
  have u: "i \<in> set (?q n) \<Longrightarrow> i \<in> set (?q k) \<Longrightarrow> n = k" for i n k
    using ok fresh unfolding m queue_ok_def by metis
  have w: "awaiting ?st i = (\<exists>n. i \<in> set (?q n))" for i
    using ok unfolding m a queue_ok_def by metis
  show ?thesis unfolding queue_ok_def q using l u w by blast
qed

lemma awaiting_seated: "awaiting (seat_jury cfg env cid st) i = (i \<noteq> cid \<and> awaiting st i)"
proof (cases "awaiting st cid")
  case True
  then obtain c where c: "cases st cid = Some c" "cs_status c = AwaitingJury" by (auto simp: awaiting_def)
  show ?thesis unfolding awaiting_def seat_jury_effect(1) [OF c refl] using c by (auto split: if_splits)
qed (auto simp: seat_jury_idle)

lemma draw_queue_seated: "draw_queue (seat_jury cfg env cid st) = draw_queue st"
proof (cases "awaiting st cid")
  case True
  then obtain c where c: "cases st cid = Some c" "cs_status c = AwaitingJury" by (auto simp: awaiting_def)
  show ?thesis by (rule seat_jury_effect(3) [OF c refl])
qed (simp add: seat_jury_idle)

lemma seat_all:
  shows awaiting_seat_all: "awaiting (fold (seat_jury cfg env) cids st) i = (i \<notin> set cids \<and> awaiting st i)"
    and draw_queue_seat_all: "draw_queue (fold (seat_jury cfg env) cids st) = draw_queue st"
  by (induction cids arbitrary: st) (auto simp: awaiting_seated draw_queue_seated)

lemma queue_drawn: "queue_ok cfg st \<Longrightarrow> queue_ok cfg (justice_on_initialize cfg env n st)"
proof -
  assume ok: "queue_ok cfg st"
  let ?st = "justice_on_initialize cfg env n st"
  have q: "draw_queue ?st = (draw_queue st)(n := [])"
    by (simp add: justice_on_initialize_def draw_queue_seat_all)
  have a: "awaiting ?st cid = (cid \<notin> set (draw_queue st n) \<and> awaiting st cid)" for cid
    by (simp add: justice_on_initialize_def awaiting_seat_all) (simp add: awaiting_def)
  let ?q = "(draw_queue st)(n := [])"
  have m: "i \<in> set (?q k) \<longleftrightarrow> i \<in> set (draw_queue st k) \<and> k \<noteq> n" for i k by auto
  have l: "length (?q k) \<le> max_draws_per_block cfg \<and> distinct (?q k)" for k
    using ok by (auto simp: queue_ok_def)
  have u: "i \<in> set (?q j) \<Longrightarrow> i \<in> set (?q k) \<Longrightarrow> j = k" for i j k
    using ok unfolding m queue_ok_def by metis
  have w: "awaiting ?st i = (\<exists>k. i \<in> set (?q k))" for i
    using ok unfolding m a queue_ok_def by metis
  show ?thesis unfolding queue_ok_def q using l u w by blast
qed

lemma queue_kept:
  "queue_ok cfg st \<Longrightarrow> draw_queue st' = draw_queue st \<Longrightarrow> (\<And>i. awaiting st' i = awaiting st i) \<Longrightarrow> queue_ok cfg st'"
  by (simp add: queue_ok_def)

subsection \<open>The marks\<close>

lemma marks_kept:
  assumes "marks_ok st" "guilty_marks st' = guilty_marks st" "\<And>i. marks_of i (ju_log st') = marks_of i (ju_log st)"
    and "\<And>i. punished st' i = punished st i"
    and "\<And>i. punished st i \<Longrightarrow> map_option cs_defendant (cases st' i) = map_option cs_defendant (cases st i)"
  shows "marks_ok st'"
  using assms unfolding marks_ok_def by metis

lemma marks_filed:
  assumes dok: "docket_ok cfg st" and ok: "marks_ok st"
  shows "marks_ok (filed pl df h d loss ids extra inc now at st)"
proof (rule marks_kept [OF ok])
  have fresh: "cases st (next_case_id st) = None" by (rule docket_fresh [OF dok])
  then have np: "\<not> punished st (next_case_id st)" by (simp add: punished_def)
  show "punished (filed pl df h d loss ids extra inc now at st) i = punished st i" for i
    using fresh by (cases "i = next_case_id st") (simp_all add: filed_def ju_emit_def Let_def punished_def)
  show "map_option cs_defendant (cases (filed pl df h d loss ids extra inc now at st) i)
      = map_option cs_defendant (cases st i)" if "punished st i" for i
    using np that by (cases "i = next_case_id st") (simp_all add: filed_def ju_emit_def Let_def)
qed (simp_all add: filed_def ju_emit_def Let_def marks_of_def)

lemma marks_seated: "marks_ok st \<Longrightarrow> marks_ok (seat_jury cfg env cid st)"
proof (cases "awaiting st cid")
  case True
  assume ok: "marks_ok st"
  from True obtain c where c: "cases st cid = Some c" "cs_status c = AwaitingJury" by (auto simp: awaiting_def)
  show ?thesis
    by (rule marks_kept [OF ok]) (use c in \<open>auto simp: seat_jury_effect [OF c refl] punished_def split: if_splits\<close>)
qed (simp add: seat_jury_idle)

lemma push_mark_length: "length marks \<le> MAX_GUILTY_MARKS \<Longrightarrow> length (push_mark i marks) \<le> MAX_GUILTY_MARKS"
  by (simp add: push_mark_def MAX_GUILTY_MARKS_def)

lemma push_mark_distinct: "distinct marks \<Longrightarrow> i \<notin> set marks \<Longrightarrow> distinct (push_mark i marks)"
  by (auto simp: push_mark_def dest: in_set_dropD)

lemma push_mark_set: "j \<in> set (push_mark i marks) \<Longrightarrow> j = i \<or> j \<in> set marks"
  by (auto simp: push_mark_def dest: in_set_dropD split: if_splits)

lemma marks_closed:
  assumes ok: "marks_ok st" and "close_case cfg env w cid st = Inr st'"
  shows "marks_ok st'"
  using assms(2)
proof (rule close_case_effect)
  fix c v assume c: "cases st cid = Some c" "cs_status c = Open"
    and v: "v = Lapsed \<or> v = ResolvedGuilty \<or> v = ResolvedNotGuilty"
    and eff: "cases st' = (cases st)(cid \<mapsto> c\<lparr>cs_status := v\<rparr>)" "incapacity_case st' = incapacity_case st"
    and marks: "guilty_marks st' = (if v = ResolvedGuilty \<and> cid \<notin> incapacity_case st
       then (guilty_marks st)(cs_defendant c := push_mark cid (guilty_marks st (cs_defendant c))) else guilty_marks st)"
      "\<And>i. marks_of i (ju_log st') = marks_of i (ju_log st)
         + (if i = cid \<and> v = ResolvedGuilty \<and> cid \<notin> incapacity_case st then 1 else 0)"
  let ?g = "v = ResolvedGuilty \<and> cid \<notin> incapacity_case st"
  have np: "\<not> punished st cid" using c by (simp add: punished_def)
  have p: "punished st' i = (punished st i \<or> (i = cid \<and> ?g))" for i
    using np c by (auto simp: punished_def eff split: if_splits)
  have d: "map_option cs_defendant (cases st' i) = map_option cs_defendant (cases st i)" for i
    using c by (simp add: eff)
  have no: "cid \<notin> set (guilty_marks st who)" for who using ok np by (auto simp: marks_ok_def)
  have "length (guilty_marks st' who) \<le> MAX_GUILTY_MARKS \<and> distinct (guilty_marks st' who)" for who
    using ok no by (simp add: marks_ok_def marks push_mark_length push_mark_distinct)
  moreover have "punished st' i \<and> map_option cs_defendant (cases st' i) = Some who"
    if "i \<in> set (guilty_marks st' who)" for who i
  proof (cases "i \<in> set (guilty_marks st who)")
    case True
    then show ?thesis using ok unfolding p d by (simp add: marks_ok_def)
  next
    case False
    with that have g: ?g and i: "i = cid \<and> who = cs_defendant c"
      by (auto simp: marks dest!: push_mark_set split: if_splits)
    then show ?thesis unfolding p d using c by simp
  qed
  moreover have "marks_of i (ju_log st') = (if punished st' i then 1 else 0)" for i
    using ok np unfolding p marks(2) by (auto simp: marks_ok_def)
  ultimately show ?thesis unfolding marks_ok_def by blast
qed

section \<open>The system\<close>

definition justice_ok :: "justice_config \<Rightarrow> 'a justice \<Rightarrow> bool" where
  "justice_ok cfg st = (docket_ok cfg st \<and> queue_ok cfg st \<and> marks_ok st)"

lemma justice_ok_empty: "justice_ok cfg empty_justice"
  by (simp add: justice_ok_def docket_ok_def queue_ok_def marks_ok_def empty_justice_def awaiting_def
      punished_def marks_of_def)

lemma fold_keeps: "(\<And>x s. P s \<Longrightarrow> P (f x s)) \<Longrightarrow> P s \<Longrightarrow> P (fold f xs s)"
  by (induction xs arbitrary: s) simp_all

lemma opened_ok:
  assumes ok: "justice_ok cfg st" and left: "case_ids_left st"
    and "do_open cfg env pl df h d loss ev extra inc st = Inr st'"
  shows "justice_ok cfg st'"
  using assms(3)
proof (rule do_open_effect)
  fix at
  assume st': "st' = filed pl df h d loss (sort (remdups ev)) extra inc (ju_now env) at st"
    and slot: "find_slot cfg 64 (draw_queue st) (sat_add u32_max (ju_now env) (jury_draw_delay cfg)) = Some at"
    and g: "d < 4" "pl \<noteq> df" "length (remdups ev) \<le> max_case_evidence cfg" "2 + length extra \<le> max_interested cfg"
  have dok: "docket_ok cfg st" using ok by (simp add: justice_ok_def)
  have "docket_ok cfg st'"
    unfolding st' by (rule docket_filed [OF dok left g(1,2)]) (use g in simp_all)
  moreover have "queue_ok cfg st'"
    unfolding st' by (rule queue_filed [OF dok _ find_slot_room [OF slot]]) (use ok in \<open>simp add: justice_ok_def\<close>)
  moreover have "marks_ok st'"
    unfolding st' by (rule marks_filed [OF dok]) (use ok in \<open>simp add: justice_ok_def\<close>)
  ultimately show ?thesis by (simp add: justice_ok_def)
qed

lemma justice_step_ok:
  assumes ok: "justice_ok cfg st" and left: "case_ids_left st" and step: "justice_step cfg c st = Inr st'"
  shows "justice_ok cfg st'"
proof -
  obtain env call where c: "c = (env, call)" by (cases c)
  show ?thesis
  proof (cases call)
    case (OpenCase pl df h d loss ids ex)
    with step show ?thesis using opened_ok [OF ok left] by (simp add: c open_case_def)
  next
    case (OpenIncapacityCase pl s h ex)
    with step show ?thesis using opened_ok [OF ok left] by (simp add: c open_incapacity_case_def)
  next
    case (CastVote j cid g)
    with step have v: "cast_vote env j cid g st = Inr st'" by (simp add: c)
    then obtain cs where st': "st' = ju_emit [VoteCast j' g' b'] (st\<lparr>votes := vs\<rparr>)" if "j' = cid \<and> g' = j \<and> b' = g"
        "vs = (votes st)(cid := (votes st cid)(j \<mapsto> g))" for j' g' b' vs
      by (rule cast_vote_effect) blast
    note st' = st' [OF _ refl, simplified]
    have "queue_ok cfg st'" by (rule queue_kept [of _ st]) (use ok in \<open>simp_all add: justice_ok_def st' ju_emit_def awaiting_def\<close>)
    moreover have "marks_ok st'"
      by (rule marks_kept [of st]) (use ok in \<open>simp_all add: justice_ok_def st' ju_emit_def marks_of_def punished_def\<close>)
    moreover have "docket_ok cfg st'" by (rule docket_voted [OF _ v]) (use ok in \<open>simp add: justice_ok_def\<close>)
    ultimately show ?thesis by (simp add: justice_ok_def)
  next
    case (CloseCase w cid)
    with step have v: "close_case cfg env w cid st = Inr st'" by (simp add: c)
    have "docket_ok cfg st'" "marks_ok st'"
      using ok docket_closed [OF _ v] marks_closed [OF _ v] by (simp_all add: justice_ok_def)
    moreover have "draw_queue st' = draw_queue st" by (rule close_case_effect [OF v])
    moreover have "awaiting st' i = awaiting st i" for i
      by (rule close_case_effect [OF v]) (auto simp: awaiting_def split: if_splits)
    ultimately show ?thesis using ok queue_kept [of cfg st st'] by (simp add: justice_ok_def)
  next
    case (BlockBegins n)
    with step have st': "st' = justice_on_initialize cfg env n st" by (simp add: c)
    let ?st = "st\<lparr>draw_queue := (draw_queue st)(n := [])\<rparr>"
    have "docket_ok cfg ?st" "marks_ok ?st"
      using ok by (simp_all add: justice_ok_def docket_ok_def case_ok_def marks_ok_def punished_def)
    then have "docket_ok cfg st'" "marks_ok st'"
      unfolding st' justice_on_initialize_def
      by (simp_all add: fold_keeps [where P = "docket_ok cfg"] fold_keeps [where P = marks_ok]
          docket_seated marks_seated)
    with ok st' show ?thesis by (simp add: justice_ok_def queue_drawn)
  qed
qed

lemma seat_all_ids: "next_case_id (fold (seat_jury cfg env) cids st) = next_case_id st"
proof (induction cids arbitrary: st)
  case (Cons cid cids)
  have "next_case_id (seat_jury cfg env cid st) = next_case_id st"
  proof (cases "awaiting st cid")
    case True
    then obtain c where c: "cases st cid = Some c" "cs_status c = AwaitingJury" by (auto simp: awaiting_def)
    show ?thesis by (rule seat_jury_effect(4) [OF c refl])
  qed (simp add: seat_jury_idle)
  with Cons show ?case by simp
qed simp

lemma justice_step_ids: "justice_step cfg c st = Inr st' \<Longrightarrow> case_ids_left st' \<Longrightarrow> case_ids_left st"
proof -
  assume step: "justice_step cfg c st = Inr st'" and left: "case_ids_left st'"
  obtain env call where c: "c = (env, call)" by (cases c)
  have o: "do_open cfg env pl df h d loss ev extra inc st = Inr st' \<Longrightarrow>
      next_case_id st' = sat_add u64_max (next_case_id st) 1" for pl df h d loss ev extra inc
    by (erule do_open_effect) (simp add: filed_def ju_emit_def Let_def)
  have "next_case_id st' = next_case_id st \<or> next_case_id st' = sat_add u64_max (next_case_id st) 1"
  proof (cases call)
    case (CastVote j cid g)
    with step have "cast_vote env j cid g st = Inr st'" by (simp add: c)
    then show ?thesis by (rule cast_vote_effect) (simp add: ju_emit_def)
  next
    case (CloseCase w cid)
    with step have "close_case cfg env w cid st = Inr st'" by (simp add: c)
    then show ?thesis by (rule close_case_effect) simp
  next
    case (BlockBegins n)
    with step have "st' = justice_on_initialize cfg env n st" by (simp add: c)
    then show ?thesis by (simp add: justice_on_initialize_def seat_all_ids)
  qed (use step o in \<open>auto simp: c open_case_def open_incapacity_case_def\<close>)
  with left show ?thesis by (auto simp: case_ids_left_def sat_add_def split: if_splits)
qed

interpretation justice_calls: call_system "justice_step cfg" "\<lambda>_. True"
    "\<lambda>st. case_ids_left st \<longrightarrow> justice_ok cfg st"
  for cfg
  by unfold_locales (metis justice_step_ids justice_step_ok)

lemma justice_reachable: "case_ids_left (run_calls (justice_step cfg) calls empty_justice) \<Longrightarrow>
    justice_ok cfg (run_calls (justice_step cfg) calls empty_justice)"
  using justice_calls.run_inv [of calls empty_justice cfg, OF _ impI [OF justice_ok_empty]] by (simp add: list.pred_set)

section \<open>Settled cases\<close>

definition dossier :: "'a justice \<Rightarrow> nat \<Rightarrow> 'a jcase option \<times> 'a list \<times> 'a list \<times> ('a \<rightharpoonup> bool) \<times> nat list \<times> bool" where
  "dossier st cid =
     (cases st cid, jury st cid, parties st cid, votes st cid, case_evidence st cid, cid \<in> incapacity_case st)"

lemma dossier_seated: "\<not> awaiting st cid \<Longrightarrow> dossier (seat_jury cfg env i st) cid = dossier st cid"
proof (cases "awaiting st i")
  case True
  assume "\<not> awaiting st cid"
  with True have "i \<noteq> cid" by auto
  moreover obtain c where c: "cases st i = Some c" "cs_status c = AwaitingJury" using True by (auto simp: awaiting_def)
  ultimately show ?thesis by (simp add: dossier_def seat_jury_effect [OF c refl])
qed (simp add: seat_jury_idle)

lemma dossier_seat_all:
  "\<not> awaiting st cid \<Longrightarrow> dossier (fold (seat_jury cfg env) cids st) cid = dossier st cid"
  by (induction cids arbitrary: st) (simp_all add: dossier_seated awaiting_seated)

lemma settled_frozen:
  assumes step: "justice_step cfg c st = Inr st'" and ok: "justice_ok cfg st"
    and cs: "cases st cid = Some cs" "settled cs"
  shows "dossier st' cid = dossier st cid"
proof -
  obtain env call where c: "c = (env, call)" by (cases c)
  have dok: "docket_ok cfg st" using ok by (simp add: justice_ok_def)
  have old: "cid \<noteq> next_case_id st" using docket_fresh [OF dok] cs by auto
  have na: "\<not> awaiting st cid" "cs_status cs \<noteq> Open" using cs by (auto simp: awaiting_def settled_def)
  have o: "do_open cfg env pl df h d loss ev extra inc st = Inr st' \<Longrightarrow> ?thesis" for pl df h d loss ev extra inc
    by (erule do_open_effect) (use old in \<open>simp add: filed_def ju_emit_def Let_def dossier_def\<close>)
  show ?thesis
  proof (cases call)
    case (CastVote j i g)
    with step have v: "cast_vote env j i g st = Inr st'" by (simp add: c)
    show ?thesis by (rule cast_vote_effect [OF v]) (use cs na in \<open>auto simp: ju_emit_def dossier_def\<close>)
  next
    case (CloseCase w i)
    with step have v: "close_case cfg env w i st = Inr st'" by (simp add: c)
    show ?thesis by (rule close_case_effect [OF v]) (use cs na in \<open>auto simp: dossier_def\<close>)
  next
    case (BlockBegins n)
    let ?st = "st\<lparr>draw_queue := (draw_queue st)(n := [])\<rparr>"
    have "\<not> awaiting ?st cid" using na by (simp add: awaiting_def)
    then have "dossier (justice_on_initialize cfg env n st) cid = dossier ?st cid"
      unfolding justice_on_initialize_def by (rule dossier_seat_all)
    with BlockBegins step show ?thesis by (simp add: c) (simp add: dossier_def)
  qed (use step o in \<open>auto simp: c open_case_def open_incapacity_case_def\<close>)
qed

interpretation justice_settled: call_system "justice_step cfg" "\<lambda>_. True"
    "\<lambda>st. case_ids_left st \<longrightarrow> justice_ok cfg st \<and> dossier st cid = (Some cs, rest) \<and> settled cs"
  for cfg cid cs rest
proof
  fix c and s s' :: "'a justice"
  assume inv: "case_ids_left s \<longrightarrow> justice_ok cfg s \<and> dossier s cid = (Some cs, rest) \<and> settled cs"
    and step: "justice_step cfg c s = Inr s'"
  show "case_ids_left s' \<longrightarrow> justice_ok cfg s' \<and> dossier s' cid = (Some cs, rest) \<and> settled cs"
  proof
    assume "case_ids_left s'"
    with step have left: "case_ids_left s" by (rule justice_step_ids)
    with inv have i: "justice_ok cfg s" "dossier s cid = (Some cs, rest)" "settled cs" by auto
    from i(2) have "cases s cid = Some cs" by (simp add: dossier_def)
    from settled_frozen [OF step i(1) this i(3)] i justice_step_ok [OF i(1) left step]
    show "justice_ok cfg s' \<and> dossier s' cid = (Some cs, rest) \<and> settled cs" by simp
  qed
qed

section \<open>The verdict\<close>

definition counted :: "('a \<Rightarrow> bool) \<Rightarrow> ('a \<rightharpoonup> bool) \<Rightarrow> 'a list \<Rightarrow> nat" where
  "counted out vs js = length (filter (\<lambda>j. \<not> out j \<and> vs j \<noteq> None) js)"

definition guilty_count :: "('a \<Rightarrow> bool) \<Rightarrow> ('a \<rightharpoonup> bool) \<Rightarrow> 'a list \<Rightarrow> nat" where
  "guilty_count out vs js = length (filter (\<lambda>j. \<not> out j \<and> vs j = Some True) js)"

lemma tally_votes_count:
  "c + length js \<le> u32_max \<Longrightarrow> g \<le> c \<Longrightarrow>
     tally_votes out vs js (c, g) = (c + counted out vs js, g + guilty_count out vs js)"
proof (induction js arbitrary: c g)
  case (Cons j js)
  then have "sat_add u32_max c (Suc 0) = Suc c" "sat_add u32_max g (Suc 0) = Suc g" by (simp_all add: sat_add_def)
  with Cons show ?case
    by (cases "vs j") (auto simp: counted_def guilty_count_def)
qed (simp add: counted_def guilty_count_def)

section \<open>Properties\<close>

text \<open>
  C34: the vote decides, and only the vote: a case closes exactly when it is open, its window has passed, and
  either the extension has passed too or the closer is no party and the quorum voted; the recorded status is
  lapsed below quorum, guilty when the guilty votes of the jurors not disqualified reach the threshold of the
  whole jury, and not guilty otherwise, whatever order the jurors are counted in.
\<close>

theorem verdict_follows_votes:
  assumes "cases st cid = Some c" "n = length (jury st cid)" "n \<le> u32_max"
    and "cast = counted (\<lambda>j. ju_disqualified env j (parties st cid)) (votes st cid) (jury st cid)"
    and "guilty = guilty_count (\<lambda>j. ju_disqualified env j (parties st cid)) (votes st cid) (jury st cid)"
    and "elapsed = ju_now env - cs_opened_at c"
  shows "(\<exists>st'. close_case cfg env closer cid st = Inr st') =
      (cs_status c = Open \<and> voting_window cfg \<le> elapsed
        \<and> (sat_add u32_max (voting_window cfg) (voting_window cfg) \<le> elapsed
            \<or> closer \<notin> set (parties st cid) \<and> quorum_ceil cfg n \<le> cast))
    \<and> (\<forall>st'. close_case cfg env closer cid st = Inr st' \<longrightarrow> cases st' = (cases st)(cid \<mapsto> c\<lparr>cs_status :=
        if cast < quorum_ceil cfg n then Lapsed
        else if 0 < guilt_ceil cfg n \<and> guilt_ceil cfg n \<le> guilty then ResolvedGuilty else ResolvedNotGuilty\<rparr>))"
proof -
  have t: "tally_votes (\<lambda>j. ju_disqualified env j (parties st cid)) (votes st cid) (jury st cid) (0, 0) = (cast, guilty)"
    using tally_votes_count [of 0 "jury st cid" 0] assms(2-5) by simp
  show ?thesis
    using assms(1) unfolding close_case_def Let_def assms(2) [symmetric] t assms(6)
    by (auto simp: ju_emit_def)
qed

definition demo_justice :: justice_config where
  "demo_justice = \<lparr>max_case_evidence = 4, jury_size = 12, max_jury = 32, max_interested = 8, voting_window = 10,
     jury_draw_delay = 2, interest_cooling = 0, max_draws_per_block = 2, guilt_ceil = (\<lambda>n. (2 * n + 2) div 3),
     quorum_ceil = (\<lambda>n. (n + 1) div 2), depth2_floor = (\<lambda>r. r div 10)\<rparr>"

definition demo_court :: "nat \<Rightarrow> (nat \<times> int) list \<Rightarrow> nat ju_env" where
  "demo_court now rep = \<lparr>ju_now = now, ju_reputation = rep, ju_has_interest = (\<lambda>_ _. False),
     ju_relation_depth = (\<lambda>_ _. None), ju_disqualified = (\<lambda>j _. j = 7), ju_excludes_at_draw = (\<lambda>j ps _. j \<in> set ps),
     ju_seed = ''s'', ju_committed_key = (\<lambda>_. None), ju_owns_evidence = (\<lambda>_ _ _. True),
     ju_on_guilty = (\<lambda>_ _ loss _. loss), ju_parent = ''p'', ju_encode = (\<lambda>_. [])\<rparr>"

definition demo_trial :: "nat justice" where
  "demo_trial = empty_justice\<lparr>next_case_id := 1, cases := [0 \<mapsto> \<lparr>cs_plaintiff = 1, cs_defendant = 2,
     cs_fact_hash = 0, cs_dimension = 0, cs_loss = 5, cs_status = Open, cs_opened_at = 20\<rparr>],
     jury := (\<lambda>_. [])(0 := [3, 4, 5, 7]), parties := (\<lambda>_. [])(0 := [1, 2]),
     votes := (\<lambda>_. Map.empty)(0 := [3 \<mapsto> True, 4 \<mapsto> True, 5 \<mapsto> True, 7 \<mapsto> False])\<rparr>"

theorem verdict_follows_votes_witness:
  "\<exists>st'. close_case demo_justice (demo_court 31 []) 9 0 demo_trial = Inr st'
    \<and> map_option cs_status (cases st' 0) = Some ResolvedGuilty"
proof -
  let ?e = "demo_court 31 []"
  let ?out = "\<lambda>j. ju_disqualified ?e j (parties demo_trial 0)"
  have c: "cases demo_trial 0 = Some \<lparr>cs_plaintiff = 1, cs_defendant = 2, cs_fact_hash = 0, cs_dimension = 0,
      cs_loss = 5, cs_status = Open, cs_opened_at = 20\<rparr>"
    and n: "4 = length (jury demo_trial 0)"
    and v: "3 = counted ?out (votes demo_trial 0) (jury demo_trial 0)"
      "3 = guilty_count ?out (votes demo_trial 0) (jury demo_trial 0)"
    by (simp_all add: demo_trial_def demo_court_def counted_def guilty_count_def ex_bool_eq all_bool_eq)
  have p: "9 \<notin> set (parties demo_trial 0)" by (simp add: demo_trial_def)
  note t = verdict_follows_votes [OF c n _ v refl, of demo_justice 9]
  from t p have "\<exists>st'. close_case demo_justice ?e 9 0 demo_trial = Inr st'"
    by (simp add: u32_max_def) (simp add: demo_justice_def demo_court_def sat_add_def)
  with t show ?thesis by (elim exE) (simp add: u32_max_def, simp add: demo_justice_def)
qed

text \<open>
  A settled case is final: once a case is resolved or lapsed, its record, jury, votes, parties and named
  evidence never change again, whatever is filed, voted, closed or drawn.
\<close>

theorem settled_case_final:
  assumes "st = run_calls (justice_step cfg) before empty_justice" "cases st cid = Some c" "settled c"
    and "st' = run_calls (justice_step cfg) after st" "case_ids_left st'"
  shows "dossier st' cid = dossier st cid"
proof -
  obtain rest where d: "dossier st cid = (Some c, rest)" using assms(2) by (simp add: dossier_def)
  have "case_ids_left st \<longrightarrow> justice_ok cfg st" unfolding assms(1) using justice_reachable by blast
  with d assms(3) have "case_ids_left st \<longrightarrow> justice_ok cfg st \<and> dossier st cid = (Some c, rest) \<and> settled c" by simp
  from justice_settled.run_inv [OF _ this, of after] assms(4,5) d show ?thesis by (simp add: list.pred_set)
qed

definition demo_lapse :: "(nat ju_env \<times> nat justice_op) list" where
  "demo_lapse = [(demo_court 1 [], OpenCase 1 2 0 0 5 [4, 3] []), (demo_court 3 [], BlockBegins 3)]"

definition demo_filed :: "nat justice" where
  "demo_filed = \<lparr>draw_queue = (\<lambda>_. [])(3 := [0]), next_case_id = 1,
     cases = [0 \<mapsto> \<lparr>cs_plaintiff = 1, cs_defendant = 2, cs_fact_hash = 0, cs_dimension = 0, cs_loss = 5,
       cs_status = AwaitingJury, cs_opened_at = 1\<rparr>],
     case_evidence = (\<lambda>_. [])(0 := [3, 4]), guilty_marks = (\<lambda>_. []), incapacity_case = {}, jury = (\<lambda>_. []),
     parties = (\<lambda>_. [])(0 := [1, 2]), votes = (\<lambda>_. Map.empty), ju_log = [CaseFiled 0 1 2 3]\<rparr>"

lemma demo_filed_eval: "open_case demo_justice (demo_court 1 rep) 1 2 0 0 5 [4, 3] [] empty_justice = Inr demo_filed"
proof -
  have "find_slot demo_justice 64 (\<lambda>_. []) 3 = Some 3"
    by (rule find_slot_first) (simp_all add: demo_justice_def)
  moreover have "sat_add u32_max (ju_now (demo_court 1 rep)) (jury_draw_delay demo_justice) = 3"
    by (simp add: sat_add_def u32_max_def demo_court_def demo_justice_def)
  ultimately show ?thesis
    by (simp add: open_case_def do_open_def Let_def empty_justice_def ju_emit_def demo_filed_def)
      (simp add: demo_justice_def demo_court_def sat_add_def u64_max_def)
qed

lemma demo_lapse_eval:
  "run_calls (justice_step demo_justice) demo_lapse empty_justice = demo_filed\<lparr>draw_queue := (\<lambda>_. []),
     cases := [0 \<mapsto> \<lparr>cs_plaintiff = 1, cs_defendant = 2, cs_fact_hash = 0, cs_dimension = 0, cs_loss = 5,
       cs_status = Lapsed, cs_opened_at = 1\<rparr>], ju_log := [CaseFiled 0 1 2 3, JuryUnavailable 0]\<rparr>"
proof -
  have "draw_jury demo_justice (demo_court 3 []) 0 [1, 2] 1 = []"
    by (simp only: draw_jury_def jury_pool_def demo_court_def ju_env.select_convs filter.simps list.map Let_def
        jury_candidates_def List.map_filter_simps simp_thms if_True)
  then have "justice_on_initialize demo_justice (demo_court 3 []) 3 demo_filed = demo_filed\<lparr>draw_queue := (\<lambda>_. []),
     cases := [0 \<mapsto> \<lparr>cs_plaintiff = 1, cs_defendant = 2, cs_fact_hash = 0, cs_dimension = 0, cs_loss = 5,
       cs_status = Lapsed, cs_opened_at = 1\<rparr>], ju_log := [CaseFiled 0 1 2 3, JuryUnavailable 0]\<rparr>"
    by (simp add: justice_on_initialize_def seat_jury_def demo_filed_def ju_emit_def Let_def)
      (simp add: demo_justice_def fun_upd_idem_iff)
  then show ?thesis by (simp add: demo_lapse_def demo_filed_eval [simplified] apply_call_def)
qed

theorem settled_case_final_witness:
  "let st = run_calls (justice_step demo_justice) demo_lapse empty_justice;
       st' = run_calls (justice_step demo_justice) [(demo_court 40 [(3, 9)], CloseCase 9 0), (demo_court 41 [], CastVote 3 0 True)] st
   in dossier st' 0 = dossier st 0"
proof -
  let ?st = "run_calls (justice_step demo_justice) demo_lapse empty_justice"
  let ?a = "[(demo_court 40 [(3, 9)], CloseCase 9 0), (demo_court 41 [], CastVote 3 0 True)]"
  have "case_ids_left (run_calls (justice_step demo_justice) ?a ?st)"
    by (simp add: demo_lapse_eval demo_filed_def close_case_def cast_vote_def apply_call_def case_ids_left_def u64_max_def)
  from settled_case_final [OF refl _ _ refl this, of 0] show ?thesis
    unfolding Let_def by (simp add: demo_lapse_eval settled_def)
qed

text \<open>
  The books of the docket: every case has distinct plaintiff and defendant heading its parties and evidence
  sorted without repetition; nobody votes who was not seated, no jury exceeds \<open>MaxJury\<close> and no case is open
  or resolved without a jury; and a case awaits its jury exactly while it is queued for one block, once.
\<close>

theorem docket_books:
  assumes "st = run_calls (justice_step cfg) calls empty_justice" "case_ids_left st" "cases st cid = Some c"
  shows "cs_plaintiff c \<noteq> cs_defendant c \<and> take 2 (parties st cid) = [cs_plaintiff c, cs_defendant c]
    \<and> sorted (case_evidence st cid) \<and> distinct (case_evidence st cid)
    \<and> length (case_evidence st cid) \<le> max_case_evidence cfg
    \<and> dom (votes st cid) \<subseteq> set (jury st cid) \<and> length (jury st cid) \<le> max_jury cfg
    \<and> (cs_status c \<in> {Open, ResolvedGuilty, ResolvedNotGuilty} \<longrightarrow> jury st cid \<noteq> [])
    \<and> (cs_status c = AwaitingJury \<longrightarrow> (\<exists>!n. cid \<in> set (draw_queue st n)))
    \<and> (cs_status c \<noteq> AwaitingJury \<longrightarrow> (\<forall>n. cid \<notin> set (draw_queue st n)))
    \<and> (\<forall>n. length (draw_queue st n) \<le> max_draws_per_block cfg \<and> distinct (draw_queue st n))"
proof -
  have ok: "justice_ok cfg st" using justice_reachable assms(1,2) by blast
  then have "case_ok cfg st cid c" using assms(3) by (simp add: justice_ok_def docket_ok_def)
  moreover have q: "queue_ok cfg st" using ok by (simp add: justice_ok_def)
  moreover have "awaiting st cid = (cs_status c = AwaitingJury)" using assms(3) by (simp add: awaiting_def)
  then have "(cs_status c = AwaitingJury) = (\<exists>n. cid \<in> set (draw_queue st n))" using q by (simp add: queue_ok_def)
  moreover have "cid \<in> set (draw_queue st n) \<Longrightarrow> cid \<in> set (draw_queue st m) \<Longrightarrow> n = m" for n m
    using q unfolding queue_ok_def by blast
  ultimately show ?thesis unfolding case_ok_def queue_ok_def by metis
qed

theorem docket_books_witness:
  "\<exists>!n. 0 \<in> set (draw_queue demo_filed n)"
proof -
  let ?calls = "[(demo_court 1 [(3, 9)], OpenCase 1 2 0 0 5 [4, 3] [])]"
  have run: "demo_filed = run_calls (justice_step demo_justice) ?calls empty_justice"
    by (simp add: demo_filed_eval [simplified] apply_call_def)
  have "case_ids_left demo_filed" "cases demo_filed 0 = Some \<lparr>cs_plaintiff = 1, cs_defendant = 2, cs_fact_hash = 0,
      cs_dimension = 0, cs_loss = 5, cs_status = AwaitingJury, cs_opened_at = 1\<rparr>"
    by (simp_all add: demo_filed_def case_ids_left_def u64_max_def)
  from docket_books [OF run this] show ?thesis by simp
qed

text \<open>
  The marks are sound: the pallet marks an account under a verdict exactly once per case that ended guilty
  and is not about incapacity, and for no other case; an account keeps at most 64 marks, all different, each of
  a case it was the defendant of and lost.
\<close>

theorem guilty_marks_sound:
  assumes "st = run_calls (justice_step cfg) calls empty_justice" "case_ids_left st"
  shows "length (guilty_marks st who) \<le> MAX_GUILTY_MARKS \<and> distinct (guilty_marks st who)
    \<and> (\<forall>i\<in>set (guilty_marks st who). \<exists>c. cases st i = Some c \<and> cs_defendant c = who
          \<and> cs_status c = ResolvedGuilty \<and> i \<notin> incapacity_case st)
    \<and> marks_of cid (ju_log st) = (if \<exists>c. cases st cid = Some c \<and> cs_status c = ResolvedGuilty
          \<and> cid \<notin> incapacity_case st then 1 else 0)"
proof -
  have "marks_ok st" using justice_reachable assms by (auto simp: justice_ok_def)
  then show ?thesis unfolding marks_ok_def punished_def by fastforce
qed

theorem guilty_marks_sound_witness:
  "marks_of 0 (ju_log (run_calls (justice_step demo_justice) demo_lapse empty_justice)) = 0"
proof -
  have "case_ids_left (run_calls (justice_step demo_justice) demo_lapse empty_justice)"
    by (simp add: demo_lapse_eval demo_filed_def case_ids_left_def u64_max_def)
  from guilty_marks_sound [OF refl this, of 2 0] show ?thesis by (simp add: demo_lapse_eval split: if_splits)
qed

text \<open>
  C38: seating a jury either opens the case from this block on with a jury of at most \<open>MaxJury\<close> different
  accounts, each with reputation above zero, without an interest at filing, with a weight that survives the
  depth-two penalty and, when enough candidates committed to the beacon, with a committed key; or lapses the
  case, when the draw seats nobody. Every other case, jury and vote is left as it was.
\<close>

theorem seated_jury_fair:
  assumes "cases st cid = Some c" "cs_status c = AwaitingJury" "st' = seat_jury cfg env cid st"
    and "distinct (map fst (ju_reputation env))" "cutoff = cs_opened_at c - interest_cooling cfg"
    and "js = draw_jury cfg env cid (parties st cid) cutoff"
  shows "if js = [] then st' = ju_emit [JuryUnavailable cid] (st\<lparr>cases := (cases st)(cid \<mapsto> c\<lparr>cs_status := Lapsed\<rparr>)\<rparr>)
    else cases st' = (cases st)(cid \<mapsto> c\<lparr>cs_status := Open, cs_opened_at := ju_now env\<rparr>)
      \<and> jury st' = (jury st)(cid := js) \<and> votes st' = votes st \<and> parties st' = parties st
      \<and> distinct js \<and> length js \<le> max_jury cfg \<and> list_all (may_sit cfg env (parties st cid) cutoff) js
      \<and> (beacon_engaged env (jury_pool cfg env (parties st cid) cutoff) \<longrightarrow>
           list_all (\<lambda>j. ju_committed_key env j \<noteq> None) js)"
proof -
  have s: "seated cfg env cid c st = js" by (simp add: seated_def assms(5,6))
  note eff = seat_jury_effect [OF assms(1,2,3), unfolded s]
  have "js = [] \<Longrightarrow> st' = ju_emit [JuryUnavailable cid] (st\<lparr>cases := (cases st)(cid \<mapsto> c\<lparr>cs_status := Lapsed\<rparr>)\<rparr>)"
    using assms(1,2,3) s unfolding seated_def by (simp add: seat_jury_def Let_def)
  moreover have "distinct js" "length js \<le> max_jury cfg"
    unfolding assms(6) by (rule draw_jury_distinct [OF assms(4)], rule draw_jury_length)
  moreover have "list_all (may_sit cfg env (parties st cid) cutoff) js"
    unfolding assms(6) list_all_iff by (blast intro: draw_jury_may_sit)
  moreover have "beacon_engaged env (jury_pool cfg env (parties st cid) cutoff) \<Longrightarrow>
      list_all (\<lambda>j. ju_committed_key env j \<noteq> None) js"
    unfolding assms(6) list_all_iff by (blast dest: draw_jury_committed)
  ultimately show ?thesis using eff by simp
qed

theorem seated_jury_fair_witness:
  "let env = demo_court 3 [(1, 20), (2, 30), (3, 9), (4, 6), (5, 0)]; js = draw_jury demo_justice env 0 [1, 2] 1
   in distinct js \<and> set js \<subseteq> {3, 4} \<and> (js \<noteq> [] \<longrightarrow> jury (seat_jury demo_justice env 0 demo_filed) 0 = js)"
proof -
  let ?env = "demo_court 3 [(1, 20), (2, 30), (3, 9), (4, 6), (5, 0)]"
  let ?js = "draw_jury demo_justice ?env 0 [1, 2] 1"
  have c: "cases demo_filed 0 = Some \<lparr>cs_plaintiff = 1, cs_defendant = 2, cs_fact_hash = 0,
      cs_dimension = 0, cs_loss = 5, cs_status = AwaitingJury, cs_opened_at = 1\<rparr>" by (simp add: demo_filed_def)
  have d: "distinct (map fst (ju_reputation ?env))" by (simp add: demo_court_def)
  have p: "parties demo_filed 0 = [1, 2]" and k: "1 = (1 :: nat) - interest_cooling demo_justice"
    by (simp_all add: demo_filed_def demo_justice_def)
  have may: "may_sit demo_justice ?env [1, 2] 1 j \<Longrightarrow> j \<in> {3, 4}" for j
    by (auto simp: may_sit_def demo_court_def)
  note t = seated_jury_fair [OF c _ refl d _ refl, of 1 demo_justice]
  show ?thesis
  proof (cases "?js = []")
    case False
    with t k have "jury (seat_jury demo_justice ?env 0 demo_filed) = (jury demo_filed)(0 := ?js)" "distinct ?js"
      "list_all (may_sit demo_justice ?env [1, 2] 1) ?js" by (simp_all add: p)
    with may show ?thesis unfolding Let_def list_all_iff by (intro conjI) auto
  qed (simp only: Let_def distinct.simps set_simps empty_subsetI simp_thms)
qed

end
