(* ===== verification/Vouch.thy ===== *)
theory Vouch
imports Frame "HOL-Library.Signed_Division"
begin

text \<open>
  Vouching, \<open>chain/reputation-core/src/vouch.rs\<close>: the registry of sponsorships, the bounded distance in
  the vouch graph that trials use, the mentor dividend, and the slashing that climbs from a culprit to its
  sponsors. Names are any type; a reputation map is a partial function. Fixed-point values are \<open>int\<close>,
  with the saturation of \<open>i128::saturating_mul\<close> and Rust's division toward zero written out. Left out:
  \<open>log2_fp\<close> and the quota built on it, and the \<open>f64\<close> versions.
\<close>

section \<open>Fixed point\<close>

definition FP_SCALE :: int where "FP_SCALE = 1000000000"

definition i128_max :: int where "i128_max = 2 ^ 127 - 1"

definition i128_min :: int where "i128_min = - (2 ^ 127)"

definition i128_sat_mul :: "int \<Rightarrow> int \<Rightarrow> int" where
  "i128_sat_mul a b = max i128_min (min i128_max (a * b))"

definition i128_fp_mul :: "int \<Rightarrow> int \<Rightarrow> int" where
  "i128_fp_mul a b = i128_sat_mul a b sdiv FP_SCALE"

definition mentor_dividend_fp :: "int \<Rightarrow> int \<Rightarrow> int" where
  "mentor_dividend_fp protege_independent_rep echo = i128_fp_mul echo (max protege_independent_rep 0)"

lemma i128_fp_mul_shrinks:
  assumes "0 \<le> a" "0 \<le> f" "f \<le> FP_SCALE"
  shows "0 \<le> i128_fp_mul a f" "i128_fp_mul a f \<le> a"
proof -
  let ?x = "i128_sat_mul a f"
  have x: "0 \<le> ?x" "?x \<le> a * f"
    using mult_nonneg_nonneg [OF assms(1,2)] by (simp_all add: i128_sat_mul_def i128_min_def i128_max_def)
  have "a * f \<le> a * FP_SCALE" using assms by (intro mult_left_mono)
  with x have "?x div FP_SCALE \<le> (a * FP_SCALE) div FP_SCALE" by (intro zdiv_mono1) (simp_all add: FP_SCALE_def)
  moreover have "?x sdiv FP_SCALE = ?x div FP_SCALE"
    using x(1) by (cases "?x = 0") (simp_all add: signed_divide_int_def FP_SCALE_def)
  ultimately show "0 \<le> i128_fp_mul a f" "i128_fp_mul a f \<le> a"
    using x(1) by (simp_all add: i128_fp_mul_def FP_SCALE_def pos_imp_zdiv_nonneg_iff)
qed

section \<open>The registry\<close>

record 'a sponsorship =
  sp_sponsor :: 'a
  sp_protege :: 'a
  sp_live :: bool

type_synonym 'a vouch_registry = "'a sponsorship list"

definition sponsor_link :: "'a \<Rightarrow> 'a \<Rightarrow> 'a vouch_registry \<Rightarrow> 'a vouch_registry" where
  "sponsor_link s p reg = reg @ [\<lparr>sp_sponsor = s, sp_protege = p, sp_live = True\<rparr>]"

definition sponsors_of :: "'a vouch_registry \<Rightarrow> 'a \<Rightarrow> 'a list" where
  "sponsors_of reg p = map sp_sponsor (filter (\<lambda>v. sp_protege v = p) reg)"

definition live_vouches :: "'a vouch_registry \<Rightarrow> 'a \<Rightarrow> nat" where
  "live_vouches reg s = length (filter (\<lambda>v. sp_sponsor v = s \<and> sp_live v) reg)"

definition graduate :: "'a \<Rightarrow> 'a \<Rightarrow> 'a vouch_registry \<Rightarrow> bool \<times> 'a vouch_registry" where
  "graduate s p reg =
     (let hit = (\<lambda>v. sp_sponsor v = s \<and> sp_protege v = p \<and> sp_live v)
      in (list_ex hit reg, map (\<lambda>v. if hit v then v\<lparr>sp_live := False\<rparr> else v) reg))"

definition neighbors :: "'a vouch_registry \<Rightarrow> 'a \<Rightarrow> 'a list" where
  "neighbors reg node = List.map_filter (\<lambda>l.
     if sp_sponsor l = node then Some (sp_protege l)
     else if sp_protege l = node then Some (sp_sponsor l) else None) reg"

section \<open>The bounded distance\<close>

datatype 'a scan = Found | GaveUp | Go "'a list" "'a list"

fun scan_neighbors :: "'a \<Rightarrow> nat \<Rightarrow> 'a list \<Rightarrow> 'a list \<Rightarrow> 'a list \<Rightarrow> 'a scan" where
  "scan_neighbors b max_visit [] visited nxt = Go visited nxt"
| "scan_neighbors b max_visit (nb # nbs) visited nxt =
     (if nb = b then Found
      else if length visited \<ge> max_visit then GaveUp
      else if nb \<in> set visited then scan_neighbors b max_visit nbs visited nxt
      else scan_neighbors b max_visit nbs (nb # visited) (nxt @ [nb]))"

fun scan_frontier :: "'a vouch_registry \<Rightarrow> 'a \<Rightarrow> nat \<Rightarrow> 'a list \<Rightarrow> 'a list \<Rightarrow> 'a list \<Rightarrow> 'a scan" where
  "scan_frontier reg b max_visit [] visited nxt = Go visited nxt"
| "scan_frontier reg b max_visit (node # rest) visited nxt =
     (case scan_neighbors b max_visit (neighbors reg node) visited nxt of
        Go visited' nxt' \<Rightarrow> scan_frontier reg b max_visit rest visited' nxt'
      | r \<Rightarrow> r)"

fun bfs_levels :: "'a vouch_registry \<Rightarrow> 'a \<Rightarrow> nat \<Rightarrow> nat \<Rightarrow> nat \<Rightarrow> 'a list \<Rightarrow> 'a list \<Rightarrow> nat option" where
  "bfs_levels reg b max_visit 0 depth visited frontier = None"
| "bfs_levels reg b max_visit (Suc hops) depth visited frontier =
     (if frontier = [] then None
      else case scan_frontier reg b max_visit frontier visited [] of
             Found \<Rightarrow> Some (depth + 1)
           | GaveUp \<Rightarrow> None
           | Go visited' nxt \<Rightarrow> bfs_levels reg b max_visit hops (depth + 1) visited' nxt)"

definition vouch_distance :: "'a vouch_registry \<Rightarrow> 'a \<Rightarrow> 'a \<Rightarrow> nat \<Rightarrow> nat \<Rightarrow> nat option" where
  "vouch_distance reg a b max_hops max_visit =
     (if a = b then Some 0 else bfs_levels reg b max_visit max_hops 0 [a] [a])"

definition nearest_party_distance :: "'a vouch_registry \<Rightarrow> 'a \<Rightarrow> 'a list \<Rightarrow> nat \<Rightarrow> nat \<Rightarrow> nat option" where
  "nearest_party_distance reg who parties max_hops max_visit =
     (case List.map_filter (\<lambda>p. vouch_distance reg who p max_hops max_visit) parties of
        [] \<Rightarrow> None | d # ds \<Rightarrow> Some (fold min ds d))"

section \<open>Cascade slashing\<close>

text \<open>
  One level of the cascade: each culprit or sponsor not yet visited is debited, and while hops remain its
  share is queued for its sponsors. The state is the map, the visited set and the next level.
\<close>

fun slash_level ::
  "'a vouch_registry \<Rightarrow> int \<Rightarrow> bool \<Rightarrow> ('a \<times> int) list \<Rightarrow> ('a \<rightharpoonup> int) \<times> 'a set \<times> ('a \<times> int) list \<Rightarrow>
     ('a \<rightharpoonup> int) \<times> 'a set \<times> ('a \<times> int) list" where
  "slash_level reg frac onward [] (upd, vis, nxt) = (upd, vis, nxt)"
| "slash_level reg frac onward ((who, amt) # rest) (upd, vis, nxt) =
     (if amt \<le> 0 \<or> who \<in> vis then slash_level reg frac onward rest (upd, vis, nxt)
      else
        let vis' = insert who vis;
            upd' = (case upd who of None \<Rightarrow> upd | Some r \<Rightarrow> upd(who \<mapsto> max (r - amt) 0));
            passes_on = i128_fp_mul amt frac
        in if \<not> onward \<or> passes_on \<le> 0 then slash_level reg frac onward rest (upd', vis', nxt)
           else slash_level reg frac onward rest (upd', vis',
                  nxt @ map (\<lambda>s. (s, passes_on)) (filter (\<lambda>s. s \<notin> vis') (sponsors_of reg who))))"

fun slash_levels ::
  "'a vouch_registry \<Rightarrow> int \<Rightarrow> nat \<Rightarrow> ('a \<times> int) list \<Rightarrow> ('a \<rightharpoonup> int) \<Rightarrow> 'a set \<Rightarrow> ('a \<rightharpoonup> int)" where
  "slash_levels reg frac 0 level upd vis = fst (slash_level reg frac False level (upd, vis, []))"
| "slash_levels reg frac (Suc remaining) level upd vis =
     (case slash_level reg frac True level (upd, vis, []) of (upd', vis', nxt) \<Rightarrow>
        if nxt = [] then upd' else slash_levels reg frac remaining nxt upd' vis')"

definition cascade_slashing_fp ::
  "('a \<rightharpoonup> int) \<Rightarrow> 'a vouch_registry \<Rightarrow> 'a \<Rightarrow> int \<Rightarrow> int \<Rightarrow> int \<Rightarrow> ('a \<rightharpoonup> int)" where
  "cascade_slashing_fp reputation reg culprit loss frac depth =
     slash_levels reg frac (nat depth) [(culprit, loss)] reputation {}"

text \<open>Who answers for a culprit within a number of hops.\<close>

fun answerable :: "'a vouch_registry \<Rightarrow> nat \<Rightarrow> 'a \<Rightarrow> 'a set" where
  "answerable reg 0 c = {c}"
| "answerable reg (Suc n) c = answerable reg n c \<union> (\<Union>p\<in>answerable reg n c. set (sponsors_of reg p))"

section \<open>The bounds of a cascade\<close>

definition slashed_ok ::
  "'a vouch_registry \<Rightarrow> 'a \<Rightarrow> int \<Rightarrow> int \<Rightarrow> nat \<Rightarrow> ('a \<rightharpoonup> int) \<Rightarrow> ('a \<rightharpoonup> int) \<Rightarrow> 'a set \<Rightarrow> bool" where
  "slashed_ok reg culprit loss share n reputation upd vis =
     (vis \<subseteq> answerable reg n culprit \<and> (\<forall>w. w \<notin> vis \<longrightarrow> upd w = reputation w)
      \<and> dom upd = dom reputation
      \<and> (\<forall>w\<in>vis. \<forall>r r'. reputation w = Some r \<longrightarrow> upd w = Some r' \<longrightarrow>
           (if w = culprit then r' = max (r - loss) 0 else 0 \<le> r' \<and> r' \<le> r \<and> r - r' \<le> share)))"

definition queued_ok :: "'a vouch_registry \<Rightarrow> 'a \<Rightarrow> int \<Rightarrow> nat \<Rightarrow> 'a set \<Rightarrow> ('a \<times> int) list \<Rightarrow> bool" where
  "queued_ok reg culprit share n vis level =
     (culprit \<in> vis \<and> list_all (\<lambda>(w, a). w \<in> answerable reg n culprit \<and> a \<le> share) level)"

lemma answerable_mono: "m \<le> n \<Longrightarrow> answerable reg m c \<subseteq> answerable reg n c"
  by (induction rule: dec_induct) auto

lemma sponsor_answerable:
  "w \<in> answerable reg n c \<Longrightarrow> s \<in> set (sponsors_of reg w) \<Longrightarrow> s \<in> answerable reg (Suc n) c"
  by auto

lemma queued_sponsors:
  "w \<in> answerable reg n c \<Longrightarrow> p \<le> share \<Longrightarrow>
     list_all (\<lambda>(w, a). w \<in> answerable reg (Suc n) c \<and> a \<le> share)
       (map (\<lambda>s. (s, p)) (filter (\<lambda>s. s \<notin> vis) (sponsors_of reg w)))"
  by (auto simp: list_all_iff simp del: answerable.simps intro: sponsor_answerable)

lemma slashed_debit:
  assumes ok: "slashed_ok reg culprit loss share n reputation upd vis" and pos: "\<forall>w r. reputation w = Some r \<longrightarrow> 0 \<le> r"
    and w: "who \<notin> vis" "who \<in> answerable reg n culprit" "who \<noteq> culprit" "0 < amt" "amt \<le> share"
  shows "slashed_ok reg culprit loss share n reputation
    (case upd who of None \<Rightarrow> upd | Some r \<Rightarrow> upd(who \<mapsto> max (r - amt) 0)) (insert who vis)"
proof -
  have same: "upd who = reputation who" using ok w(1) by (simp add: slashed_ok_def)
  show ?thesis
  proof (cases "reputation who")
    case None
    with ok w same show ?thesis by (auto simp: slashed_ok_def)
  next
    case (Some r)
    with pos have "0 \<le> r" by blast
    moreover have "insert who (dom upd) = dom reputation" using ok Some by (auto simp: slashed_ok_def)
    ultimately show ?thesis using ok w same Some by (auto simp: slashed_ok_def)
  qed
qed

lemma slash_level_ok:
  assumes "slash_level reg frac onward level (upd, vis, nxt) = (upd', vis', nxt')"
    and "slashed_ok reg culprit loss share n reputation upd vis" "queued_ok reg culprit share n vis level"
    and "list_all (\<lambda>(w, a). w \<in> answerable reg (Suc n) culprit \<and> a \<le> share) nxt"
    and pos: "\<forall>w r. reputation w = Some r \<longrightarrow> 0 \<le> r" and frac: "0 \<le> frac" "frac \<le> FP_SCALE"
  shows "slashed_ok reg culprit loss share n reputation upd' vis' \<and> queued_ok reg culprit share (Suc n) vis' nxt'"
  using assms(1-4)
proof (induction level arbitrary: upd vis nxt)
  case Nil
  then show ?case by (simp add: queued_ok_def del: answerable.simps)
next
  case (Cons wa level)
  obtain who amt where wa: "wa = (who, amt)" by (cases wa)
  have q: "queued_ok reg culprit share n vis level" and who: "who \<in> answerable reg n culprit" "amt \<le> share"
    and c: "culprit \<in> vis"
    using Cons.prems(3) by (simp_all add: queued_ok_def wa del: answerable.simps)
  show ?case
  proof (cases "amt \<le> 0 \<or> who \<in> vis")
    case True
    with Cons.prems(1) Cons.IH [OF _ Cons.prems(2) q Cons.prems(4)] show ?thesis by (simp add: wa)
  next
    case False
    let ?upd = "case upd who of None \<Rightarrow> upd | Some r \<Rightarrow> upd(who \<mapsto> max (r - amt) 0)"
    have ok: "slashed_ok reg culprit loss share n reputation ?upd (insert who vis)"
      using False c who by (intro slashed_debit [OF Cons.prems(2) pos]) auto
    have q': "queued_ok reg culprit share n (insert who vis) level" using q by (simp add: queued_ok_def)
    have p: "i128_fp_mul amt frac \<le> share"
      using i128_fp_mul_shrinks(2) [OF _ frac, of amt] False who(2) by simp
    note nxt = queued_sponsors [OF who(1) p, of "insert who vis"]
    let ?nxt = "if \<not> onward \<or> i128_fp_mul amt frac \<le> 0 then nxt
      else nxt @ map (\<lambda>s. (s, i128_fp_mul amt frac)) (filter (\<lambda>s. s \<notin> insert who vis) (sponsors_of reg who))"
    have "slash_level reg frac onward level (?upd, insert who vis, ?nxt) = (upd', vis', nxt')"
      using Cons.prems(1) False
      by (cases "\<not> onward \<or> i128_fp_mul amt frac \<le> 0") (simp_all only: wa slash_level.simps Let_def if_True if_False)
    moreover have "list_all (\<lambda>(w, a). w \<in> answerable reg (Suc n) culprit \<and> a \<le> share) ?nxt"
      using Cons.prems(4) nxt by (simp del: answerable.simps)
    ultimately show ?thesis by (rule Cons.IH [OF _ ok q'])
  qed
qed

lemma slash_levels_ok:
  assumes "slashed_ok reg culprit loss share n reputation upd vis" "queued_ok reg culprit share n vis level"
    and pos: "\<forall>w r. reputation w = Some r \<longrightarrow> 0 \<le> r" and frac: "0 \<le> frac" "frac \<le> FP_SCALE"
  shows "\<exists>vis'. slashed_ok reg culprit loss share (n + remaining) reputation
    (slash_levels reg frac remaining level upd vis) vis' \<and> culprit \<in> vis'"
  using assms(1,2)
proof (induction remaining arbitrary: n level upd vis)
  case 0
  obtain upd' vis' nxt' where s: "slash_level reg frac False level (upd, vis, []) = (upd', vis', nxt')"
    by (cases "slash_level reg frac False level (upd, vis, [])")
  from slash_level_ok [OF s 0 _ pos frac] show ?case by (auto simp: s queued_ok_def)
next
  case (Suc remaining)
  obtain upd' vis' nxt' where s: "slash_level reg frac True level (upd, vis, []) = (upd', vis', nxt')"
    by (cases "slash_level reg frac True level (upd, vis, [])")
  from slash_level_ok [OF s Suc.prems _ pos frac]
  have ok: "slashed_ok reg culprit loss share n reputation upd' vis'" "queued_ok reg culprit share (Suc n) vis' nxt'"
    by (auto simp del: answerable.simps)
  then have c: "culprit \<in> vis'" by (simp add: queued_ok_def)
  have more: "slashed_ok reg culprit loss share m reputation upd' vis'" if "n \<le> m" for m
    using ok(1) answerable_mono [OF that, of reg culprit] by (auto simp: slashed_ok_def)
  show ?case
  proof (cases "nxt' = []")
    case True
    then show ?thesis using more [of "n + Suc remaining"] c by (auto simp: s)
  next
    case False
    from Suc.IH [OF more ok(2)] False show ?thesis by (simp add: s)
  qed
qed

text \<open>
  A cascade is bounded and hits everyone at most once, cycles in the vouch graph included: nobody enters or
  leaves the reputation map; the culprit answers with the whole loss, down to zero; anybody else keeps a
  reputation that is not negative, loses at most the sponsor fraction of the loss in all, and loses
  nothing unless a chain of at most \<open>depth\<close> vouches leads from it to the culprit.
\<close>

theorem cascade_bounded:
  assumes "\<forall>w r. reputation w = Some r \<longrightarrow> 0 \<le> r" "0 < loss" "0 \<le> frac" "frac \<le> FP_SCALE"
    and "updated = cascade_slashing_fp reputation reg culprit loss frac depth"
  shows "dom updated = dom reputation
    \<and> (\<forall>r. reputation culprit = Some r \<longrightarrow> updated culprit = Some (max (r - loss) 0))
    \<and> (\<forall>w r. w \<noteq> culprit \<longrightarrow> reputation w = Some r \<longrightarrow>
         (\<exists>r'. updated w = Some r' \<and> 0 \<le> r' \<and> r' \<le> r \<and> r - r' \<le> i128_fp_mul loss frac
            \<and> (r' < r \<longrightarrow> w \<in> answerable reg (nat depth) culprit)))"
proof -
  let ?share = "i128_fp_mul loss frac"
  let ?upd = "case reputation culprit of None \<Rightarrow> reputation | Some r \<Rightarrow> reputation(culprit \<mapsto> max (r - loss) 0)"
  have hit: "slashed_ok reg culprit loss ?share n reputation ?upd {culprit}" for n
    using answerable_mono [of 0 n reg culprit] by (auto simp: slashed_ok_def split: option.splits)
  have nxt: "queued_ok reg culprit ?share 1 {culprit}
      (map (\<lambda>s. (s, ?share)) (filter (\<lambda>s. s \<noteq> culprit) (sponsors_of reg culprit)))"
    by (auto simp: queued_ok_def list_all_iff)
  have "\<exists>vis. slashed_ok reg culprit loss ?share (nat depth) reputation updated vis \<and> culprit \<in> vis"
  proof (cases "nat depth")
    case 0
    with hit [of 0] assms(2,5) show ?thesis
      by (intro exI [of _ "{culprit}"]) (simp add: cascade_slashing_fp_def Let_def)
  next
    case (Suc d)
    let ?nxt = "map (\<lambda>s. (s, ?share)) (filter (\<lambda>s. s \<noteq> culprit) (sponsors_of reg culprit))"
    show ?thesis
    proof (cases "?share \<le> 0 \<or> ?nxt = []")
      case True
      then have "updated = ?upd"
        using Suc assms(2,5) by (auto simp: cascade_slashing_fp_def Let_def)
      with hit [of "nat depth"] show ?thesis by (intro exI [of _ "{culprit}"]) simp
    next
      case False
      then have u: "updated = slash_levels reg frac d ?nxt ?upd {culprit}"
        using Suc assms(2,5) by (simp add: cascade_slashing_fp_def Let_def)
      from slash_levels_ok [OF hit nxt assms(1,3,4), of d] show ?thesis by (simp add: u Suc)
    qed
  qed
  then obtain vis where ok: "slashed_ok reg culprit loss ?share (nat depth) reputation updated vis" and c: "culprit \<in> vis"
    by blast
  have share: "0 \<le> ?share" using assms(2-4) by (intro i128_fp_mul_shrinks) simp_all
  have dom: "dom updated = dom reputation" using ok by (simp add: slashed_ok_def)
  moreover have "updated culprit = Some (max (r - loss) 0)" if "reputation culprit = Some r" for r
  proof -
    have "culprit \<in> dom updated" using dom that by auto
    then obtain r' where r': "updated culprit = Some r'" by blast
    with ok c that have "r' = max (r - loss) 0" unfolding slashed_ok_def by metis
    with r' show ?thesis by simp
  qed
  moreover have "\<exists>r'. updated w = Some r' \<and> 0 \<le> r' \<and> r' \<le> r \<and> r - r' \<le> ?share
      \<and> (r' < r \<longrightarrow> w \<in> answerable reg (nat depth) culprit)" if w: "w \<noteq> culprit" "reputation w = Some r" for w r
  proof (cases "w \<in> vis")
    case True
    have "w \<in> dom updated" using dom w(2) by auto
    then obtain r' where r': "updated w = Some r'" by blast
    have "w \<in> answerable reg (nat depth) culprit" using ok True by (auto simp: slashed_ok_def)
    moreover have "0 \<le> r' \<and> r' \<le> r \<and> r - r' \<le> ?share"
      using ok True w r' unfolding slashed_ok_def by (metis (no_types, lifting))
    ultimately show ?thesis using r' by blast
  next
    case False
    then have "updated w = Some r" using ok w(2) by (simp add: slashed_ok_def)
    with assms(1) w(2) share show ?thesis by auto
  qed
  ultimately show ?thesis by blast
qed

definition demo_vouches :: "nat vouch_registry" where
  "demo_vouches = map (\<lambda>(s, p). \<lparr>sp_sponsor = s, sp_protege = p, sp_live = True\<rparr>) [(2, 1), (3, 2), (1, 3), (4, 3)]"

theorem cascade_bounded_witness:
  "cascade_slashing_fp [1 \<mapsto> 100, 2 \<mapsto> 60, 3 \<mapsto> 7, 4 \<mapsto> 50] demo_vouches 1 80 500000000 2
     = [1 \<mapsto> 20, 2 \<mapsto> 20, 3 \<mapsto> 0, 4 \<mapsto> 50]
   \<and> (\<exists>r'. cascade_slashing_fp [1 \<mapsto> 100, 2 \<mapsto> 60, 3 \<mapsto> 7, 4 \<mapsto> 50] demo_vouches 1 80 500000000 2 2 = Some r'
        \<and> 60 - r' \<le> i128_fp_mul 80 500000000)"
proof
  let ?rep = "[1 \<mapsto> 100, 2 \<mapsto> 60, 3 \<mapsto> 7, 4 \<mapsto> 50] :: nat \<rightharpoonup> int"
  have m: "i128_fp_mul 80 500000000 = 40" "i128_fp_mul 40 500000000 = 20"
    by (simp_all add: i128_fp_mul_def i128_sat_mul_def i128_min_def i128_max_def FP_SCALE_def signed_divide_int_def)
  show "cascade_slashing_fp ?rep demo_vouches 1 80 500000000 2 = [1 \<mapsto> 20, 2 \<mapsto> 20, 3 \<mapsto> 0, 4 \<mapsto> 50]"
    by (auto simp: cascade_slashing_fp_def numeral_2_eq_2 m demo_vouches_def sponsors_of_def Let_def)
  have pos: "\<forall>w r. ?rep w = Some r \<longrightarrow> 0 \<le> r" and l: "(0 :: int) < 80"
    and f: "(0 :: int) \<le> 500000000" "500000000 \<le> FP_SCALE" by (auto simp: FP_SCALE_def)
  note t = cascade_bounded [OF pos l f refl, of demo_vouches 1 2]
  have "\<exists>r'. cascade_slashing_fp ?rep demo_vouches 1 80 500000000 2 2 = Some r' \<and> 0 \<le> r' \<and> r' \<le> 60
      \<and> 60 - r' \<le> i128_fp_mul 80 500000000 \<and> (r' < 60 \<longrightarrow> 2 \<in> answerable demo_vouches (nat 2) 1)"
    by (rule t [THEN conjunct2, THEN conjunct2, rule_format]) simp_all
  then show "\<exists>r'. cascade_slashing_fp ?rep demo_vouches 1 80 500000000 2 2 = Some r' \<and> 60 - r' \<le> i128_fp_mul 80 500000000"
    by blast
qed

end
