(* ===== verification/HostingPallet.thy ===== *)
theory HostingPallet
imports Sha256 Frame
begin

text \<open>
  The hosting pallet, \<open>chain/pallet-hosting/src/lib.rs\<close>: the daily signed beat of a node bound to a mask,
  the streak before days count, and the days of an era that the tokens pallet pays.

  The environment \<open>host_env\<close> holds what the pallet reads outside itself: the block number, the recent block
  hashes, the vote-key map (\<open>MaskOfHotKey\<close>), sr25519 verification, and \<open>ho_order\<close>, the order in which
  the storage iterates the keys of a prefix (each key once: \<open>order_ok\<close>), which \<open>era_hosts\<close> and the bounded
  \<open>clear_prefix\<close> use. Keys, hashes and signatures are byte lists.
\<close>

section \<open>The signed message\<close>

definition HEARTBEAT_LABEL :: "byte list" where
  "HEARTBEAT_LABEL = bytes_of ''hlq-heartbeat-v1''"

definition to_le32 :: "w32 \<Rightarrow> byte list" where
  "to_le32 w = [ucast w, ucast (drop_bit 8 w), ucast (drop_bit 16 w), ucast (drop_bit 24 w)]"

definition heartbeat_message :: "byte list \<Rightarrow> w32 \<Rightarrow> byte list \<Rightarrow> byte list" where
  "heartbeat_message hot at hsh = HEARTBEAT_LABEL @ hot @ to_le32 at @ hsh"

section \<open>Storage\<close>

record beat_state =
  last_day :: nat
  streak_start :: nat

record hosting_config =
  day_length :: nat
  ho_era_length :: nat
  min_streak_days :: nat
  max_gap_days :: nat
  max_beat_age :: nat
  max_hosts_per_era :: nat

record 'a host_env =
  ho_now :: nat
  ho_mask_of :: "byte list \<Rightarrow> 'a option"
  ho_block_hash :: "nat \<Rightarrow> byte list"
  ho_verify :: "byte list \<Rightarrow> byte list \<Rightarrow> byte list \<Rightarrow> bool"
  ho_order :: "('a \<rightharpoonup> nat) \<Rightarrow> 'a list"

datatype 'a host_event = Beat 'a nat bool

datatype host_error = NotBound | StaleOrWrongBlock | BadSignature | AlreadyToday

record 'a hosting =
  beats :: "'a \<rightharpoonup> beat_state"
  host_count :: "nat \<Rightarrow> nat"
  host_days :: "nat \<Rightarrow> 'a \<rightharpoonup> nat"
  ho_log :: "'a host_event list"

definition empty_hosting :: "'a hosting" where
  "empty_hosting = \<lparr>beats = Map.empty, host_count = (\<lambda>_. 0), host_days = (\<lambda>_. Map.empty), ho_log = []\<rparr>"

section \<open>Operations\<close>

definition day_of :: "hosting_config \<Rightarrow> nat \<Rightarrow> nat" where
  "day_of cfg n = (if day_length cfg = 0 then 0 else min u32_max (n div day_length cfg))"

definition era_of :: "hosting_config \<Rightarrow> nat \<Rightarrow> nat" where
  "era_of cfg n = (if ho_era_length cfg = 0 then 0 else min u64_max (n div ho_era_length cfg))"

definition check_beat ::
  "hosting_config \<Rightarrow> 'a host_env \<Rightarrow> w32 \<Rightarrow> byte list \<Rightarrow> byte list \<Rightarrow> byte list \<Rightarrow> 'a hosting \<Rightarrow> host_error + 'a \<times> nat" where
  "check_beat cfg env at hsh hot sig st =
     (let now = ho_now env in
      if \<not> (unat at < now \<and> now - unat at \<le> max_beat_age cfg) then Inl StaleOrWrongBlock
      else case ho_mask_of env hot of None \<Rightarrow> Inl NotBound | Some msk \<Rightarrow>
        let today = day_of cfg now in
        if \<not> (case beats st msk of None \<Rightarrow> True | Some b \<Rightarrow> last_day b < today) then Inl AlreadyToday
        else if ho_block_hash env (unat at) \<noteq> hsh then Inl StaleOrWrongBlock
        else if \<not> ho_verify env sig (heartbeat_message hot at hsh) hot then Inl BadSignature
        else Inr (msk, today))"

definition next_streak :: "hosting_config \<Rightarrow> nat \<Rightarrow> beat_state option \<Rightarrow> nat" where
  "next_streak cfg today prev =
     (case prev of
        Some b \<Rightarrow> if today - last_day b \<le> sat_add u32_max (max_gap_days cfg) 1 then streak_start b else today
      | None \<Rightarrow> today)"

definition count_day :: "hosting_config \<Rightarrow> nat \<Rightarrow> 'a \<Rightarrow> 'a hosting \<Rightarrow> bool \<times> 'a hosting" where
  "count_day cfg era msk st =
     (case host_days st era msk of
        Some d \<Rightarrow> (True, st\<lparr>host_days := (host_days st)(era := (host_days st era)(msk \<mapsto> sat_add u32_max d 1))\<rparr>)
      | None \<Rightarrow>
          if host_count st era < max_hosts_per_era cfg then
            (True, st\<lparr>host_days := (host_days st)(era := (host_days st era)(msk \<mapsto> 1)),
                     host_count := (host_count st)(era := sat_add u32_max (host_count st era) 1)\<rparr>)
          else (False, st))"

definition heartbeat ::
  "hosting_config \<Rightarrow> 'a host_env \<Rightarrow> w32 \<Rightarrow> byte list \<Rightarrow> byte list \<Rightarrow> byte list \<Rightarrow> 'a hosting \<Rightarrow> host_error + 'a hosting" where
  "heartbeat cfg env at hsh hot sig st =
     (case check_beat cfg env at hsh hot sig st of
        Inl e \<Rightarrow> Inl e
      | Inr (msk, today) \<Rightarrow>
          let start = next_streak cfg today (beats st msk);
              st1 = st\<lparr>beats := (beats st)(msk \<mapsto> \<lparr>last_day = today, streak_start = start\<rparr>)\<rparr>;
              (counted, st2) =
                (if today - start \<ge> min_streak_days cfg then count_day cfg (era_of cfg (ho_now env)) msk st1
                 else (False, st1))
          in Inr (st2\<lparr>ho_log := ho_log st2 @ [Beat msk today counted]\<rparr>))"

definition era_hosts :: "'a host_env \<Rightarrow> nat \<Rightarrow> 'a hosting \<Rightarrow> ('a \<times> nat) list" where
  "era_hosts env era st = map (\<lambda>m. (m, the (host_days st era m))) (ho_order env (host_days st era))"

definition clear_hosts :: "hosting_config \<Rightarrow> 'a host_env \<Rightarrow> nat \<Rightarrow> 'a hosting \<Rightarrow> 'a hosting" where
  "clear_hosts cfg env era st =
     (let gone = take (sat_add u32_max (max_hosts_per_era cfg) 1) (ho_order env (host_days st era))
      in st\<lparr>host_days := (host_days st)(era := (host_days st era) |` (- set gone)),
            host_count := (host_count st)(era := 0)\<rparr>)"

text \<open>
  \<open>validate_unsigned\<close>, which runs in every node's pool: the tag a valid beat provides, or the reason it is
  refused.
\<close>

datatype host_invalid = Stale | BadSigner | BadProof

definition validate_beat ::
  "hosting_config \<Rightarrow> 'a host_env \<Rightarrow> w32 \<Rightarrow> byte list \<Rightarrow> byte list \<Rightarrow> byte list \<Rightarrow> 'a hosting \<Rightarrow> host_invalid + 'a \<times> nat" where
  "validate_beat cfg env at hsh hot sig st =
     (case check_beat cfg env at hsh hot sig st of
        Inr tag \<Rightarrow> Inr tag
      | Inl AlreadyToday \<Rightarrow> Inl Stale
      | Inl NotBound \<Rightarrow> Inl BadSigner
      | Inl BadSignature \<Rightarrow> Inl BadProof
      | Inl StaleOrWrongBlock \<Rightarrow> Inl Stale)"

datatype host_op = Heartbeat w32 "byte list" "byte list" "byte list" | ClearHosts nat

fun hosting_step :: "hosting_config \<Rightarrow> 'a host_env \<times> host_op \<Rightarrow> 'a hosting \<Rightarrow> host_error + 'a hosting" where
  "hosting_step cfg (env, Heartbeat at hsh hot sig) st = heartbeat cfg env at hsh hot sig st"
| "hosting_step cfg (env, ClearHosts era) st = Inr (clear_hosts cfg env era st)"

definition order_ok :: "'a host_env \<Rightarrow> bool" where
  "order_ok env = (\<forall>m. finite (dom m) \<longrightarrow> set (ho_order env m) = dom m \<and> distinct (ho_order env m))"

section \<open>Streaks\<close>

definition days_of :: "'a \<Rightarrow> 'a host_event list \<Rightarrow> nat list" where
  "days_of m es = List.map_filter (\<lambda>e. case e of Beat x d _ \<Rightarrow> if x = m then Some d else None) es"

text \<open>The last days of a list run from \<open>a\<close> to \<open>b\<close> with no gap above \<open>g\<close>.\<close>

definition unbroken :: "nat \<Rightarrow> nat list \<Rightarrow> nat \<Rightarrow> nat \<Rightarrow> bool" where
  "unbroken g ds a b =
     (\<exists>ps s. ds = ps @ s \<and> s \<noteq> [] \<and> hd s = a \<and> last s = b \<and> successively (\<lambda>x y. x < y \<and> y - x \<le> g) s)"

lemma days_of_append [simp]: "days_of m (es @ fs) = days_of m es @ days_of m fs"
  by (simp add: days_of_def List.map_filter_def)

lemma days_of_beat [simp]: "days_of m [Beat x d c] = (if x = m then [d] else [])"
  by (simp add: days_of_def List.map_filter_def)

lemma unbroken_start: "unbroken g (ds @ [d]) d d"
  by (auto simp: unbroken_def intro: exI [of _ ds])

lemma unbroken_extend:
  assumes "unbroken g ds a b" "b < d" "d - b \<le> g"
  shows "unbroken g (ds @ [d]) a d"
proof -
  obtain ps s where s: "ds = ps @ s" "s \<noteq> []" "hd s = a" "last s = b" "successively (\<lambda>x y. x < y \<and> y - x \<le> g) s"
    using assms(1) by (auto simp: unbroken_def)
  have "successively (\<lambda>x y. x < y \<and> y - x \<le> g) (s @ [d])"
    using s assms(2,3) by (simp add: successively_append_iff)
  with s show ?thesis unfolding unbroken_def by (intro exI [of _ ps] exI [of _ "s @ [d]"]) simp
qed

lemma unbroken_last: "unbroken g ds a b \<Longrightarrow> ds \<noteq> [] \<and> last ds = b"
  by (auto simp: unbroken_def)

section \<open>The invariant\<close>

definition gap :: "hosting_config \<Rightarrow> nat" where
  "gap cfg = sat_add u32_max (max_gap_days cfg) 1"

definition books_ok :: "hosting_config \<Rightarrow> 'a hosting \<Rightarrow> bool" where
  "books_ok cfg st = (\<forall>era. finite (dom (host_days st era)) \<and> card (dom (host_days st era)) = host_count st era
     \<and> host_count st era \<le> max_hosts_per_era cfg)"

definition streaks_ok :: "hosting_config \<Rightarrow> 'a hosting \<Rightarrow> bool" where
  "streaks_ok cfg st = (\<forall>m. sorted_wrt (<) (days_of m (ho_log st))
     \<and> (case beats st m of
          None \<Rightarrow> days_of m (ho_log st) = []
        | Some b \<Rightarrow> unbroken (gap cfg) (days_of m (ho_log st)) (streak_start b) (last_day b)))"

definition earned :: "hosting_config \<Rightarrow> 'a host_event list \<Rightarrow> bool" where
  "earned cfg es = (\<forall>pre m d post. es = pre @ Beat m d True # post \<longrightarrow>
     (\<exists>a. min_streak_days cfg \<le> d - a \<and> unbroken (gap cfg) (days_of m (pre @ [Beat m d True])) a d))"

definition hosting_ok :: "hosting_config \<Rightarrow> 'a hosting \<Rightarrow> bool" where
  "hosting_ok cfg st = (books_ok cfg st \<and> streaks_ok cfg st \<and> earned cfg (ho_log st))"

lemma earned_snoc:
  assumes "earned cfg es"
    and "c \<Longrightarrow> \<exists>a. min_streak_days cfg \<le> d - a \<and> unbroken (gap cfg) (days_of m (es @ [Beat m d c])) a d"
  shows "earned cfg (es @ [Beat m d c])"
  unfolding earned_def
proof (intro allI impI)
  fix pre m' d' post
  assume e: "es @ [Beat m d c] = pre @ Beat m' d' True # post"
  show "\<exists>a. min_streak_days cfg \<le> d' - a \<and> unbroken (gap cfg) (days_of m' (pre @ [Beat m' d' True])) a d'"
  proof (cases post rule: rev_cases)
    case Nil
    with e assms(2) show ?thesis by simp
  next
    case (snoc post' y)
    with e have "es = pre @ Beat m' d' True # post'" by simp
    with assms(1) show ?thesis unfolding earned_def by blast
  qed
qed

lemma count_day_effect:
  assumes "count_day cfg era msk st = (c, st')" "books_ok cfg st" "max_hosts_per_era cfg \<le> u32_max"
  shows "books_ok cfg st'" "beats st' = beats st" "ho_log st' = ho_log st"
proof -
  show "books_ok cfg st'"
  proof (cases "host_days st era msk")
    case None
    then have "card (insert msk (dom (host_days st era))) = Suc (host_count st era)"
      using assms(2) by (simp add: books_ok_def domIff)
    with None assms show ?thesis
      by (auto simp: count_day_def books_ok_def sat_add_def split: if_splits)
  next
    case (Some d)
    then have "insert msk (dom (host_days st era)) = dom (host_days st era)" by auto
    with Some assms show ?thesis by (auto simp: count_day_def books_ok_def)
  qed
  show "beats st' = beats st" "ho_log st' = ho_log st"
    using assms(1) by (auto simp: count_day_def split: option.splits if_splits)
qed

lemma heartbeat_effect:
  assumes "heartbeat cfg env at hsh hot sig st = Inr st'"
  obtains msk today start st1 c where
    "check_beat cfg env at hsh hot sig st = Inr (msk, today)" "start = next_streak cfg today (beats st msk)"
    "c \<Longrightarrow> min_streak_days cfg \<le> today - start"
    "st1 = st\<lparr>beats := (beats st)(msk \<mapsto> \<lparr>last_day = today, streak_start = start\<rparr>)\<rparr>"
    "(if today - start \<ge> min_streak_days cfg then count_day cfg (era_of cfg (ho_now env)) msk st1
      else (False, st1)) = (c, st'\<lparr>ho_log := ho_log st\<rparr>)"
    "ho_log st' = ho_log st @ [Beat msk today c]"
proof -
  from assms obtain msk today where ch: "check_beat cfg env at hsh hot sig st = Inr (msk, today)"
    by (auto simp: heartbeat_def split: sum.splits)
  let ?start = "next_streak cfg today (beats st msk)"
  let ?st1 = "st\<lparr>beats := (beats st)(msk \<mapsto> \<lparr>last_day = today, streak_start = ?start\<rparr>)\<rparr>"
  obtain c st2 where s2: "(if today - ?start \<ge> min_streak_days cfg
      then count_day cfg (era_of cfg (ho_now env)) msk ?st1 else (False, ?st1)) = (c, st2)"
    by (metis surj_pair)
  have st': "st' = st2\<lparr>ho_log := ho_log st2 @ [Beat msk today c]\<rparr>"
    using assms by (simp add: heartbeat_def ch Let_def s2)
  have log: "ho_log st2 = ho_log st"
    using s2 by (auto simp: count_day_def split: option.splits if_splits)
  show thesis
  proof (rule that [OF ch refl _ refl])
    show "min_streak_days cfg \<le> today - ?start" if c using s2 that by (auto split: if_splits)
    have "st'\<lparr>ho_log := ho_log st\<rparr> = st2" using log by (simp add: st')
    with s2 show "(if today - ?start \<ge> min_streak_days cfg
      then count_day cfg (era_of cfg (ho_now env)) msk ?st1 else (False, ?st1)) = (c, st'\<lparr>ho_log := ho_log st\<rparr>)" by simp
    show "ho_log st' = ho_log st @ [Beat msk today c]" by (simp add: st' log)
  qed
qed

lemma check_beat_day:
  "check_beat cfg env at hsh hot sig st = Inr (msk, today) \<Longrightarrow> beats st msk = Some b \<Longrightarrow> last_day b < today"
  by (auto simp: check_beat_def Let_def split: if_splits option.splits)

lemma streaksD:
  assumes "streaks_ok cfg st"
  shows streaks_sorted: "sorted_wrt (<) (days_of m (ho_log st))"
    and streaks_none: "beats st m = None \<Longrightarrow> days_of m (ho_log st) = []"
    and streaks_some: "beats st m = Some b \<Longrightarrow> unbroken (gap cfg) (days_of m (ho_log st)) (streak_start b) (last_day b)"
proof -
  have m: "sorted_wrt (<) (days_of m (ho_log st)) \<and> (case beats st m of None \<Rightarrow> days_of m (ho_log st) = []
      | Some b \<Rightarrow> unbroken (gap cfg) (days_of m (ho_log st)) (streak_start b) (last_day b))"
    using assms unfolding streaks_ok_def by blast
  from m show "sorted_wrt (<) (days_of m (ho_log st))" ..
  from m show "beats st m = None \<Longrightarrow> days_of m (ho_log st) = []" by simp
  from m show "beats st m = Some b \<Longrightarrow> unbroken (gap cfg) (days_of m (ho_log st)) (streak_start b) (last_day b)" by simp
qed

lemma streak_grows:
  assumes ok: "streaks_ok cfg st" and new: "\<And>b. beats st msk = Some b \<Longrightarrow> last_day b < today"
  shows "sorted_wrt (<) (days_of msk (ho_log st) @ [today])"
    and "unbroken (gap cfg) (days_of msk (ho_log st) @ [today]) (next_streak cfg today (beats st msk)) today"
proof -
  let ?ds = "days_of msk (ho_log st)"
  have s: "sorted_wrt (<) ?ds" by (rule streaks_sorted [OF ok])
  show "sorted_wrt (<) (?ds @ [today])"
  proof (cases "beats st msk")
    case None
    then show ?thesis by (simp add: streaks_none [OF ok])
  next
    case (Some b)
    have u: "?ds \<noteq> [] \<and> last ?ds = last_day b" by (rule unbroken_last [OF streaks_some [OF ok Some]])
    have "x \<le> last ?ds" if "x \<in> set ?ds" for x
      using s that u by (metis append_butlast_last_id sorted_wrt_append in_set_conv_decomp set_append
          Un_iff less_imp_le list.set_intros(1) order_refl set_ConsD empty_iff list.set(1))
    then have "x < today" if "x \<in> set ?ds" for x using that u new [OF Some] by fastforce
    with s show ?thesis by (simp add: sorted_wrt_append)
  qed
  show "unbroken (gap cfg) (?ds @ [today]) (next_streak cfg today (beats st msk)) today"
  proof (cases "beats st msk")
    case (Some b)
    from unbroken_extend [OF streaks_some [OF ok Some] new [OF Some]] show ?thesis
      using Some by (simp add: next_streak_def unbroken_start gap_def)
  qed (simp add: next_streak_def unbroken_start)
qed

lemma heartbeat_ok:
  assumes ok: "hosting_ok cfg st" and max: "max_hosts_per_era cfg \<le> u32_max"
    and hb: "heartbeat cfg env at hsh hot sig st = Inr st'"
  shows "hosting_ok cfg st'"
  using hb
proof (rule heartbeat_effect)
  fix msk today start st1 c
  assume ch: "check_beat cfg env at hsh hot sig st = Inr (msk, today)"
    and start: "start = next_streak cfg today (beats st msk)"
    and c: "c \<Longrightarrow> min_streak_days cfg \<le> today - start"
    and st1: "st1 = st\<lparr>beats := (beats st)(msk \<mapsto> \<lparr>last_day = today, streak_start = start\<rparr>)\<rparr>"
    and cd: "(if today - start \<ge> min_streak_days cfg then count_day cfg (era_of cfg (ho_now env)) msk st1
      else (False, st1)) = (c, st'\<lparr>ho_log := ho_log st\<rparr>)"
    and log: "ho_log st' = ho_log st @ [Beat msk today c]"
  have so: "streaks_ok cfg st" and b1: "books_ok cfg st1"
    using ok by (simp_all add: hosting_ok_def st1 books_ok_def)
  note g = streak_grows [OF so check_beat_day [OF ch]]
  have "books_ok cfg (st'\<lparr>ho_log := ho_log st\<rparr>) \<and> beats (st'\<lparr>ho_log := ho_log st\<rparr>) = beats st1"
  proof (cases "today - start \<ge> min_streak_days cfg")
    case True
    with cd have d: "count_day cfg (era_of cfg (ho_now env)) msk st1 = (c, st'\<lparr>ho_log := ho_log st\<rparr>)" by simp
    show ?thesis using count_day_effect(1,2) [OF d b1 max] by blast
  next
    case False
    with cd b1 show ?thesis by simp
  qed
  then have bk: "books_ok cfg st'" and bt: "beats st' = beats st1" by (simp_all add: books_ok_def)
  have "earned cfg (ho_log st')"
    unfolding log using ok g(2) c start by (intro earned_snoc) (auto simp: hosting_ok_def)
  moreover have "streaks_ok cfg st'"
    unfolding streaks_ok_def
  proof
    fix m
    show "sorted_wrt (<) (days_of m (ho_log st')) \<and> (case beats st' m of None \<Rightarrow> days_of m (ho_log st') = []
      | Some b \<Rightarrow> unbroken (gap cfg) (days_of m (ho_log st')) (streak_start b) (last_day b))"
    proof (cases "m = msk")
      case True
      with g start show ?thesis by (simp add: bt log st1)
    next
      case False
      with streaksD [OF so, of m] show ?thesis by (simp add: bt log st1 split: option.split)
    qed
  qed
  ultimately show ?thesis using bk by (simp add: hosting_ok_def)
qed

lemma clear_hosts_all:
  assumes "books_ok cfg st" "order_ok env" "max_hosts_per_era cfg < u32_max"
  shows "host_days (clear_hosts cfg env era st) = (host_days st)(era := Map.empty)"
proof -
  let ?o = "ho_order env (host_days st era)"
  have f: "finite (dom (host_days st era))" using assms(1) by (simp add: books_ok_def)
  have o: "set ?o = dom (host_days st era)" "distinct ?o" using assms(2) f by (simp_all add: order_ok_def)
  have "length ?o = card (dom (host_days st era))" using o distinct_card by metis
  also have "\<dots> \<le> sat_add u32_max (max_hosts_per_era cfg) 1"
    using assms(1,3) by (auto simp: books_ok_def sat_add_def intro: le_SucI)
  finally have "take (sat_add u32_max (max_hosts_per_era cfg) 1) ?o = ?o" by simp
  moreover have "host_days st era |` (- dom (host_days st era)) = Map.empty"
    by (auto simp: restrict_map_def)
  ultimately show ?thesis by (simp add: clear_hosts_def Let_def o(1))
qed

lemma clear_hosts_ok:
  assumes ok: "hosting_ok cfg st" and "order_ok env" "max_hosts_per_era cfg < u32_max"
  shows "hosting_ok cfg (clear_hosts cfg env era st)"
proof -
  let ?st = "clear_hosts cfg env era st"
  have b: "books_ok cfg st" using ok by (simp add: hosting_ok_def)
  have f: "beats ?st = beats st" "ho_log ?st = ho_log st" "host_count ?st = (host_count st)(era := 0)"
    by (simp_all add: clear_hosts_def Let_def)
  have "books_ok cfg ?st"
    using b unfolding books_ok_def clear_hosts_all [OF b assms(2,3)] f by simp
  moreover have "streaks_ok cfg ?st" using ok unfolding hosting_ok_def streaks_ok_def f by blast
  ultimately show ?thesis using ok by (simp add: hosting_ok_def f)
qed

interpretation hosting_calls: call_system "hosting_step cfg"
    "\<lambda>(env, op). order_ok env" "\<lambda>st. max_hosts_per_era cfg < u32_max \<longrightarrow> hosting_ok cfg st"
  for cfg
proof
  fix c and s s' :: "'a hosting"
  assume "case c of (env, op) \<Rightarrow> order_ok env" and "max_hosts_per_era cfg < u32_max \<longrightarrow> hosting_ok cfg s"
    and "hosting_step cfg c s = Inr s'"
  then show "max_hosts_per_era cfg < u32_max \<longrightarrow> hosting_ok cfg s'"
    by (cases c; cases "snd c") (auto intro: heartbeat_ok clear_hosts_ok)
qed

lemma hosting_ok_empty: "hosting_ok cfg empty_hosting"
  by (simp add: hosting_ok_def books_ok_def streaks_ok_def earned_def empty_hosting_def days_of_def
      List.map_filter_def)

lemma hosting_reachable:
  "max_hosts_per_era cfg < u32_max \<Longrightarrow> list_all (\<lambda>(env, op). order_ok env) calls \<Longrightarrow>
     hosting_ok cfg (run_calls (hosting_step cfg) calls empty_hosting)"
  using hosting_calls.run_inv [of calls cfg empty_hosting] hosting_ok_empty by blast

section \<open>Properties\<close>

text \<open>
  C40: hosting is paid for presence, and no more than once a day. After any beats and era ends: the beats of a mask
  are on strictly increasing days; a beat counts only when an unbroken chain of beats, no two of them
  more than \<open>MaxGapDays + 1\<close> days apart, reaches back at least \<open>MinStreakDays\<close> before it; the masks counted in
  an era are exactly as many as its counter says, never above \<open>MaxHostsPerEra\<close>; and clearing an era forgets
  all of its masks, so none is paid twice for it.
\<close>

theorem hosting_days_earned:
  assumes "st = run_calls (hosting_step cfg) calls empty_hosting" "list_all (\<lambda>(env, op). order_ok env) calls"
    and "max_hosts_per_era cfg < u32_max" "order_ok env"
  shows "sorted_wrt (<) (days_of msk (ho_log st))
    \<and> (\<forall>pre d post. ho_log st = pre @ Beat msk d True # post \<longrightarrow>
         (\<exists>a. min_streak_days cfg \<le> d - a
            \<and> unbroken (max_gap_days cfg + 1) (days_of msk (pre @ [Beat msk d True])) a d))
    \<and> card (dom (host_days st era)) = host_count st era \<and> host_count st era \<le> max_hosts_per_era cfg
    \<and> length (era_hosts env era st) = host_count st era
    \<and> host_days (clear_hosts cfg env era st) era = Map.empty \<and> host_count (clear_hosts cfg env era st) era = 0"
proof -
  have ok: "hosting_ok cfg st" unfolding assms(1) by (rule hosting_reachable [OF assms(3,2)])
  then have b: "books_ok cfg st" and s: "streaks_ok cfg st" and e: "earned cfg (ho_log st)"
    by (simp_all add: hosting_ok_def)
  have "finite (dom (host_days st era))" using b by (simp add: books_ok_def)
  then have "length (ho_order env (host_days st era)) = card (dom (host_days st era))"
    using assms(4) distinct_card unfolding order_ok_def by metis
  then have "length (era_hosts env era st) = host_count st era"
    using b by (simp add: era_hosts_def books_ok_def)
  moreover have "host_days (clear_hosts cfg env era st) era = Map.empty \<and> host_count (clear_hosts cfg env era st) era = 0"
    unfolding clear_hosts_all [OF b assms(4,3)] by (simp add: clear_hosts_def Let_def)
  moreover have "unbroken (gap cfg) ds a d \<Longrightarrow> unbroken (max_gap_days cfg + 1) ds a d" for ds a d
    unfolding unbroken_def gap_def sat_add_def
    by (elim exE conjE, intro exI conjI, assumption+, erule successively_mono) auto
  ultimately show ?thesis using b s e unfolding books_ok_def streaks_ok_def earned_def by blast
qed

definition demo_hosting :: hosting_config where
  "demo_hosting = \<lparr>day_length = 10, ho_era_length = 100, min_streak_days = 2, max_gap_days = 1, max_beat_age = 5,
     max_hosts_per_era = 3\<rparr>"

definition demo_host :: "nat \<Rightarrow> nat host_env" where
  "demo_host now = \<lparr>ho_now = now, ho_mask_of = (\<lambda>hot. if hot = [1] then Some 7 else None), ho_block_hash = (\<lambda>n. [2]),
     ho_verify = (\<lambda>sig m hot. sig = [9]), ho_order = (\<lambda>m. sorted_list_of_set (dom m))\<rparr>"

definition demo_beats :: "(nat host_env \<times> host_op) list" where
  "demo_beats = [(demo_host 12, Heartbeat 11 [2] [1] [9]), (demo_host 15, Heartbeat 13 [2] [1] [9]),
     (demo_host 33, Heartbeat 30 [2] [1] [9]), (demo_host 41, Heartbeat 40 [2] [1] [9])]"

lemma demo_beats_log:
  "ho_log (run_calls (hosting_step demo_hosting) demo_beats empty_hosting)
     = [Beat 7 1 False, Beat 7 3 True, Beat 7 4 True]"
  by (simp add: demo_beats_def empty_hosting_def heartbeat_def check_beat_def demo_host_def demo_hosting_def day_of_def
      era_of_def next_streak_def count_day_def apply_call_def Let_def sat_add_def u32_max_def u64_max_def)

theorem hosting_days_earned_witness:
  "(\<exists>a. 2 \<le> 4 - a \<and> unbroken 2 (days_of 7 [Beat 7 1 False, Beat 7 3 True, Beat (7 :: nat) 4 True]) a 4)
    \<and> host_count (run_calls (hosting_step demo_hosting) demo_beats empty_hosting) 0 \<le> 3"
proof -
  have o: "order_ok (demo_host n)" for n by (simp add: order_ok_def demo_host_def)
  then have "list_all (\<lambda>(env, op). order_ok env) demo_beats" by (simp add: demo_beats_def)
  note t = hosting_days_earned [OF refl this _ o, of demo_hosting 7 0 0]
  from t have m: "\<forall>pre d post. ho_log (run_calls (hosting_step demo_hosting) demo_beats empty_hosting)
        = pre @ Beat 7 d True # post \<longrightarrow> (\<exists>a. min_streak_days demo_hosting \<le> d - a
          \<and> unbroken (max_gap_days demo_hosting + 1) (days_of 7 (pre @ [Beat 7 d True])) a d)"
    and c: "host_count (run_calls (hosting_step demo_hosting) demo_beats empty_hosting) 0 \<le> max_hosts_per_era demo_hosting"
    by (simp_all only: demo_hosting_def hosting_config.select_convs u32_max_def) simp_all
  from m [rule_format, of "[Beat 7 1 False, Beat 7 3 True]" 4 "[]"] c show ?thesis
    by (simp add: demo_beats_log) (simp add: demo_hosting_def flip: numeral_2_eq_2)
qed

end
