(* ===== verification/ParticipationPallet.thy ===== *)
theory ParticipationPallet
imports Sortition Frame "HOL-Library.List_Lexorder"
begin

text \<open>
  The participation pallet, \<open>chain/pallet-participation/src/lib.rs\<close>: the service feed behind rewards and
  reputation. Each block's inherent credits its author and the committee votes it carries; epochs roll up
  into eras; the finality committee of every committee epoch is elected once and cached.

  Accounts are 32-byte keys (\<open>account_from_bytes\<close> is the identity on them). \<open>pt_env\<close> holds what the
  pallet reads elsewhere: reputation, the election's inputs, the vote-key map, sr25519 verification and
  the genesis hash. The build features (mainnet or testnet) are in the configuration. Double maps
  are functions of their first key. The folds over \<open>iter_prefix\<close> touch each account once and
  independently, so they are written account by account; \<open>ord\<close> is the order in which \<open>era_service\<close> lists
  them. The log holds the events and, in order, the credits given to the counters.
\<close>

section \<open>Storage and environment\<close>

type_synonym key = "byte list"

record signed_vote =
  sv_signer :: key
  sv_sig :: "byte list"
  sv_height :: nat
  sv_block_hash :: "byte list"

record participation_record =
  pr_author_key :: key
  pr_author_sig :: "byte list"
  pr_finality_votes :: "signed_vote list"
  pr_at_block :: nat

record pt_config =
  pc_epoch_length :: nat
  pc_era_length :: nat
  pc_max_committee :: nat
  pc_max_streak :: nat
  pc_committee_epoch :: nat
  pc_committee_tau :: nat
  pc_flavor :: byte

record pt_env =
  pe_reputation :: "(key \<times> int) list"
  pe_bound :: "key list"
  pe_committed :: "(key \<times> string) list"
  pe_beacon :: "byte list"
  pe_halted :: bool
  pe_owner :: "key \<Rightarrow> key option"
  pe_verify :: "key \<Rightarrow> byte list \<Rightarrow> byte list \<Rightarrow> bool"
  pe_genesis :: "byte list"

datatype pt_event =
    CreditedAuthor nat key
  | CreditedVote nat nat key
  | VoteCapReached nat
  | ParticipationNoted nat "key option" nat

datatype pt_error = AlreadyNoted | WrongBlock

record participation =
  pt_epoch :: nat
  authored :: "nat \<Rightarrow> key \<rightharpoonup> nat"
  fin_votes :: "nat \<Rightarrow> key \<rightharpoonup> nat"
  noted :: bool
  block_author :: "key option"
  last_credited :: nat
  era_acc :: "nat \<Rightarrow> key \<rightharpoonup> nat"
  consecutive :: "key \<rightharpoonup> nat"
  committees :: "nat \<rightharpoonup> key list"
  pt_log :: "pt_event list"

definition empty_participation :: participation where
  "empty_participation = \<lparr>pt_epoch = 0, authored = (\<lambda>_. Map.empty), fin_votes = (\<lambda>_. Map.empty), noted = False,
     block_author = None, last_credited = 0, era_acc = (\<lambda>_. Map.empty), consecutive = Map.empty,
     committees = Map.empty, pt_log = []\<rparr>"

definition MAX_VOTES_CHECKED_PER_RECORD :: nat where "MAX_VOTES_CHECKED_PER_RECORD = 4096"

section \<open>The signed messages\<close>

definition to_le64 :: "nat \<Rightarrow> byte list" where
  "to_le64 n = rev (to_be64 (of_nat n))"

definition VOTE_DOMAIN_V2 :: "byte list" where
  "VOTE_DOMAIN_V2 = bytes_of ''hlq-finality:v2:''"

definition signed_message :: "pt_config \<Rightarrow> byte list \<Rightarrow> nat \<Rightarrow> byte list \<Rightarrow> byte list" where
  "signed_message cfg genesis height block_hash =
     VOTE_DOMAIN_V2 @ [pc_flavor cfg] @ genesis @ to_le64 height @ block_hash"

definition author_message :: "nat \<Rightarrow> byte list" where
  "author_message at_block = bytes_of ''harlequin-author:v1:'' @ to_le64 at_block"

section \<open>The committee\<close>

definition FINALITY_COMMITTEE_SEED :: string where
  "FINALITY_COMMITTEE_SEED = ''hlq-finality-committee''"

definition build_committee :: "pt_config \<Rightarrow> pt_env \<Rightarrow> nat \<Rightarrow> key list" where
  "build_committee cfg env epoch =
     take (pc_max_committee cfg) (sorted_list_of_set
       (elect_finality_committee (pe_reputation env) (pe_bound env) (pe_committed env) (pe_beacon env)
          (epoch mod 2 ^ 32) (pc_committee_tau cfg) FINALITY_COMMITTEE_SEED (pe_halted env)))"

definition is_member :: "pt_config \<Rightarrow> nat \<Rightarrow> key \<Rightarrow> participation \<Rightarrow> bool" where
  "is_member cfg height who st =
     (case committees st (height div pc_committee_epoch cfg) of None \<Rightarrow> False | Some c \<Rightarrow> who \<in> set c)"

section \<open>The start of a block\<close>

definition service_of :: "participation \<Rightarrow> nat \<Rightarrow> key \<Rightarrow> nat option" where
  "service_of st epoch who =
     (case authored st epoch who of
        Some a \<Rightarrow> Some (sat_add u64_max a (case fin_votes st epoch who of Some v \<Rightarrow> v | None \<Rightarrow> 0))
      | None \<Rightarrow> fin_votes st epoch who)"

definition roll_up :: "participation \<Rightarrow> nat \<Rightarrow> nat \<Rightarrow> participation" where
  "roll_up st ended era = st\<lparr>era_acc := (era_acc st)(era := (\<lambda>who.
     case service_of st ended who of
       None \<Rightarrow> era_acc st era who
     | Some w \<Rightarrow> Some (sat_add u64_max (case era_acc st era who of Some a \<Rightarrow> a | None \<Rightarrow> 0) w)))\<rparr>"

definition cache_committee :: "pt_config \<Rightarrow> pt_env \<Rightarrow> nat \<Rightarrow> participation \<Rightarrow> participation" where
  "cache_committee cfg env n st =
     (let ce = n div pc_committee_epoch cfg in
      if n mod pc_committee_epoch cfg = 0 \<or> committees st ce = None then
        let cs = (committees st)(ce \<mapsto> build_committee cfg env ce)
        in st\<lparr>committees := (if ce \<ge> 4 then cs(ce - 4 := None) else cs)\<rparr>
      else st)"

definition fold_epoch :: "pt_config \<Rightarrow> nat \<Rightarrow> participation \<Rightarrow> participation" where
  "fold_epoch cfg n st =
     (let len = pc_epoch_length cfg in
      if n \<noteq> 0 \<and> len \<noteq> 0 \<and> n mod len = 0 then
        let ended = n div len - 1;
            st1 = (if pc_era_length cfg > 0 then roll_up st ended (sat_mul u64_max ended len div pc_era_length cfg) else st)
        in st1\<lparr>authored := (authored st1)(ended := Map.empty), fin_votes := (fin_votes st1)(ended := Map.empty),
               pt_epoch := sat_add u64_max (pt_epoch st1) 1\<rparr>
      else st)"

definition pt_on_initialize :: "pt_config \<Rightarrow> pt_env \<Rightarrow> nat \<Rightarrow> participation \<Rightarrow> participation" where
  "pt_on_initialize cfg env n st =
     fold_epoch cfg n (cache_committee cfg env n (st\<lparr>noted := False, block_author := None\<rparr>))"

section \<open>The inherent\<close>

definition credit_author :: "pt_config \<Rightarrow> pt_env \<Rightarrow> nat \<Rightarrow> participation_record \<Rightarrow> participation \<Rightarrow> key option \<times> participation" where
  "credit_author cfg env now r st =
     (if pe_verify env (pr_author_key r) (pr_author_sig r) (author_message now) then
        let cold = (case pe_owner env (pr_author_key r) of Some k \<Rightarrow> k | None \<Rightarrow> pr_author_key r)
        in if is_member cfg now cold st then
             let e = pt_epoch st; c = (case authored st e cold of Some c \<Rightarrow> c | None \<Rightarrow> 0)
             in (Some cold, st\<lparr>authored := (authored st)(e := (authored st e)(cold \<mapsto> sat_add u32_max c 1)),
                   block_author := Some cold, pt_log := pt_log st @ [CreditedAuthor e cold]\<rparr>)
           else (None, st)
      else (None, st))"

text \<open>The state of the vote loop.\<close>

record vote_scan =
  vs_votes :: "key \<rightharpoonup> nat"
  vs_max :: nat
  vs_counted :: nat
  vs_checks :: nat
  vs_ignored :: nat
  vs_seen :: "(nat \<times> key) list"

definition scan_vote ::
  "pt_config \<Rightarrow> pt_env \<Rightarrow> participation \<Rightarrow> nat \<Rightarrow> signed_vote \<Rightarrow> vote_scan \<Rightarrow> vote_scan" where
  "scan_vote cfg env st cursor v s =
     (if sv_height v \<le> cursor then s
      else
        let cold = (case pe_owner env (sv_signer v) of Some k \<Rightarrow> k | None \<Rightarrow> sv_signer v)
        in if \<not> is_member cfg (sv_height v) cold st then s
        else if vs_checks s \<ge> MAX_VOTES_CHECKED_PER_RECORD then s\<lparr>vs_ignored := sat_add u32_max (vs_ignored s) 1\<rparr>
        else
          let s1 = s\<lparr>vs_checks := sat_add u32_max (vs_checks s) 1\<rparr>
          in if \<not> pe_verify env (sv_signer v) (sv_sig v) (signed_message cfg (pe_genesis env) (sv_height v) (sv_block_hash v))
             then s1
             else if (sv_height v, cold) \<in> set (vs_seen s) then s1
             else s1\<lparr>vs_seen := vs_seen s @ [(sv_height v, cold)],
                    vs_votes := (vs_votes s)(cold \<mapsto> sat_add u32_max (case vs_votes s cold of Some c \<Rightarrow> c | None \<Rightarrow> 0) 1),
                    vs_max := (if sv_height v > vs_max s then sv_height v else vs_max s),
                    vs_counted := sat_add u32_max (vs_counted s) 1\<rparr>)"

definition note_participation ::
  "pt_config \<Rightarrow> pt_env \<Rightarrow> nat \<Rightarrow> participation_record \<Rightarrow> participation \<Rightarrow> pt_error + participation" where
  "note_participation cfg env now r st =
     (if noted st then Inl AlreadyNoted
      else if pr_at_block r \<noteq> now then Inl WrongBlock
      else
        let epoch = pt_epoch st;
            (author, st1) = credit_author cfg env now r (st\<lparr>noted := True\<rparr>);
            cursor = last_credited st1;
            s = fold (scan_vote cfg env st1 cursor) (pr_finality_votes r)
                  \<lparr>vs_votes = fin_votes st1 epoch, vs_max = cursor, vs_counted = 0, vs_checks = 0, vs_ignored = 0, vs_seen = []\<rparr>
        in Inr (st1\<lparr>fin_votes := (fin_votes st1)(epoch := vs_votes s),
             last_credited := (if vs_max s > cursor then vs_max s else cursor),
             pt_log := pt_log st1 @ map (\<lambda>(h, who). CreditedVote epoch h who) (vs_seen s)
               @ (if vs_ignored s > 0 then [VoteCapReached (vs_ignored s)] else [])
               @ [ParticipationNoted epoch author (vs_counted s)]\<rparr>))"

section \<open>The consumers\<close>

definition service_weight :: "nat \<Rightarrow> key \<Rightarrow> participation \<Rightarrow> nat" where
  "service_weight epoch who st =
     sat_add u64_max (case authored st epoch who of Some a \<Rightarrow> a | None \<Rightarrow> 0) (case fin_votes st epoch who of Some v \<Rightarrow> v | None \<Rightarrow> 0)"

definition era_service :: "((key \<rightharpoonup> nat) \<Rightarrow> key list) \<Rightarrow> nat \<Rightarrow> participation \<Rightarrow> (key \<times> nat) list" where
  "era_service ord era st = map (\<lambda>who. (who, the (era_acc st era who))) (ord (era_acc st era))"

definition clear_era :: "nat \<Rightarrow> participation \<Rightarrow> participation" where
  "clear_era era st = st\<lparr>era_acc := (era_acc st)(era := Map.empty)\<rparr>"

definition next_era_streak :: "pt_config \<Rightarrow> key \<Rightarrow> participation \<Rightarrow> nat" where
  "next_era_streak cfg who st =
     min (sat_add u32_max (case consecutive st who of Some c \<Rightarrow> c | None \<Rightarrow> 0) 1) (max (pc_max_streak cfg) 1)"

definition era_service_streak ::
  "pt_config \<Rightarrow> ((key \<rightharpoonup> nat) \<Rightarrow> key list) \<Rightarrow> nat \<Rightarrow> participation \<Rightarrow> (key \<times> nat \<times> nat) list \<times> participation" where
  "era_service_streak cfg ord era st =
     (let out = map (\<lambda>(who, w). (who, w, next_era_streak cfg who st)) (era_service ord era st)
      in (out, st\<lparr>consecutive := (\<lambda>who. if who \<in> fst ` set out then Some (next_era_streak cfg who st) else None)\<rparr>))"

text \<open>A chain of blocks: the state carries the block number, and every block begins with the hook.\<close>

datatype pt_op =
    BeginBlock pt_env
  | Note pt_env participation_record
  | ReadStreaks "(key \<rightharpoonup> nat) \<Rightarrow> key list" nat
  | ClearEra nat

fun pt_step :: "pt_config \<Rightarrow> pt_op \<Rightarrow> nat \<times> participation \<Rightarrow> pt_error + nat \<times> participation" where
  "pt_step cfg (BeginBlock env) (n, st) = Inr (n + 1, pt_on_initialize cfg env (n + 1) st)"
| "pt_step cfg (Note env r) (n, st) = (case note_participation cfg env n r st of Inl e \<Rightarrow> Inl e | Inr st' \<Rightarrow> Inr (n, st'))"
| "pt_step cfg (ReadStreaks ord era) (n, st) = Inr (n, snd (era_service_streak cfg ord era st))"
| "pt_step cfg (ClearEra era) (n, st) = Inr (n, clear_era era st)"

end
