(* ===== verification/ParticipationProps.thy ===== *)
theory ParticipationProps
imports ParticipationPallet
begin

text \<open>
  Properties of the participation pallet: votes are credited once and only to seated members who signed, service is
  conserved from the credit to the era's accumulator, streaks count consecutive eras, and the committee of
  an epoch is the one elected at its first block.
\<close>

section \<open>Counters and credits\<close>

definition tally_of :: "(key \<rightharpoonup> nat) \<Rightarrow> key \<Rightarrow> nat" where
  "tally_of m who = (case m who of Some c \<Rightarrow> c | None \<Rightarrow> 0)"

definition resolve :: "pt_env \<Rightarrow> key \<Rightarrow> key" where
  "resolve env k = (case pe_owner env k of Some c \<Rightarrow> c | None \<Rightarrow> k)"

definition vote_signed :: "pt_config \<Rightarrow> pt_env \<Rightarrow> signed_vote \<Rightarrow> bool" where
  "vote_signed cfg env v =
     pe_verify env (sv_signer v) (sv_sig v) (signed_message cfg (pe_genesis env) (sv_height v) (sv_block_hash v))"

definition creditable :: "pt_config \<Rightarrow> pt_env \<Rightarrow> participation \<Rightarrow> signed_vote \<Rightarrow> bool" where
  "creditable cfg env st v = (last_credited st < sv_height v \<and> is_member cfg (sv_height v) (resolve env (sv_signer v)) st
     \<and> vote_signed cfg env v)"

definition votes_in :: "pt_event list \<Rightarrow> (nat \<times> key) list" where
  "votes_in es = List.map_filter (\<lambda>e. case e of CreditedVote _ h who \<Rightarrow> Some (h, who) | _ \<Rightarrow> None) es"

fun credit_to :: "pt_event \<Rightarrow> (nat \<times> key) option" where
  "credit_to (CreditedAuthor e k) = Some (e, k)"
| "credit_to (CreditedVote e h k) = Some (e, k)"
| "credit_to _ = None"

definition credits :: "(nat \<Rightarrow> bool) \<Rightarrow> key \<Rightarrow> pt_event list \<Rightarrow> nat" where
  "credits P who es = length (filter (\<lambda>e. case credit_to e of Some (ep, k) \<Rightarrow> P ep \<and> k = who | None \<Rightarrow> False) es)"

lemma tally_of_empty [simp]: "tally_of Map.empty who = 0"
  by (simp add: tally_of_def)

lemma tally_of_upd [simp]: "tally_of (m(k \<mapsto> c)) who = (if who = k then c else tally_of m who)"
  by (simp add: tally_of_def)

lemma votes_in_append [simp]: "votes_in (es @ fs) = votes_in es @ votes_in fs"
  by (simp add: votes_in_def List.map_filter_def)

lemma votes_in_Nil [simp]: "votes_in [] = []"
  by (simp add: votes_in_def List.map_filter_def)

lemma votes_in_Cons [simp]:
  "votes_in (CreditedVote e h who # es) = (h, who) # votes_in es"
  "votes_in (CreditedAuthor e k # es) = votes_in es"
  "votes_in (VoteCapReached i # es) = votes_in es"
  "votes_in (ParticipationNoted e a c # es) = votes_in es"
  by (simp_all add: votes_in_def List.map_filter_simps)

lemma votes_in_votes [simp]: "votes_in (map (\<lambda>(h, who). CreditedVote e h who) xs) = xs"
  by (induction xs) auto

lemma credits_append [simp]: "credits P who (es @ fs) = credits P who es + credits P who fs"
  by (simp add: credits_def)

lemma credits_Nil [simp]: "credits P who [] = 0"
  by (simp add: credits_def)

lemma credits_Cons [simp]:
  "credits P who (CreditedVote e h k # es) = (if P e \<and> k = who then 1 else 0) + credits P who es"
  "credits P who (CreditedAuthor e k # es) = (if P e \<and> k = who then 1 else 0) + credits P who es"
  "credits P who (VoteCapReached i # es) = credits P who es"
  "credits P who (ParticipationNoted e a c # es) = credits P who es"
  by (simp_all add: credits_def)

lemma credits_votes [simp]:
  "credits P who (map (\<lambda>(h, k). CreditedVote e h k) xs) = (if P e then length (filter (\<lambda>x. snd x = who) xs) else 0)"
  by (induction xs) auto

lemma credits_le: "credits P who es \<le> length es"
  by (simp add: credits_def)

lemma credits_split:
  "credits P who es = credits (\<lambda>e. P e \<and> Q e) who es + credits (\<lambda>e. P e \<and> \<not> Q e) who es"
  by (induction es) (auto simp: credits_def split: option.splits)

section \<open>The vote loop\<close>

definition scan_start :: "participation \<Rightarrow> vote_scan" where
  "scan_start st = \<lparr>vs_votes = fin_votes st (pt_epoch st), vs_max = last_credited st, vs_counted = 0, vs_checks = 0,
     vs_ignored = 0, vs_seen = []\<rparr>"

definition scanned :: "pt_config \<Rightarrow> pt_env \<Rightarrow> participation \<Rightarrow> signed_vote list \<Rightarrow> vote_scan" where
  "scanned cfg env st vs = fold (scan_vote cfg env st (last_credited st)) vs (scan_start st)"

definition vote_mark :: "pt_env \<Rightarrow> signed_vote \<Rightarrow> nat \<times> key" where
  "vote_mark env v = (sv_height v, resolve env (sv_signer v))"

text \<open>One vote, on every branch.\<close>

lemma scan_vote_cases:
  obtains
    (skip) "scan_vote cfg env st (last_credited st) v s = s" "\<not> creditable cfg env st v"
  | (capped) "scan_vote cfg env st (last_credited st) v s = s\<lparr>vs_ignored := sat_add u32_max (vs_ignored s) 1\<rparr>"
      "MAX_VOTES_CHECKED_PER_RECORD \<le> vs_checks s"
  | (dropped) "scan_vote cfg env st (last_credited st) v s = s\<lparr>vs_checks := sat_add u32_max (vs_checks s) 1\<rparr>"
      "vs_checks s < MAX_VOTES_CHECKED_PER_RECORD" "creditable cfg env st v \<Longrightarrow> vote_mark env v \<in> set (vs_seen s)"
  | (credited) "scan_vote cfg env st (last_credited st) v s = s\<lparr>vs_checks := sat_add u32_max (vs_checks s) 1,
        vs_seen := vs_seen s @ [vote_mark env v],
        vs_votes := (vs_votes s)(snd (vote_mark env v) \<mapsto> sat_add u32_max (tally_of (vs_votes s) (snd (vote_mark env v))) 1),
        vs_max := max (vs_max s) (sv_height v), vs_counted := sat_add u32_max (vs_counted s) 1\<rparr>"
      "vs_checks s < MAX_VOTES_CHECKED_PER_RECORD" "creditable cfg env st v" "vote_mark env v \<notin> set (vs_seen s)"
proof -
  let ?cold = "resolve env (sv_signer v)"
  show thesis
  proof (cases "last_credited st < sv_height v \<and> is_member cfg (sv_height v) ?cold st")
    case False
    then show ?thesis
      by (intro skip) (auto simp: scan_vote_def creditable_def resolve_def Let_def)
  next
    case m: True
    show ?thesis
    proof (cases "vs_checks s < MAX_VOTES_CHECKED_PER_RECORD")
      case False
      with m show ?thesis by (intro capped) (auto simp: scan_vote_def resolve_def Let_def)
    next
      case cap: True
      show ?thesis
      proof (cases "vote_signed cfg env v \<and> vote_mark env v \<notin> set (vs_seen s)")
        case True
        with m cap show ?thesis
          by (intro credited)
            (auto simp: scan_vote_def creditable_def vote_signed_def vote_mark_def resolve_def tally_of_def max_def Let_def)
      next
        case False
        with m cap show ?thesis
          by (intro dropped) (auto simp: scan_vote_def creditable_def vote_signed_def vote_mark_def resolve_def Let_def)
      qed
    qed
  qed
qed

text \<open>What the loop has established after any prefix of the votes.\<close>

definition scan_ok :: "pt_config \<Rightarrow> pt_env \<Rightarrow> participation \<Rightarrow> signed_vote list \<Rightarrow> vote_scan \<Rightarrow> bool" where
  "scan_ok cfg env st vs s = (distinct (vs_seen s)
     \<and> set (vs_seen s) \<subseteq> vote_mark env ` {v \<in> set vs. creditable cfg env st v}
     \<and> (length vs \<le> MAX_VOTES_CHECKED_PER_RECORD \<longrightarrow>
          vote_mark env ` {v \<in> set vs. creditable cfg env st v} \<subseteq> set (vs_seen s))
     \<and> length (vs_seen s) \<le> vs_checks s \<and> vs_checks s \<le> MAX_VOTES_CHECKED_PER_RECORD \<and> vs_checks s \<le> length vs
     \<and> vs_max s = Max (insert (last_credited st) (fst ` set (vs_seen s)))
     \<and> (\<forall>who. tally_of (fin_votes st (pt_epoch st)) who + length (vs_seen s) \<le> u32_max \<longrightarrow>
          tally_of (vs_votes s) who
            = tally_of (fin_votes st (pt_epoch st)) who + length (filter (\<lambda>x. snd x = who) (vs_seen s))))"

lemma cap_small: "n < MAX_VOTES_CHECKED_PER_RECORD \<Longrightarrow> sat_add u32_max n (Suc 0) = Suc n"
  by (simp add: MAX_VOTES_CHECKED_PER_RECORD_def u32_max_def sat_add_def)

lemma good_votes_snoc:
  "{u \<in> set (vs @ [v]). P u} = (if P v then insert v {u \<in> set vs. P u} else {u \<in> set vs. P u})"
  by auto

lemma scan_ok_step:
  assumes "scan_ok cfg env st vs s"
  shows "scan_ok cfg env st (vs @ [v]) (scan_vote cfg env st (last_credited st) v s)"
proof (rule scan_vote_cases [of cfg env st v s], goal_cases)
  case 1
  with assms show ?thesis unfolding scan_ok_def good_votes_snoc by auto
next
  case 2
  with assms show ?thesis unfolding scan_ok_def good_votes_snoc by auto
next
  case 3
  with assms show ?thesis unfolding scan_ok_def good_votes_snoc by (auto simp: cap_small)
next
  case credited: 4
  note a = assms [unfolded scan_ok_def]
  let ?s = "scan_vote cfg env st (last_credited st) v s"
  have mx: "vs_max ?s = Max (insert (last_credited st) (fst ` set (vs_seen ?s)))"
  proof -
    let ?A = "insert (last_credited st) (fst ` set (vs_seen s))"
    have "insert (last_credited st) (fst ` set (vs_seen ?s)) = insert (sv_height v) ?A"
      using credited(1) by (auto simp: vote_mark_def)
    moreover have "Max (insert (sv_height v) ?A) = max (sv_height v) (Max ?A)" by (rule Max_insert) simp_all
    ultimately show ?thesis using a credited(1) by (simp add: max.commute del: Max_insert)
  qed
  have t: "tally_of (vs_votes ?s) who
      = tally_of (fin_votes st (pt_epoch st)) who + length (filter (\<lambda>x. snd x = who) (vs_seen ?s))"
    if b: "tally_of (fin_votes st (pt_epoch st)) who + length (vs_seen ?s) \<le> u32_max" for who
  proof -
    let ?n = "tally_of (fin_votes st (pt_epoch st)) who + length (filter (\<lambda>x. snd x = who) (vs_seen s))"
    have b': "tally_of (fin_votes st (pt_epoch st)) who + length (vs_seen s) < u32_max"
      using b credited(1) by simp
    moreover from this have "tally_of (vs_votes s) who = ?n" using a by simp
    moreover have "?n < u32_max"
      using b' length_filter_le [of "\<lambda>x. snd x = who" "vs_seen s"] by linarith
    ultimately show ?thesis using credited(1) by (cases "who = snd (vote_mark env v)") (auto simp: sat_add_def)
  qed
  show ?thesis
    unfolding scan_ok_def good_votes_snoc using a credited mx t by (auto simp: cap_small)
qed

lemma scanned_ok: "scan_ok cfg env st vs (scanned cfg env st vs)"
proof (induction vs rule: rev_induct)
  case Nil
  show ?case by (simp add: scan_ok_def scanned_def scan_start_def)
next
  case (snoc v vs)
  from scan_ok_step [OF this] show ?case by (simp add: scanned_def)
qed

section \<open>The inherent\<close>

text \<open>What a successful \<open>note_participation\<close> does.\<close>

definition author_credited :: "pt_config \<Rightarrow> pt_env \<Rightarrow> nat \<Rightarrow> participation_record \<Rightarrow> participation \<Rightarrow> bool" where
  "author_credited cfg env now r st = (pe_verify env (pr_author_key r) (pr_author_sig r) (author_message now)
     \<and> is_member cfg now (resolve env (pr_author_key r)) st)"

lemma credit_author_eq:
  "credit_author cfg env now r st =
     (let k = resolve env (pr_author_key r); e = pt_epoch st in
      if author_credited cfg env now r st
      then (Some k, st\<lparr>authored := (authored st)(e := (authored st e)(k \<mapsto> sat_add u32_max (tally_of (authored st e) k) 1)),
              block_author := Some k, pt_log := pt_log st @ [CreditedAuthor e k]\<rparr>)
      else (None, st))"
  by (simp add: credit_author_def author_credited_def resolve_def tally_of_def Let_def)

definition note_events ::
  "pt_config \<Rightarrow> pt_env \<Rightarrow> nat \<Rightarrow> participation_record \<Rightarrow> participation \<Rightarrow> pt_event list" where
  "note_events cfg env now r st =
     (let e = pt_epoch st; k = resolve env (pr_author_key r); ok = author_credited cfg env now r st;
          s = scanned cfg env st (pr_finality_votes r)
      in (if ok then [CreditedAuthor e k] else []) @ map (\<lambda>(h, who). CreditedVote e h who) (vs_seen s)
         @ (if vs_ignored s > 0 then [VoteCapReached (vs_ignored s)] else [])
         @ [ParticipationNoted e (if ok then Some k else None) (vs_counted s)])"

lemma is_member_upd [simp]:
  "is_member cfg h k (st\<lparr>noted := b\<rparr>) = is_member cfg h k st"
  "is_member cfg h k (st\<lparr>block_author := a\<rparr>) = is_member cfg h k st"
  "is_member cfg h k (st\<lparr>authored := u\<rparr>) = is_member cfg h k st"
  "is_member cfg h k (st\<lparr>pt_log := l\<rparr>) = is_member cfg h k st"
  by (simp_all add: is_member_def)

lemma scanned_upd:
  assumes "committees st' = committees st" "last_credited st' = last_credited st" "fin_votes st' = fin_votes st"
    "pt_epoch st' = pt_epoch st"
  shows "scanned cfg env st' vs = scanned cfg env st vs"
proof -
  have "is_member cfg h k st' = is_member cfg h k st" for h k using assms(1) by (simp add: is_member_def)
  then have "scan_vote cfg env st' c v s = scan_vote cfg env st c v s" for c v s
    by (simp add: scan_vote_def Let_def)
  then have "scan_vote cfg env st' = scan_vote cfg env st" by (intro ext)
  with assms show ?thesis by (simp add: scanned_def scan_start_def)
qed

lemma note_effect:
  assumes "note_participation cfg env now r st = Inr st'"
  defines "s \<equiv> scanned cfg env st (pr_finality_votes r)" and "e \<equiv> pt_epoch st"
    and "k \<equiv> resolve env (pr_author_key r)"
  shows "\<not> noted st" "pr_at_block r = now" "noted st'" "pt_log st' = pt_log st @ note_events cfg env now r st"
    "pt_epoch st' = e" "committees st' = committees st" "era_acc st' = era_acc st" "consecutive st' = consecutive st"
    "last_credited st' = vs_max s" "fin_votes st' = (fin_votes st)(e := vs_votes s)"
    "block_author st' = (if author_credited cfg env now r st then Some k else block_author st)"
    "authored st' = (if author_credited cfg env now r st
       then (authored st)(e := (authored st e)(k \<mapsto> sat_add u32_max (tally_of (authored st e) k) 1)) else authored st)"
proof -
  have ac: "author_credited cfg env now r (st\<lparr>noted := True\<rparr>) = author_credited cfg env now r st"
    by (simp add: author_credited_def)
  have "last_credited st \<le> vs_max s"
    using scanned_ok [of cfg env st "pr_finality_votes r"] by (simp add: scan_ok_def s_def)
  then have lc: "(if last_credited st < vs_max s then vs_max s else last_credited st) = vs_max s" by simp
  have sc: "fold (scan_vote cfg env st1 (last_credited st)) (pr_finality_votes r)
      \<lparr>vs_votes = fin_votes st (pt_epoch st), vs_max = last_credited st, vs_counted = 0, vs_checks = 0,
        vs_ignored = 0, vs_seen = []\<rparr> = s"
    if "committees st1 = committees st" "last_credited st1 = last_credited st" "fin_votes st1 = fin_votes st"
      "pt_epoch st1 = pt_epoch st" for st1
    using scanned_upd [OF that, of cfg env "pr_finality_votes r"] that by (simp add: scanned_def scan_start_def s_def)
  obtain a st1 where ca: "credit_author cfg env now r (st\<lparr>noted := True\<rparr>) = (a, st1)" by fastforce
  have f: "committees st1 = committees st" "last_credited st1 = last_credited st" "fin_votes st1 = fin_votes st"
      "pt_epoch st1 = pt_epoch st"
    and a: "a = (if author_credited cfg env now r st then Some k else None)"
    and l: "pt_log st1 = pt_log st @ (if author_credited cfg env now r st then [CreditedAuthor e k] else [])"
    using ca by (auto simp: credit_author_eq ac Let_def k_def e_def split: if_splits)
  have st': "\<not> noted st \<and> pr_at_block r = now \<and> st' = st1
      \<lparr>fin_votes := (fin_votes st)(e := vs_votes s), last_credited := vs_max s,
       pt_log := pt_log st @ note_events cfg env now r st\<rparr>"
    using assms(1) unfolding note_participation_def ca Let_def
    by (auto simp: f sc [OF f] lc a l note_events_def s_def [symmetric] e_def k_def Let_def cong: if_cong split: if_split_asm)
  have st1: "st1 = snd (credit_author cfg env now r (st\<lparr>noted := True\<rparr>))" by (simp add: ca)
  from st' st1 show "\<not> noted st" "pr_at_block r = now" "noted st'" "pt_log st' = pt_log st @ note_events cfg env now r st"
    "pt_epoch st' = e" "committees st' = committees st" "era_acc st' = era_acc st" "consecutive st' = consecutive st"
    "last_credited st' = vs_max s" "fin_votes st' = (fin_votes st)(e := vs_votes s)"
    "block_author st' = (if author_credited cfg env now r st then Some k else block_author st)"
    "authored st' = (if author_credited cfg env now r st
       then (authored st)(e := (authored st e)(k \<mapsto> sat_add u32_max (tally_of (authored st e) k) 1)) else authored st)"
    by (simp_all add: credit_author_eq ac Let_def e_def k_def)
qed

lemma note_votes: "votes_in (note_events cfg env now r st) = vs_seen (scanned cfg env st (pr_finality_votes r))"
  by (simp add: note_events_def Let_def)

lemma note_credits:
  "credits P who (note_events cfg env now r st) =
     (if P (pt_epoch st) then (if author_credited cfg env now r st \<and> resolve env (pr_author_key r) = who then 1 else 0)
        + length (filter (\<lambda>x. snd x = who) (vs_seen (scanned cfg env st (pr_finality_votes r)))) else 0)"
  by (simp add: note_events_def Let_def)

lemma note_events_length:
  "(if author_credited cfg env now r st then 1 else 0)
     + length (vs_seen (scanned cfg env st (pr_finality_votes r))) < length (note_events cfg env now r st)"
  by (simp add: note_events_def Let_def)

section \<open>Votes are credited once\<close>

definition once :: "participation \<Rightarrow> bool" where
  "once st = (distinct (votes_in (pt_log st)) \<and> (\<forall>(h, who) \<in> set (votes_in (pt_log st)). h \<le> last_credited st))"

lemma seen_heights:
  assumes "(h, who) \<in> set (vs_seen (scanned cfg env st vs))"
  shows "last_credited st < h \<and> h \<le> vs_max (scanned cfg env st vs)
    \<and> (\<exists>v\<in>set vs. creditable cfg env st v \<and> sv_height v = h \<and> resolve env (sv_signer v) = who)"
proof -
  let ?s = "scanned cfg env st vs"
  have ok: "set (vs_seen ?s) \<subseteq> vote_mark env ` {v \<in> set vs. creditable cfg env st v}"
      "vs_max ?s = Max (insert (last_credited st) (fst ` set (vs_seen ?s)))"
    using scanned_ok [of cfg env st vs] by (simp_all add: scan_ok_def)
  from assms ok(1) obtain v where v: "v \<in> set vs" "creditable cfg env st v" "vote_mark env v = (h, who)" by auto
  have "h \<in> insert (last_credited st) (fst ` set (vs_seen ?s))" using assms by force
  then have "h \<le> vs_max ?s" unfolding ok(2) by (intro Max_ge) simp_all
  with v show ?thesis by (auto simp: vote_mark_def creditable_def)
qed

lemma vs_max_ge: "last_credited st \<le> vs_max (scanned cfg env st vs)"
  using scanned_ok [of cfg env st vs] by (simp add: scan_ok_def)

lemma note_once:
  assumes "once st" "note_participation cfg env now r st = Inr st'"
  shows "once st'"
proof -
  let ?s = "scanned cfg env st (pr_finality_votes r)"
  have d: "distinct (vs_seen ?s)" using scanned_ok by (simp add: scan_ok_def)
  note ne = note_effect [OF assms(2)]
  have old: "h \<le> last_credited st" if "(h, who) \<in> set (votes_in (pt_log st))" for h who
    using assms(1) that by (auto simp: once_def)
  have "set (votes_in (pt_log st)) \<inter> set (vs_seen ?s) = {}"
    using old seen_heights [of _ _ cfg env st "pr_finality_votes r"] by (force simp: not_le)
  moreover have "h \<le> last_credited st'" if "(h, who) \<in> set (votes_in (pt_log st'))" for h who
    using that old [of h who] seen_heights [of h who cfg env st "pr_finality_votes r"]
      vs_max_ge [of st cfg env "pr_finality_votes r"] unfolding ne(4,9) by (auto simp: note_votes)
  ultimately show ?thesis
    using assms(1) d unfolding once_def ne(4) by (auto simp: note_votes)
qed

lemma hook_keeps:
  "pt_log (pt_on_initialize cfg env n st) = pt_log st"
  "last_credited (pt_on_initialize cfg env n st) = last_credited st"
  "consecutive (pt_on_initialize cfg env n st) = consecutive st"
  by (simp_all add: pt_on_initialize_def fold_epoch_def roll_up_def cache_committee_def Let_def)

lemma streak_keeps:
  "pt_log (snd (era_service_streak cfg ord era st)) = pt_log st"
  "last_credited (snd (era_service_streak cfg ord era st)) = last_credited st"
  "pt_epoch (snd (era_service_streak cfg ord era st)) = pt_epoch st"
  "authored (snd (era_service_streak cfg ord era st)) = authored st"
  "fin_votes (snd (era_service_streak cfg ord era st)) = fin_votes st"
  "era_acc (snd (era_service_streak cfg ord era st)) = era_acc st"
  "committees (snd (era_service_streak cfg ord era st)) = committees st"
  by (simp_all add: era_service_streak_def Let_def)

lemma pt_step_Note:
  "pt_step cfg (Note env r) s = Inr s' \<longleftrightarrow>
     fst s' = fst s \<and> note_participation cfg env (fst s) r (snd s) = Inr (snd s')"
  by (cases s; cases s') (auto split: sum.splits)

interpretation credited_once: call_system "pt_step cfg" "\<lambda>_. True" "\<lambda>s. once (snd s)"
  for cfg
proof
  fix op and s s' :: "nat \<times> participation"
  assume "once (snd s)" "pt_step cfg op s = Inr s'"
  then show "once (snd s')"
  proof (cases op)
    case (Note env r)
    with \<open>once (snd s)\<close> \<open>pt_step cfg op s = Inr s'\<close> show ?thesis by (auto simp: pt_step_Note intro: note_once)
  qed (cases s; auto simp: once_def hook_keeps streak_keeps clear_era_def)+
qed

lemma once_reachable: "once (snd (run_calls (pt_step cfg) ops (0, empty_participation)))"
  by (rule credited_once.run_inv) (simp_all add: list_all_iff once_def empty_participation_def)

section \<open>Service is conserved\<close>

definition epoch_era :: "pt_config \<Rightarrow> nat \<Rightarrow> nat" where
  "epoch_era cfg e = e * pc_epoch_length cfg div pc_era_length cfg"

definition in_bounds :: "nat \<times> participation \<Rightarrow> bool" where
  "in_bounds s = (fst s \<le> u64_max \<and> length (pt_log (snd s)) \<le> u32_max)"

definition service_ok :: "pt_config \<Rightarrow> nat \<Rightarrow> nat \<Rightarrow> participation \<Rightarrow> bool" where
  "service_ok cfg era n st = (pt_epoch st = n div pc_epoch_length cfg
     \<and> (\<forall>e. e \<noteq> pt_epoch st \<longrightarrow> authored st e = Map.empty \<and> fin_votes st e = Map.empty)
     \<and> (\<forall>ev e k. ev \<in> set (pt_log st) \<longrightarrow> credit_to ev = Some (e, k) \<longrightarrow> e \<le> pt_epoch st)
     \<and> (\<forall>who. tally_of (authored st (pt_epoch st)) who + tally_of (fin_votes st (pt_epoch st)) who
          = credits (\<lambda>e. e = pt_epoch st) who (pt_log st))
     \<and> (\<forall>who. tally_of (era_acc st era) who = credits (\<lambda>e. e < pt_epoch st \<and> epoch_era cfg e = era) who (pt_log st)))"

lemma service_okD:
  assumes "service_ok cfg era n st"
  shows "pt_epoch st = n div pc_epoch_length cfg"
    and "e \<noteq> pt_epoch st \<Longrightarrow> authored st e = Map.empty \<and> fin_votes st e = Map.empty"
    and "ev \<in> set (pt_log st) \<Longrightarrow> credit_to ev = Some (e, k) \<Longrightarrow> e \<le> pt_epoch st"
    and "tally_of (authored st (pt_epoch st)) who + tally_of (fin_votes st (pt_epoch st)) who
          = credits (\<lambda>e. e = pt_epoch st) who (pt_log st)"
    and "tally_of (era_acc st era) who = credits (\<lambda>e. e < pt_epoch st \<and> epoch_era cfg e = era) who (pt_log st)"
  using assms unfolding service_ok_def by blast+

lemma credits_cong: "(\<And>ev e k. ev \<in> set es \<Longrightarrow> credit_to ev = Some (e, k) \<Longrightarrow> P e = Q e) \<Longrightarrow> credits P who es = credits Q who es"
  unfolding credits_def by (intro arg_cong [where f = List.length] filter_cong refl) (auto split: option.split)

lemma credits_none: "(\<And>ev e k. ev \<in> set es \<Longrightarrow> credit_to ev = Some (e, k) \<Longrightarrow> \<not> P e) \<Longrightarrow> credits P who es = 0"
  unfolding credits_def by (auto simp: filter_empty_conv split: option.split)

lemma note_event_epoch: "ev \<in> set (note_events cfg env now r st) \<Longrightarrow> credit_to ev = Some (e, k) \<Longrightarrow> e = pt_epoch st"
  by (auto simp: note_events_def Let_def split: if_splits)

lemma note_service:
  assumes ok: "service_ok cfg era n st" and nt: "note_participation cfg env n r st = Inr st'"
    and len: "length (pt_log st') \<le> u32_max"
  shows "service_ok cfg era n st'"
proof -
  let ?e = "pt_epoch st" and ?s = "scanned cfg env st (pr_finality_votes r)" and ?k = "resolve env (pr_author_key r)"
  let ?a = "author_credited cfg env n r st"
  note ne = note_effect [OF nt]
  have l: "length (pt_log st) + (if ?a then 1 else 0) + length (vs_seen ?s) < u32_max"
    using len note_events_length [of cfg env n r st] by (simp add: ne(4))
  have le: "tally_of (authored st ?e) who \<le> length (pt_log st)" "tally_of (fin_votes st ?e) who \<le> length (pt_log st)" for who
    using service_okD(4) [OF ok, of who] credits_le [of "\<lambda>e. e = ?e" who "pt_log st"] by simp_all
  have au: "tally_of (authored st' ?e) who = tally_of (authored st ?e) who + (if ?a \<and> ?k = who then 1 else 0)" for who
    using l le(1) [of ?k] by (auto simp: ne(12) sat_add_def)
  have vo: "tally_of (fin_votes st' ?e) who = tally_of (fin_votes st ?e) who + length (filter (\<lambda>x. snd x = who) (vs_seen ?s))" for who
    using scanned_ok [of cfg env st "pr_finality_votes r"] l le(2) [of who] by (simp add: ne(10) scan_ok_def)
  show ?thesis
    unfolding service_ok_def ne(5)
  proof (intro conjI allI impI)
    show "?e = n div pc_epoch_length cfg" by (rule service_okD(1) [OF ok])
    show "authored st' e = Map.empty" "fin_votes st' e = Map.empty" if "e \<noteq> ?e" for e
      using that service_okD(2) [OF ok that] by (simp_all add: ne(10,12))
    show "e \<le> ?e" if "ev \<in> set (pt_log st')" "credit_to ev = Some (e, k)" for ev e k
      using that service_okD(3) [OF ok] note_event_epoch [of ev cfg env n r st e k] unfolding ne(4) by auto
    show "tally_of (authored st' ?e) who + tally_of (fin_votes st' ?e) who = credits (\<lambda>e. e = ?e) who (pt_log st')" for who
      using service_okD(4) [OF ok, of who] by (simp add: au vo ne(4) note_credits)
    show "tally_of (era_acc st' era) who = credits (\<lambda>e. e < ?e \<and> epoch_era cfg e = era) who (pt_log st')" for who
      using service_okD(5) [OF ok, of who] by (simp add: ne(4,7) note_credits)
  qed
qed

lemma tally_roll_up:
  assumes "tally_of (era_acc st era) who \<le> u64_max"
  shows "tally_of (era_acc (roll_up st e era) era) who = sat_add u64_max (tally_of (era_acc st era) who) (service_weight e who st)"
  using assms
  by (auto simp: roll_up_def tally_of_def service_of_def service_weight_def sat_add_def split: option.splits)

lemma cache_keeps:
  "authored (cache_committee cfg env n st) = authored st" "fin_votes (cache_committee cfg env n st) = fin_votes st"
  "era_acc (cache_committee cfg env n st) = era_acc st" "pt_epoch (cache_committee cfg env n st) = pt_epoch st"
  "pt_log (cache_committee cfg env n st) = pt_log st"
  by (simp_all add: cache_committee_def Let_def)

lemma service_weight_eq:
  "service_weight e who st = sat_add u64_max (tally_of (authored st e) who) (tally_of (fin_votes st e) who)"
  by (simp add: service_weight_def tally_of_def)

lemma small_sums: "a + b \<le> u32_max \<Longrightarrow> sat_add u64_max a b = a + b"
  by (simp add: u32_max_def u64_max_def sat_add_def)

lemma service_same:
  assumes "service_ok cfg era n st" "pt_epoch st' = pt_epoch st" "authored st' = authored st"
    "fin_votes st' = fin_votes st" "pt_log st' = pt_log st" "era_acc st' era = era_acc st era"
    "pt_epoch st = n' div pc_epoch_length cfg"
  shows "service_ok cfg era n' st'"
  unfolding service_ok_def assms(2-6) using assms(1) [unfolded service_ok_def] assms(7) by blast

lemma roll_up_keeps [simp]:
  "authored (roll_up st e era) = authored st" "fin_votes (roll_up st e era) = fin_votes st"
  "pt_log (roll_up st e era) = pt_log st" "pt_epoch (roll_up st e era) = pt_epoch st"
  by (simp_all add: roll_up_def)

lemma fold_epoch_service:
  assumes ok: "service_ok cfg era n st" and len: "0 < pc_epoch_length cfg" "0 < pc_era_length cfg"
    and b: "length (pt_log st) \<le> u32_max" "Suc n \<le> u64_max"
  shows "service_ok cfg era (Suc n) (fold_epoch cfg (Suc n) st)"
proof (cases "Suc n mod pc_epoch_length cfg = 0")
  case False
  with service_okD(1) [OF ok] show ?thesis
    by (intro service_same [OF ok]) (simp_all add: fold_epoch_def Let_def div_Suc)
next
  case True
  let ?e = "pt_epoch st" and ?L = "pc_epoch_length cfg"
  let ?st = "fold_epoch cfg (Suc n) st"
  have dv: "Suc n div ?L = Suc ?e" using True service_okD(1) [OF ok] by (simp add: div_Suc)
  have "?e * ?L \<le> n" using service_okD(1) [OF ok] by simp
  then have mul: "sat_mul u64_max ?e ?L = ?e * ?L" using b(2) by simp
  have "?e \<le> n" using service_okD(1) [OF ok] div_le_dividend by simp
  then have ep: "pt_epoch ?st = Suc ?e"
    using True len b(2) by (simp add: fold_epoch_def Let_def)
  have f: "authored ?st = (authored st)(?e := Map.empty)" "fin_votes ?st = (fin_votes st)(?e := Map.empty)"
      "pt_log ?st = pt_log st" "era_acc ?st = era_acc (roll_up st ?e (epoch_era cfg ?e))"
    using True len dv by (simp_all add: fold_epoch_def Let_def mul epoch_era_def)
  have cr: "credits P who (pt_log st) \<le> u32_max" for P who
    using credits_le [of P who "pt_log st"] b(1) by simp
  have w: "service_weight ?e who st = credits (\<lambda>e. e = ?e) who (pt_log st)" for who
    using service_okD(4) [OF ok, of who] cr [of "\<lambda>e. e = ?e" who] by (simp add: service_weight_eq small_sums)
  have up: "credits (\<lambda>e. e < Suc ?e \<and> epoch_era cfg e = era) who (pt_log st)
      = credits (\<lambda>e. e < ?e \<and> epoch_era cfg e = era) who (pt_log st)
        + (if epoch_era cfg ?e = era then credits (\<lambda>e. e = ?e) who (pt_log st) else 0)" for who
  proof -
    have "credits (\<lambda>e. e < Suc ?e \<and> epoch_era cfg e = era) who (pt_log st)
        = credits (\<lambda>e. (e < Suc ?e \<and> epoch_era cfg e = era) \<and> e < ?e) who (pt_log st)
          + credits (\<lambda>e. (e < Suc ?e \<and> epoch_era cfg e = era) \<and> \<not> e < ?e) who (pt_log st)"
      by (rule credits_split)
    also have "credits (\<lambda>e. (e < Suc ?e \<and> epoch_era cfg e = era) \<and> e < ?e) who (pt_log st)
        = credits (\<lambda>e. e < ?e \<and> epoch_era cfg e = era) who (pt_log st)" by (rule credits_cong) auto
    also have "credits (\<lambda>e. (e < Suc ?e \<and> epoch_era cfg e = era) \<and> \<not> e < ?e) who (pt_log st)
        = (if epoch_era cfg ?e = era then credits (\<lambda>e. e = ?e) who (pt_log st) else 0)"
      by (auto simp: less_Suc_eq intro!: credits_cong credits_none)
    finally show ?thesis .
  qed
  have acc: "tally_of (era_acc ?st era) who = credits (\<lambda>e. e < Suc ?e \<and> epoch_era cfg e = era) who (pt_log st)" for who
  proof (cases "epoch_era cfg ?e = era")
    case True
    have "tally_of (era_acc st era) who + credits (\<lambda>e. e = ?e) who (pt_log st) \<le> u32_max"
      using up [of who] cr [of "\<lambda>e. e < Suc ?e \<and> epoch_era cfg e = era" who] True
      by (simp only: service_okD(5) [OF ok] if_True simp_thms)
    then show ?thesis
      using tally_roll_up [of st era who ?e] up [of who] True service_okD(5) [OF ok, of who]
      by (simp add: f(4) w small_sums) (simp add: u32_max_def u64_max_def)
  next
    case False
    with up [of who] service_okD(5) [OF ok, of who] show ?thesis by (simp add: f(4) roll_up_def)
  qed
  show ?thesis
    unfolding service_ok_def ep
  proof (intro conjI allI impI)
    show "Suc ?e = Suc n div ?L" using dv by simp
    show "authored ?st e = Map.empty" "fin_votes ?st e = Map.empty" if "e \<noteq> Suc ?e" for e
      using service_okD(2) [OF ok, of e] by (auto simp: f)
    show "e \<le> Suc ?e" if "ev \<in> set (pt_log ?st)" "credit_to ev = Some (e, k)" for ev e k
      using service_okD(3) [OF ok, of ev e k] that by (simp add: f)
    show "tally_of (authored ?st (Suc ?e)) who + tally_of (fin_votes ?st (Suc ?e)) who
        = credits (\<lambda>e. e = Suc ?e) who (pt_log ?st)" for who
    proof -
      have "credits (\<lambda>e. e = Suc ?e) who (pt_log st) = 0"
        using service_okD(3) [OF ok] by (intro credits_none) force
      then show ?thesis using service_okD(2) [OF ok, of "Suc ?e"] by (simp add: f)
    qed
    show "tally_of (era_acc ?st era) who = credits (\<lambda>e. e < Suc ?e \<and> epoch_era cfg e = era) who (pt_log ?st)" for who
      using acc by (simp add: f)
  qed
qed

text \<open>What the system keeps while the block number and the log are within their types.\<close>

definition service_inv :: "pt_config \<Rightarrow> nat \<Rightarrow> nat \<times> participation \<Rightarrow> bool" where
  "service_inv cfg era s = (0 < pc_epoch_length cfg \<longrightarrow> 0 < pc_era_length cfg \<longrightarrow> in_bounds s
     \<longrightarrow> service_ok cfg era (fst s) (snd s))"

lemma bounds_back: "pt_step cfg op s = Inr s' \<Longrightarrow> in_bounds s' \<Longrightarrow> in_bounds s"
proof (cases op)
  case (Note env r)
  assume "pt_step cfg op s = Inr s'" "in_bounds s'"
  with Note note_effect(4) [of cfg env "fst s" r "snd s" "snd s'"] show ?thesis
    by (simp add: pt_step_Note in_bounds_def)
qed (cases s; auto simp: in_bounds_def hook_keeps streak_keeps clear_era_def)+

interpretation service_kept: call_system "pt_step cfg" "\<lambda>op. op \<noteq> ClearEra era" "service_inv cfg era"
  for cfg era
proof
  fix op and s s' :: "nat \<times> participation"
  assume op: "op \<noteq> ClearEra era" and i: "service_inv cfg era s" and st: "pt_step cfg op s = Inr s'"
  show "service_inv cfg era s'"
    unfolding service_inv_def
  proof (intro impI)
    assume len: "0 < pc_epoch_length cfg" "0 < pc_era_length cfg" and b: "in_bounds s'"
    have ok: "service_ok cfg era (fst s) (snd s)"
      using i len bounds_back [OF st b] by (simp add: service_inv_def)
    show "service_ok cfg era (fst s') (snd s')"
    proof (cases op)
      case (BeginBlock env)
      let ?c = "cache_committee cfg env (Suc (fst s)) ((snd s)\<lparr>noted := False, block_author := None\<rparr>)"
      have s': "s' = (Suc (fst s), fold_epoch cfg (Suc (fst s)) ?c)"
        using st BeginBlock by (cases s) (auto simp: pt_on_initialize_def)
      have "service_ok cfg era (fst s) ?c"
        by (rule service_same [OF ok]) (simp_all add: cache_keeps service_okD(1) [OF ok])
      from fold_epoch_service [OF this len] b show ?thesis
        using bounds_back [OF st b] by (simp add: s' in_bounds_def cache_keeps)
    next
      case (Note env r)
      with st b show ?thesis by (auto simp: pt_step_Note in_bounds_def intro: note_service [OF ok])
    next
      case (ReadStreaks ord e)
      with st have "s' = (fst s, snd (era_service_streak cfg ord e (snd s)))" by (cases s) auto
      then show ?thesis by (intro service_same [OF ok]) (simp_all add: streak_keeps service_okD(1) [OF ok])
    next
      case (ClearEra e)
      with st have "s' = (fst s, clear_era e (snd s))" by (cases s) auto
      with ClearEra op show ?thesis
        by (intro service_same [OF ok]) (simp_all add: clear_era_def service_okD(1) [OF ok])
    qed
  qed
qed

lemma service_reachable:
  assumes "list_all (\<lambda>op. op \<noteq> ClearEra era) ops" "0 < pc_epoch_length cfg" "0 < pc_era_length cfg"
    and "in_bounds (run_calls (pt_step cfg) ops (0, empty_participation))"
  shows "service_ok cfg era (fst (run_calls (pt_step cfg) ops (0, empty_participation)))
     (snd (run_calls (pt_step cfg) ops (0, empty_participation)))"
proof -
  have "service_inv cfg era (0, empty_participation)"
    by (simp add: service_inv_def service_ok_def empty_participation_def)
  from service_kept.run_inv [OF assms(1) this] assms(2-4) show ?thesis by (simp add: service_inv_def)
qed

section \<open>Streaks\<close>

text \<open>The sets of accounts that served the eras read so far, and how many of the last ones hold \<open>who\<close>.\<close>

fun served :: "pt_config \<Rightarrow> pt_op list \<Rightarrow> nat \<times> participation \<Rightarrow> key set list" where
  "served cfg [] s = []"
| "served cfg (op # ops) s =
     (case op of ReadStreaks ord era \<Rightarrow> [dom (era_acc (snd s) era)] | _ \<Rightarrow> [])
       @ served cfg ops (apply_call (pt_step cfg op) s)"

definition trailing :: "key \<Rightarrow> key set list \<Rightarrow> nat" where
  "trailing who ss = length (takeWhile (\<lambda>S. who \<in> S) (rev ss))"

definition streak_is :: "pt_config \<Rightarrow> key set list \<Rightarrow> participation \<Rightarrow> bool" where
  "streak_is cfg ss st = (\<forall>who. consecutive st who
     = (if trailing who ss = 0 then None else Some (min (trailing who ss) (max (pc_max_streak cfg) 1))))"

definition finite_eras :: "participation \<Rightarrow> bool" where
  "finite_eras st = ((\<forall>e. finite (dom (authored st e)) \<and> finite (dom (fin_votes st e)) \<and> finite (dom (era_acc st e))))"

fun lists_keys :: "pt_op \<Rightarrow> bool" where
  "lists_keys (ReadStreaks ord era) = (\<forall>m. finite (dom m) \<longrightarrow> set (ord m) = dom m)"
| "lists_keys _ = True"

lemma trailing_snoc: "trailing who (ss @ [S]) = (if who \<in> S then Suc (trailing who ss) else 0)"
  by (simp add: trailing_def)

lemma scan_vote_finite: "finite (dom (vs_votes s)) \<Longrightarrow> finite (dom (vs_votes (scan_vote cfg env st c v s)))"
  by (simp add: scan_vote_def Let_def)

lemma fold_scan_finite: "finite (dom (vs_votes s)) \<Longrightarrow> finite (dom (vs_votes (fold (scan_vote cfg env st c) vs s)))"
  by (induction vs arbitrary: s) (simp_all add: scan_vote_finite)

lemma note_finite:
  assumes "finite_eras st" "note_participation cfg env n r st = Inr st'"
  shows "finite_eras st'"
proof -
  have "finite (dom (vs_votes (scanned cfg env st (pr_finality_votes r))))"
    using assms(1) by (simp add: scanned_def scan_start_def fold_scan_finite finite_eras_def)
  with assms(1) show ?thesis by (simp add: finite_eras_def note_effect [OF assms(2)])
qed

lemma hook_finite: "finite_eras st \<Longrightarrow> finite_eras (pt_on_initialize cfg env n st)"
proof -
  assume f: "finite_eras st"
  have "finite_eras (roll_up st' e era)" if "finite_eras st'" for st' e era
  proof -
    have "dom (era_acc (roll_up st' e era) era)
        \<subseteq> dom (authored st' e) \<union> dom (fin_votes st' e) \<union> dom (era_acc st' era)"
      by (auto simp: roll_up_def service_of_def split: option.splits)
    then have "finite (dom (era_acc (roll_up st' e era) era))"
      by (rule finite_subset) (use that in \<open>simp add: finite_eras_def\<close>)
    moreover have "era_acc (roll_up st' e era) x = era_acc st' x" if "x \<noteq> era" for x
      using that by (simp add: roll_up_def)
    ultimately show ?thesis using that unfolding finite_eras_def by (metis roll_up_keeps(1,2))
  qed
  note r = this
  have "finite_eras (cache_committee cfg env n (st\<lparr>noted := False, block_author := None\<rparr>))"
    using f by (simp add: finite_eras_def cache_keeps)
  then show ?thesis
    using r unfolding pt_on_initialize_def fold_epoch_def Let_def by (auto simp: finite_eras_def)
qed

lemma read_streaks:
  assumes "streak_is cfg ss st" "set (ord (era_acc st era)) = dom (era_acc st era)" "pc_max_streak cfg < u32_max"
  shows "streak_is cfg (ss @ [dom (era_acc st era)]) (snd (era_service_streak cfg ord era st))"
  unfolding streak_is_def
proof
  fix who
  let ?c = "max (pc_max_streak cfg) 1"
  have served: "fst ` set (map (\<lambda>(who, w). (who, w, next_era_streak cfg who st)) (era_service ord era st))
      = dom (era_acc st era)"
    using assms(2) by (force simp: era_service_def)
  have c: "consecutive (snd (era_service_streak cfg ord era st)) who
      = (if who \<in> dom (era_acc st era) then Some (next_era_streak cfg who st) else None)"
    by (simp only: era_service_streak_def Let_def snd_conv served) simp
  have "?c < u32_max" using assms(3) by (simp add: u32_max_def)
  then have "next_era_streak cfg who st = min (Suc (trailing who ss)) ?c"
    using assms(1) by (auto simp: next_era_streak_def streak_is_def sat_add_def)
  then show "consecutive (snd (era_service_streak cfg ord era st)) who
      = (if trailing who (ss @ [dom (era_acc st era)]) = 0 then None
         else Some (min (trailing who (ss @ [dom (era_acc st era)])) ?c))"
    by (simp add: c trailing_snoc)
qed

lemma streaks_run:
  assumes "list_all lists_keys ops" "pc_max_streak cfg < u32_max" "finite_eras (snd s)" "streak_is cfg ss (snd s)"
  shows "streak_is cfg (ss @ served cfg ops s) (snd (run_calls (pt_step cfg) ops s))"
  using assms
proof (induction ops arbitrary: s ss)
  case (Cons op ops)
  obtain n st where s: "s = (n, st)" by (cases s)
  show ?case
  proof (cases op)
    case (Note env r)
    show ?thesis
    proof (cases "note_participation cfg env n r st")
      case (Inl e)
      with Note Cons.IH [of s ss] Cons.prems show ?thesis by (simp add: s apply_call_def)
    next
      case (Inr st')
      with Note Cons.IH [of "(n, st')" ss] Cons.prems note_finite [OF _ Inr] note_effect(8) [OF Inr] show ?thesis
        by (simp add: s streak_is_def)
    qed
  next
    case (BeginBlock env)
    with Cons.IH [of "(n + 1, pt_on_initialize cfg env (n + 1) st)" ss] Cons.prems show ?thesis
      by (simp add: s streak_is_def hook_keeps hook_finite)
  next
    case (ClearEra era)
    have "finite_eras (clear_era era st)" using Cons.prems by (simp add: s finite_eras_def clear_era_def)
    with ClearEra Cons.IH [of "(n, clear_era era st)" ss] Cons.prems show ?thesis
      by (simp add: s streak_is_def clear_era_def)
  next
    case (ReadStreaks ord era)
    let ?st = "snd (era_service_streak cfg ord era st)"
    have "finite_eras ?st" using Cons.prems(3) by (simp add: s finite_eras_def streak_keeps)
    moreover have "streak_is cfg (ss @ [dom (era_acc st era)]) ?st"
    proof (rule read_streaks)
      show "streak_is cfg ss st" "pc_max_streak cfg < u32_max" using Cons.prems by (simp_all add: s)
      show "set (ord (era_acc st era)) = dom (era_acc st era)"
        using Cons.prems ReadStreaks by (simp add: s finite_eras_def)
    qed
    ultimately show ?thesis
      using Cons.IH [of "(n, ?st)" "ss @ [dom (era_acc st era)]"] Cons.prems ReadStreaks by (simp add: s)
  qed
qed simp

section \<open>Committees\<close>

definition envs_of :: "pt_op list \<Rightarrow> pt_env list" where
  "envs_of ops = List.map_filter (\<lambda>op. case op of BeginBlock env \<Rightarrow> Some env | _ \<Rightarrow> None) ops"

text \<open>The committee of epoch \<open>ce\<close> after the blocks begun with \<open>envs\<close>: the one elected at the first of its blocks.\<close>

definition seated_at :: "pt_config \<Rightarrow> pt_env list \<Rightarrow> nat \<Rightarrow> key list option" where
  "seated_at cfg envs ce =
     (let now = length envs div pc_committee_epoch cfg in
      if envs \<noteq> [] \<and> ce \<le> now \<and> now < ce + 4
      then Some (build_committee cfg (envs ! (max 1 (ce * pc_committee_epoch cfg) - 1)) ce) else None)"

definition seats_ok :: "pt_config \<Rightarrow> pt_env list \<Rightarrow> nat \<times> participation \<Rightarrow> bool" where
  "seats_ok cfg envs s = (fst s = length envs \<and> (\<forall>ce. committees (snd s) ce = seated_at cfg envs ce))"

lemma hook_committees:
  "committees (pt_on_initialize cfg env n st) = committees (cache_committee cfg env n st)"
  by (simp add: pt_on_initialize_def cache_committee_def fold_epoch_def roll_up_def Let_def)

lemma seats_begin:
  assumes ok: "seats_ok cfg envs (n, st)" and two: "2 \<le> pc_committee_epoch cfg"
  shows "seats_ok cfg (envs @ [env]) (n + 1, pt_on_initialize cfg env (n + 1) st)"
proof -
  let ?C = "pc_committee_epoch cfg"
  let ?d = "Suc n div ?C"
  have n: "n = length envs" and c: "committees st = seated_at cfg envs" using ok by (auto simp: seats_ok_def)
  have old: "seated_at cfg (envs @ [env]) ce = seated_at cfg envs ce"
    if "envs \<noteq> []" "ce \<le> n div ?C" "?d = n div ?C \<or> ?d < ce + 4" for ce
  proof -
    have "ce * ?C \<le> n" using that(2) by (meson div_times_less_eq_dividend le_trans mult_le_mono1)
    then have "max 1 (ce * ?C) - 1 < length envs" using that(1) n by (cases envs) (auto simp: max_def)
    with that n show ?thesis
      by (auto simp: seated_at_def nth_append Let_def div_Suc split: if_splits)
  qed
  have new: "seated_at cfg (envs @ [env]) ?d = Some (build_committee cfg env ?d)"
    if "Suc n mod ?C = 0 \<or> n = 0"
  proof -
    have "max 1 (?d * ?C) - 1 = n"
      using that two by (cases "n = 0") (auto simp: dvd_eq_mod_eq_0 [symmetric])
    then show ?thesis using n by (simp add: seated_at_def Let_def nth_append)
  qed
  have "committees (cache_committee cfg env (Suc n) st) ce = seated_at cfg (envs @ [env]) ce" for ce
  proof (cases "Suc n mod ?C = 0 \<or> n = 0")
    case True
    have d: "?d = (if n = 0 then 0 else Suc (n div ?C))" using True two by (auto simp: div_Suc)
    have cc: "committees (cache_committee cfg env (Suc n) st)
        = (if ?d \<ge> 4 then ((committees st)(?d \<mapsto> build_committee cfg env ?d))(?d - 4 := None)
           else (committees st)(?d \<mapsto> build_committee cfg env ?d))"
      using True d n by (auto simp: cache_committee_def c seated_at_def Let_def)
    show ?thesis
    proof (cases "ce = ?d")
      case True
      have "4 \<le> ?d \<Longrightarrow> ?d \<noteq> ?d - 4" by linarith
      with True show ?thesis using new \<open>Suc n mod ?C = 0 \<or> n = 0\<close> by (auto simp: cc)
    next
      case False
      then have "committees (cache_committee cfg env (Suc n) st) ce
          = (if ?d \<ge> 4 \<and> ce = ?d - 4 then None else seated_at cfg envs ce)" by (simp add: cc c)
      moreover have "seated_at cfg (envs @ [env]) ce = (if ?d \<ge> 4 \<and> ce = ?d - 4 then None else seated_at cfg envs ce)"
      proof (cases "envs \<noteq> [] \<and> ce \<le> n div ?C \<and> ?d < ce + 4")
        case True
        then show ?thesis using old [of ce] by auto
      next
        case out: False
        then show ?thesis using False d n by (auto simp: seated_at_def Let_def split: if_splits)
      qed
      ultimately show ?thesis by simp
    qed
  next
    case False
    then have d: "?d = n div ?C" and ne: "envs \<noteq> []" using n by (auto simp: div_Suc)
    have "committees st ?d \<noteq> None" unfolding d using ne n by (simp add: c seated_at_def Let_def)
    then have "committees (cache_committee cfg env (Suc n) st) = committees st"
      using False by (auto simp: cache_committee_def Let_def)
    moreover have "seated_at cfg (envs @ [env]) ce = seated_at cfg envs ce"
      using old [of ce] d ne n by (cases "ce \<le> n div ?C") (auto simp: seated_at_def Let_def)
    ultimately show ?thesis by (simp add: c)
  qed
  then show ?thesis by (simp add: seats_ok_def hook_committees n)
qed

lemma seats_run:
  assumes "2 \<le> pc_committee_epoch cfg"
  shows "seats_ok cfg envs s \<Longrightarrow> seats_ok cfg (envs @ envs_of ops) (run_calls (pt_step cfg) ops s)"
proof (induction ops arbitrary: s envs)
  case Nil
  then show ?case by (simp add: envs_of_def List.map_filter_simps)
next
  case (Cons op ops)
  obtain n st where s: "s = (n, st)" by (cases s)
  show ?case
  proof (cases op)
    case (BeginBlock env)
    from Cons.IH [OF seats_begin [OF Cons.prems [unfolded s] assms, of env]] show ?thesis
      by (simp add: BeginBlock s envs_of_def List.map_filter_simps)
  next
    case (Note env r)
    have "seats_ok cfg envs (apply_call (pt_step cfg op) s)"
    proof (cases "note_participation cfg env n r st")
      case (Inr st')
      with Cons.prems Note note_effect(6) [OF Inr] show ?thesis by (simp add: s seats_ok_def)
    qed (use Cons.prems Note in \<open>simp add: s apply_call_def\<close>)
    from Cons.IH [OF this] show ?thesis by (simp add: Note envs_of_def List.map_filter_simps)
  next
    case (ReadStreaks ord era)
    have "seats_ok cfg envs (apply_call (pt_step cfg op) s)"
      using Cons.prems by (simp add: ReadStreaks s seats_ok_def streak_keeps)
    from Cons.IH [OF this] show ?thesis by (simp add: ReadStreaks envs_of_def List.map_filter_simps)
  next
    case (ClearEra era)
    have "seats_ok cfg envs (apply_call (pt_step cfg op) s)"
      using Cons.prems by (simp add: ClearEra s seats_ok_def clear_era_def)
    from Cons.IH [OF this] show ?thesis by (simp add: ClearEra envs_of_def List.map_filter_simps)
  qed
qed

lemma seats_reachable:
  "2 \<le> pc_committee_epoch cfg \<Longrightarrow> seats_ok cfg (envs_of ops) (run_calls (pt_step cfg) ops (0, empty_participation))"
  using seats_run [of cfg "[]" "(0, empty_participation)" ops]
  by (simp add: seats_ok_def seated_at_def empty_participation_def)

lemma committee_bound: "who \<in> set (build_committee cfg env ce) \<Longrightarrow>
    who \<in> set (pe_bound env) \<and> (\<exists>r. (who, r) \<in> set (pe_reputation env) \<and> 0 < r) \<and> \<not> pe_halted env"
proof -
  let ?E = "elect_finality_committee (pe_reputation env) (pe_bound env) (pe_committed env) (pe_beacon env)
    (ce mod 2 ^ 32) (pc_committee_tau cfg) FINALITY_COMMITTEE_SEED (pe_halted env)"
  assume "who \<in> set (build_committee cfg env ce)"
  then have "who \<in> set (sorted_list_of_set ?E)" unfolding build_committee_def by (rule in_set_takeD)
  then have "who \<in> ?E" by (cases "finite ?E") simp_all
  from finality_member [OF this] show ?thesis by blast
qed

section \<open>What one vote can do\<close>

lemma cursor_mono:
  assumes "pt_step cfg op s = Inr s'"
  shows "last_credited (snd s) \<le> last_credited (snd s')
    \<and> (\<exists>later. votes_in (pt_log (snd s')) = votes_in (pt_log (snd s)) @ later \<and> (\<forall>(h, who) \<in> set later. last_credited (snd s) < h))"
proof (cases op)
  case (Note env r)
  with assms have n: "note_participation cfg env (fst s) r (snd s) = Inr (snd s')" by (simp add: pt_step_Note)
  show ?thesis
    using vs_max_ge [of "snd s" cfg env "pr_finality_votes r"] seen_heights [of _ _ cfg env "snd s" "pr_finality_votes r"]
    by (auto simp: note_effect(4,9) [OF n] note_votes)
qed (use assms in \<open>(cases s; auto simp: hook_keeps streak_keeps clear_era_def)+\<close>)

lemma cursor_run:
  "last_credited (snd s) \<le> last_credited (snd (run_calls (pt_step cfg) ops s))
    \<and> (\<exists>later. votes_in (pt_log (snd (run_calls (pt_step cfg) ops s))) = votes_in (pt_log (snd s)) @ later
         \<and> (\<forall>(h, who) \<in> set later. last_credited (snd s) < h))"
proof (induction ops arbitrary: s)
  case (Cons op ops)
  show ?case
  proof (cases "pt_step cfg op s")
    case (Inl e)
    with Cons.IH [of s] show ?thesis by simp
  next
    case (Inr s')
    from Cons.IH [of s'] obtain later where l: "last_credited (snd s') \<le> last_credited (snd (run_calls (pt_step cfg) ops s'))"
      "votes_in (pt_log (snd (run_calls (pt_step cfg) ops s'))) = votes_in (pt_log (snd s')) @ later"
      "\<forall>(h, who) \<in> set later. last_credited (snd s') < h" by blast
    from cursor_mono [OF Inr] obtain mid where m: "last_credited (snd s) \<le> last_credited (snd s')"
      "votes_in (pt_log (snd s')) = votes_in (pt_log (snd s)) @ mid" "\<forall>(h, who) \<in> set mid. last_credited (snd s) < h" by blast
    from l m Inr show ?thesis by (auto intro!: exI [of _ "mid @ later"])
  qed
qed simp

text \<open>
  The pallet does not ask whether a vote's height is final or its hash canonical: one valid vote of a seated member, for
  any hash and for a height still to come in the epoch, takes the cursor there, and no vote for a
  height up to it is ever credited again.
\<close>

lemma one_vote_silences_epoch:
  assumes "note_participation cfg env n r st = Inr st'" "v \<in> set (pr_finality_votes r)" "creditable cfg env st v"
    and "length (pr_finality_votes r) \<le> MAX_VOTES_CHECKED_PER_RECORD"
  shows "\<exists>later. votes_in (pt_log (snd (run_calls (pt_step cfg) ops (n, st')))) = votes_in (pt_log st') @ later
    \<and> (\<forall>(h, who) \<in> set later. sv_height v < h)"
proof -
  let ?s = "scanned cfg env st (pr_finality_votes r)"
  have "vote_mark env v \<in> set (vs_seen ?s)"
    using scanned_ok [of cfg env st "pr_finality_votes r"] assms(2-4) by (auto simp: scan_ok_def)
  then have "sv_height v \<le> last_credited st'"
    using seen_heights [of "sv_height v" _ cfg env st "pr_finality_votes r"]
    by (simp add: vote_mark_def note_effect(9) [OF assms(1)])
  with cursor_run [of "(n, st')" cfg ops] show ?thesis by (force intro: le_less_trans)
qed

section \<open>A running example\<close>

text \<open>
  One account with a node, \<open>[1]\<close>, voting with the hot key \<open>[7]\<close>. With the mainnet's \<open>tau\<close> it is elected whatever its draw:
  the CDF of its Poisson law is zero at zero.
\<close>

definition demo_pt :: pt_config where
  "demo_pt = \<lparr>pc_epoch_length = 2, pc_era_length = 4, pc_max_committee = 64, pc_max_streak = 3, pc_committee_epoch = 10,
     pc_committee_tau = 60, pc_flavor = 0\<rparr>"

definition demo_node :: pt_env where
  "demo_node = \<lparr>pe_reputation = [([1], 5)], pe_bound = [[1]], pe_committed = [], pe_beacon = [0], pe_halted = False,
     pe_owner = (\<lambda>k. if k = [7] then Some [1] else None), pe_verify = (\<lambda>k sig m. sig = [9]), pe_genesis = [0]\<rparr>"

definition demo_record :: "nat \<Rightarrow> nat list \<Rightarrow> participation_record" where
  "demo_record n hs = \<lparr>pr_author_key = [7], pr_author_sig = [9],
     pr_finality_votes = map (\<lambda>h. \<lparr>sv_signer = [7], sv_sig = [9], sv_height = h, sv_block_hash = [3]\<rparr>) hs, pr_at_block = n\<rparr>"

lemma demo_committee: "build_committee demo_pt demo_node e = [[1]]"
  by (simp add: build_committee_def demo_pt_def demo_node_def sole_member_elected)

lemma demo_epoch: "pc_committee_epoch demo_pt = 10" by (simp add: demo_pt_def)

lemma demo_step_defs:
  "cache_committee demo_pt demo_node n st =
     (if n mod 10 = 0 \<or> committees st (n div 10) = None
      then st\<lparr>committees := (if n div 10 \<ge> 4 then ((committees st)(n div 10 \<mapsto> [[1]]))(n div 10 - 4 := None)
         else (committees st)(n div 10 \<mapsto> [[1]]))\<rparr> else st)"
  unfolding cache_committee_def demo_committee Let_def demo_epoch ..

definition demo_1 :: participation where
  "demo_1 = empty_participation\<lparr>committees := [0 \<mapsto> [[1]]]\<rparr>"

lemma demo_begin: "pt_on_initialize demo_pt demo_node 1 empty_participation = demo_1"
  by (simp add: pt_on_initialize_def demo_step_defs fold_epoch_def demo_1_def)
    (simp add: empty_participation_def demo_pt_def)

definition demo_2 :: participation where
  "demo_2 = demo_1\<lparr>noted := True, authored := (\<lambda>_. Map.empty)(0 := [[1] \<mapsto> 1]), fin_votes := (\<lambda>_. Map.empty)(0 := [[1] \<mapsto> 1]),
     block_author := Some [1], last_credited := 1,
     pt_log := [CreditedAuthor 0 [1], CreditedVote 0 1 [1], ParticipationNoted 0 (Some [1]) 1]\<rparr>"

lemma demo_member: "is_member demo_pt h who (demo_1\<lparr>noted := b\<rparr>) = (h < 10 \<and> who = [1])"
  by (auto simp: is_member_def demo_1_def demo_epoch split: if_splits)

lemma demo_note: "note_participation demo_pt demo_node 1 (demo_record 1 [1, 1]) demo_1 = Inr demo_2"
  by (simp add: note_participation_def credit_author_def demo_member demo_node_def demo_record_def Let_def)
    (simp add: scan_vote_def MAX_VOTES_CHECKED_PER_RECORD_def is_member_def demo_epoch demo_1_def demo_2_def empty_participation_def Let_def
      sat_add_def u32_max_def)

lemma demo_end: "pt_on_initialize demo_pt demo_node 2 demo_2
    = demo_2\<lparr>noted := False, block_author := None, authored := (\<lambda>_. Map.empty), fin_votes := (\<lambda>_. Map.empty), pt_epoch := 1,
        era_acc := (\<lambda>_. Map.empty)(0 := [[1] \<mapsto> 2])\<rparr>"
proof -
  have "service_of (demo_2\<lparr>noted := False, block_author := None\<rparr>) 0 = [[1] \<mapsto> 2]"
    by (rule ext) (simp add: service_of_def demo_2_def sat_add_def u64_max_def)
  then show ?thesis
    by (simp add: pt_on_initialize_def demo_step_defs fold_epoch_def Let_def)
      (auto simp: roll_up_def demo_pt_def demo_2_def demo_1_def empty_participation_def fun_eq_iff sat_add_def sat_mul_def
        u64_max_def)
qed

definition demo_ops :: "pt_op list" where
  "demo_ops = [BeginBlock demo_node, Note demo_node (demo_record 1 [1, 1]), BeginBlock demo_node]"

lemma demo_run: "run_calls (pt_step demo_pt) demo_ops (0, empty_participation)
    = (2, pt_on_initialize demo_pt demo_node 2 demo_2)"
  by (simp add: demo_ops_def demo_begin [simplified] demo_note [simplified] numeral_2_eq_2)

section \<open>Properties\<close>



text \<open>
  Service is conserved from the block to the era. As long as an era's bucket is not cleared and the types hold the
  counts, what its accumulator holds for an account, plus what the running epoch holds when that epoch
  belongs to the era, is exactly the number of blocks and votes credited to the account in the era's epochs:
  nothing is lost or counted twice at the boundaries, whatever order blocks, inherents and reads come in.
\<close>

theorem era_service_conserved:
  assumes "(n, st) = run_calls (pt_step cfg) ops (0, empty_participation)"
    and "list_all (\<lambda>op. op \<noteq> ClearEra era) ops" "0 < pc_epoch_length cfg" "0 < pc_era_length cfg"
    and "n \<le> u64_max" "length (pt_log st) \<le> u32_max"
  shows "tally_of (era_acc st era) who
      + (if epoch_era cfg (n div pc_epoch_length cfg) = era then service_weight (n div pc_epoch_length cfg) who st else 0)
    = credits (\<lambda>e. epoch_era cfg e = era) who (pt_log st)"
proof -
  have ok: "service_ok cfg era n st"
    using service_reachable [OF assms(2-4)] assms(5,6) by (simp add: in_bounds_def flip: assms(1))
  let ?e = "n div pc_epoch_length cfg"
  have e: "pt_epoch st = ?e" by (rule service_okD(1) [OF ok])
  have w: "service_weight ?e who st = credits (\<lambda>e. e = ?e) who (pt_log st)"
    using service_okD(4) [OF ok, of who] credits_le [of "\<lambda>e. e = ?e" who "pt_log st"] assms(6)
    by (simp add: service_weight_eq small_sums e)
  have "credits (\<lambda>e. epoch_era cfg e = era) who (pt_log st)
      = credits (\<lambda>e. epoch_era cfg e = era \<and> e < ?e) who (pt_log st)
        + credits (\<lambda>e. epoch_era cfg e = era \<and> \<not> e < ?e) who (pt_log st)" by (rule credits_split)
  also have "credits (\<lambda>e. epoch_era cfg e = era \<and> e < ?e) who (pt_log st) = tally_of (era_acc st era) who"
    unfolding service_okD(5) [OF ok] e by (rule credits_cong) auto
  also have "credits (\<lambda>e. epoch_era cfg e = era \<and> \<not> e < ?e) who (pt_log st)
      = (if epoch_era cfg ?e = era then credits (\<lambda>e. e = ?e) who (pt_log st) else 0)"
    using service_okD(3) [OF ok] unfolding e by (force intro!: credits_cong credits_none simp: not_less)
  finally show ?thesis by (simp add: w)
qed

theorem era_service_conserved_witness:
  "tally_of (era_acc (snd (run_calls (pt_step demo_pt) demo_ops (0, empty_participation))) 0) [1] = 2"
  using era_service_conserved [of 2 "snd (run_calls (pt_step demo_pt) demo_ops (0, empty_participation))" demo_pt demo_ops 0 "[1]"]
  unfolding demo_run demo_end
  by (simp add: demo_ops_def demo_pt_def demo_2_def u64_max_def u32_max_def epoch_era_def service_weight_def sat_add_def)

text \<open>
  Endurance is measured exactly. After any history in which eras are read in whatever order, an account's streak is
  the number of last reads in a row whose era it served, capped at \<open>MaxStreak\<close> (at least one), and it has none
  when it did not serve the last era read.
\<close>

theorem streak_counts_consecutive_eras:
  assumes "list_all lists_keys ops" "pc_max_streak cfg < u32_max"
  shows "consecutive (snd (run_calls (pt_step cfg) ops (0, empty_participation))) who
    = (let t = trailing who (served cfg ops (0, empty_participation))
       in if t = 0 then None else Some (min t (max (pc_max_streak cfg) 1)))"
proof -
  have "finite_eras (snd (0, empty_participation))" "streak_is cfg [] (snd (0, empty_participation))"
    by (simp_all add: finite_eras_def streak_is_def trailing_def empty_participation_def)
  from streaks_run [OF assms this] show ?thesis by (simp add: streak_is_def Let_def)
qed

theorem streak_counts_consecutive_eras_witness:
  "consecutive (snd (run_calls (pt_step demo_pt)
     (demo_ops @ [ReadStreaks (\<lambda>m. sorted_list_of_set (dom m)) 0, ReadStreaks (\<lambda>m. sorted_list_of_set (dom m)) 1])
     (0, empty_participation))) [1] = None"
proof -
  have sv: "served cfg (xs @ ys) s = served cfg xs s @ served cfg ys (run_calls (pt_step cfg) xs s)" for cfg xs ys s
    by (induction xs arbitrary: s) simp_all
  have e: "era_acc (pt_on_initialize demo_pt demo_node 2 demo_2) 1 = Map.empty"
    by (simp add: demo_end)
  have "trailing [1] (served demo_pt (demo_ops @ [ReadStreaks (\<lambda>m. sorted_list_of_set (dom m)) 0,
      ReadStreaks (\<lambda>m. sorted_list_of_set (dom m)) 1]) (0, empty_participation)) = 0"
    by (simp add: sv demo_run e [simplified] streak_keeps trailing_def)
  moreover have "list_all lists_keys (demo_ops @ [ReadStreaks (\<lambda>m. sorted_list_of_set (dom m)) 0,
      ReadStreaks (\<lambda>m. sorted_list_of_set (dom m)) 1])" by (simp add: demo_ops_def)
  ultimately show ?thesis
    using streak_counts_consecutive_eras [of "demo_ops @ [ReadStreaks (\<lambda>m. sorted_list_of_set (dom m)) 0,
      ReadStreaks (\<lambda>m. sorted_list_of_set (dom m)) 1]" demo_pt "[1]"]
    by (simp add: demo_pt_def u32_max_def Let_def)
qed

text \<open>
  A committee is elected once, at the first block of its epoch, and never redrawn. After any history, an account counts
  as a member for a height exactly when the height's committee epoch is the running one or one of the three before it and
  the election at that epoch's first block (block 1 for epoch 0) seated it, whatever the reputation, beacon and bindings
  have become since; and only accounts with a node bound and positive reputation at that block are seated, none while
  the chain was halted.
\<close>

theorem committee_fixed_at_epoch_start:
  assumes "(n, st) = run_calls (pt_step cfg) ops (0, empty_participation)" "2 \<le> pc_committee_epoch cfg"
    and "ce = h div pc_committee_epoch cfg" "now = n div pc_committee_epoch cfg"
    and "env = envs_of ops ! (max 1 (ce * pc_committee_epoch cfg) - 1)"
  shows "n = length (envs_of ops)
    \<and> is_member cfg h who st = (0 < n \<and> ce \<le> now \<and> now < ce + 4 \<and> who \<in> set (build_committee cfg env ce))
    \<and> (is_member cfg h who st \<longrightarrow> who \<in> set (pe_bound env) \<and> (\<exists>r. (who, r) \<in> set (pe_reputation env) \<and> 0 < r)
         \<and> \<not> pe_halted env)"
proof -
  have ok: "seats_ok cfg (envs_of ops) (n, st)"
    using seats_reachable [OF assms(2), of ops] by (simp flip: assms(1))
  then have n: "n = length (envs_of ops)" by (simp add: seats_ok_def)
  have "committees st ce = (if 0 < n \<and> ce \<le> now \<and> now < ce + 4 then Some (build_committee cfg env ce) else None)"
    using ok by (simp add: seats_ok_def seated_at_def Let_def assms(4,5) n)
  then have "is_member cfg h who st = (0 < n \<and> ce \<le> now \<and> now < ce + 4 \<and> who \<in> set (build_committee cfg env ce))"
    by (auto simp: is_member_def simp flip: assms(3) split: if_splits)
  with n committee_bound [of who cfg env ce] show ?thesis by blast
qed

theorem committee_fixed_at_epoch_start_witness:
  "is_member demo_pt 7 [1] (snd (run_calls (pt_step demo_pt) demo_ops (0, empty_participation)))
    \<and> \<not> is_member demo_pt 17 [1] (snd (run_calls (pt_step demo_pt) demo_ops (0, empty_participation)))"
  using committee_fixed_at_epoch_start [of 2 "snd (run_calls (pt_step demo_pt) demo_ops (0, empty_participation))" demo_pt demo_ops 0 7 0
      demo_node "[1]"]
    committee_fixed_at_epoch_start [of 2 "snd (run_calls (pt_step demo_pt) demo_ops (0, empty_participation))" demo_pt demo_ops 1 17 0
      "envs_of demo_ops ! 9" "[1]"]
  unfolding demo_run by (simp add: demo_epoch demo_committee) (simp add: demo_ops_def envs_of_def List.map_filter_simps)

end
