(* ===== verification/SignedMessages.thy ===== *)
theory SignedMessages
imports ParticipationPallet HostingPallet
begin

text \<open>
  The three messages a node's hot key signs for the chain (votes and authorship in \<open>ParticipationPallet\<close>, beats in
  \<open>HostingPallet\<close>): their layout loses nothing and no message of one kind is one of another.
\<close>

text \<open>Reading little-endian bytes.\<close>

fun le_value :: "byte list \<Rightarrow> nat" where
  "le_value [] = 0"
| "le_value (b # bs) = unat b + 256 * le_value bs"

lemma le_value_append: "le_value (xs @ ys) = le_value xs + 256 ^ length xs * le_value ys"
  by (induction xs) (simp_all add: algebra_simps)

lemma byte_at: "unat (ucast (drop_bit k w) :: byte) = unat w div 2 ^ k mod 256"
  for w :: "'a :: len word"
proof -
  have "unat (ucast (drop_bit k w) :: byte) = take_bit 8 (drop_bit k (unat w))"
    by (simp add: unsigned_ucast_eq unsigned_drop_bit_eq unsigned_take_bit_eq [symmetric] del: take_bit_drop_bit)
  then show ?thesis by (simp add: take_bit_eq_mod drop_bit_eq_div)
qed

lemma le_value_bytes: "le_value (map (\<lambda>i. ucast (drop_bit (8 * i) w)) [0..<k]) = unat w mod 2 ^ (8 * k)"
  for w :: "'a :: len word"
proof (induction k)
  case (Suc k)
  have "unat w mod (2 ^ (8 * k) * 256) = unat w mod 2 ^ (8 * k) + 2 ^ (8 * k) * (unat w div 2 ^ (8 * k) mod 256)"
    by (simp add: mod_mult2_eq)
  moreover have "(256 :: nat) ^ k = 2 ^ (8 * k)" by (simp add: power_mult)
  moreover have "(2 :: nat) ^ (8 * Suc k) = 2 ^ (8 * k) * 256" by (simp add: power_add)
  ultimately show ?case using Suc by (simp add: le_value_append byte_at)
qed simp

lemma le_value_le64: "n < 2 ^ 64 \<Longrightarrow> le_value (to_le64 n) = n"
proof -
  assume "n < 2 ^ 64"
  moreover have "to_le64 n = map (\<lambda>i. ucast (drop_bit (8 * i) (of_nat n :: 64 word))) [0..<8]"
    by (simp add: to_le64_def to_be64_def rev_map)
  ultimately show ?thesis using le_value_bytes [of "of_nat n :: 64 word" 8] by (simp add: unat_of_nat)
qed

lemma le_value_le32: "le_value (to_le32 w) = unat w"
proof -
  have "to_le32 w = map (\<lambda>i. ucast (drop_bit (8 * i) w)) [0..<4]"
    by (simp add: to_le32_def upt_rec)
  moreover have "unat w < 2 ^ 32" using unsigned_less [of w] by simp
  ultimately show ?thesis using le_value_bytes [of w 4] by simp
qed

lemma label_lengths: "length VOTE_DOMAIN_V2 = 16" "length HEARTBEAT_LABEL = 16" "length (to_le64 n) = 8" "length (to_le32 w) = 4"
  by (simp_all add: VOTE_DOMAIN_V2_def HEARTBEAT_LABEL_def bytes_of_def to_le64_def to_le32_def)

text \<open>
  C28: what a hot key signs means one thing. Taking a finality vote's message apart at its documented offsets gives back
  the build flavor, the genesis hash, the height and the block hash; a beat's gives back the key, the block pointed at and its
  hash; an author's the block number; and no message of one kind is a message of another, so a signature for one
  can never be used as the other.
\<close>

theorem signed_messages_decode:
  fixes genesis hot hsh block_hash :: "byte list" and height n :: nat and cfg :: pt_config and at :: w32
  assumes "length genesis = 32" "height < 2 ^ 64" "length hot = 32" "n < 2 ^ 64"
  defines "vote \<equiv> signed_message cfg genesis height block_hash" and "beat \<equiv> heartbeat_message hot at hsh"
  shows "vote ! 16 = pc_flavor cfg \<and> take 32 (drop 17 vote) = genesis \<and> le_value (take 8 (drop 49 vote)) = height
      \<and> drop 57 vote = block_hash
    \<and> take 32 (drop 16 beat) = hot \<and> le_value (take 4 (drop 48 beat)) = unat at \<and> drop 52 beat = hsh
    \<and> le_value (drop 20 (author_message n)) = n
    \<and> vote \<noteq> beat \<and> vote \<noteq> author_message n \<and> beat \<noteq> author_message n"
proof -
  have v: "vote = VOTE_DOMAIN_V2 @ pc_flavor cfg # genesis @ to_le64 height @ block_hash"
    by (simp add: vote_def signed_message_def)
  have b: "beat = HEARTBEAT_LABEL @ hot @ to_le32 at @ hsh" by (simp add: beat_def heartbeat_message_def)
  have t: "take 16 vote = VOTE_DOMAIN_V2" "take 16 beat = HEARTBEAT_LABEL" by (simp_all add: v b label_lengths)
  have a: "take 16 (author_message n) = bytes_of ''harlequin-author''" "drop 20 (author_message n) = to_le64 n"
    by (simp_all add: author_message_def bytes_of_def)
  have "VOTE_DOMAIN_V2 \<noteq> HEARTBEAT_LABEL" "VOTE_DOMAIN_V2 \<noteq> bytes_of ''harlequin-author''"
    "HEARTBEAT_LABEL \<noteq> bytes_of ''harlequin-author''"
    by (simp_all add: VOTE_DOMAIN_V2_def HEARTBEAT_LABEL_def bytes_of_def)
  then have "vote \<noteq> beat" "vote \<noteq> author_message n" "beat \<noteq> author_message n" using t a(1) by metis+
  moreover have "vote ! 16 = pc_flavor cfg" "take 32 (drop 17 vote) = genesis" "take 8 (drop 49 vote) = to_le64 height"
      "drop 57 vote = block_hash"
    using assms(1) by (simp_all add: v nth_append label_lengths)
  moreover have "take 32 (drop 16 beat) = hot" "take 4 (drop 48 beat) = to_le32 at" "drop 52 beat = hsh"
    using assms(3) by (simp_all add: b label_lengths)
  ultimately show ?thesis using a(2) assms(2,4) by (simp add: le_value_le64 le_value_le32)
qed

theorem signed_messages_decode_witness:
  "le_value (take 8 (drop 49 (signed_message \<lparr>pc_epoch_length = 2, pc_era_length = 4, pc_max_committee = 64, pc_max_streak = 3,
      pc_committee_epoch = 10, pc_committee_tau = 60, pc_flavor = 1\<rparr> (replicate 32 5) 300 [7]))) = 300
    \<and> heartbeat_message (replicate 32 1) 9 [7] \<noteq> author_message 9"
  using signed_messages_decode [of "replicate 32 5" 300 "replicate 32 1" 9 _ "[7]" 9 "[7]"] by simp

end
