(* ===== verification/ReputationEngine.thy ===== *)
theory ReputationEngine
imports Vouch "HOL-Library.AList"
begin

text \<open>
  The reputation engine, \<open>chain/reputation-core/src/lib.rs\<close>: EigenTrust with damping in fixed point, as the runtime
  runs it each epoch (\<open>reputation_dimension_fully_fixed_fp\<close>).

  A trust graph gives for each dimension and node its outgoing edges, a list of (target, weight) with each target
  once, as a \<open>BTreeMap\<close>; the weights are sums of \<open>u32\<close> vouches, which \<open>f64\<close> adds exactly. The remaining \<open>f64\<close>
  steps, all before the fixed point begins, are the record \<open>quantiser\<close>: \<open>q_weight\<close> is \<open>to_fp\<close> of a
  weight, \<open>q_sum\<close> of the sum of an agent's evidence, \<open>q_pre\<close> of an agent's share of the dimension's
  evidence (\<open>pretrust\<close>). The order of an exact integer sum is not modelled; everything else follows
  the code's loops. Plain \<open>i128\<close> additions do not overflow for values of this size and are \<open>int\<close> additions.
\<close>

section \<open>Fixed point\<close>

definition i128_sat_add :: "int \<Rightarrow> int \<Rightarrow> int" where
  "i128_sat_add a b = max i128_min (min i128_max (a + b))"

definition i128_fp_div :: "int \<Rightarrow> int \<Rightarrow> int" where
  "i128_fp_div a b = i128_sat_mul a FP_SCALE sdiv b"

record quantiser =
  q_weight :: "nat \<Rightarrow> int"
  q_sum :: "nat list \<Rightarrow> int"
  q_pre :: "nat list \<Rightarrow> nat \<Rightarrow> int"

record engine_params =
  ep_alpha :: int
  ep_iterations :: nat
  ep_damping :: bool
  ep_community :: bool
  ep_in_concentration :: bool
  ep_beta :: int
  ep_gamma :: int
  ep_kappa :: int
  ep_mu :: int
  ep_k0 :: int
  ep_rho :: int

text \<open>The defaults, with the two options the pallet turns on.\<close>

definition pallet_params :: engine_params where
  "pallet_params = \<lparr>ep_alpha = 300000000, ep_iterations = 200, ep_damping = True, ep_community = True,
     ep_in_concentration = True, ep_beta = 4000000000, ep_gamma = 4000000000, ep_kappa = 500000000, ep_mu = 8000000000,
     ep_k0 = 26000000000, ep_rho = 2000000000\<rparr>"

section \<open>The trust graph\<close>

type_synonym 'k edges = "'k \<Rightarrow> ('k \<times> nat) list"

type_synonym ('d, 'k) trust_graph = "'d \<Rightarrow> 'k edges"

definition graph_new :: "('d, 'k) trust_graph" where
  "graph_new = (\<lambda>_ _. [])"

definition graph_attest :: "'k \<Rightarrow> 'k \<Rightarrow> 'd \<Rightarrow> nat \<Rightarrow> ('d, 'k) trust_graph \<Rightarrow> ('d, 'k) trust_graph" where
  "graph_attest source target dim weight g =
     (if source = target then g
      else g(dim := (g dim)(source := AList.map_default target weight (\<lambda>w. w + weight) (g dim source))))"

definition out_neighbors :: "'k edges \<Rightarrow> 'k \<Rightarrow> 'k list" where
  "out_neighbors out node = map fst (out node)"

definition has_edge :: "'k edges \<Rightarrow> 'k \<Rightarrow> 'k \<Rightarrow> bool" where
  "has_edge out source target = (target \<in> set (out_neighbors out source))"

definition independence_fp :: "'k edges \<Rightarrow> int \<Rightarrow> int \<Rightarrow> 'k \<Rightarrow> 'k \<Rightarrow> int" where
  "independence_fp out beta gamma i j =
     (let reciprocal = (if has_edge out j i then FP_SCALE else 0);
          ni = filter (\<lambda>x. x \<noteq> j) (out_neighbors out i);
          nj = filter (\<lambda>x. x \<noteq> i) (out_neighbors out j);
          inter = int (length (filter (\<lambda>x. x \<in> set nj) ni));
          un = int (length (fold (\<lambda>x u. if x \<in> set u then u else u @ [x]) nj ni));
          overlap = (if un > 0 then inter * FP_SCALE sdiv un else 0);
          denom = FP_SCALE + i128_fp_mul beta reciprocal + i128_fp_mul gamma overlap
      in i128_fp_div FP_SCALE denom)"

section \<open>Communities\<close>

text \<open>The undirected neighbours of a node among \<open>nodes\<close>, in order.\<close>

definition adjacent :: "'k edges \<Rightarrow> 'k :: linorder list \<Rightarrow> 'k \<Rightarrow> 'k list" where
  "adjacent out nodes n =
     filter (\<lambda>m. n \<in> set nodes \<and> (has_edge out n m \<or> has_edge out m n)) (remdups (sort nodes))"

definition label_count :: "('k \<Rightarrow> 'k) \<Rightarrow> 'k list \<Rightarrow> 'k \<Rightarrow> nat" where
  "label_count label neigh l = length (filter (\<lambda>m. label m = l) neigh)"

definition best_label :: "('k :: linorder \<Rightarrow> 'k) \<Rightarrow> 'k list \<Rightarrow> 'k option" where
  "best_label label neigh =
     fold (\<lambda>k best. case best of
             None \<Rightarrow> Some k
           | Some b \<Rightarrow> if label_count label neigh k > label_count label neigh b then Some k else best)
       (remdups (sort (map label neigh))) None"

definition relabel :: "'k edges \<Rightarrow> 'k :: linorder list \<Rightarrow> 'k \<Rightarrow> ('k \<Rightarrow> 'k) \<times> bool \<Rightarrow> ('k \<Rightarrow> 'k) \<times> bool" where
  "relabel out nodes n = (\<lambda>(label, changed).
     case best_label label (adjacent out nodes n) of
       None \<Rightarrow> (label, changed)
     | Some b \<Rightarrow> if label n \<noteq> b then (label(n := b), True) else (label, changed))"

primrec propagate :: "nat \<Rightarrow> 'k edges \<Rightarrow> 'k :: linorder list \<Rightarrow> ('k \<Rightarrow> 'k) \<Rightarrow> 'k \<Rightarrow> 'k" where
  "propagate 0 out nodes label = label"
| "propagate (Suc r) out nodes label =
     (let (label1, changed) = fold (relabel out nodes) (sort nodes) (label, False)
      in if changed then propagate r out nodes label1 else label1)"

definition communities :: "'k edges \<Rightarrow> 'k :: linorder list \<Rightarrow> 'k \<Rightarrow> 'k" where
  "communities out nodes = propagate 15 out nodes (\<lambda>n. n)"

definition community_suspicion_fp :: "'k edges \<Rightarrow> 'k list \<Rightarrow> ('k \<Rightarrow> 'k) \<Rightarrow> ('k \<Rightarrow> int) \<Rightarrow> 'k \<Rightarrow> int" where
  "community_suspicion_fp out nodes label evidence c =
     (let internal = int (sum_list (map (\<lambda>i. length (filter (\<lambda>(j, _). j \<in> set nodes \<and> label i = label j) (out i)))
            (filter (\<lambda>i. label i = c) nodes)));
          ev = fold (\<lambda>n acc. i128_sat_add acc (evidence n)) (filter (\<lambda>n. label n = c) nodes) 0
      in i128_fp_div (i128_sat_mul internal FP_SCALE) (i128_sat_add FP_SCALE ev))"

section \<open>Concentration of incoming trust\<close>

definition incoming :: "quantiser \<Rightarrow> 'k edges \<Rightarrow> 'k list \<Rightarrow> 'k \<Rightarrow> ('k \<times> int) list" where
  "incoming q out nodes tgt =
     concat (map (\<lambda>src. map (\<lambda>(_, w). (src, q_weight q w)) (filter (\<lambda>(t, w). t = tgt \<and> w > 0) (out src))) nodes)"

definition in_concentration ::
  "quantiser \<Rightarrow> 'k edges \<Rightarrow> 'k list \<Rightarrow> ('k \<Rightarrow> 'k) \<Rightarrow> int \<Rightarrow> 'k \<Rightarrow> int \<times> int \<times> ('k \<Rightarrow> int)" where
  "in_concentration q out nodes label k0 tgt =
     (let inc = incoming q out nodes tgt in
      if inc = [] then (0, 0, \<lambda>_. 0)
      else
        let labs = remdups (map (\<lambda>(src, _). label src) inc);
            comm_w = (\<lambda>l. sum_list (map snd (filter (\<lambda>(src, _). label src = l) inc)));
            total = sum_list (map comm_w labs);
            shares = (\<lambda>l. if l \<in> set labs then i128_fp_div (comm_w l) total else 0);
            conc = sum_list (map (\<lambda>l. i128_fp_mul (shares l) (shares l)) labs);
            n_fp = int (length (remdups (map fst inc))) * FP_SCALE
        in (conc, i128_fp_div n_fp (n_fp + k0), shares))"

section \<open>The local trust matrix\<close>

text \<open>The damping factor of the edge from \<open>i\<close> to \<open>j\<close>.\<close>

definition damping_factor ::
  "quantiser \<Rightarrow> engine_params \<Rightarrow> 'k edges \<Rightarrow> 'k :: linorder list \<Rightarrow> ('k \<Rightarrow> int) \<Rightarrow> ('k \<Rightarrow> int) \<Rightarrow> 'k \<Rightarrow> 'k \<Rightarrow> int" where
  "damping_factor q p out nodes evidence dim_evidence i j =
     (let use_comm = (ep_damping p \<and> ep_community p);
          use_inc = (ep_damping p \<and> ep_in_concentration p);
          label = (if use_comm \<or> use_inc then communities out nodes else (\<lambda>n. n));
          f0 = (if ep_damping p then independence_fp out (ep_beta p) (ep_gamma p) i j else FP_SCALE);
          f1 = (if use_comm \<and> label i = label j
                then i128_fp_mul f0 (i128_fp_div FP_SCALE
                       (FP_SCALE + i128_fp_mul (ep_kappa p) (community_suspicion_fp out nodes label evidence (label i))))
                else f0)
      in if use_inc then
           let (conc, gate, shares) = in_concentration q out nodes label (ep_k0 p) j;
               deficit = i128_fp_div FP_SCALE (FP_SCALE + i128_fp_mul (ep_rho p) (dim_evidence j));
               inner = i128_fp_mul (i128_fp_mul (i128_fp_mul (i128_fp_mul conc conc) (shares (label i))) gate) deficit
           in i128_fp_mul f1 (i128_fp_div FP_SCALE (FP_SCALE + i128_fp_mul (ep_mu p) inner))
         else f1)"

definition damped_row ::
  "quantiser \<Rightarrow> engine_params \<Rightarrow> 'k edges \<Rightarrow> 'k :: linorder list \<Rightarrow> ('k \<Rightarrow> int) \<Rightarrow> ('k \<Rightarrow> int) \<Rightarrow> 'k \<Rightarrow> ('k \<times> int) list" where
  "damped_row q p out nodes evidence dim_evidence i =
     (let outgoing = filter (\<lambda>(j, _). j \<in> set nodes) (out i);
          raw_sum = sum_list (map (\<lambda>(_, w). q_weight q w) outgoing)
      in if raw_sum \<le> 0 then []
         else map (\<lambda>(j, w). (j, i128_fp_mul (i128_fp_div (q_weight q w) raw_sum)
                               (damping_factor q p out nodes evidence dim_evidence i j))) outgoing)"

section \<open>The iteration\<close>

text \<open>One row's contributions are added at their indices, one after another, and its leak is collected.\<close>

definition spread :: "int \<Rightarrow> (nat \<times> int) list \<Rightarrow> int list \<Rightarrow> int list" where
  "spread emitted row nt = fold (\<lambda>(j, w) nt. nt[j := nt ! j + emitted * w sdiv FP_SCALE]) row nt"

definition eigen_row ::
  "int \<Rightarrow> (nat \<times> int) list list \<Rightarrow> int list \<Rightarrow> nat \<Rightarrow> int list \<times> int \<Rightarrow> int list \<times> int" where
  "eigen_row alpha rows t i = (\<lambda>(nt, leak).
     if t ! i = 0 then (nt, leak)
     else let emitted = (FP_SCALE - alpha) * t ! i sdiv FP_SCALE
          in (spread emitted (rows ! i) nt,
              leak + emitted * (FP_SCALE - sum_list (map snd (rows ! i))) sdiv FP_SCALE))"

definition eigen_step :: "int \<Rightarrow> int list \<Rightarrow> (nat \<times> int) list list \<Rightarrow> int list \<Rightarrow> int list" where
  "eigen_step alpha pre rows t =
     (let base = map (\<lambda>v. alpha * v sdiv FP_SCALE) pre;
          (nt, leak) = fold (eigen_row alpha rows t) [0..<length t] (base, 0)
      in if leak \<noteq> 0 then map2 (\<lambda>v p. v + leak * p sdiv FP_SCALE) nt pre else nt)"

primrec eigen_loop :: "nat \<Rightarrow> int \<Rightarrow> int list \<Rightarrow> (nat \<times> int) list list \<Rightarrow> int list \<Rightarrow> int list" where
  "eigen_loop 0 alpha pre rows t = t"
| "eigen_loop (Suc n) alpha pre rows t =
     (let nt = eigen_step alpha pre rows t;
          delta = sum_list (map2 (\<lambda>a b. \<bar>a - b\<bar>) nt t)
      in if delta = 0 then nt else eigen_loop n alpha pre rows nt)"

definition index_of :: "'k list \<Rightarrow> 'k \<Rightarrow> nat" where
  "index_of nodes j = length (takeWhile (\<lambda>n. n \<noteq> j) nodes)"

text \<open>An agent is its id and its evidence in each dimension; \<open>dims\<close> lists the dimensions.\<close>

definition reputation_dimension_fp ::
  "quantiser \<Rightarrow> engine_params \<Rightarrow> 'd list \<Rightarrow> ('k :: linorder \<times> ('d \<Rightarrow> nat)) list \<Rightarrow> ('d, 'k) trust_graph \<Rightarrow> 'd \<Rightarrow> ('k \<times> int) list" where
  "reputation_dimension_fp q p dims agents graph dim =
     (let nodes = map fst agents;
          ev = (\<lambda>n. q_sum q (map (the (map_of agents n)) dims));
          dim_ev = (\<lambda>n. q_sum q [the (map_of agents n) dim]);
          pre = map (\<lambda>(_, e). q_pre q (map (\<lambda>(_, e). e dim) agents) (e dim)) agents;
          rows = map (\<lambda>i. map (\<lambda>(j, w). (index_of nodes j, w)) (damped_row q p (graph dim) nodes ev dim_ev i)) nodes
      in zip nodes (eigen_loop (ep_iterations p) (ep_alpha p) pre rows pre))"

end
