(* ===== verification/EngineProps.thy ===== *)
theory EngineProps
imports ReputationEngine
begin

text \<open>
  Properties of the reputation engine: the matrix is sub-stochastic, an epoch's loop is the matrix iteration, no
  reputation comes from nowhere, and a community says only what vouches connect.
\<close>

section \<open>Division and the fixed point\<close>

lemma sdiv_pos: "0 \<le> a \<Longrightarrow> 0 < b \<Longrightarrow> a sdiv b = a div b" for a b :: int
  by (cases "a = 0") (simp_all add: signed_divide_int_def)

lemma FP_pos [simp]: "0 < FP_SCALE" "FP_SCALE \<noteq> 0" "0 \<le> FP_SCALE"
  by (simp_all add: FP_SCALE_def)

lemma sdiv_nonneg: "0 \<le> a \<Longrightarrow> 0 \<le> b \<Longrightarrow> 0 \<le> a sdiv b" for a b :: int
  by (cases "b = 0") (simp_all add: sdiv_pos pos_imp_zdiv_nonneg_iff)

lemma sat_mul_bounds:
  assumes "0 \<le> a" "0 \<le> b"
  shows "0 \<le> i128_sat_mul a b \<and> i128_sat_mul a b \<le> a * b"
  using mult_nonneg_nonneg [OF assms] by (simp add: i128_sat_mul_def i128_min_def i128_max_def)

lemma sat_add_bounds: "0 \<le> a \<Longrightarrow> 0 \<le> b \<Longrightarrow> 0 \<le> i128_sat_add a b"
  by (simp add: i128_sat_add_def i128_max_def)

lemma fp_mul_nonneg: "0 \<le> a \<Longrightarrow> 0 \<le> b \<Longrightarrow> 0 \<le> i128_fp_mul a b"
  using sat_mul_bounds [of a b] by (simp add: i128_fp_mul_def sdiv_pos pos_imp_zdiv_nonneg_iff)

lemma fp_div_nonneg: "0 \<le> a \<Longrightarrow> 0 < b \<Longrightarrow> 0 \<le> i128_fp_div a b"
  using sat_mul_bounds [of a FP_SCALE] by (simp add: i128_fp_div_def sdiv_pos pos_imp_zdiv_nonneg_iff)

lemma fp_div_le: "0 \<le> a \<Longrightarrow> 0 < b \<Longrightarrow> i128_fp_div a b \<le> a * FP_SCALE div b"
  using sat_mul_bounds [of a FP_SCALE] by (simp add: i128_fp_div_def sdiv_pos zdiv_mono1)

text \<open>Every damping term is \<open>1 / (1 + x)\<close> for some \<open>x\<close> that is not negative.\<close>

lemma damp_unit: "0 \<le> x \<Longrightarrow> 0 \<le> i128_fp_div FP_SCALE (FP_SCALE + x) \<and> i128_fp_div FP_SCALE (FP_SCALE + x) \<le> FP_SCALE"
proof -
  assume x: "0 \<le> x"
  have b: "0 < FP_SCALE + x" using x FP_pos(1) by linarith
  have "i128_fp_div FP_SCALE (FP_SCALE + x) \<le> FP_SCALE * FP_SCALE div (FP_SCALE + x)" by (rule fp_div_le [OF _ b]) simp
  also have "\<dots> \<le> FP_SCALE * (FP_SCALE + x) div (FP_SCALE + x)"
    using x b by (intro zdiv_mono1 mult_left_mono) simp_all
  also have "\<dots> = FP_SCALE" using b by simp
  finally show ?thesis using fp_div_nonneg [OF _ b, of FP_SCALE] by simp
qed

lemma sum_list_nonneg_int: "(\<And>x. x \<in> set xs \<Longrightarrow> 0 \<le> f x) \<Longrightarrow> 0 \<le> sum_list (map f xs)" for f :: "'x \<Rightarrow> int"
  by (induction xs) auto

lemma member_le_sum: "(\<And>y. y \<in> set xs \<Longrightarrow> 0 \<le> y) \<Longrightarrow> x \<in> set xs \<Longrightarrow> x \<le> sum_list xs" for x :: int
proof (induction xs)
  case (Cons y ys)
  have "0 \<le> sum_list ys" using Cons.prems(1) by (intro sum_list_nonneg) simp
  moreover have "0 \<le> y" using Cons.prems(1) by simp
  ultimately show ?case using Cons by force
qed simp

section \<open>The matrix is sub-stochastic\<close>

definition quantiser_ok :: "quantiser \<Rightarrow> bool" where
  "quantiser_ok q = ((\<forall>w. 0 \<le> q_weight q w \<and> (0 < w \<longrightarrow> 0 < q_weight q w)) \<and> (\<forall>es. 0 \<le> q_sum q es)
     \<and> (\<forall>es e. 0 \<le> q_pre q es e) \<and> (\<forall>es. q_pre q es 0 = 0))"

definition params_ok :: "engine_params \<Rightarrow> bool" where
  "params_ok p = (0 \<le> ep_alpha p \<and> ep_alpha p \<le> FP_SCALE \<and> 0 \<le> ep_beta p \<and> 0 \<le> ep_gamma p \<and> 0 \<le> ep_kappa p \<and> 0 \<le> ep_mu p
     \<and> 0 \<le> ep_k0 p \<and> 0 \<le> ep_rho p)"

lemma independence_unit:
  assumes "0 \<le> beta" "0 \<le> gamma"
  shows "0 \<le> independence_fp out beta gamma i j \<and> independence_fp out beta gamma i j \<le> FP_SCALE"
proof -
  show ?thesis
    unfolding independence_fp_def Let_def add.assoc
    by (intro damp_unit add_nonneg_nonneg fp_mul_nonneg assms) (simp_all add: sdiv_nonneg)
qed

lemma suspicion_nonneg:
  assumes "\<And>n. 0 \<le> evidence n"
  shows "0 \<le> community_suspicion_fp out nodes label evidence c"
proof -
  have ev: "0 \<le> a \<Longrightarrow> 0 \<le> fold (\<lambda>n acc. i128_sat_add acc (evidence n)) ns a" for ns a
    by (induction ns arbitrary: a) (simp_all add: sat_add_bounds assms)
  have "0 < i128_sat_add FP_SCALE e" if "0 \<le> e" for e
    using that by (simp add: i128_sat_add_def i128_max_def FP_SCALE_def)
  with ev show ?thesis
    unfolding community_suspicion_fp_def Let_def
    by (intro fp_div_nonneg) (simp_all add: sat_mul_bounds)
qed

lemma concentration_nonneg:
  assumes "quantiser_ok q" "0 \<le> k0" "in_concentration q out nodes label k0 tgt = (conc, gate, shares)"
  shows "0 \<le> conc \<and> 0 \<le> gate \<and> 0 \<le> shares l"
proof (cases "incoming q out nodes tgt = []")
  case True
  with assms(3) show ?thesis by (auto simp: in_concentration_def)
next
  case False
  let ?inc = "incoming q out nodes tgt"
  let ?labs = "remdups (map (\<lambda>(src, _). label src) ?inc)"
  let ?w = "\<lambda>l. sum_list (map snd (filter (\<lambda>(src, _). label src = l) ?inc))"
  have pos: "0 < w" if "(src, w) \<in> set ?inc" for src w
    using that assms(1) by (auto simp: incoming_def quantiser_ok_def)
  have w: "0 \<le> ?w l" for l
    using pos by (intro sum_list_nonneg) (force intro: less_imp_le)
  have tot: "0 < sum_list (map ?w ?labs)"
  proof -
    obtain src x where sx: "(src, x) \<in> set ?inc" using False by (cases ?inc) auto
    have "x \<in> set (map snd (filter (\<lambda>(s, _). label s = label src) ?inc))" using sx by force
    then have "x \<le> ?w (label src)" using pos by (intro member_le_sum) (force intro: less_imp_le)+
    moreover have "?w (label src) \<in> set (map ?w ?labs)" using sx by force
    then have "?w (label src) \<le> sum_list (map ?w ?labs)" using w by (intro member_le_sum) auto
    ultimately show ?thesis using pos [OF sx] by linarith
  qed
  have sh: "0 \<le> (if l \<in> set ?labs then i128_fp_div (?w l) (sum_list (map ?w ?labs)) else 0)" for l
    using fp_div_nonneg [OF w tot] by simp
  have n: "0 < int (length (remdups (map fst ?inc))) * FP_SCALE"
  proof -
    have "remdups (map fst ?inc) \<noteq> []" using False by simp
    then show ?thesis by (simp only: length_greater_0_conv [symmetric] zero_less_mult_iff of_nat_0_less_iff FP_pos) simp
  qed
  have "0 \<le> i128_fp_div (int (length (remdups (map fst ?inc))) * FP_SCALE) (int (length (remdups (map fst ?inc))) * FP_SCALE + k0)"
    using n assms(2) by (intro fp_div_nonneg) simp_all
  moreover have "0 \<le> sum_list (map (\<lambda>l. i128_fp_mul (s l) (s l)) ls)" if "\<And>l. 0 \<le> s l" for s :: "'a \<Rightarrow> int" and ls
    by (intro sum_list_nonneg_int fp_mul_nonneg that)
  moreover have "conc = sum_list (map (\<lambda>l. i128_fp_mul (shares l) (shares l)) ?labs)"
      "gate = i128_fp_div (int (length (remdups (map fst ?inc))) * FP_SCALE) (int (length (remdups (map fst ?inc))) * FP_SCALE + k0)"
    and shares: "shares = (\<lambda>l. if l \<in> set ?labs then i128_fp_div (?w l) (sum_list (map ?w ?labs)) else 0)"
    using assms(3) unfolding in_concentration_def Let_def by (simp_all only: False if_False prod.inject) (elim conjE, hypsubst, rule refl)
  moreover have "0 \<le> shares l" for l unfolding shares by (rule sh)
  ultimately show ?thesis by simp
qed

lemma damping_unit:
  assumes "quantiser_ok q" "params_ok p" "\<And>n. 0 \<le> evidence n" "\<And>n. 0 \<le> dim_evidence n"
  shows "0 \<le> damping_factor q p out nodes evidence dim_evidence i j
    \<and> damping_factor q p out nodes evidence dim_evidence i j \<le> FP_SCALE"
proof -
  define unit where "unit = (\<lambda>x :: int. 0 \<le> x \<and> x \<le> FP_SCALE)"
  have mul: "unit (i128_fp_mul a b)" if "unit a" "unit b" for a b
    using i128_fp_mul_shrinks [of a b] that by (simp add: unit_def)
  have either: "unit a \<Longrightarrow> unit b \<Longrightarrow> unit (if c then a else b)" for a b c by simp
  have damp: "unit (i128_fp_div FP_SCALE (FP_SCALE + x))" if "0 \<le> x" for x
    using damp_unit [OF that] by (simp add: unit_def)
  have f0: "unit (if ep_damping p then independence_fp out (ep_beta p) (ep_gamma p) i j else FP_SCALE)"
    using independence_unit [of "ep_beta p" "ep_gamma p" out i j] assms(2) by (simp add: unit_def params_ok_def)
  have brake: "unit (i128_fp_div FP_SCALE (FP_SCALE + i128_fp_mul (ep_kappa p) (community_suspicion_fp out nodes label evidence c)))"
    for label c
    using assms(2) by (intro damp fp_mul_nonneg suspicion_nonneg assms(3)) (simp add: params_ok_def)
  have trm: "unit (i128_fp_div FP_SCALE (FP_SCALE + i128_fp_mul (ep_mu p) (i128_fp_mul (i128_fp_mul (i128_fp_mul
        (i128_fp_mul conc conc) (shares l)) gate) (i128_fp_div FP_SCALE (FP_SCALE + i128_fp_mul (ep_rho p) (dim_evidence j))))))"
    if "in_concentration q out nodes label (ep_k0 p) j = (conc, gate, shares)" for label conc gate shares l
  proof -
    have c: "0 \<le> conc" "0 \<le> gate" "0 \<le> shares l"
      using concentration_nonneg [OF assms(1) _ that] assms(2) by (simp_all add: params_ok_def)
    have "0 \<le> i128_fp_div FP_SCALE (FP_SCALE + i128_fp_mul (ep_rho p) (dim_evidence j))"
      using damp_unit [OF fp_mul_nonneg [OF _ assms(4)]] assms(2) by (simp add: params_ok_def)
    with c assms(2) show ?thesis by (intro damp fp_mul_nonneg) (simp_all add: params_ok_def)
  qed
  let ?comm = "ep_damping p \<and> ep_community p" and ?inc = "ep_damping p \<and> ep_in_concentration p"
  let ?lab = "if ?comm \<or> ?inc then communities out nodes else (\<lambda>n. n)"
  let ?f1 = "if ?comm \<and> ?lab i = ?lab j
    then i128_fp_mul (if ep_damping p then independence_fp out (ep_beta p) (ep_gamma p) i j else FP_SCALE)
      (i128_fp_div FP_SCALE (FP_SCALE + i128_fp_mul (ep_kappa p) (community_suspicion_fp out nodes ?lab evidence (?lab i))))
    else (if ep_damping p then independence_fp out (ep_beta p) (ep_gamma p) i j else FP_SCALE)"
  have f1: "unit ?f1" by (rule either [OF mul [OF f0 brake] f0])
  obtain conc gate shares where ic: "in_concentration q out nodes ?lab (ep_k0 p) j = (conc, gate, shares)"
    by (metis prod_cases3)
  have "unit (damping_factor q p out nodes evidence dim_evidence i j)"
    unfolding damping_factor_def Let_def ic prod.case
    by (rule either [OF mul [OF f1 trm [OF ic]] f1])
  then show ?thesis by (simp add: unit_def)
qed

lemma sum_floors: "0 < b \<Longrightarrow> (\<And>x. x \<in> set xs \<Longrightarrow> 0 \<le> f x) \<Longrightarrow> sum_list (map (\<lambda>x. f x div b) xs) \<le> sum_list (map f xs) div b"
  for b :: int
proof (induction xs)
  case (Cons x xs)
  have "f x div b + sum_list (map f xs) div b \<le> (f x + sum_list (map f xs)) div b"
    using Cons.prems(1) by (simp add: div_add1_eq [of "f x"] pos_imp_zdiv_nonneg_iff)
  with Cons show ?case by simp
qed simp

lemma damped_row_sub:
  assumes "quantiser_ok q" "params_ok p" "\<And>n. 0 \<le> evidence n" "\<And>n. 0 \<le> dim_evidence n"
  shows "\<forall>(j, w)\<in>set (damped_row q p out nodes evidence dim_evidence i). 0 \<le> w"
    and "sum_list (map snd (damped_row q p out nodes evidence dim_evidence i)) \<le> FP_SCALE"
proof -
  let ?out = "filter (\<lambda>(j, _). j \<in> set nodes) (out i)"
  let ?raw = "sum_list (map (\<lambda>(_, w). q_weight q w) ?out)"
  let ?f = "\<lambda>j. damping_factor q p out nodes evidence dim_evidence i j"
  have qw: "0 \<le> q_weight q w" for w using assms(1) by (simp add: quantiser_ok_def)
  have du: "0 \<le> ?f j \<and> ?f j \<le> FP_SCALE" for j by (rule damping_unit [OF assms(1,2)]) (rule assms(3) assms(4))+
  have e: "0 \<le> i128_fp_mul (i128_fp_div (q_weight q w) ?raw) (?f j)
      \<and> i128_fp_mul (i128_fp_div (q_weight q w) ?raw) (?f j) \<le> q_weight q w * FP_SCALE div ?raw" if "0 < ?raw" for j w
    using i128_fp_mul_shrinks [of "i128_fp_div (q_weight q w) ?raw" "?f j"] du [of j]
      fp_div_nonneg [OF qw that, of w] fp_div_le [OF qw that, of w] by linarith
  show "\<forall>(j, w)\<in>set (damped_row q p out nodes evidence dim_evidence i). 0 \<le> w"
    using e by (auto simp: damped_row_def Let_def not_le)
  show "sum_list (map snd (damped_row q p out nodes evidence dim_evidence i)) \<le> FP_SCALE"
  proof (cases "?raw \<le> 0")
    case True
    then show ?thesis by (simp add: damped_row_def Let_def)
  next
    case False
    then have raw: "0 < ?raw" by simp
    have "sum_list (map snd (damped_row q p out nodes evidence dim_evidence i))
        = sum_list (map (\<lambda>(j, w). i128_fp_mul (i128_fp_div (q_weight q w) ?raw) (?f j)) ?out)"
      using False by (simp add: damped_row_def Let_def comp_def split_def)
    also have "\<dots> \<le> sum_list (map (\<lambda>(j, w). q_weight q w * FP_SCALE div ?raw) ?out)"
      using e [OF raw] by (intro sum_list_mono) auto
    also have "\<dots> = sum_list (map (\<lambda>x. (q_weight q (snd x) * FP_SCALE) div ?raw) ?out)" by (simp add: split_def)
    also have "\<dots> \<le> sum_list (map (\<lambda>x. q_weight q (snd x) * FP_SCALE) ?out) div ?raw"
      using raw qw by (intro sum_floors) simp_all
    also have "sum_list (map (\<lambda>x. q_weight q (snd x) * FP_SCALE) ?out) = ?raw * FP_SCALE"
      by (simp add: sum_list_mult_const split_def)
    also have "?raw * FP_SCALE div ?raw = FP_SCALE" using raw by simp
    finally show ?thesis .
  qed
qed

section \<open>The loop is the matrix iteration\<close>

text \<open>What row \<open>i\<close> gives to index \<open>k\<close>, what it leaks, and one component of the next vector.\<close>

definition emitted :: "int \<Rightarrow> int list \<Rightarrow> nat \<Rightarrow> int" where
  "emitted alpha t i = (FP_SCALE - alpha) * t ! i sdiv FP_SCALE"

definition given :: "int \<Rightarrow> (nat \<times> int) list list \<Rightarrow> int list \<Rightarrow> nat \<Rightarrow> nat \<Rightarrow> int" where
  "given alpha rows t i k = sum_list (map (\<lambda>(j, w). if j = k then emitted alpha t i * w sdiv FP_SCALE else 0) (rows ! i))"

definition leaked :: "int \<Rightarrow> (nat \<times> int) list list \<Rightarrow> int list \<Rightarrow> nat \<Rightarrow> int" where
  "leaked alpha rows t i = emitted alpha t i * (FP_SCALE - sum_list (map snd (rows ! i))) sdiv FP_SCALE"

definition eigen_component :: "int \<Rightarrow> int list \<Rightarrow> (nat \<times> int) list list \<Rightarrow> int list \<Rightarrow> nat \<Rightarrow> int" where
  "eigen_component alpha pre rows t k =
     alpha * pre ! k sdiv FP_SCALE + (\<Sum>i<length t. given alpha rows t i k)
       + (\<Sum>i<length t. leaked alpha rows t i) * pre ! k sdiv FP_SCALE"

lemma zero_sdiv [simp]: "0 sdiv b = 0" for b :: int
  by (simp add: signed_divide_int_def)

lemma length_spread [simp]: "length (spread e row nt) = length nt"
proof -
  have "length (fold (\<lambda>(j, w) nt. nt[j := nt ! j + e * w sdiv FP_SCALE]) row nt) = length nt"
    by (induction row arbitrary: nt) (auto simp: split_def)
  then show ?thesis by (simp add: spread_def)
qed

lemma spread_nth:
  "k < length nt \<Longrightarrow>
     spread e row nt ! k = nt ! k + sum_list (map (\<lambda>(j, w). if j = k then e * w sdiv FP_SCALE else 0) row)"
proof (induction row arbitrary: nt)
  case (Cons x row)
  obtain j w where x: "x = (j, w)" by (cases x)
  have "spread e (x # row) nt = spread e row (nt[j := nt ! j + e * w sdiv FP_SCALE])"
    by (simp add: spread_def x)
  with Cons show ?case by (simp add: x nth_list_update)
qed (simp add: spread_def)

lemma given_zero: "t ! i = 0 \<Longrightarrow> given alpha rows t i k = 0" "t ! i = 0 \<Longrightarrow> leaked alpha rows t i = 0"
  by (simp_all add: given_def leaked_def emitted_def split_def cong: if_cong)

lemma eigen_rows:
  "length (fst (fold (eigen_row alpha rows t) is s)) = length (fst s)
   \<and> snd (fold (eigen_row alpha rows t) is s) = snd s + sum_list (map (leaked alpha rows t) is)
   \<and> (k < length (fst s) \<longrightarrow> fst (fold (eigen_row alpha rows t) is s) ! k
        = fst s ! k + sum_list (map (\<lambda>i. given alpha rows t i k) is))"
proof (induction "is" arbitrary: s)
  case (Cons i "is")
  obtain nt leak where s: "s = (nt, leak)" by (cases s)
  have r: "length (fst (eigen_row alpha rows t i s)) = length nt
      \<and> snd (eigen_row alpha rows t i s) = leak + leaked alpha rows t i
      \<and> (k < length nt \<longrightarrow> fst (eigen_row alpha rows t i s) ! k = nt ! k + given alpha rows t i k)"
  proof (cases "t ! i = 0")
    case True
    then show ?thesis by (simp add: eigen_row_def s given_zero)
  next
    case False
    then show ?thesis
      by (simp add: eigen_row_def s Let_def spread_nth given_def leaked_def emitted_def [symmetric])
  qed
  show ?case using Cons [of "eigen_row alpha rows t i s"] r by (simp add: s)
qed simp

lemma eigen_step_nth:
  assumes "length pre = length t"
  shows "length (eigen_step alpha pre rows t) = length t"
    and "k < length t \<Longrightarrow> eigen_step alpha pre rows t ! k = eigen_component alpha pre rows t k"
proof -
  let ?r = "fold (eigen_row alpha rows t) [0..<length t] (map (\<lambda>v. alpha * v sdiv FP_SCALE) pre, 0)"
  obtain nt leak where r: "?r = (nt, leak)" by (cases ?r)
  note e = eigen_rows [of alpha rows t "[0..<length t]" "(map (\<lambda>v. alpha * v sdiv FP_SCALE) pre, 0)", unfolded r]
  have len: "length nt = length t" using e assms by simp
  have leak: "leak = (\<Sum>i<length t. leaked alpha rows t i)"
    using e by (simp add: interv_sum_list_conv_sum_set_nat atLeast0LessThan)
  have nt: "nt ! k = alpha * pre ! k sdiv FP_SCALE + (\<Sum>i<length t. given alpha rows t i k)" if "k < length t" for k
    using e [of k] assms that by (simp add: interv_sum_list_conv_sum_set_nat atLeast0LessThan)
  show "length (eigen_step alpha pre rows t) = length t"
    using len assms by (simp add: eigen_step_def r Let_def)
  show "eigen_step alpha pre rows t ! k = eigen_component alpha pre rows t k" if "k < length t"
    using len assms that nt by (simp add: eigen_step_def r Let_def eigen_component_def leak [symmetric])
qed

lemma abs_delta_zero:
  "length xs = length ys \<Longrightarrow> sum_list (map2 (\<lambda>a b. \<bar>a - b\<bar>) xs ys) = 0 \<longleftrightarrow> xs = ys" for xs ys :: "int list"
proof (induction xs ys rule: list_induct2)
  case (Cons x xs y ys)
  have "0 \<le> sum_list (map2 (\<lambda>a b. \<bar>a - b\<bar>) xs ys)" by (intro sum_list_nonneg) auto
  with Cons show ?case by (auto simp: add_nonneg_eq_0_iff)
qed simp

lemma eigen_loop_power:
  "length pre = length t \<Longrightarrow> eigen_loop n alpha pre rows t = (eigen_step alpha pre rows ^^ n) t"
proof (induction n arbitrary: t)
  case (Suc n)
  let ?nt = "eigen_step alpha pre rows t"
  have len: "length ?nt = length t" by (rule eigen_step_nth(1) [OF Suc.prems])
  have fix_pt: "(eigen_step alpha pre rows ^^ m) t = t" if "?nt = t" for m
    using that by (induction m) simp_all
  show ?case
  proof (cases "?nt = t")
    case True
    with fix_pt [OF True, of "Suc n"] abs_delta_zero [OF len] show ?thesis by (simp add: Let_def)
  next
    case False
    with Suc.IH [of ?nt] Suc.prems len abs_delta_zero [OF len] show ?thesis
      by (simp add: Let_def funpow_swap1)
  qed
qed simp

section \<open>Mass\<close>

definition rows_ok :: "nat \<Rightarrow> (nat \<times> int) list list \<Rightarrow> bool" where
  "rows_ok n rows = (length rows = n
     \<and> (\<forall>i<n. (\<forall>(j, w)\<in>set (rows ! i). j < n \<and> 0 \<le> w) \<and> sum_list (map snd (rows ! i)) \<le> FP_SCALE))"

lemma sum_at: "(\<Sum>k<n. if j = k then v else 0) = (if j < n then v else 0)" for v :: int and j n :: nat
  by (simp add: sum.delta')

lemma row_sums:
  fixes f :: "int \<Rightarrow> int" and n :: nat
  assumes "\<forall>(j, w)\<in>set row. j < n"
  shows "(\<Sum>k<n. sum_list (map (\<lambda>(j, w). if j = k then f w else 0) row)) = sum_list (map (\<lambda>(j, w). f w) row)"
  using assms
proof (induction row)
  case (Cons x row)
  obtain j w where x: "x = (j, w)" by (cases x)
  have "(\<Sum>k<n. if j = k then f w else 0) = f w" using Cons.prems by (simp add: x sum_at)
  with Cons show ?case by (simp add: x sum.distrib)
qed simp

text \<open>A vector and a matrix the iteration keeps within bounds.\<close>

definition system_ok :: "int \<Rightarrow> int list \<Rightarrow> (nat \<times> int) list list \<Rightarrow> int list \<Rightarrow> bool" where
  "system_ok alpha pre rows t = (0 \<le> alpha \<and> alpha \<le> FP_SCALE \<and> rows_ok (length t) rows \<and> length pre = length t
     \<and> (\<forall>i<length t. 0 \<le> pre ! i \<and> 0 \<le> t ! i))"

lemma div_times_le: "0 < b \<Longrightarrow> a div b * b \<le> a" for a b :: int
  using minus_mod_eq_div_mult [of a b] pos_mod_sign [of b a] by linarith

lemma emitted_ok:
  assumes "system_ok alpha pre rows t" "i < length t"
  shows "0 \<le> emitted alpha t i" "emitted alpha t i * FP_SCALE \<le> (FP_SCALE - alpha) * t ! i"
proof -
  have n: "0 \<le> (FP_SCALE - alpha) * t ! i" using assms by (simp add: system_ok_def)
  then show "0 \<le> emitted alpha t i" by (simp add: emitted_def sdiv_nonneg)
  show "emitted alpha t i * FP_SCALE \<le> (FP_SCALE - alpha) * t ! i"
    using n div_times_le [of FP_SCALE] by (simp add: emitted_def sdiv_pos)
qed

lemma row_ok:
  assumes "system_ok alpha pre rows t" "i < length t"
  shows "\<forall>(j, w)\<in>set (rows ! i). j < length t \<and> 0 \<le> w" "sum_list (map snd (rows ! i)) \<le> FP_SCALE"
    "0 \<le> sum_list (map snd (rows ! i))"
proof -
  show r: "\<forall>(j, w)\<in>set (rows ! i). j < length t \<and> 0 \<le> w" "sum_list (map snd (rows ! i)) \<le> FP_SCALE"
    using assms by (simp_all add: system_ok_def rows_ok_def)
  show "0 \<le> sum_list (map snd (rows ! i))" using r(1) by (intro sum_list_nonneg) auto
qed

lemma given_nonneg: "system_ok alpha pre rows t \<Longrightarrow> i < length t \<Longrightarrow> 0 \<le> given alpha rows t i k"
  unfolding given_def using row_ok(1) [of alpha pre rows t i] emitted_ok(1) [of alpha pre rows t i]
  by (intro sum_list_nonneg) (auto intro!: sdiv_nonneg mult_nonneg_nonneg)

lemma leaked_nonneg: "system_ok alpha pre rows t \<Longrightarrow> i < length t \<Longrightarrow> 0 \<le> leaked alpha rows t i"
  unfolding leaked_def using row_ok(2) [of alpha pre rows t i] emitted_ok(1) [of alpha pre rows t i]
  by (intro sdiv_nonneg mult_nonneg_nonneg) simp_all

text \<open>What a row spreads and leaks is at most what it emits.\<close>

lemma row_conserves:
  assumes "system_ok alpha pre rows t" "i < length t"
  shows "(\<Sum>k<length t. given alpha rows t i k) + leaked alpha rows t i \<le> emitted alpha t i"
proof -
  let ?e = "emitted alpha t i" and ?r = "sum_list (map snd (rows ! i))"
  note r = row_ok [OF assms]
  have e: "0 \<le> ?e" by (rule emitted_ok(1) [OF assms])
  have "(\<Sum>k<length t. given alpha rows t i k) = sum_list (map (\<lambda>(j, w). ?e * w sdiv FP_SCALE) (rows ! i))"
    unfolding given_def using r(1) by (intro row_sums) auto
  also have "\<dots> = sum_list (map (\<lambda>x. ?e * snd x div FP_SCALE) (rows ! i))"
    using r(1) e by (intro arg_cong [where f = sum_list] map_cong) (auto simp: sdiv_pos)
  also have "\<dots> \<le> sum_list (map (\<lambda>x. ?e * snd x) (rows ! i)) div FP_SCALE"
    using r(1) e by (intro sum_floors) auto
  also have "sum_list (map (\<lambda>x. ?e * snd x) (rows ! i)) = ?e * ?r" by (simp add: sum_list_const_mult)
  finally have "(\<Sum>k<length t. given alpha rows t i k) \<le> ?e * ?r div FP_SCALE" .
  moreover have "leaked alpha rows t i = ?e * (FP_SCALE - ?r) div FP_SCALE"
    using r(2) e by (simp add: leaked_def sdiv_pos)
  moreover have "?e * ?r div FP_SCALE + ?e * (FP_SCALE - ?r) div FP_SCALE \<le> (?e * ?r + ?e * (FP_SCALE - ?r)) div FP_SCALE"
    by (simp add: div_add1_eq [of "?e * ?r"] pos_imp_zdiv_nonneg_iff)
  moreover have "(?e * ?r + ?e * (FP_SCALE - ?r)) div FP_SCALE = ?e"
    by (simp add: algebra_simps)
  ultimately show ?thesis by linarith
qed

lemma step_mass:
  assumes "system_ok alpha pre rows t" "FP_SCALE \<le> c" "(\<Sum>k<length t. pre ! k) \<le> c"
  shows "FP_SCALE * FP_SCALE * (\<Sum>k<length t. eigen_component alpha pre rows t k)
    \<le> alpha * FP_SCALE * (\<Sum>k<length t. pre ! k) + c * ((FP_SCALE - alpha) * (\<Sum>k<length t. t ! k))"
proof -
  let ?n = "length t" and ?q = "\<Sum>k<length t. pre ! k"
  let ?S = "\<Sum>i<length t. \<Sum>k<length t. given alpha rows t i k"
  let ?L = "\<Sum>i<length t. leaked alpha rows t i" and ?E = "\<Sum>i<length t. emitted alpha t i"
  have p: "0 \<le> pre ! k" "0 \<le> alpha" if "k < ?n" for k using assms(1) that by (simp_all add: system_ok_def)
  have L: "0 \<le> ?L" by (intro sum_nonneg leaked_nonneg [OF assms(1)]) simp
  have S: "0 \<le> ?S" by (intro sum_nonneg given_nonneg [OF assms(1)]) simp_all
  have SL: "?S + ?L \<le> ?E"
    unfolding sum.distrib [symmetric] by (intro sum_mono row_conserves [OF assms(1)]) simp
  have E: "?E * FP_SCALE \<le> (FP_SCALE - alpha) * (\<Sum>k<?n. t ! k)"
    unfolding sum_distrib_right sum_distrib_left by (intro sum_mono emitted_ok(2) [OF assms(1)]) simp
  have comp: "eigen_component alpha pre rows t k * FP_SCALE
      \<le> alpha * pre ! k + (\<Sum>i<?n. given alpha rows t i k) * FP_SCALE + ?L * pre ! k" if "k < ?n" for k
  proof -
    have "alpha * pre ! k sdiv FP_SCALE * FP_SCALE \<le> alpha * pre ! k" "?L * pre ! k sdiv FP_SCALE * FP_SCALE \<le> ?L * pre ! k"
      using p [OF that] L div_times_le [of FP_SCALE] by (simp_all add: sdiv_pos)
    then show ?thesis by (simp add: eigen_component_def algebra_simps)
  qed
  have "FP_SCALE * (\<Sum>k<?n. eigen_component alpha pre rows t k)
      = (\<Sum>k<?n. eigen_component alpha pre rows t k * FP_SCALE)" by (simp add: sum_distrib_left mult.commute)
  also have "\<dots> \<le> (\<Sum>k<?n. alpha * pre ! k + (\<Sum>i<?n. given alpha rows t i k) * FP_SCALE + ?L * pre ! k)"
    by (intro sum_mono comp) simp
  also have "\<dots> = alpha * ?q + (\<Sum>k<?n. \<Sum>i<?n. given alpha rows t i k) * FP_SCALE + ?L * ?q"
    by (simp add: sum.distrib sum_distrib_left sum_distrib_right)
  also have "(\<Sum>k<?n. \<Sum>i<?n. given alpha rows t i k) = ?S" by (rule sum.swap)
  also have "alpha * ?q + ?S * FP_SCALE + ?L * ?q \<le> alpha * ?q + ?S * c + ?L * c"
    using mult_left_mono [OF assms(2) S] mult_left_mono [OF assms(3) L] by linarith
  also have "\<dots> \<le> alpha * ?q + ?E * c"
    using mult_right_mono [OF SL, of c] assms(2) FP_pos(3) by (simp add: distrib_right)
  finally have "FP_SCALE * (FP_SCALE * (\<Sum>k<?n. eigen_component alpha pre rows t k)) \<le> FP_SCALE * (alpha * ?q + ?E * c)"
    by (intro mult_left_mono) simp_all
  also have "\<dots> = alpha * FP_SCALE * ?q + c * (?E * FP_SCALE)" by (simp add: algebra_simps)
  also have "\<dots> \<le> alpha * FP_SCALE * ?q + c * ((FP_SCALE - alpha) * (\<Sum>k<?n. t ! k))"
    using E assms(2) FP_pos(3) by (intro add_mono mult_left_mono order_refl) linarith+
  finally show ?thesis by (simp only: mult.assoc)
qed

lemma component_nonneg: "system_ok alpha pre rows t \<Longrightarrow> k < length t \<Longrightarrow> 0 \<le> eigen_component alpha pre rows t k"
  unfolding eigen_component_def
  by (intro add_nonneg_nonneg sdiv_nonneg mult_nonneg_nonneg sum_nonneg)
    (auto simp: system_ok_def intro: given_nonneg [unfolded system_ok_def] leaked_nonneg [unfolded system_ok_def])

lemma system_step:
  assumes "system_ok alpha pre rows t"
  shows "system_ok alpha pre rows (eigen_step alpha pre rows t)"
proof -
  have l: "length pre = length t" using assms by (simp add: system_ok_def)
  show ?thesis
    using assms component_nonneg [OF assms] by (simp add: system_ok_def eigen_step_nth [OF l])
qed

lemma sum_list_nth: "sum_list xs = (\<Sum>k<length xs. xs ! k)" for xs :: "int list"
  by (simp add: sum_list_sum_nth atLeast0LessThan)

lemma step_total:
  assumes "system_ok alpha pre rows t"
  shows "sum_list (eigen_step alpha pre rows t) = (\<Sum>k<length t. eigen_component alpha pre rows t k)"
proof -
  have l: "length pre = length t" using assms by (simp add: system_ok_def)
  show ?thesis by (simp add: sum_list_nth eigen_step_nth [OF l])
qed

lemma loop_mass:
  assumes "system_ok alpha pre rows t" "FP_SCALE \<le> c" "sum_list pre \<le> c" "sum_list t \<le> b"
    and "alpha * FP_SCALE * c + c * ((FP_SCALE - alpha) * b) \<le> FP_SCALE * FP_SCALE * b"
  shows "system_ok alpha pre rows ((eigen_step alpha pre rows ^^ n) t)
    \<and> sum_list ((eigen_step alpha pre rows ^^ n) t) \<le> b"
  using assms(1,4)
proof (induction n arbitrary: t)
  case (Suc n)
  let ?t = "eigen_step alpha pre rows t"
  have l: "length pre = length t" and a: "0 \<le> alpha" "alpha \<le> FP_SCALE" using Suc.prems(1) by (simp_all add: system_ok_def)
  have "FP_SCALE * FP_SCALE * sum_list ?t \<le> alpha * FP_SCALE * sum_list pre + c * ((FP_SCALE - alpha) * sum_list t)"
    using step_mass [OF Suc.prems(1) assms(2)] assms(3) unfolding step_total [OF Suc.prems(1)]
    by (simp add: sum_list_nth l)
  also have "\<dots> \<le> alpha * FP_SCALE * c + c * ((FP_SCALE - alpha) * b)"
    using assms(2,3) Suc.prems(2) a FP_pos(3)
    by (intro add_mono mult_left_mono) (simp_all add: order_trans [OF _ assms(2)])
  finally have "FP_SCALE * FP_SCALE * sum_list ?t \<le> FP_SCALE * FP_SCALE * b" using assms(5) by linarith
  then have "sum_list ?t \<le> b" by (simp add: FP_SCALE_def)
  from Suc.IH [OF system_step [OF Suc.prems(1)] this] show ?case by (simp only: funpow_Suc_right o_apply)
qed simp

section \<open>A ring of its own\<close>

lemma isolated_step:
  assumes "length pre = length t" "\<And>k. k \<in> R \<Longrightarrow> k < length t \<Longrightarrow> pre ! k = 0 \<and> t ! k = 0"
    and "\<And>i j w. i < length t \<Longrightarrow> i \<notin> R \<Longrightarrow> (j, w) \<in> set (rows ! i) \<Longrightarrow> j \<notin> R"
    and "k \<in> R" "k < length t"
  shows "eigen_step alpha pre rows t ! k = 0"
proof -
  have "given alpha rows t i k = 0" if "i < length t" for i
  proof (cases "i \<in> R")
    case True
    with assms(2) that show ?thesis by (simp add: given_zero)
  next
    case False
    have "map (\<lambda>(j, w). if j = k then emitted alpha t i * w sdiv FP_SCALE else 0) (rows ! i) = map (\<lambda>_. 0) (rows ! i)"
      using assms(3) [OF that False] assms(4) by auto
    then have "given alpha rows t i k = sum_list (map (\<lambda>_. 0) (rows ! i))"
      unfolding given_def by (rule arg_cong [where f = sum_list])
    then show ?thesis by simp
  qed
  then show ?thesis using assms(2,4,5) by (simp add: eigen_step_nth [OF assms(1)] eigen_component_def)
qed

lemma isolated_loop:
  assumes "length pre = length t" "\<And>k. k \<in> R \<Longrightarrow> k < length t \<Longrightarrow> pre ! k = 0 \<and> t ! k = 0"
    and "\<And>i j w. i < length t \<Longrightarrow> i \<notin> R \<Longrightarrow> (j, w) \<in> set (rows ! i) \<Longrightarrow> j \<notin> R"
    and "k \<in> R" "k < length t"
  shows "(eigen_step alpha pre rows ^^ n) t ! k = 0"
  using assms(1,2,3,5)
proof (induction n arbitrary: t)
  case 0
  have "t ! k = 0" using 0(2) [OF assms(4) 0(4)] by blast
  then show ?case by (simp only: funpow_0)
next
  case (Suc n)
  let ?t = "eigen_step alpha pre rows t"
  note l = eigen_step_nth(1) [OF Suc.prems(1), of alpha rows]
  have "(eigen_step alpha pre rows ^^ n) ?t ! k = 0"
  proof (rule Suc.IH)
    show "length pre = length ?t" "k < length ?t" using Suc.prems(1,4) by (simp_all only: l)
    show "pre ! k = 0 \<and> ?t ! k = 0" if "k \<in> R" "k < length ?t" for k
    proof -
      have k: "k < length t" using that(2) by (simp only: l)
      have "?t ! k = 0" by (rule isolated_step [OF Suc.prems(1,2,3) that(1) k])
      with Suc.prems(2) [OF that(1) k] show ?thesis by blast
    qed
    show "j \<notin> R" if "i < length ?t" "i \<notin> R" "(j, w) \<in> set (rows ! i)" for i j w
      by (rule Suc.prems(3) [OF _ that(2,3)]) (use that(1) in \<open>simp only: l\<close>)
  qed
  then show ?case by (simp only: funpow_Suc_right o_apply)
qed

section \<open>The engine\<close>

lemma index_of_ok: "j \<in> set nodes \<Longrightarrow> index_of nodes j < length nodes \<and> nodes ! index_of nodes j = j"
  by (induction nodes) (auto simp: index_of_def)

definition engine_rows ::
  "quantiser \<Rightarrow> engine_params \<Rightarrow> 'd list \<Rightarrow> ('k :: linorder \<times> ('d \<Rightarrow> nat)) list \<Rightarrow> ('d, 'k) trust_graph \<Rightarrow> 'd \<Rightarrow> (nat \<times> int) list list" where
  "engine_rows q p dims agents graph dim =
     (let nodes = map fst agents
      in map (\<lambda>i. map (\<lambda>(j, w). (index_of nodes j, w)) (damped_row q p (graph dim) nodes
           (\<lambda>n. q_sum q (map (the (map_of agents n)) dims)) (\<lambda>n. q_sum q [the (map_of agents n) dim]) i)) nodes)"

definition engine_pre :: "quantiser \<Rightarrow> ('k \<times> ('d \<Rightarrow> nat)) list \<Rightarrow> 'd \<Rightarrow> int list" where
  "engine_pre q agents dim = map (\<lambda>(_, e). q_pre q (map (\<lambda>(_, e). e dim) agents) (e dim)) agents"

lemma engine_eq:
  "reputation_dimension_fp q p dims agents graph dim = zip (map fst agents)
     ((eigen_step (ep_alpha p) (engine_pre q agents dim) (engine_rows q p dims agents graph dim) ^^ ep_iterations p)
        (engine_pre q agents dim))"
  by (simp add: reputation_dimension_fp_def engine_rows_def engine_pre_def Let_def eigen_loop_power)

lemma damped_row_targets: "(j, w) \<in> set (damped_row q p out nodes evidence dim_evidence i) \<Longrightarrow> j \<in> set nodes \<and> has_edge out i j"
  by (force simp: damped_row_def Let_def has_edge_def out_neighbors_def split: if_splits)

lemma engine_rows_ok:
  assumes "quantiser_ok q" "params_ok p"
  shows "rows_ok (length agents) (engine_rows q p dims agents graph dim)"
proof -
  let ?row = "\<lambda>i. damped_row q p (graph dim) (map fst agents) (\<lambda>n. q_sum q (map (the (map_of agents n)) dims))
    (\<lambda>n. q_sum q [the (map_of agents n) dim]) i"
  have ev: "0 \<le> q_sum q es" for es using assms(1) by (simp add: quantiser_ok_def)
  have "\<forall>(j, w)\<in>set (?row i). 0 \<le> w" "sum_list (map snd (?row i)) \<le> FP_SCALE" for i
    by (rule damped_row_sub [OF assms ev ev])+
  moreover have "index_of (map fst agents) j < length agents" if "(j, w) \<in> set (?row i)" for i j w
    using damped_row_targets [OF that] index_of_ok [of j "map fst agents"] by simp
  ultimately show ?thesis
    by (auto simp: rows_ok_def engine_rows_def Let_def comp_def split_def)
qed

lemma engine_system:
  assumes "quantiser_ok q" "params_ok p"
  shows "system_ok (ep_alpha p) (engine_pre q agents dim) (engine_rows q p dims agents graph dim) (engine_pre q agents dim)"
  using assms engine_rows_ok [OF assms, of agents dims graph dim]
  by (simp add: system_ok_def engine_pre_def params_ok_def quantiser_ok_def split_def)

lemma eigen_power_length: "length pre = length t \<Longrightarrow> length ((eigen_step alpha pre rows ^^ n) t) = length t"
proof (induction n)
  case (Suc n)
  then show ?case using eigen_step_nth(1) [of pre "(eigen_step alpha pre rows ^^ n) t"] by simp
qed simp

lemma engine_answers_agents: "map fst (reputation_dimension_fp q p dims agents graph dim) = map fst agents"
  by (simp add: engine_eq eigen_power_length engine_pre_def)

section \<open>Communities\<close>

definition vouch_linked :: "'k edges \<Rightarrow> 'k list \<Rightarrow> ('k \<times> 'k) set" where
  "vouch_linked out nodes = {(a, b). a \<in> set nodes \<and> b \<in> set nodes \<and> (has_edge out a b \<or> has_edge out b a)}"

lemma best_label_among: "best_label label neigh = Some b \<Longrightarrow> b \<in> label ` set neigh"
proof -
  have "fold (\<lambda>k best. case best of None \<Rightarrow> Some k | Some b \<Rightarrow> if c k > c b then Some k else best) ks best = Some b
      \<Longrightarrow> b \<in> set ks \<or> best = Some b" for c :: "'a \<Rightarrow> nat" and ks best
    by (induction ks arbitrary: best) (auto split: option.splits if_splits)
  note this [of "label_count label neigh" "remdups (sort (map label neigh))" None]
  then show "best_label label neigh = Some b \<Longrightarrow> b \<in> label ` set neigh" unfolding best_label_def by auto
qed

definition labels_ok :: "'k edges \<Rightarrow> 'k list \<Rightarrow> ('k \<Rightarrow> 'k) \<Rightarrow> bool" where
  "labels_ok out nodes label = (\<forall>n\<in>set nodes. (n, label n) \<in> (vouch_linked out nodes)\<^sup>* \<and> label n \<in> set nodes)"

lemma relabel_ok:
  assumes "labels_ok out nodes label"
  shows "labels_ok out nodes (fst (relabel out nodes n (label, changed)))"
proof (cases "best_label label (adjacent out nodes n)")
  case None
  with assms show ?thesis by (simp add: relabel_def)
next
  case (Some b)
  then obtain m where m: "m \<in> set (adjacent out nodes n)" "b = label m" using best_label_among by blast
  then have "(n, m) \<in> vouch_linked out nodes" "m \<in> set nodes" by (auto simp: adjacent_def vouch_linked_def)
  with assms m show ?thesis
    unfolding relabel_def labels_ok_def using Some
    by (auto intro: converse_rtrancl_into_rtrancl)
qed

lemma propagate_ok: "labels_ok out nodes label \<Longrightarrow> labels_ok out nodes (propagate r out nodes label)"
proof (induction r arbitrary: label)
  case (Suc r)
  have "labels_ok out nodes l \<Longrightarrow> labels_ok out nodes (fst (fold (relabel out nodes) ns (l, c)))" for ns l c
  proof (induction ns arbitrary: l c)
    case (Cons n ns)
    show ?case using Cons.IH [OF relabel_ok [OF Cons.prems, of n c], of "snd (relabel out nodes n (l, c))"] by simp
  qed simp
  from this [OF Suc.prems, of "sort nodes" False] Suc.IH show ?case by (simp add: Let_def split_def)
qed simp

lemma communities_ok: "labels_ok out nodes (communities out nodes)"
  unfolding communities_def by (rule propagate_ok) (simp add: labels_ok_def)

section \<open>Properties\<close>

lemma engine_bounded:
  assumes "quantiser_ok q" "sum_list (engine_pre q agents dim) \<le> FP_SCALE + FP_SCALE div 10"
  shows "map fst (reputation_dimension_fp q pallet_params dims agents graph dim) = map fst agents
    \<and> list_all (\<lambda>(_, v). 0 \<le> v) (reputation_dimension_fp q pallet_params dims agents graph dim)
    \<and> sum_list (map snd (reputation_dimension_fp q pallet_params dims agents graph dim)) \<le> 2 * FP_SCALE
    \<and> (sum_list (engine_pre q agents dim) \<le> FP_SCALE \<longrightarrow>
         sum_list (map snd (reputation_dimension_fp q pallet_params dims agents graph dim)) \<le> FP_SCALE)"
proof -
  let ?pre = "engine_pre q agents dim" and ?rows = "engine_rows q pallet_params dims agents graph dim"
  let ?a = "ep_alpha pallet_params"
  let ?t = "(eigen_step ?a ?pre ?rows ^^ ep_iterations pallet_params) ?pre"
  have "params_ok pallet_params" by (simp add: params_ok_def pallet_params_def FP_SCALE_def)
  note sys = engine_system [OF assms(1) this, of agents dim dims graph]
  have two: "system_ok ?a ?pre ?rows ?t \<and> sum_list ?t \<le> 2 * FP_SCALE"
  proof (rule loop_mass [OF sys _ assms(2)])
    show "sum_list ?pre \<le> 2 * FP_SCALE" using assms(2) by (simp add: FP_SCALE_def)
  qed (simp_all add: FP_SCALE_def pallet_params_def)
  have one: "sum_list ?t \<le> FP_SCALE" if "sum_list ?pre \<le> FP_SCALE"
    using loop_mass [OF sys order_refl that that] by (simp add: FP_SCALE_def pallet_params_def)
  have len: "length ?t = length agents"
    using two by (simp add: system_ok_def engine_pre_def)
  have "0 \<le> v" if "v \<in> set ?t" for v
    using two that by (auto simp: system_ok_def in_set_conv_nth)
  then have "list_all (\<lambda>(_, v). 0 \<le> v) (zip (map fst agents) ?t)"
    by (auto simp: list_all_iff dest: set_zip_rightD)
  with two one len show ?thesis by (simp add: engine_eq)
qed

text \<open>
  C1: an epoch's recompute creates no reputation: with the pallet's parameters, whatever the evidence and the
  vouches, the engine answers for exactly the agents given, no value is negative, and the values of a suit add up to
  at most one (\<open>FP_SCALE\<close>) when the quantised shares of its evidence do, and to at most two while rounding
  these shares adds no more than a tenth.
\<close>

theorem engine_creates_nothing:
  assumes "quantiser_ok q" "sum_list (engine_pre q agents dim) \<le> FP_SCALE + FP_SCALE div 10"
  shows "map fst (reputation_dimension_fp q pallet_params dims agents graph dim) = map fst agents
    \<and> list_all (\<lambda>(_, v). 0 \<le> v) (reputation_dimension_fp q pallet_params dims agents graph dim)
    \<and> sum_list (map snd (reputation_dimension_fp q pallet_params dims agents graph dim)) \<le> 2 * FP_SCALE
    \<and> (sum_list (engine_pre q agents dim) \<le> FP_SCALE \<longrightarrow>
         sum_list (map snd (reputation_dimension_fp q pallet_params dims agents graph dim)) \<le> FP_SCALE)"
  using assms by (rule engine_bounded)

definition demo_quantiser :: quantiser where
  "demo_quantiser = \<lparr>q_weight = (\<lambda>w. int w * FP_SCALE), q_sum = (\<lambda>es. int (sum_list es) * FP_SCALE),
     q_pre = (\<lambda>es e. if sum_list es = 0 then 0 else int e * FP_SCALE div int (sum_list es))\<rparr>"

lemma demo_quantiser_ok: "quantiser_ok demo_quantiser"
  by (simp add: quantiser_ok_def demo_quantiser_def div_int_pos_iff)

text \<open>A worker who vouches for a newcomer, and two accounts that vouch only for each other.\<close>

definition demo_agents :: "(nat \<times> (nat \<Rightarrow> nat)) list" where
  "demo_agents = [(1, \<lambda>_. 10), (2, \<lambda>_. 0), (3, \<lambda>_. 0), (4, \<lambda>_. 0)]"

definition demo_trust :: "(nat, nat) trust_graph" where
  "demo_trust = graph_attest 4 3 0 9 (graph_attest 3 4 0 9 (graph_attest 1 2 0 5 graph_new))"

theorem engine_creates_nothing_witness:
  "sum_list (map snd (reputation_dimension_fp demo_quantiser pallet_params [0] demo_agents demo_trust 0)) \<le> FP_SCALE"
  using engine_creates_nothing [OF demo_quantiser_ok, of demo_agents 0 "[0]" demo_trust]
  by (simp add: engine_pre_def demo_quantiser_def demo_agents_def FP_SCALE_def)

text \<open>
  C30: standing cannot be conjured: a ring of accounts without evidence in a suit, for none of which anybody
  outside the ring vouches in it, has reputation exactly zero there, however densely its members vouch for each
  other and whatever the parameters.
\<close>

theorem ring_without_evidence_gets_nothing:
  assumes "quantiser_ok q"
    and "list_all (\<lambda>(k, e). k \<in> R \<longrightarrow> e dim = 0) agents"
    and "list_all (\<lambda>(i, _). i \<notin> R \<longrightarrow> list_all (\<lambda>(j, _). j \<notin> R) (graph dim i)) agents"
    and "(k, v) \<in> set (reputation_dimension_fp q p dims agents graph dim)" "k \<in> R"
  shows "v = 0"
proof -
  let ?n = "length agents" and ?pre = "engine_pre q agents dim" and ?rows = "engine_rows q p dims agents graph dim"
  let ?t = "(eigen_step (ep_alpha p) ?pre ?rows ^^ ep_iterations p) ?pre"
  let ?I = "{i. i < ?n \<and> fst (agents ! i) \<in> R}"
  have len: "length ?pre = ?n" by (simp add: engine_pre_def)
  obtain i where i: "i < ?n" "k = fst (agents ! i)" "v = ?t ! i"
    using assms(4) unfolding engine_eq by (auto simp: set_zip)
  have "?t ! i = 0"
  proof (rule isolated_loop [where R = ?I])
    show "length ?pre = length ?pre" "i \<in> ?I" "i < length ?pre" using i assms(5) len by simp_all
    show "?pre ! m = 0 \<and> ?pre ! m = 0" if "m \<in> ?I" for m
    proof -
      have m: "m < ?n" "fst (agents ! m) \<in> R" using that by simp_all
      then have "snd (agents ! m) dim = 0"
        using assms(2) by (auto simp: list_all_length split_def)
      with m(1) assms(1) show ?thesis by (simp add: engine_pre_def quantiser_ok_def split_def)
    qed
    show "b \<notin> ?I" if m: "m < length ?pre" "m \<notin> ?I" and b: "(b, w) \<in> set (?rows ! m)" for m b w
    proof -
      have mn: "m < ?n" and out: "fst (agents ! m) \<notin> R" using m len by simp_all
      from b mn obtain j where j: "b = index_of (map fst agents) j"
        "(j, w) \<in> set (damped_row q p (graph dim) (map fst agents) (\<lambda>n. q_sum q (map (the (map_of agents n)) dims))
           (\<lambda>n. q_sum q [the (map_of agents n) dim]) (fst (agents ! m)))"
        by (auto simp: engine_rows_def Let_def)
      note tg = damped_row_targets [OF j(2)]
      have "list_all (\<lambda>(j, _). j \<notin> R) (graph dim (fst (agents ! m)))"
        using assms(3) mn out by (auto simp: list_all_length split_def)
      then have "j \<notin> R" using tg by (auto simp: has_edge_def out_neighbors_def list_all_iff)
      moreover have "b < ?n" "map fst agents ! b = j" using index_of_ok [OF conjunct1 [OF tg]] by (simp_all add: j(1))
      then have "fst (agents ! b) = j" by simp
      ultimately show ?thesis by simp
    qed
  qed
  with i show ?thesis by simp
qed

theorem ring_without_evidence_gets_nothing_witness:
  "\<exists>a b. reputation_dimension_fp demo_quantiser pallet_params [0] demo_agents demo_trust 0
     = [(1, a), (2, b), (3, 0), (4, 0)]"
proof -
  let ?r = "reputation_dimension_fp demo_quantiser pallet_params [0] demo_agents demo_trust 0"
  have n: "map fst ?r = [1, 2, 3, 4]"
    by (simp add: engine_answers_agents demo_agents_def)
  then obtain a b c d where r: "?r = [(1, a), (2, b), (3, c), (4, d)]" by (auto simp: map_eq_Cons_conv)
  have z: "v = 0" if "(k, v) \<in> set ?r" "k \<in> {3, 4}" for k v
    by (rule ring_without_evidence_gets_nothing [OF demo_quantiser_ok _ _ that])
      (simp_all add: demo_agents_def demo_trust_def graph_attest_def graph_new_def)
  have "c = 0" "d = 0" using z [of 3 c] z [of 4 d] by (simp_all add: r)
  with r show ?thesis by simp
qed

text \<open>
  C27: the indexed loop is the matrix iteration: the in-place accumulation with its early exit computes exactly
  the stated number of applications of the matrix step, each component of which is the teleport, plus what every row
  gives it, plus its share of all that leaked; stopping early changes nothing.
\<close>

theorem eigen_loop_is_matrix_power:
  assumes "length pre = length t"
  shows "eigen_loop n alpha pre rows t = (eigen_step alpha pre rows ^^ n) t
    \<and> eigen_step alpha pre rows t = map (eigen_component alpha pre rows t) [0..<length t]"
  using eigen_loop_power [OF assms] eigen_step_nth [OF assms] by (auto intro: nth_equalityI)

theorem eigen_loop_is_matrix_power_witness:
  "eigen_loop 3 300000000 [FP_SCALE, 0] [[(1, 500000000)], []] [FP_SCALE, 0]
    = (eigen_step 300000000 [FP_SCALE, 0] [[(1, 500000000)], []] ^^ 3) [FP_SCALE, 0]"
  using eigen_loop_is_matrix_power [of "[FP_SCALE, 0]" "[FP_SCALE, 0]" 3 300000000 "[[(1, 500000000)], []]"] by simp

end
