(* ===== verification/ReputationGuard.thy ===== *)
theory ReputationGuard
imports EngineProps
begin

text \<open>
  The rest of the reputation core the runtime uses, \<open>chain/reputation-core/src/lib.rs\<close> and \<open>vouch.rs\<close>: the aggregate of the
  suits, the shares the entrenchment guard watches, the guard's step, the checkpoint escalation, and the quota of
  vouches with its integer logarithm.
\<close>

section \<open>The aggregate of the suits\<close>

definition concave_aggregate_fp :: "int list \<Rightarrow> int \<Rightarrow> int" where
  "concave_aggregate_fp suits lambda =
     (if suits = [] then 0
      else let v = sort suits; n = length v; mn = v ! 0;
               median = (if n mod 2 = 1 then v ! (n div 2) else (v ! (n div 2 - 1) + v ! (n div 2)) sdiv 2);
               lam = max 0 (min FP_SCALE lambda)
           in (i128_sat_mul (FP_SCALE - lam) mn + i128_sat_mul lam median) sdiv FP_SCALE)"

section \<open>The guard\<close>

definition max_single_entity_share_fp :: "int list \<Rightarrow> int" where
  "max_single_entity_share_fp reps =
     (let pos = filter (\<lambda>r. r > 0) reps; total = sum_list pos
      in if total \<le> 0 then 0 else i128_sat_mul (fold max pos 0) FP_SCALE sdiv total)"

text \<open>\<open>reps\<close> has each node once; a node that has no label is labelled by itself.\<close>

definition cluster_sum :: "('k \<Rightarrow> 'k) \<Rightarrow> ('k \<times> int) list \<Rightarrow> 'k \<Rightarrow> int" where
  "cluster_sum label reps c = sum_list (map snd (filter (\<lambda>(node, r). r > 0 \<and> label node = c) reps))"

definition max_cluster_share_fp :: "('k \<Rightarrow> 'k) \<Rightarrow> ('k \<times> int) list \<Rightarrow> int" where
  "max_cluster_share_fp label reps =
     (let pos = filter (\<lambda>(_, r). r > 0) reps; total = sum_list (map snd pos)
      in if total \<le> 0 then 0
         else i128_sat_mul (fold max (map (\<lambda>(node, _). cluster_sum label reps (label node)) pos) 0) FP_SCALE sdiv total)"

definition cold_start_halt_share_fp :: "('k \<Rightarrow> 'k) \<Rightarrow> ('k \<times> int) list \<Rightarrow> int" where
  "cold_start_halt_share_fp label reps = max (max_cluster_share_fp label reps) (max_single_entity_share_fp (map snd reps))"

definition entrenchment_halt_step :: "int \<Rightarrow> int \<Rightarrow> nat \<Rightarrow> nat \<Rightarrow> nat \<times> bool" where
  "entrenchment_halt_step share threshold counter required =
     (if share > threshold then let c = sat_add u32_max counter 1 in (c, c \<ge> required) else (0, False))"

datatype checkpoint_state = CpOk | CpSoft | CpHard

definition checkpoint_escalation :: "nat \<Rightarrow> nat \<Rightarrow> nat \<Rightarrow> nat \<Rightarrow> checkpoint_state" where
  "checkpoint_escalation since cadence soft_grace hard_grace =
     (if since \<le> sat_add u32_max cadence soft_grace then CpOk
      else if since \<le> sat_add u32_max cadence hard_grace then CpSoft else CpHard)"

section \<open>The quota of vouches\<close>

definition LN2_FP :: int where "LN2_FP = 693147181"

text \<open>The two loops of the range reduction; \<open>m\<close> is positive.\<close>

function log2_halve :: "int \<Rightarrow> int \<Rightarrow> int \<times> int" where
  "log2_halve m e = (if m \<ge> 2 * FP_SCALE then log2_halve (m sdiv 2) (e + 1) else (m, e))"
  by auto

termination log2_halve
  by (relation "measure (\<lambda>(m, _). nat m)") (auto simp: FP_SCALE_def sdiv_pos)

function log2_double :: "int \<Rightarrow> int \<Rightarrow> int \<times> int" where
  "log2_double m e = (if 0 < m \<and> m < FP_SCALE then log2_double (2 * m) (e - 1) else (m, e))"
  by auto

termination log2_double
  by (relation "measure (\<lambda>(m, _). nat (FP_SCALE - m))") (auto simp: FP_SCALE_def)

declare log2_halve.simps [simp del] log2_double.simps [simp del]

text \<open>The odd powers of the series from \<open>k\<close> on.\<close>

function log2_series :: "int \<Rightarrow> int \<Rightarrow> int \<Rightarrow> int \<Rightarrow> int" where
  "log2_series s2 trm k acc =
     (let trm1 = i128_fp_mul trm s2; inc = trm1 sdiv k; acc1 = acc + inc
      in if inc = 0 \<or> k > 21 then acc1 else log2_series s2 trm1 (k + 2) acc1)"
  by auto

termination log2_series
  by (relation "measure (\<lambda>(_, _, k, _). nat (23 - k))") auto

declare log2_series.simps [simp del]

definition log2_fp :: "int \<Rightarrow> int" where
  "log2_fp x =
     (if x \<le> 0 then 0
      else let (m1, e1) = log2_halve x 0; (m, e) = log2_double m1 e1;
               s = i128_fp_div (m - FP_SCALE) (m + FP_SCALE); s2 = i128_fp_mul s s;
               ln_m = 2 * log2_series s2 s 3 s
           in e * FP_SCALE + i128_fp_div ln_m LN2_FP)"

definition vouch_quota_fp :: "int \<Rightarrow> int \<Rightarrow> nat" where
  "vouch_quota_fp aggregate k =
     (let r = max 0 aggregate; l = log2_fp (FP_SCALE + r); q = i128_fp_mul k l
      in nat (max 0 (q sdiv FP_SCALE)) mod 2 ^ 64)"

section \<open>Shares\<close>

lemma fold_max: "fold max xs (a :: int) = Max (insert a (set xs))"
proof (induction xs arbitrary: a)
  case (Cons x xs)
  have "Max (insert (max x a) (set xs)) = Max (insert a (insert x (set xs)))"
    by (cases "set xs = {}") (simp_all add: max.left_commute max.assoc max.commute)
  then show ?case using Cons.IH [of "max x a"] by simp
qed simp

lemma cluster_sum_le: "cluster_sum label reps c \<le> sum_list (map snd (filter (\<lambda>(_, r). r > 0) reps))"
  unfolding cluster_sum_def by (induction reps) auto

lemma cluster_sum_ge: "(node, r) \<in> set reps \<Longrightarrow> 0 < r \<Longrightarrow> r \<le> cluster_sum label reps (label node)"
  unfolding cluster_sum_def by (intro member_le_sum) force+

lemma share_bounds: "0 \<le> m \<Longrightarrow> m \<le> tot \<Longrightarrow> 0 < tot \<Longrightarrow>
    0 \<le> i128_sat_mul m FP_SCALE sdiv tot \<and> i128_sat_mul m FP_SCALE sdiv tot \<le> FP_SCALE"
proof -
  assume m: "0 \<le> m" "m \<le> tot" "0 < tot"
  have b: "0 \<le> i128_sat_mul m FP_SCALE" "i128_sat_mul m FP_SCALE \<le> m * FP_SCALE" using sat_mul_bounds [OF m(1)] by simp_all
  have "i128_sat_mul m FP_SCALE \<le> tot * FP_SCALE" using b(2) mult_right_mono [OF m(2) FP_pos(3)] by (rule order_trans)
  then have "i128_sat_mul m FP_SCALE div tot \<le> tot * FP_SCALE div tot" using m(3) by (intro zdiv_mono1)
  with b m(3) show ?thesis by (simp add: sdiv_pos pos_imp_zdiv_nonneg_iff)
qed

lemma sat_mul_mono: "0 \<le> a \<Longrightarrow> a \<le> b \<Longrightarrow> i128_sat_mul a FP_SCALE \<le> i128_sat_mul b FP_SCALE"
  unfolding i128_sat_mul_def by (intro max.mono min.mono order_refl mult_right_mono) simp_all

text \<open>Splitting among accounts that share a label hides nothing, and a share never passes one.\<close>

lemma cluster_share_dominates:
  "max_single_entity_share_fp (map snd reps) \<le> max_cluster_share_fp label reps
   \<and> 0 \<le> max_cluster_share_fp label reps \<and> max_cluster_share_fp label reps \<le> FP_SCALE"
proof -
  let ?pos = "filter (\<lambda>(_, r). r > 0) reps"
  let ?total = "sum_list (map snd ?pos)"
  let ?cs = "map (\<lambda>(node, _). cluster_sum label reps (label node)) ?pos"
  have pos: "filter (\<lambda>r. r > 0) (map snd reps) = map snd ?pos" by (induction reps) auto
  have le: "fold max ?cs 0 \<le> ?total" if "0 < ?total"
    using that cluster_sum_le [of label reps] by (auto simp: fold_max)
  have c0: "0 \<le> fold max ?cs 0" by (simp add: fold_max)
  have s0: "0 \<le> fold max (map snd ?pos) 0" by (simp add: fold_max)
  have "fold max (map snd ?pos) 0 \<le> fold max ?cs 0"
    unfolding fold_max
  proof (rule Max.boundedI)
    fix a assume "a \<in> insert 0 (set (map snd ?pos))"
    then consider "a = 0" | node where "(node, a) \<in> set reps" "0 < a" by auto
    then show "a \<le> Max (insert 0 (set ?cs))"
    proof cases
      case 2
      then have "cluster_sum label reps (label node) \<in> insert 0 (set ?cs)" by force
      then have "cluster_sum label reps (label node) \<le> Max (insert 0 (set ?cs))" by (intro Max_ge) simp_all
      with cluster_sum_ge [OF 2, of label] show ?thesis by linarith
    qed simp
  qed simp_all
  then have "i128_sat_mul (fold max (map snd ?pos) 0) FP_SCALE sdiv ?total \<le> i128_sat_mul (fold max ?cs 0) FP_SCALE sdiv ?total"
    if "0 < ?total"
    using that s0 c0 sat_mul_bounds [OF s0, of FP_SCALE] sat_mul_bounds [OF c0, of FP_SCALE]
    by (simp add: sdiv_pos zdiv_mono1 sat_mul_mono)
  then show ?thesis
    using share_bounds [OF c0 le]
    by (simp add: max_single_entity_share_fp_def max_cluster_share_fp_def pos Let_def not_le)
qed

section \<open>The quota is a logarithm\<close>

lemma mul_div_below: "0 < b \<Longrightarrow> b * (a div b) \<le> a" for a b :: int
  using mult_div_mod_eq [of b a] pos_mod_sign [of b a] by linarith

lemma log2_halve_spec:
  "2 ^ n * FP_SCALE \<le> m \<Longrightarrow> m < 2 ^ Suc n * FP_SCALE
   \<Longrightarrow> \<exists>m'. log2_halve m e = (m', e + int n) \<and> FP_SCALE \<le> m' \<and> m' < 2 * FP_SCALE"
proof (induction n arbitrary: m e)
  case 0
  then show ?case by (subst log2_halve.simps) simp
next
  case (Suc n)
  have big: "2 * FP_SCALE \<le> m"
  proof -
    have "1 * (2 * FP_SCALE) \<le> 2 ^ n * (2 * FP_SCALE)" by (rule mult_right_mono) simp_all
    also have "... = 2 ^ Suc n * FP_SCALE" by simp
    finally show ?thesis using Suc.prems(1) by linarith
  qed
  then have "0 \<le> m" using FP_pos by linarith
  then have "log2_halve m e = log2_halve (m div 2) (e + 1)" using big by (subst log2_halve.simps) (simp add: sdiv_pos)
  moreover have "2 ^ n * FP_SCALE \<le> m div 2" "m div 2 < 2 ^ Suc n * FP_SCALE" using Suc.prems by auto
  ultimately show ?case using Suc.IH [of "m div 2" "e + 1"] by (simp add: algebra_simps)
qed

lemma fp_mul_le_div: "0 \<le> a \<Longrightarrow> 0 \<le> b \<Longrightarrow> 0 \<le> i128_fp_mul a b \<and> i128_fp_mul a b \<le> a * b div FP_SCALE"
  unfolding i128_fp_mul_def using sat_mul_bounds [of a b] by (simp add: sdiv_pos pos_imp_zdiv_nonneg_iff zdiv_mono1)

text \<open>The series adds at most a twenty-fourth of its current power, when the square of the argument is at most a ninth.\<close>

lemma log2_series_bounds:
  "0 \<le> trm \<Longrightarrow> 0 \<le> s2 \<Longrightarrow> 9 * s2 \<le> FP_SCALE \<Longrightarrow> 3 \<le> k
   \<Longrightarrow> acc \<le> log2_series s2 trm k acc \<and> 24 * log2_series s2 trm k acc \<le> 24 * acc + trm"
proof (induction s2 trm k acc rule: log2_series.induct)
  case (1 s2 trm k acc)
  let ?t = "i128_fp_mul trm s2"
  let ?i = "?t sdiv k"
  have t: "0 \<le> ?t" "?t \<le> trm * s2 div FP_SCALE" using fp_mul_le_div 1 by auto
  have "FP_SCALE * (9 * (trm * s2 div FP_SCALE)) \<le> 9 * (trm * s2)"
    using mul_div_below [OF FP_pos(1), of "trm * s2"] by linarith
  also have "... = trm * (9 * s2)" by simp
  also have "... \<le> trm * FP_SCALE" using 1 by (intro mult_left_mono)
  also have "... = FP_SCALE * trm" by simp
  finally have "9 * (trm * s2 div FP_SCALE) \<le> trm" by (simp only: mult_le_cancel_left_pos FP_pos)
  then have t9: "9 * ?t \<le> trm" using t by linarith
  have i: "0 \<le> ?i" "3 * ?i \<le> ?t"
  proof -
    show i0: "0 \<le> ?i" using t 1 by (simp add: sdiv_pos pos_imp_zdiv_nonneg_iff)
    have "3 * ?i \<le> k * ?i" using i0 1 by (intro mult_right_mono) simp_all
    also have "... \<le> ?t" using t(1) 1 mul_div_below [of k ?t] by (simp add: sdiv_pos)
    finally show "3 * ?i \<le> ?t" .
  qed
  show ?case
  proof (cases "?i = 0 \<or> k > 21")
    case True
    then have "log2_series s2 trm k acc = acc + ?i" by (subst log2_series.simps) (simp add: Let_def)
    then show ?thesis using i t9 t(1) by (smt (verit))
  next
    case False
    then have "log2_series s2 trm k acc = log2_series s2 ?t (k + 2) (acc + ?i)"
      by (subst log2_series.simps) (simp add: Let_def)
    moreover have "acc + ?i \<le> log2_series s2 ?t (k + 2) (acc + ?i)"
      "24 * log2_series s2 ?t (k + 2) (acc + ?i) \<le> 24 * (acc + ?i) + ?t"
      using 1(1) [OF refl refl refl False] 1 t by simp_all
    ultimately show ?thesis using i t9 t(1) by (smt (verit))
  qed
qed

text \<open>The binary logarithm is within one and two thousandths of its integer part.\<close>

lemma log2_fp_bounds:
  assumes n: "2 ^ n * FP_SCALE \<le> x" "x < 2 ^ Suc n * FP_SCALE"
  shows "int n * FP_SCALE \<le> log2_fp x \<and> log2_fp x \<le> int n * FP_SCALE + 1002000000"
proof -
  obtain m where m: "log2_halve x 0 = (m, int n)" "FP_SCALE \<le> m" "m < 2 * FP_SCALE" using log2_halve_spec [OF n, of 0] by auto
  have x: "0 < x" using n(1) by (smt (verit) FP_pos(1) mult_pos_pos zero_less_power)
  have d: "log2_double m (int n) = (m, int n)" using m(2) by (subst log2_double.simps) simp
  let ?s = "i128_fp_div (m - FP_SCALE) (m + FP_SCALE)"
  let ?s2 = "i128_fp_mul ?s ?s"
  let ?sum = "log2_series ?s2 ?s 3 ?s"
  have pos: "0 < m + FP_SCALE" "0 \<le> m - FP_SCALE" using m by simp_all
  have s0: "0 \<le> ?s" using fp_div_nonneg pos by simp
  have "?s \<le> (m - FP_SCALE) * FP_SCALE div (m + FP_SCALE)" using fp_div_le [OF pos(2) pos(1)] .
  then have "(m + FP_SCALE) * ?s \<le> (m + FP_SCALE) * ((m - FP_SCALE) * FP_SCALE div (m + FP_SCALE))"
    using pos(1) by (intro mult_left_mono) simp_all
  then have "(m + FP_SCALE) * ?s \<le> (m - FP_SCALE) * FP_SCALE"
    using mul_div_below [OF pos(1), of "(m - FP_SCALE) * FP_SCALE"] by (rule order_trans)
  then have "(m + FP_SCALE) * (3 * ?s) \<le> 3 * (m - FP_SCALE) * FP_SCALE" by linarith
  also have "... \<le> (m + FP_SCALE) * FP_SCALE" using m by (intro mult_right_mono) simp_all
  finally have s3: "3 * ?s \<le> FP_SCALE" using pos(1) by (simp only: mult_le_cancel_left_pos)
  have s2: "0 \<le> ?s2" "?s2 \<le> ?s * ?s div FP_SCALE" using fp_mul_le_div s0 by auto
  have "FP_SCALE * (9 * ?s2) \<le> 9 * (FP_SCALE * (?s * ?s div FP_SCALE))" using s2(2) by simp
  also have "... \<le> (3 * ?s) * (3 * ?s)" using mul_div_below [of FP_SCALE "?s * ?s"] by simp
  also have "... \<le> FP_SCALE * FP_SCALE" using s0 s3 by (intro mult_mono) simp_all
  finally have s29: "9 * ?s2 \<le> FP_SCALE" by (simp only: mult_le_cancel_left_pos FP_pos)
  have sum: "0 \<le> ?sum" "24 * ?sum \<le> 25 * ?s" using log2_series_bounds [OF s0 s2(1) s29, of 3 ?s] s0 by auto
  have two: "2 * ?sum \<le> 694444444" using sum s3 by (simp add: FP_SCALE_def)
  have ln: "0 < LN2_FP" by (simp add: LN2_FP_def)
  have "i128_fp_div (2 * ?sum) LN2_FP \<le> 2 * ?sum * FP_SCALE div LN2_FP" using sum ln by (intro fp_div_le) simp_all
  also have "... \<le> 694444444 * FP_SCALE div LN2_FP" using two ln by (intro zdiv_mono1 mult_right_mono) simp_all
  also have "... \<le> 1002000000" by (simp add: FP_SCALE_def LN2_FP_def)
  finally have hi: "i128_fp_div (2 * ?sum) LN2_FP \<le> 1002000000" .
  have lo: "0 \<le> i128_fp_div (2 * ?sum) LN2_FP" using sum ln by (intro fp_div_nonneg) simp_all
  have "log2_fp x = int n * FP_SCALE + i128_fp_div (2 * ?sum) LN2_FP"
    using x m(1) d by (simp add: log2_fp_def Let_def)
  with hi lo show ?thesis by simp
qed

text \<open>
  The vouch quota is logarithmic in standing, up to the rounding of its fixed point. With \<open>k\<close> vouches per
  doubling and \<open>n\<close> the number of doublings of \<open>1 + reputation\<close>, the quota is at least \<open>k n\<close> and at most
  \<open>k (n + 1)\<close> plus one five-hundredth of \<open>k\<close>; so hoarding reputation buys vouches only by doublings.
\<close>

theorem quota_is_logarithmic:
  assumes n: "2 ^ n * FP_SCALE \<le> FP_SCALE + r" "FP_SCALE + r < 2 ^ Suc n * FP_SCALE" "n \<le> 97" and k: "k < 2 ^ 32"
  shows "k * n \<le> vouch_quota_fp r (int k * FP_SCALE) \<and> vouch_quota_fp r (int k * FP_SCALE) \<le> k * (n + 1) + k div 500"
proof -
  let ?l = "log2_fp (FP_SCALE + r)"
  have "FP_SCALE \<le> 2 ^ n * FP_SCALE" by (simp add: FP_SCALE_def)
  with n(1) have r: "0 \<le> r" by linarith
  note l = log2_fp_bounds [OF n(1,2)]
  have l0: "0 \<le> ?l" using l by (meson FP_pos(3) mult_nonneg_nonneg of_nat_0_le_iff order_trans)
  have l1: "?l \<le> 98002000000" using l n(3) by (simp add: FP_SCALE_def)
  have "int k * FP_SCALE * ?l \<le> 2 ^ 32 * FP_SCALE * 98002000000" using k l0 l1 by (intro mult_mono) simp_all
  also have "... \<le> 2 ^ 127 - 1" by (simp add: FP_SCALE_def)
  finally have fits: "int k * FP_SCALE * ?l \<le> 2 ^ 127 - 1" .
  have q: "i128_fp_mul (int k * FP_SCALE) ?l = int k * ?l"
  proof -
    have "0 \<le> int k * FP_SCALE * ?l" using l0 by simp
    then have "i128_sat_mul (int k * FP_SCALE) ?l = int k * FP_SCALE * ?l"
      using fits unfolding i128_sat_mul_def i128_min_def i128_max_def by linarith
    then have "i128_sat_mul (int k * FP_SCALE) ?l = FP_SCALE * (int k * ?l)" by simp
    then show ?thesis using l0 by (simp add: i128_fp_mul_def sdiv_pos)
  qed
  have nat: "vouch_quota_fp r (int k * FP_SCALE) = nat (int k * ?l div FP_SCALE) mod 2 ^ 64"
    using r l0 q by (simp add: vouch_quota_fp_def max_absorb2 sdiv_pos pos_imp_zdiv_nonneg_iff)
  have "int k * (int n * FP_SCALE) \<le> int k * ?l" using l by (intro mult_left_mono) simp_all
  then have "int k * (int n * FP_SCALE) div FP_SCALE \<le> int k * ?l div FP_SCALE" by (rule zdiv_mono1) simp
  moreover have "int k * (int n * FP_SCALE) div FP_SCALE = int k * int n"
    by (metis FP_pos(2) mult.assoc nonzero_mult_div_cancel_right)
  ultimately have lo: "int (k * n) \<le> int k * ?l div FP_SCALE" by simp
  have "int k * ?l \<le> int k * ((int n + 1) * FP_SCALE + 2000000)"
    using l by (intro mult_left_mono) (simp_all add: FP_SCALE_def)
  then have "int k * ?l div FP_SCALE \<le> int k * ((int n + 1) * FP_SCALE + 2000000) div FP_SCALE" by (rule zdiv_mono1) simp
  also have "... = (int k * 2000000 + int k * (int n + 1) * FP_SCALE) div FP_SCALE" by (simp add: algebra_simps)
  also have "... = int k * (int n + 1) + int k * 2000000 div FP_SCALE" by (simp only: div_mult_self1 FP_pos not_False_eq_True)
  also have "int k * 2000000 div FP_SCALE = int (k div 500)" by (simp add: FP_SCALE_def zdiv_int)
  finally have hi: "int k * ?l div FP_SCALE \<le> int (k * (n + 1) + k div 500)" by (simp add: distrib_left)
  have "k * (n + 1) + k div 500 \<le> 2 ^ 32 * 98 + 2 ^ 32"
    using k n(3) by (intro add_mono mult_mono) simp_all
  moreover have "nat (int k * ?l div FP_SCALE) \<le> k * (n + 1) + k div 500" using hi by (rule nat_le_iff [THEN iffD2])
  ultimately have "nat (int k * ?l div FP_SCALE) < 2 ^ 64" by simp
  then show ?thesis using nat nat_le_iff [THEN iffD2, OF hi] nat_mono [OF lo] by (simp only: nat_int mod_less simp_thms)
qed

theorem quota_is_logarithmic_witness:
  "30 \<le> vouch_quota_fp (9 * FP_SCALE) (10 * FP_SCALE) \<and> vouch_quota_fp (9 * FP_SCALE) (10 * FP_SCALE) \<le> 40"
  using quota_is_logarithmic [of 3 "9 * FP_SCALE" 10] by (simp add: FP_SCALE_def)

end
