(* ===== verification/ReputationPallet.thy ===== *)
theory ReputationPallet
imports ReputationGuard Sha256 Suits "HOL-Library.List_Lexorder" "HOL-Library.Char_ord"
begin

text \<open>
  The reputation pallet, \<open>chain/pallet-reputation/src/lib.rs\<close>: evidence with its journal, attestations, vouches,
  the slashing cascade, verdicts, vote keys, and the epoch that ages evidence, credits service, recomputes reputation
  with the engine and steps the entrenchment guard.

  \<open>rep_env\<close> holds what the pallet reads outside itself: the block number, the service feed, sr25519 verification, the
  SCALE bytes of an account, the \<open>f64\<close> steps of the engine (\<open>re_quantiser\<close>), \<open>Permill\<close> arithmetic
  (\<open>re_mul_floor\<close>, \<open>re_pow\<close>, on parts per million) and \<open>re_order\<close>, the order in which the storage iterates
  the accounts that satisfy a predicate, each once (\<open>order_lists\<close>). A privileged origin's check is the first
  argument of the extrinsics it gates. Accounts are ordered as their bytes are, so the guard's hexadecimal keys are
  the accounts themselves; the recompute's keys are the decimal strings of positions, as in the code.
\<close>

section \<open>Types and storage\<close>

record epoch_report =
  er_members :: nat
  er_active :: nat
  er_top :: int

definition no_report :: epoch_report where
  "no_report = \<lparr>er_members = 0, er_active = 0, er_top = 0\<rparr>"

record rep_config =
  rc_max_vouches :: nat
  rc_quota_k :: nat
  rc_retention :: nat
  rc_epoch_length :: nat
  rc_liability :: nat
  rc_attest_budget :: nat
  rc_probation :: nat
  rc_floor_min :: int
  rc_stake_multiplier :: nat
  rc_service_rate :: nat

record 'a rep_env =
  re_now :: nat
  re_service :: "nat \<Rightarrow> ('a \<times> nat) list"
  re_verify :: "byte list \<Rightarrow> byte list \<Rightarrow> byte list \<Rightarrow> bool"
  re_encode :: "'a \<Rightarrow> byte list"
  re_quantiser :: quantiser
  re_mul_floor :: "nat \<Rightarrow> nat \<Rightarrow> nat"
  re_pow :: "nat \<Rightarrow> nat \<Rightarrow> nat"
  re_order :: "('a \<Rightarrow> bool) \<Rightarrow> 'a list"

datatype rep_error = SelfVouch | TooManyVouches | ZeroWeight | VouchQuotaReached | BootstrapWindowAlreadySet
  | BootstrapWindowClosed | SelfAttestation | NoAttestation | AttestBudgetExhausted | SessionKeyInUse
  | BadPossessionProof | NoVoteKeyToClear | BadOrigin

datatype 'a rep_event =
    EvidenceRecorded 'a suit nat nat
  | Vouched 'a 'a suit nat
  | VouchRevoked 'a 'a suit
  | EpochAdvanced nat nat nat
  | FraudSlashed 'a suit nat
  | BootstrapWindowSet nat
  | AttestationMade 'a 'a suit nat nat
  | EntrenchmentHalt int nat bool
  | ClusterGuard int bool
  | VoteKeyBound 'a "byte list" bool
  | VoteKeyCleared 'a "byte list"

record 'a reputation =
  rp_evidence :: "'a \<times> suit \<rightharpoonup> nat"
  rp_vouches :: "'a \<rightharpoonup> ('a \<times> suit \<times> nat) list"
  rp_snapshot :: "'a \<times> suit \<rightharpoonup> int"
  rp_epoch :: nat
  rp_bootstrap_end :: nat
  rp_attestations :: "'a \<times> 'a \<times> suit \<rightharpoonup> nat"
  rp_attests :: "'a \<Rightarrow> nat \<times> nat"
  rp_pair_count :: "'a \<times> 'a \<times> suit \<Rightarrow> nat"
  rp_floor :: int
  rp_next_record :: nat
  rp_sweep_cursor :: nat
  rp_service_cursor :: nat
  rp_records :: "nat \<rightharpoonup> 'a \<times> suit \<times> nat \<times> nat"
  rp_vouched_at :: "'a \<times> 'a \<times> suit \<rightharpoonup> nat"
  rp_probation :: nat
  rp_counter :: nat
  rp_halted :: bool
  rp_bands :: "(nat \<times> nat option) list"
  rp_armed :: bool
  rp_report :: "epoch_report option"
  rp_vote_keys :: "'a \<rightharpoonup> byte list"
  rp_key_owner :: "byte list \<rightharpoonup> 'a"
  rp_log :: "'a rep_event list"

definition empty_reputation :: "rep_config \<Rightarrow> 'a reputation" where
  "empty_reputation cfg = \<lparr>rp_evidence = Map.empty, rp_vouches = Map.empty, rp_snapshot = Map.empty, rp_epoch = 0,
     rp_bootstrap_end = 0, rp_attestations = Map.empty, rp_attests = (\<lambda>_. (0, 0)), rp_pair_count = (\<lambda>_. 0), rp_floor = 0,
     rp_next_record = 0, rp_sweep_cursor = 0, rp_service_cursor = 0, rp_records = Map.empty, rp_vouched_at = Map.empty,
     rp_probation = rc_probation cfg, rp_counter = 0, rp_halted = False, rp_bands = [], rp_armed = False,
     rp_report = None, rp_vote_keys = Map.empty, rp_key_owner = Map.empty, rp_log = []\<rparr>"

definition ENTRENCHMENT_THRESHOLD_FP :: int where "ENTRENCHMENT_THRESHOLD_FP = FP_SCALE sdiv 3"
definition ENTRENCHMENT_REQUIRED_EPOCHS :: nat where "ENTRENCHMENT_REQUIRED_EPOCHS = 7"
definition CONSENSUS_LAMBDA_FP :: int where "CONSENSUS_LAMBDA_FP = FP_SCALE sdiv 2"
definition ATTEST_PAIR_DECAY_MAX :: nat where "ATTEST_PAIR_DECAY_MAX = 16"
definition EVIDENCE_SWEEP_PER_EPOCH :: nat where "EVIDENCE_SWEEP_PER_EPOCH = 64"
definition MAX_BANDS :: nat where "MAX_BANDS = 8"
definition BIND_LABEL :: "byte list" where "BIND_LABEL = bytes_of ''hlq-node-bind-v1''"

definition rp_emit :: "'a rep_event \<Rightarrow> 'a reputation \<Rightarrow> 'a reputation" where
  "rp_emit e st = st\<lparr>rp_log := rp_log st @ [e]\<rparr>"

text \<open>Reads of the value-query maps, and iteration over the accounts with vouches.\<close>

definition evidence_of :: "'a reputation \<Rightarrow> 'a \<Rightarrow> suit \<Rightarrow> nat" where
  "evidence_of st who s = (case rp_evidence st (who, s) of None \<Rightarrow> 0 | Some e \<Rightarrow> e)"

definition snapshot_of :: "'a reputation \<Rightarrow> 'a \<Rightarrow> suit \<Rightarrow> int" where
  "snapshot_of st who s = (case rp_snapshot st (who, s) of None \<Rightarrow> 0 | Some r \<Rightarrow> r)"

definition edges_of :: "'a reputation \<Rightarrow> 'a \<Rightarrow> ('a \<times> suit \<times> nat) list" where
  "edges_of st who = (case rp_vouches st who of None \<Rightarrow> [] | Some es \<Rightarrow> es)"

definition vouchers :: "'a rep_env \<Rightarrow> 'a reputation \<Rightarrow> 'a list" where
  "vouchers env st = re_order env (\<lambda>a. rp_vouches st a \<noteq> None)"

section \<open>Reads\<close>

definition suits_snapshot_of :: "'a reputation \<Rightarrow> 'a \<Rightarrow> int list" where
  "suits_snapshot_of st who = map (snapshot_of st who) all_suits"

definition consensus_reputation_of :: "'a reputation \<Rightarrow> 'a \<Rightarrow> int" where
  "consensus_reputation_of st who = concave_aggregate_fp (suits_snapshot_of st who) CONSENSUS_LAMBDA_FP"

definition consensus_reputation :: "'a :: linorder rep_env \<Rightarrow> 'a reputation \<Rightarrow> ('a \<times> int) list" where
  "consensus_reputation env st =
     filter (\<lambda>(_, r). r > 0)
       (map (\<lambda>a. (a, consensus_reputation_of st a))
          (sort (re_order env (\<lambda>a. list_ex (\<lambda>s. rp_snapshot st (a, s) \<noteq> None) all_suits))))"

definition vouch_quota_of :: "rep_config \<Rightarrow> 'a reputation \<Rightarrow> 'a \<Rightarrow> nat" where
  "vouch_quota_of cfg st who =
     (let min_raw = fold (\<lambda>s m. if snapshot_of st who s < m then snapshot_of st who s else m) all_suits i128_max
      in if min_raw \<le> 0 then 0
         else vouch_quota_fp (i128_sat_mul min_raw 1000) (i128_sat_mul (int (rc_quota_k cfg)) FP_SCALE))"

definition attest_floor :: "rep_config \<Rightarrow> 'a reputation \<Rightarrow> int" where
  "attest_floor cfg st = max (rp_floor st) (rc_floor_min cfg)"

definition entrenchment_recovery_for :: "'a reputation \<Rightarrow> nat \<Rightarrow> nat option" where
  "entrenchment_recovery_for st height =
     (case filter (\<lambda>(start, cleared). case cleared of None \<Rightarrow> False | Some h \<Rightarrow> height \<ge> start \<and> height \<le> h) (rp_bands st) of
        [] \<Rightarrow> None
      | (_, cleared) # _ \<Rightarrow> cleared)"

definition vouches_for :: "'a reputation \<Rightarrow> 'a \<Rightarrow> 'a \<Rightarrow> bool" where
  "vouches_for st a b = list_ex (\<lambda>(t, _, _). t = b) (edges_of st a)"

definition vouched_at_or_before :: "'a reputation \<Rightarrow> 'a \<Rightarrow> 'a \<Rightarrow> nat \<Rightarrow> bool" where
  "vouched_at_or_before st a b cutoff =
     list_ex (\<lambda>(t, s, _). t = b \<and> (case rp_vouched_at st (a, b, s) of None \<Rightarrow> True | Some at \<Rightarrow> at \<le> cutoff)) (edges_of st a)"

definition is_related :: "'a reputation \<Rightarrow> 'a \<Rightarrow> 'a \<Rightarrow> bool" where
  "is_related st a b = (a = b \<or> vouches_for st a b \<or> vouches_for st b a)"

definition relation_depth :: "'a rep_env \<Rightarrow> 'a reputation \<Rightarrow> 'a \<Rightarrow> 'a list \<Rightarrow> nat \<Rightarrow> nat option" where
  "relation_depth env st who parties max_visit =
     (if list_ex (is_related st who) parties then Some 1
      else let outs = edges_of st who; vs = vouchers env st in
        if length outs > max_visit \<or> length vs > max_visit - length outs then None
        else let neighbours = map fst outs @ filter (\<lambda>m. m \<noteq> who \<and> vouches_for st m who) vs
             in if list_ex (\<lambda>m. list_ex (\<lambda>p. m \<noteq> p \<and> is_related st m p) parties) neighbours then Some 2 else None)"

section \<open>The journal\<close>

definition journal_evidence :: "'a \<Rightarrow> suit \<Rightarrow> nat \<Rightarrow> 'a reputation \<Rightarrow> nat \<times> 'a reputation" where
  "journal_evidence who s amount st =
     (let rid = rp_next_record st
      in (rid, st\<lparr>rp_next_record := sat_add u64_max rid 1,
                 rp_records := (rp_records st)(rid \<mapsto> (who, s, amount, rp_epoch st))\<rparr>))"

definition evidence_record_current :: "rep_config \<Rightarrow> 'a rep_env \<Rightarrow> 'a reputation \<Rightarrow> nat \<Rightarrow> ('a \<times> suit \<times> nat) option" where
  "evidence_record_current cfg env st rid =
     (case rp_records st rid of
        None \<Rightarrow> None
      | Some (who, s, amount, admitted) \<Rightarrow>
          Some (who, s, re_mul_floor env (re_pow env (rc_retention cfg) (min (rp_epoch st - admitted) u32_max)) amount))"

definition owns_evidence :: "rep_config \<Rightarrow> 'a rep_env \<Rightarrow> 'a reputation \<Rightarrow> nat \<Rightarrow> 'a \<Rightarrow> suit \<Rightarrow> bool" where
  "owns_evidence cfg env st rid who s =
     (case evidence_record_current cfg env st rid of
        None \<Rightarrow> False | Some (owner, s', current) \<Rightarrow> owner = who \<and> s' = s \<and> current > 0)"

text \<open>Every admission adds to the total, is journalled and announced.\<close>

definition admit_evidence :: "'a \<Rightarrow> suit \<Rightarrow> nat \<Rightarrow> 'a reputation \<Rightarrow> 'a reputation" where
  "admit_evidence who s amount st =
     (let tot = sat_add u128_max (evidence_of st who s) amount;
          (rid, st1) = journal_evidence who s amount (st\<lparr>rp_evidence := (rp_evidence st)((who, s) \<mapsto> tot)\<rparr>)
      in rp_emit (EvidenceRecorded who s tot rid) st1)"

section \<open>Extrinsics\<close>

definition submit_evidence :: "bool \<Rightarrow> 'a rep_env \<Rightarrow> 'a \<Rightarrow> suit \<Rightarrow> nat \<Rightarrow> 'a reputation \<Rightarrow> rep_error + 'a reputation" where
  "submit_evidence privileged env who s amount st =
     (if \<not> privileged then Inl BadOrigin
      else if rp_bootstrap_end st \<noteq> 0 \<and> \<not> re_now env < rp_bootstrap_end st then Inl BootstrapWindowClosed
      else Inr (admit_evidence who s amount st))"

definition set_bootstrap_window :: "bool \<Rightarrow> nat \<Rightarrow> 'a reputation \<Rightarrow> rep_error + 'a reputation" where
  "set_bootstrap_window privileged end_block st =
     (if \<not> privileged then Inl BadOrigin
      else if rp_bootstrap_end st \<noteq> 0 then Inl BootstrapWindowAlreadySet
      else Inr (rp_emit (BootstrapWindowSet end_block) (st\<lparr>rp_bootstrap_end := end_block\<rparr>)))"

definition set_probation_window :: "bool \<Rightarrow> nat \<Rightarrow> 'a reputation \<Rightarrow> rep_error + 'a reputation" where
  "set_probation_window privileged blocks st =
     (if \<not> privileged then Inl BadOrigin else Inr (st\<lparr>rp_probation := blocks\<rparr>))"

text \<open>What a testimony admits, and the pair's counter after it.\<close>

definition attest_weight :: "rep_config \<Rightarrow> 'a \<Rightarrow> 'a \<Rightarrow> suit \<Rightarrow> nat \<Rightarrow> 'a reputation \<Rightarrow> nat \<times> 'a reputation" where
  "attest_weight cfg attester beneficiary s amount st =
     (if consensus_reputation_of st attester < attest_floor cfg st then (0, st)
      else let pair = (attester, beneficiary, s); n = rp_pair_count st pair in
        if n \<ge> ATTEST_PAIR_DECAY_MAX then (0, st)
        else let stake_cap = sat_mul u128_max (evidence_of st attester s) (rc_stake_multiplier cfg);
                 admitted = min amount stake_cap div 2 ^ n
             in (admitted, if admitted > 0 then st\<lparr>rp_pair_count := (rp_pair_count st)(pair := sat_add 255 n 1)\<rparr> else st))"

definition attest_evidence :: "rep_config \<Rightarrow> 'a \<Rightarrow> 'a \<Rightarrow> suit \<Rightarrow> nat \<Rightarrow> 'a reputation \<Rightarrow> rep_error + 'a reputation" where
  "attest_evidence cfg attester beneficiary s amount st =
     (if attester = beneficiary then Inl SelfAttestation
      else let (last_epoch, used0) = rp_attests st attester;
               used = (if last_epoch = rp_epoch st then used0 else 0)
           in if \<not> used < rc_attest_budget cfg then Inl AttestBudgetExhausted
              else let st1 = st\<lparr>rp_attests := (rp_attests st)(attester := (rp_epoch st, sat_add u32_max used 1))\<rparr>;
                       (admitted, st2) = attest_weight cfg attester beneficiary s amount st1;
                       key = (attester, beneficiary, s);
                       st3 = (if admitted > 0
                              then st2\<lparr>rp_attestations := (rp_attestations st2)(key \<mapsto>
                                     sat_add u128_max (case rp_attestations st2 key of None \<Rightarrow> 0 | Some a \<Rightarrow> a) admitted)\<rparr>
                              else st2)
                   in Inr (rp_emit (AttestationMade attester beneficiary s amount admitted) st3))"

definition claim_attested_evidence :: "'a \<Rightarrow> 'a \<Rightarrow> suit \<Rightarrow> 'a reputation \<Rightarrow> rep_error + 'a reputation" where
  "claim_attested_evidence beneficiary attester s st =
     (case rp_attestations st (attester, beneficiary, s) of
        None \<Rightarrow> Inl NoAttestation
      | Some amount \<Rightarrow>
          Inr (admit_evidence beneficiary s amount
                (st\<lparr>rp_attestations := (rp_attestations st)((attester, beneficiary, s) := None)\<rparr>)))"

definition rp_vouch :: "rep_config \<Rightarrow> 'a rep_env \<Rightarrow> 'a \<Rightarrow> 'a \<Rightarrow> suit \<Rightarrow> nat \<Rightarrow> 'a reputation \<Rightarrow> rep_error + 'a reputation" where
  "rp_vouch cfg env voucher target s weight st =
     (if voucher = target then Inl SelfVouch
      else if \<not> weight > 0 then Inl ZeroWeight
      else if \<not> length (edges_of st voucher) < vouch_quota_of cfg st voucher then Inl VouchQuotaReached
      else if \<not> length (edges_of st voucher) < rc_max_vouches cfg then Inl TooManyVouches
      else let st1 = st\<lparr>rp_vouches := (rp_vouches st)(voucher \<mapsto> edges_of st voucher @ [(target, s, weight)])\<rparr>;
               key = (voucher, target, s);
               st2 = (if rp_vouched_at st1 key = None
                      then st1\<lparr>rp_vouched_at := (rp_vouched_at st1)(key \<mapsto> re_now env)\<rparr> else st1)
           in Inr (rp_emit (Vouched voucher target s weight) st2))"

definition revoke_vouch :: "'a \<Rightarrow> 'a \<Rightarrow> suit \<Rightarrow> 'a reputation \<Rightarrow> rep_error + 'a reputation" where
  "revoke_vouch voucher target s st =
     Inr (rp_emit (VouchRevoked voucher target s)
       (st\<lparr>rp_vouches := (rp_vouches st)(voucher \<mapsto> filter (\<lambda>(t, s', _). \<not> (t = target \<and> s' = s)) (edges_of st voucher))\<rparr>))"

definition set_vote_key :: "'a rep_env \<Rightarrow> 'a \<Rightarrow> byte list \<Rightarrow> byte list \<Rightarrow> 'a reputation \<Rightarrow> rep_error + 'a reputation" where
  "set_vote_key env who sk_pub pop_sig st =
     (if \<not> re_verify env pop_sig (BIND_LABEL @ re_encode env who) sk_pub then Inl BadPossessionProof
      else if (case rp_key_owner st sk_pub of None \<Rightarrow> False | Some owner \<Rightarrow> owner \<noteq> who) then Inl SessionKeyInUse
      else let (rotated, st1) =
                 (case rp_vote_keys st who of
                    Some old \<Rightarrow> (True, if old \<noteq> sk_pub then st\<lparr>rp_key_owner := (rp_key_owner st)(old := None)\<rparr> else st)
                  | None \<Rightarrow> (False, st))
           in Inr (rp_emit (VoteKeyBound who sk_pub rotated)
                (st1\<lparr>rp_vote_keys := (rp_vote_keys st1)(who \<mapsto> sk_pub),
                     rp_key_owner := (rp_key_owner st1)(sk_pub \<mapsto> who)\<rparr>)))"

definition clear_vote_key :: "'a \<Rightarrow> 'a reputation \<Rightarrow> rep_error + 'a reputation" where
  "clear_vote_key who st =
     (case rp_vote_keys st who of
        None \<Rightarrow> Inl NoVoteKeyToClear
      | Some sk_pub \<Rightarrow>
          Inr (rp_emit (VoteKeyCleared who sk_pub)
            (st\<lparr>rp_vote_keys := (rp_vote_keys st)(who := None), rp_key_owner := (rp_key_owner st)(sk_pub := None)\<rparr>)))"

section \<open>The cascade\<close>

text \<open>The sponsors of \<open>who\<close> in the suit that are charged: not yet visited, and not protected by probation.\<close>

definition fresh_vouch :: "'a rep_env \<Rightarrow> 'a reputation \<Rightarrow> suit \<Rightarrow> 'a \<Rightarrow> 'a \<Rightarrow> bool" where
  "fresh_vouch env st s voucher who =
     (rp_probation st \<noteq> 0 \<and>
      (case rp_vouched_at st (voucher, who, s) of None \<Rightarrow> False | Some at \<Rightarrow> re_now env - at < rp_probation st))"

definition charged_sponsors :: "'a rep_env \<Rightarrow> 'a reputation \<Rightarrow> suit \<Rightarrow> 'a list \<Rightarrow> 'a \<Rightarrow> 'a list" where
  "charged_sponsors env st s visited who =
     filter (\<lambda>v. v \<notin> set visited \<and> list_ex (\<lambda>(t, s', _). t = who \<and> s' = s) (edges_of st v) \<and> \<not> fresh_vouch env st s v who)
       (vouchers env st)"

definition slash_account ::
  "rep_config \<Rightarrow> 'a rep_env \<Rightarrow> suit \<Rightarrow> bool \<Rightarrow> nat \<Rightarrow> 'a \<times> nat
   \<Rightarrow> 'a reputation \<times> 'a list \<times> ('a \<times> nat) list \<Rightarrow> 'a reputation \<times> 'a list \<times> ('a \<times> nat) list" where
  "slash_account cfg env s is_culprit remaining = (\<lambda>(who, amt) (st, visited, nxt).
     if amt = 0 \<or> who \<in> set visited then (st, visited, nxt)
     else let visited1 = visited @ [who];
              hit = (if is_culprit then amt else min amt (re_mul_floor env 500000 (evidence_of st who s)))
          in if hit = 0 then (st, visited1, nxt)
             else let st1 = st\<lparr>rp_evidence := (rp_evidence st)((who, s) \<mapsto> evidence_of st who s - hit)\<rparr>;
                      passes_on = re_mul_floor env (rc_liability cfg) hit
                  in if remaining = 0 \<or> passes_on = 0 then (st1, visited1, nxt)
                     else (st1, visited1, nxt @ map (\<lambda>v. (v, passes_on)) (charged_sponsors env st1 s visited1 who)))"

primrec cascade_levels ::
  "nat \<Rightarrow> rep_config \<Rightarrow> 'a rep_env \<Rightarrow> suit \<Rightarrow> bool \<Rightarrow> ('a \<times> nat) list \<Rightarrow> 'a reputation \<times> 'a list \<Rightarrow> 'a reputation \<times> 'a list" where
  "cascade_levels 0 cfg env s is_culprit level sv =
     (let (st, visited, _) = fold (slash_account cfg env s is_culprit 0) level (fst sv, snd sv, []) in (st, visited))"
| "cascade_levels (Suc r) cfg env s is_culprit level sv =
     (let (st, visited, nxt) = fold (slash_account cfg env s is_culprit (Suc r)) level (fst sv, snd sv, [])
      in if nxt = [] then (st, visited) else cascade_levels r cfg env s False nxt (st, visited))"

definition cascade_slash :: "rep_config \<Rightarrow> 'a rep_env \<Rightarrow> 'a \<Rightarrow> suit \<Rightarrow> nat \<Rightarrow> nat \<Rightarrow> 'a reputation \<Rightarrow> 'a reputation" where
  "cascade_slash cfg env agent s amount depth st = fst (cascade_levels depth cfg env s True [(agent, amount)] (st, []))"

definition report_fraud ::
  "bool \<Rightarrow> rep_config \<Rightarrow> 'a rep_env \<Rightarrow> 'a \<Rightarrow> suit \<Rightarrow> nat \<Rightarrow> nat \<Rightarrow> 'a reputation \<Rightarrow> rep_error + 'a reputation" where
  "report_fraud privileged cfg env culprit s loss depth st =
     (if \<not> privileged then Inl BadOrigin
      else Inr (rp_emit (FraudSlashed culprit s loss) (cascade_slash cfg env culprit s loss depth st)))"

text \<open>The cap of a verdict and the records it strikes, in the order of their ids.\<close>

definition verdict_record ::
  "rep_config \<Rightarrow> 'a rep_env \<Rightarrow> 'a \<Rightarrow> suit \<Rightarrow> 'a reputation \<Rightarrow> nat \<Rightarrow> nat \<times> nat list \<Rightarrow> nat \<times> nat list" where
  "verdict_record cfg env culprit s st rid = (\<lambda>(cap, struck).
     case evidence_record_current cfg env st rid of
       Some (owner, s', current) \<Rightarrow>
         if owner = culprit \<and> s' = s then (sat_add u128_max cap current, struck @ [rid]) else (cap, struck)
     | None \<Rightarrow> (cap, struck))"

definition verdict_records ::
  "rep_config \<Rightarrow> 'a rep_env \<Rightarrow> 'a \<Rightarrow> suit \<Rightarrow> nat list \<Rightarrow> 'a reputation \<Rightarrow> nat \<times> nat list" where
  "verdict_records cfg env culprit s ids st = fold (verdict_record cfg env culprit s st) (sort (remdups ids)) (0, [])"

definition rectify_for_verdict ::
  "rep_config \<Rightarrow> 'a rep_env \<Rightarrow> 'a \<Rightarrow> suit \<Rightarrow> nat list \<Rightarrow> nat \<Rightarrow> nat \<Rightarrow> 'a reputation \<Rightarrow> nat \<times> 'a reputation" where
  "rectify_for_verdict cfg env culprit s ids requested depth st =
     (let (cap, struck) = verdict_records cfg env culprit s ids st;
          applied = min requested cap;
          st1 = (if applied > 0 then cascade_slash cfg env culprit s applied depth st else st)
      in (applied, st1\<lparr>rp_records := rp_records st1 |` (- set struck)\<rparr>))"

end
