(* ===== verification/ReputationEpoch.thy ===== *)
theory ReputationEpoch
imports ReputationPallet Sortition
begin

text \<open>
  The epoch of the reputation pallet: ageing, service turned into evidence, the recompute through the engine, the
  entrenchment guard with its recovery bands, the attesters' floor, the sweep of the journal; genesis, the hooks, and the
  calls of the pallet as one step function.
\<close>

section \<open>Ageing and service\<close>

text \<open>Entries are aged one by one, so the order of iteration does not show.\<close>

definition decay_evidence :: "rep_config \<Rightarrow> 'a rep_env \<Rightarrow> 'a reputation \<Rightarrow> 'a reputation" where
  "decay_evidence cfg env st =
     st\<lparr>rp_evidence := (\<lambda>k. case rp_evidence st k of
          None \<Rightarrow> None
        | Some e \<Rightarrow> let decayed = re_mul_floor env (rc_retention cfg) e in if decayed = 0 then None else Some decayed)\<rparr>"

definition credit_service_epoch :: "rep_config \<Rightarrow> 'a rep_env \<Rightarrow> nat \<Rightarrow> 'a reputation \<Rightarrow> 'a reputation" where
  "credit_service_epoch cfg env e st =
     fold (\<lambda>(who, weight) st.
             let amount = sat_mul u128_max weight (rc_service_rate cfg)
             in if amount = 0 then st else admit_evidence who Technical amount st)
       (re_service env e) st"

primrec service_steps :: "nat \<Rightarrow> rep_config \<Rightarrow> 'a rep_env \<Rightarrow> nat \<Rightarrow> nat \<times> 'a reputation \<Rightarrow> nat \<times> 'a reputation" where
  "service_steps 0 cfg env ended ns = ns"
| "service_steps (Suc k) cfg env ended ns =
     (if fst ns \<le> ended
      then service_steps k cfg env ended (sat_add u64_max (fst ns) 1, credit_service_epoch cfg env (fst ns) (snd ns))
      else ns)"

definition credit_service_evidence :: "rep_config \<Rightarrow> 'a rep_env \<Rightarrow> 'a reputation \<Rightarrow> 'a reputation" where
  "credit_service_evidence cfg env st =
     (if rc_service_rate cfg = 0 \<or> rc_epoch_length cfg = 0 then st
      else let ended = re_now env div rc_epoch_length cfg - 1;
               (nxt, st1) = service_steps 8 cfg env ended (rp_service_cursor st, st)
           in st1\<lparr>rp_service_cursor := nxt\<rparr>)"

section \<open>The recompute\<close>

definition participants :: "'a :: linorder rep_env \<Rightarrow> 'a reputation \<Rightarrow> 'a list" where
  "participants env st =
     sort (remdups (re_order env (\<lambda>a. list_ex (\<lambda>s. rp_evidence st (a, s) \<noteq> None) all_suits) @
                    concat (map (\<lambda>a. a # map fst (edges_of st a)) (vouchers env st))))"

definition position :: "'a list \<Rightarrow> 'a \<Rightarrow> nat option" where
  "position xs a = (let i = length (takeWhile (\<lambda>x. x \<noteq> a) xs) in if i < length xs then Some i else None)"

definition agent_evidence :: "'a reputation \<Rightarrow> 'a \<Rightarrow> string \<Rightarrow> nat" where
  "agent_evidence st acc d = (case filter (\<lambda>s. dim_name s = d) all_suits of [] \<Rightarrow> 0 | s # _ \<Rightarrow> evidence_of st acc s)"

definition rep_agents :: "'a reputation \<Rightarrow> 'a list \<Rightarrow> (string \<times> (string \<Rightarrow> nat)) list" where
  "rep_agents st accounts = map (\<lambda>i. (digits i, agent_evidence st (accounts ! i))) [0..<length accounts]"

text \<open>The vouch graph under a naming of the accounts; who has no name is skipped.\<close>

definition vouch_graph :: "('a \<Rightarrow> 'k option) \<Rightarrow> 'a rep_env \<Rightarrow> 'a reputation \<Rightarrow> (string, 'k) trust_graph" where
  "vouch_graph name env st =
     fold (\<lambda>acc g. case name acc of
             None \<Rightarrow> g
           | Some si \<Rightarrow> fold (\<lambda>(target, s, weight) g.
                case name target of None \<Rightarrow> g | Some ti \<Rightarrow> graph_attest si ti (dim_name s) weight g) (edges_of st acc) g)
       (vouchers env st) graph_new"

definition suit_reputation :: "'a rep_env \<Rightarrow> 'a reputation \<Rightarrow> 'a list \<Rightarrow> suit \<Rightarrow> 'a \<Rightarrow> int option" where
  "suit_reputation env st accounts s =
     (let rep = reputation_dimension_fp (re_quantiser env) pallet_params (map dim_name all_suits) (rep_agents st accounts)
                  (vouch_graph (\<lambda>a. map_option digits (position accounts a)) env st) (dim_name s)
      in (\<lambda>a. case position accounts a of None \<Rightarrow> None | Some i \<Rightarrow> map_of rep (digits i)))"

definition recompute_reputation :: "'a :: linorder rep_env \<Rightarrow> 'a reputation \<Rightarrow> epoch_report option \<times> 'a reputation" where
  "recompute_reputation env st =
     (let accounts = participants env st in
      if accounts = [] then (None, st)
      else let rep = suit_reputation env st accounts;
               snapshot = (\<lambda>(a, s). if a \<in> set accounts then rep s a else None);
               mins = map (\<lambda>a. fold (\<lambda>s m. case rep s a of None \<Rightarrow> m | Some v \<Rightarrow> if v < m then v else m) all_suits i128_max) accounts;
               active = length (filter (\<lambda>m. m > 0) mins) mod 2 ^ 32;
               tops = filter (\<lambda>m. m \<noteq> i128_max) mins;
               top = max (if tops = [] then 0 else fold max (tl tops) (hd tops)) 0
           in (Some \<lparr>er_members = length accounts mod 2 ^ 32, er_active = active, er_top = top\<rparr>,
               st\<lparr>rp_snapshot := snapshot\<rparr>))"

section \<open>The entrenchment guard\<close>

definition real_cluster :: "('a \<Rightarrow> 'a) \<Rightarrow> ('a \<times> int) list \<Rightarrow> bool" where
  "real_cluster label reps =
     list_ex (\<lambda>(n, r). r > 0 \<and> length (filter (\<lambda>(m, q). q > 0 \<and> label m = label n) reps) \<ge> 2) reps"

definition cluster_signal :: "'a :: linorder rep_env \<Rightarrow> 'a reputation \<Rightarrow> ('a \<times> int) list \<Rightarrow> int \<times> bool" where
  "cluster_signal env st reps =
     (let graph = vouch_graph Some env st; nodes = map fst reps
      in fold (\<lambda>s (share, real).
             let label = communities (graph (dim_name s)) nodes; suit_share = max_cluster_share_fp label reps
             in (if suit_share > share then suit_share else share, real \<or> real_cluster label reps))
           all_suits (0, False))"

definition step_bands :: "nat \<Rightarrow> bool \<Rightarrow> bool \<Rightarrow> (nat \<times> nat option) list \<Rightarrow> (nat \<times> nat option) list" where
  "step_bands now was is bands =
     (if \<not> was \<and> is then (if length bands \<ge> MAX_BANDS then tl bands else bands) @ [(now, None)]
      else if was \<and> \<not> is then
        (if bands \<noteq> [] \<and> snd (last bands) = None then butlast bands @ [(fst (last bands), Some now)] else bands)
      else bands)"

definition step_entrenchment_guard :: "'a :: linorder rep_env \<Rightarrow> ('a \<times> int) list \<Rightarrow> 'a reputation \<Rightarrow> 'a reputation" where
  "step_entrenchment_guard env reps st =
     (let (cluster_share, real) = cluster_signal env st reps;
          prev_armed = rp_armed st;
          armed = (prev_armed \<or> (real \<and> cluster_share > 0 \<and> cluster_share < ENTRENCHMENT_THRESHOLD_FP));
          st1 = st\<lparr>rp_armed := armed\<rparr>;
          st2 = (if armed \<noteq> prev_armed \<or> cluster_share > ENTRENCHMENT_THRESHOLD_FP
                 then rp_emit (ClusterGuard cluster_share armed) st1 else st1);
          share = max (max_single_entity_share_fp (map snd reps)) (if armed then cluster_share else 0);
          (counter, halted) = entrenchment_halt_step share ENTRENCHMENT_THRESHOLD_FP (rp_counter st2) ENTRENCHMENT_REQUIRED_EPOCHS;
          prev_halted = rp_halted st2;
          st3 = st2\<lparr>rp_counter := counter, rp_halted := halted,
                    rp_bands := step_bands (re_now env) prev_halted halted (rp_bands st2)\<rparr>
      in if halted \<noteq> prev_halted \<or> share > ENTRENCHMENT_THRESHOLD_FP
         then rp_emit (EntrenchmentHalt share counter halted) st3 else st3)"

definition update_attest_floor :: "('a \<times> int) list \<Rightarrow> 'a reputation \<Rightarrow> 'a reputation" where
  "update_attest_floor reps st =
     (let vals = filter (\<lambda>r. r > 0) (map snd reps)
      in st\<lparr>rp_floor := (if vals = [] then 0 else sort vals ! (length vals div 4))\<rparr>)"

section \<open>The sweep and the epoch\<close>

definition sweep_one :: "rep_config \<Rightarrow> 'a rep_env \<Rightarrow> nat \<Rightarrow> nat \<times> 'a reputation \<Rightarrow> nat \<times> 'a reputation" where
  "sweep_one cfg env head cs =
     (let cursor = (if fst cs \<ge> head then 0 else fst cs); st = snd cs
      in (sat_add u64_max cursor 1,
          case evidence_record_current cfg env st cursor of
            Some (_, _, current) \<Rightarrow> if current = 0 then st\<lparr>rp_records := (rp_records st)(cursor := None)\<rparr> else st
          | None \<Rightarrow> st))"

definition sweep_dust_records :: "rep_config \<Rightarrow> 'a rep_env \<Rightarrow> 'a reputation \<Rightarrow> 'a reputation" where
  "sweep_dust_records cfg env st =
     (let head = rp_next_record st in
      if head = 0 then st
      else let (cursor, st1) = (sweep_one cfg env head ^^ EVIDENCE_SWEEP_PER_EPOCH) (rp_sweep_cursor st, st)
           in st1\<lparr>rp_sweep_cursor := cursor\<rparr>)"

definition rep_run_epoch :: "rep_config \<Rightarrow> 'a :: linorder rep_env \<Rightarrow> 'a reputation \<Rightarrow> 'a reputation" where
  "rep_run_epoch cfg env st =
     (let st1 = credit_service_evidence cfg env (decay_evidence cfg env st);
          (report0, st2) = recompute_reputation env st1;
          report = (case report0 of None \<Rightarrow> no_report | Some r \<Rightarrow> r);
          st3 = st2\<lparr>rp_report := Some report\<rparr>;
          reps = consensus_reputation env st3;
          st4 = sweep_dust_records cfg env (update_attest_floor reps (step_entrenchment_guard env reps st3));
          epoch = sat_add u64_max (rp_epoch st4) 1
      in rp_emit (EpochAdvanced epoch (er_members report) (er_active report)) (st4\<lparr>rp_epoch := epoch\<rparr>))"

definition rep_on_initialize :: "rep_config \<Rightarrow> 'a :: linorder rep_env \<Rightarrow> 'a reputation \<Rightarrow> 'a reputation" where
  "rep_on_initialize cfg env st =
     (let n = re_now env; len = rc_epoch_length cfg
      in if n \<noteq> 0 \<and> len \<noteq> 0 \<and> n mod len = 0 then rep_run_epoch cfg env st else st)"

text \<open>The migration fills the reverse map from the forward one, in the storage's order.\<close>

definition rep_on_runtime_upgrade :: "'a rep_env \<Rightarrow> 'a reputation \<Rightarrow> 'a reputation" where
  "rep_on_runtime_upgrade env st =
     fold (\<lambda>who st. case rp_vote_keys st who of
             None \<Rightarrow> st
           | Some k \<Rightarrow> if rp_key_owner st k = None then st\<lparr>rp_key_owner := (rp_key_owner st)(k \<mapsto> who)\<rparr> else st)
       (re_order env (\<lambda>a. rp_vote_keys st a \<noteq> None)) st"

section \<open>Genesis\<close>

text \<open>\<open>None\<close>: an assertion failed and the chain does not boot.\<close>

definition vote_keys_valid :: "'a rep_env \<Rightarrow> ('a \<times> byte list) list \<Rightarrow> bool" where
  "vote_keys_valid env keys =
     (distinct (map fst keys) \<and> distinct (map snd keys) \<and>
      \<not> list_ex (\<lambda>(who, _). length (re_encode env who) = 32 \<and> re_encode env who \<in> set (map snd keys)) keys)"

definition rep_genesis ::
  "rep_config \<Rightarrow> 'a :: linorder rep_env \<Rightarrow> ('a \<times> suit \<times> nat) list \<Rightarrow> ('a \<times> byte list) list \<Rightarrow> 'a reputation option" where
  "rep_genesis cfg env evidence keys =
     (let st1 = fold (\<lambda>(who, s, amount) st.
                   snd (journal_evidence who s amount (st\<lparr>rp_evidence := (rp_evidence st)((who, s) \<mapsto> amount)\<rparr>)))
                 evidence (empty_reputation cfg)
      in if \<not> (evidence = [] \<or> keys \<noteq> []) \<or> \<not> vote_keys_valid env keys then None
         else let st2 = fold (\<lambda>(who, k) st. st\<lparr>rp_vote_keys := (rp_vote_keys st)(who \<mapsto> k),
                                rp_key_owner := (rp_key_owner st)(k \<mapsto> who)\<rparr>) keys st1
              in Some (if evidence = [] then st2 else snd (recompute_reputation env st2)))"

section \<open>Histories\<close>

datatype 'a rep_call =
    Submit_evidence bool 'a suit nat
  | Set_bootstrap_window bool nat
  | Set_probation_window bool nat
  | Attest 'a 'a suit nat
  | Claim 'a 'a suit
  | Vouch_for 'a 'a suit nat
  | Revoke_vouch 'a 'a suit
  | Report_fraud bool 'a suit nat nat
  | Set_vote_key 'a "byte list" "byte list"
  | Clear_vote_key 'a
  | Verdict 'a suit "nat list" nat nat
  | Begin_rep_block
  | Upgrade_runtime

text \<open>A step in its block's environment. A verdict is the call of the justice pallet; its result is not used by it.\<close>

fun rep_step :: "rep_config \<Rightarrow> 'a :: linorder rep_env \<times> 'a rep_call \<Rightarrow> 'a reputation \<Rightarrow> rep_error + 'a reputation" where
  "rep_step cfg (env, Submit_evidence p who s n) st = submit_evidence p env who s n st"
| "rep_step cfg (env, Set_bootstrap_window p n) st = set_bootstrap_window p n st"
| "rep_step cfg (env, Set_probation_window p n) st = set_probation_window p n st"
| "rep_step cfg (env, Attest a b s n) st = attest_evidence cfg a b s n st"
| "rep_step cfg (env, Claim b a s) st = claim_attested_evidence b a s st"
| "rep_step cfg (env, Vouch_for a b s w) st = rp_vouch cfg env a b s w st"
| "rep_step cfg (env, Revoke_vouch a b s) st = revoke_vouch a b s st"
| "rep_step cfg (env, Report_fraud p c s n d) st = report_fraud p cfg env c s n d st"
| "rep_step cfg (env, Set_vote_key a k sg) st = set_vote_key env a k sg st"
| "rep_step cfg (env, Clear_vote_key a) st = clear_vote_key a st"
| "rep_step cfg (env, Verdict c s ids n d) st = Inr (snd (rectify_for_verdict cfg env c s ids n d st))"
| "rep_step cfg (env, Begin_rep_block) st = Inr (rep_on_initialize cfg env st)"
| "rep_step cfg (env, Upgrade_runtime) st = Inr (rep_on_runtime_upgrade env st)"

definition order_lists :: "(('a \<Rightarrow> bool) \<Rightarrow> 'a list) \<Rightarrow> bool" where
  "order_lists ord = (\<forall>P. finite {a. P a} \<longrightarrow> distinct (ord P) \<and> set (ord P) = {a. P a})"

text \<open>What \<open>Permill\<close> documents: the product rounds down, and a power of a fraction is a fraction.\<close>

definition permill_ok :: "'a rep_env \<Rightarrow> bool" where
  "permill_ok env = ((\<forall>p x. re_mul_floor env p x * 1000000 \<le> p * x) \<and> (\<forall>p e. p \<le> 1000000 \<longrightarrow> re_pow env p e \<le> 1000000))"

end
