(* ===== verification/ReputationProps.thy ===== *)
theory ReputationProps
imports ReputationEpoch
begin

text \<open>
  What the reputation pallet keeps, over any history of calls, verdicts, blocks and upgrades: the vote keys, the bound on a
  pair's testimony, the journal and the verdicts, the slashing cascade, the entrenchment guard. First what each operation
  leaves alone (\<open>same_claims\<close>: everything an epoch or a slash does not touch).
\<close>

section \<open>What operations leave alone\<close>

text \<open>The weights a pair's testimonies were admitted with, oldest first.\<close>

fun testimony :: "'a \<times> 'a \<times> suit \<Rightarrow> 'a rep_event list \<Rightarrow> nat list" where
  "testimony p [] = []"
| "testimony p (AttestationMade a b s _ admitted # es) = (if (a, b, s) = p then [admitted] else []) @ testimony p es"
| "testimony p (_ # es) = testimony p es"

lemma testimony_append [simp]: "testimony p (es @ fs) = testimony p es @ testimony p fs"
  by (induction p es rule: testimony.induct) auto

definition same_claims :: "'a reputation \<Rightarrow> 'a reputation \<Rightarrow> bool" where
  "same_claims st st' = (rp_vouches st' = rp_vouches st \<and> rp_bootstrap_end st' = rp_bootstrap_end st
     \<and> rp_attestations st' = rp_attestations st \<and> rp_attests st' = rp_attests st \<and> rp_pair_count st' = rp_pair_count st
     \<and> rp_vouched_at st' = rp_vouched_at st \<and> rp_probation st' = rp_probation st
     \<and> rp_vote_keys st' = rp_vote_keys st \<and> rp_key_owner st' = rp_key_owner st
     \<and> (\<forall>p. testimony p (rp_log st') = testimony p (rp_log st)))"

text \<open>
  What the public log says of concentration: the number of last epochs in a row that were announced over the threshold, and
  whether the epoch under way has been.
\<close>

fun over_run :: "nat \<times> bool \<Rightarrow> 'a rep_event list \<Rightarrow> nat \<times> bool" where
  "over_run q [] = q"
| "over_run q (EntrenchmentHalt share _ _ # es) = over_run (fst q, share > ENTRENCHMENT_THRESHOLD_FP) es"
| "over_run q (EpochAdvanced _ _ _ # es) = over_run (if snd q then fst q + 1 else 0, False) es"
| "over_run q (_ # es) = over_run q es"

lemma over_run_append [simp]: "over_run q (es @ fs) = over_run (over_run q es) fs"
  by (induction q es rule: over_run.induct) auto

definition same_guard :: "'a reputation \<Rightarrow> 'a reputation \<Rightarrow> bool" where
  "same_guard st st' = (rp_counter st' = rp_counter st \<and> rp_halted st' = rp_halted st \<and> rp_bands st' = rp_bands st
     \<and> rp_armed st' = rp_armed st \<and> (\<forall>q. over_run q (rp_log st') = over_run q (rp_log st)))"

lemma same_claims_refl [intro, simp]: "same_claims st st"
  by (simp add: same_claims_def)

lemma same_claims_trans [trans]: "same_claims a b \<Longrightarrow> same_claims b c \<Longrightarrow> same_claims a c"
  by (simp add: same_claims_def)

lemma same_guard_refl [intro, simp]: "same_guard st st"
  by (simp add: same_guard_def)

lemma same_guard_trans [trans]: "same_guard a b \<Longrightarrow> same_guard b c \<Longrightarrow> same_guard a c"
  by (simp add: same_guard_def)

lemma rp_emit_simps [simp]:
  "rp_evidence (rp_emit e st) = rp_evidence st" "rp_vouches (rp_emit e st) = rp_vouches st"
  "rp_snapshot (rp_emit e st) = rp_snapshot st" "rp_epoch (rp_emit e st) = rp_epoch st"
  "rp_bootstrap_end (rp_emit e st) = rp_bootstrap_end st" "rp_attestations (rp_emit e st) = rp_attestations st"
  "rp_attests (rp_emit e st) = rp_attests st" "rp_pair_count (rp_emit e st) = rp_pair_count st"
  "rp_floor (rp_emit e st) = rp_floor st" "rp_next_record (rp_emit e st) = rp_next_record st"
  "rp_sweep_cursor (rp_emit e st) = rp_sweep_cursor st" "rp_service_cursor (rp_emit e st) = rp_service_cursor st"
  "rp_records (rp_emit e st) = rp_records st" "rp_vouched_at (rp_emit e st) = rp_vouched_at st"
  "rp_probation (rp_emit e st) = rp_probation st" "rp_counter (rp_emit e st) = rp_counter st"
  "rp_halted (rp_emit e st) = rp_halted st" "rp_bands (rp_emit e st) = rp_bands st" "rp_armed (rp_emit e st) = rp_armed st"
  "rp_report (rp_emit e st) = rp_report st" "rp_vote_keys (rp_emit e st) = rp_vote_keys st"
  "rp_key_owner (rp_emit e st) = rp_key_owner st" "rp_log (rp_emit e st) = rp_log st @ [e]"
  by (simp_all add: rp_emit_def)

lemma admit_evidence_effect:
  "admit_evidence who s n st = st\<lparr>rp_evidence := (rp_evidence st)((who, s) \<mapsto> sat_add u128_max (evidence_of st who s) n),
     rp_next_record := sat_add u64_max (rp_next_record st) 1,
     rp_records := (rp_records st)(rp_next_record st \<mapsto> (who, s, n, rp_epoch st)),
     rp_log := rp_log st @ [EvidenceRecorded who s (sat_add u128_max (evidence_of st who s) n) (rp_next_record st)]\<rparr>"
  by (simp add: admit_evidence_def journal_evidence_def rp_emit_def Let_def)

lemma fold_related:
  assumes "\<And>x st. R st (f x st)" "\<And>st. R st st" "\<And>a b c. R a b \<Longrightarrow> R b c \<Longrightarrow> R a c"
  shows "R st (fold f xs st)"
proof (induction xs arbitrary: st)
  case (Cons x xs)
  then show ?case using assms(1,3) by (metis fold_simps(2))
qed (simp add: assms(2))

lemma service_epoch_same:
  "same_claims st (credit_service_epoch cfg env e st) \<and> same_guard st (credit_service_epoch cfg env e st)"
  unfolding credit_service_epoch_def
  by (rule fold_related [where R = "\<lambda>a b. same_claims a b \<and> same_guard a b"])
    (auto simp: admit_evidence_effect same_claims_def same_guard_def Let_def split: prod.split)

lemma service_steps_same: "same_claims (snd ns) (snd (service_steps k cfg env ended ns))
  \<and> same_guard (snd ns) (snd (service_steps k cfg env ended ns))"
proof (induction k arbitrary: ns)
  case (Suc k)
  from Suc [of "(sat_add u64_max (fst ns) 1, credit_service_epoch cfg env (fst ns) (snd ns))"]
    service_epoch_same [of "snd ns" cfg env "fst ns"]
  show ?case by (auto intro: same_claims_trans same_guard_trans)
qed simp

lemma credit_service_same: "same_claims st (credit_service_evidence cfg env st) \<and> same_guard st (credit_service_evidence cfg env st)"
  using service_steps_same [of "(rp_service_cursor st, st)" 8 cfg env "re_now env div rc_epoch_length cfg - 1"]
  by (simp add: credit_service_evidence_def Let_def split_def) (simp add: same_claims_def same_guard_def)

lemma recompute_effect: "\<exists>sn. snd (recompute_reputation env st) = st\<lparr>rp_snapshot := sn\<rparr>"
proof (cases "participants env st = []")
  case True
  then have "snd (recompute_reputation env st) = st\<lparr>rp_snapshot := rp_snapshot st\<rparr>" by (simp add: recompute_reputation_def)
  then show ?thesis by blast
qed (auto simp: recompute_reputation_def Let_def)

lemma guard_same: "same_claims st (step_entrenchment_guard env reps st)"
  by (auto simp: step_entrenchment_guard_def same_claims_def Let_def split_def)

lemma sweep_effect:
  "\<exists>rec c. sweep_dust_records cfg env st = st\<lparr>rp_records := rec, rp_sweep_cursor := c\<rparr>
     \<and> (\<forall>i. rec i = rp_records st i \<or> rec i = None)"
proof -
  let ?ok = "\<lambda>st'. \<exists>rec. st' = st\<lparr>rp_records := rec\<rparr> \<and> (\<forall>i. rec i = rp_records st i \<or> rec i = None)"
  have one: "?ok (snd (sweep_one cfg env head cs))" if ok: "?ok (snd cs)" for head cs
  proof -
    obtain rec where r: "snd cs = st\<lparr>rp_records := rec\<rparr>" "\<forall>i. rec i = rp_records st i \<or> rec i = None" using ok by blast
    let ?c = "if fst cs \<ge> head then 0 else fst cs"
    have "snd (sweep_one cfg env head cs) = st\<lparr>rp_records := rec\<rparr>
        \<or> snd (sweep_one cfg env head cs) = st\<lparr>rp_records := rec(?c := None)\<rparr>"
      by (simp add: sweep_one_def r(1) Let_def split: option.splits prod.splits)
    then show ?thesis
    proof
      assume e: "snd (sweep_one cfg env head cs) = st\<lparr>rp_records := rec\<rparr>"
      show ?thesis by (rule exI [of _ rec]) (use e r(2) in simp)
    next
      assume e: "snd (sweep_one cfg env head cs) = st\<lparr>rp_records := rec(?c := None)\<rparr>"
      show ?thesis by (rule exI [of _ "rec(?c := None)"]) (use e r(2) in simp)
    qed
  qed
  have start: "?ok st" by (rule exI [of _ "rp_records st"]) simp
  have iter: "?ok (snd ((sweep_one cfg env head ^^ k) (rp_sweep_cursor st, st)))" for head k
  proof (induction k)
    case (Suc k)
    then show ?case using one by simp
  qed (use start in simp)
  show ?thesis
  proof (cases "rp_next_record st = 0")
    case True
    then show ?thesis
      by (intro exI [of _ "rp_records st"] exI [of _ "rp_sweep_cursor st"]) (simp add: sweep_dust_records_def)
  next
    case False
    obtain rec where r: "snd ((sweep_one cfg env (rp_next_record st) ^^ EVIDENCE_SWEEP_PER_EPOCH) (rp_sweep_cursor st, st))
        = st\<lparr>rp_records := rec\<rparr>" "\<forall>i. rec i = rp_records st i \<or> rec i = None"
      using iter [of EVIDENCE_SWEEP_PER_EPOCH "rp_next_record st"] by (elim exE conjE)
    show ?thesis
      by (rule exI [of _ rec], rule exI, rule conjI [OF _ r(2)]) (simp add: sweep_dust_records_def split_def Let_def False r(1))
  qed
qed

lemma floor_same: "same_claims st (update_attest_floor reps st)" "same_guard st (update_attest_floor reps st)"
  by (simp_all add: update_attest_floor_def same_claims_def same_guard_def Let_def)

lemma run_epoch_same: "same_claims st (rep_run_epoch cfg env st)"
proof -
  let ?st1 = "credit_service_evidence cfg env (decay_evidence cfg env st)"
  let ?rc = "recompute_reputation env ?st1"
  let ?st3 = "(snd ?rc)\<lparr>rp_report := Some (case fst ?rc of None \<Rightarrow> no_report | Some r \<Rightarrow> r)\<rparr>"
  let ?reps = "consensus_reputation env ?st3"
  let ?st4 = "update_attest_floor ?reps (step_entrenchment_guard env ?reps ?st3)"
  have "same_claims st (decay_evidence cfg env st)" by (simp add: decay_evidence_def same_claims_def)
  also have "same_claims (decay_evidence cfg env st) ?st1" using credit_service_same by blast
  also have "same_claims ?st1 ?st3" using recompute_effect [of env ?st1] by (auto simp: same_claims_def)
  also have "same_claims ?st3 (step_entrenchment_guard env ?reps ?st3)" by (rule guard_same)
  also have "same_claims (step_entrenchment_guard env ?reps ?st3) ?st4" by (rule floor_same)
  also have "same_claims ?st4 (sweep_dust_records cfg env ?st4)"
    using sweep_effect [of cfg env ?st4] by (auto simp: same_claims_def)
  finally show ?thesis
    by (simp add: rep_run_epoch_def Let_def split_def) (simp add: same_claims_def)
qed

definition only_evidence :: "'a reputation \<Rightarrow> 'a reputation \<Rightarrow> bool" where
  "only_evidence st st' = (st' = st\<lparr>rp_evidence := rp_evidence st'\<rparr>)"

lemma only_evidence_refl: "only_evidence st st"
  by (simp add: only_evidence_def)

lemma only_evidence_upd: "only_evidence st (st\<lparr>rp_evidence := ev\<rparr>)"
  by (simp add: only_evidence_def)

lemma only_evidence_trans: "only_evidence a b \<Longrightarrow> only_evidence b c \<Longrightarrow> only_evidence a c"
proof -
  assume ab: "only_evidence a b" and bc: "only_evidence b c"
  have "c = b\<lparr>rp_evidence := rp_evidence c\<rparr>" using bc by (simp only: only_evidence_def)
  also have "... = (a\<lparr>rp_evidence := rp_evidence b\<rparr>)\<lparr>rp_evidence := rp_evidence c\<rparr>"
    using ab by (simp only: only_evidence_def)
  also have "... = a\<lparr>rp_evidence := rp_evidence c\<rparr>" by simp
  finally show "only_evidence a c" by (simp only: only_evidence_def)
qed

lemma slash_account_effect: "only_evidence (fst y) (fst (slash_account cfg env s cul r x y))"
  by (cases x; cases y) (simp add: slash_account_def Let_def only_evidence_refl only_evidence_upd)

lemma fold_slash_effect: "only_evidence (fst y) (fst (fold (slash_account cfg env s cul r) xs y))"
  by (rule fold_related [where R = "\<lambda>a b. only_evidence (fst a) (fst b)"])
    (auto simp: slash_account_effect only_evidence_refl intro: only_evidence_trans)

lemma cascade_levels_effect: "only_evidence (fst sv) (fst (cascade_levels d cfg env s cul lv sv))"
proof (induction d arbitrary: cul lv sv)
  case 0
  then show ?case using fold_slash_effect [of "(fst sv, snd sv, [])" cfg env s cul 0 lv] by (simp add: split_def Let_def)
next
  case (Suc d)
  let ?y = "fold (slash_account cfg env s cul (Suc d)) lv (fst sv, snd sv, [])"
  have y: "only_evidence (fst sv) (fst ?y)"
    using fold_slash_effect [of "(fst sv, snd sv, [])" cfg env s cul "Suc d" lv] by simp
  have "only_evidence (fst ?y) (fst (cascade_levels d cfg env s False (snd (snd ?y)) (fst ?y, fst (snd ?y))))"
    using Suc [of "(fst ?y, fst (snd ?y))" False "snd (snd ?y)"] by simp
  with y show ?case by (auto simp: split_def Let_def intro: only_evidence_trans)
qed

lemma cascade_effect: "only_evidence st (cascade_slash cfg env c s n d st)"
  using cascade_levels_effect [of "(st, [])" d cfg env s True "[(c, n)]"] by (simp add: cascade_slash_def)

lemma only_evidence_same:
  "only_evidence st st' \<Longrightarrow> same_claims st st' \<and> same_guard st st' \<and> rp_log st' = rp_log st \<and> rp_records st' = rp_records st
     \<and> rp_next_record st' = rp_next_record st \<and> rp_epoch st' = rp_epoch st"
  unfolding only_evidence_def by (erule ssubst) (simp add: same_claims_def same_guard_def)

lemma cascade_same: "same_claims st (cascade_slash cfg env c s n d st) \<and> same_guard st (cascade_slash cfg env c s n d st)
    \<and> rp_log (cascade_slash cfg env c s n d st) = rp_log st \<and> rp_records (cascade_slash cfg env c s n d st) = rp_records st
    \<and> rp_next_record (cascade_slash cfg env c s n d st) = rp_next_record st \<and> rp_epoch (cascade_slash cfg env c s n d st) = rp_epoch st"
  by (rule only_evidence_same [OF cascade_effect])

section \<open>What each extrinsic does\<close>

lemma attest_weight_same:
  "snd (attest_weight cfg a b s n st) = st\<lparr>rp_pair_count := rp_pair_count (snd (attest_weight cfg a b s n st))\<rparr>"
  by (simp add: attest_weight_def Let_def)

lemma attest_effect:
  assumes "attest_evidence cfg a b s n st = Inr st'"
  obtains uses pc att ev where
    "st' = st\<lparr>rp_attests := uses, rp_pair_count := pc, rp_attestations := att, rp_log := rp_log st @ [ev]\<rparr>"
proof -
  define uses where "uses = (rp_attests st)(a := (rp_epoch st,
      sat_add u32_max (if fst (rp_attests st a) = rp_epoch st then snd (rp_attests st a) else 0) 1))"
  define w where "w = fst (attest_weight cfg a b s n (st\<lparr>rp_attests := uses\<rparr>))"
  define st2 where "st2 = snd (attest_weight cfg a b s n (st\<lparr>rp_attests := uses\<rparr>))"
  define pc where "pc = rp_pair_count st2"
  define att where "att = (if 0 < w then (rp_attestations st2)((a, b, s) \<mapsto>
      sat_add u128_max (case rp_attestations st2 (a, b, s) of None \<Rightarrow> 0 | Some v \<Rightarrow> v) w) else rp_attestations st2)"
  have st2: "st2 = st\<lparr>rp_attests := uses, rp_pair_count := pc\<rparr>"
    unfolding pc_def st2_def by (subst attest_weight_same) simp
  have "st' = rp_emit (AttestationMade a b s n w)
     (if 0 < w then st2\<lparr>rp_attestations := (rp_attestations st2)((a, b, s) \<mapsto>
              sat_add u128_max (case rp_attestations st2 (a, b, s) of None \<Rightarrow> 0 | Some v \<Rightarrow> v) w)\<rparr> else st2)"
    using assms unfolding attest_evidence_def Let_def split_def w_def st2_def uses_def by (simp split: if_splits)
  also have "... = st2\<lparr>rp_attestations := att, rp_log := rp_log st2 @ [AttestationMade a b s n w]\<rparr>"
    by (simp add: rp_emit_def att_def)
  also have "... = st\<lparr>rp_attests := uses, rp_pair_count := pc, rp_attestations := att,
      rp_log := rp_log st @ [AttestationMade a b s n w]\<rparr>"
    unfolding st2 by simp
  finally show thesis by (rule that)
qed

lemma vouch_effect:
  assumes "rp_vouch cfg env a b s w st = Inr st'"
  obtains va where "st' = st\<lparr>rp_vouches := (rp_vouches st)(a \<mapsto> edges_of st a @ [(b, s, w)]), rp_vouched_at := va,
      rp_log := rp_log st @ [Vouched a b s w]\<rparr>"
    "va = (if rp_vouched_at st (a, b, s) = None then (rp_vouched_at st)((a, b, s) \<mapsto> re_now env) else rp_vouched_at st)"
proof -
  have "st' = st\<lparr>rp_vouches := (rp_vouches st)(a \<mapsto> edges_of st a @ [(b, s, w)]),
      rp_vouched_at := (if rp_vouched_at st (a, b, s) = None then (rp_vouched_at st)((a, b, s) \<mapsto> re_now env) else rp_vouched_at st),
      rp_log := rp_log st @ [Vouched a b s w]\<rparr>"
    using assms by (auto simp: rp_vouch_def Let_def rp_emit_def split: if_splits)
  with that show thesis by blast
qed

lemma set_vote_key_effect:
  assumes "set_vote_key env who k sg st = Inr st'"
  obtains r where "rp_key_owner st k = None \<or> rp_key_owner st k = Some who"
    "st' = st\<lparr>rp_vote_keys := (rp_vote_keys st)(who \<mapsto> k),
       rp_key_owner := (case rp_vote_keys st who of
            Some old \<Rightarrow> (if old \<noteq> k then (rp_key_owner st)(old := None) else rp_key_owner st)
          | None \<Rightarrow> rp_key_owner st)(k \<mapsto> who),
       rp_log := rp_log st @ [VoteKeyBound who k r]\<rparr>"
proof -
  have "rp_key_owner st k = None \<or> rp_key_owner st k = Some who"
    using assms by (auto simp: set_vote_key_def split: if_splits option.splits)
  moreover have "st' = st\<lparr>rp_vote_keys := (rp_vote_keys st)(who \<mapsto> k),
       rp_key_owner := (case rp_vote_keys st who of
            Some old \<Rightarrow> (if old \<noteq> k then (rp_key_owner st)(old := None) else rp_key_owner st)
          | None \<Rightarrow> rp_key_owner st)(k \<mapsto> who),
       rp_log := rp_log st @ [VoteKeyBound who k (rp_vote_keys st who \<noteq> None)]\<rparr>"
    using assms by (cases "rp_vote_keys st who") (auto simp: set_vote_key_def rp_emit_def split: if_splits)
  ultimately show thesis using that by blast
qed

lemma upgrade_effect: "\<exists>ko. rep_on_runtime_upgrade env st = st\<lparr>rp_key_owner := ko\<rparr>"
proof -
  let ?f = "\<lambda>who st. case rp_vote_keys st who of
             None \<Rightarrow> st
           | Some k \<Rightarrow> if rp_key_owner st k = None then st\<lparr>rp_key_owner := (rp_key_owner st)(k \<mapsto> who)\<rparr> else st"
  have "fold ?f xs st = st\<lparr>rp_key_owner := rp_key_owner (fold ?f xs st)\<rparr>" for xs and st :: "'a reputation"
  proof (induction xs arbitrary: st)
    case (Cons x xs)
    obtain ko where ko: "?f x st = st\<lparr>rp_key_owner := ko\<rparr>"
    proof -
      have "?f x st = st\<lparr>rp_key_owner := rp_key_owner (?f x st)\<rparr>" by (simp split: option.split)
      with that show thesis by blast
    qed
    have "fold ?f xs (?f x st) = (?f x st)\<lparr>rp_key_owner := rp_key_owner (fold ?f xs (?f x st))\<rparr>" by (rule Cons.IH)
    also have "... = st\<lparr>rp_key_owner := rp_key_owner (fold ?f xs (?f x st))\<rparr>"
      by (subst (1) ko) simp
    finally show ?case by (simp only: fold_simps)
  qed simp
  then show ?thesis unfolding rep_on_runtime_upgrade_def by blast
qed

lemmas small_calls = submit_evidence_def set_bootstrap_window_def set_probation_window_def claim_attested_evidence_def
  revoke_vouch_def clear_vote_key_def report_fraud_def admit_evidence_effect

section \<open>One key, one account\<close>

definition keys_ok :: "'a reputation \<Rightarrow> bool" where
  "keys_ok st = (\<forall>a k. rp_vote_keys st a = Some k \<longleftrightarrow> rp_key_owner st k = Some a)"

lemma keys_ok_same: "same_claims st st' \<Longrightarrow> keys_ok st \<Longrightarrow> keys_ok st'"
  by (simp add: keys_ok_def same_claims_def)

lemma rectify_same:
  "same_claims st (snd (rectify_for_verdict cfg env c s ids n d st)) \<and> same_guard st (snd (rectify_for_verdict cfg env c s ids n d st))
   \<and> rp_log (snd (rectify_for_verdict cfg env c s ids n d st)) = rp_log st"
  using cascade_same [of st cfg env c s _ d]
  by (auto simp: rectify_for_verdict_def Let_def split_def same_claims_def same_guard_def)

lemma on_initialize_same: "same_claims st (rep_on_initialize cfg env st)"
  by (auto simp: rep_on_initialize_def Let_def intro: run_epoch_same)

lemma upgrade_keys:
  assumes "keys_ok st"
  shows "rep_on_runtime_upgrade env st = st"
proof -
  have "fold (\<lambda>who st. case rp_vote_keys st who of
             None \<Rightarrow> st
           | Some k \<Rightarrow> if rp_key_owner st k = None then st\<lparr>rp_key_owner := (rp_key_owner st)(k \<mapsto> who)\<rparr> else st) xs st = st" for xs
    by (induction xs) (use assms in \<open>auto simp: keys_ok_def split: option.split\<close>)
  then show ?thesis by (simp add: rep_on_runtime_upgrade_def)
qed

lemma keys_bound:
  assumes "keys_ok st" "rp_key_owner st k = None \<or> rp_key_owner st k = Some who"
    and st': "rp_vote_keys st' = (rp_vote_keys st)(who \<mapsto> k)"
      "rp_key_owner st' = (case rp_vote_keys st who of
            Some old \<Rightarrow> (if old \<noteq> k then (rp_key_owner st)(old := None) else rp_key_owner st)
          | None \<Rightarrow> rp_key_owner st)(k \<mapsto> who)"
  shows "keys_ok st'"
proof -
  have k: "rp_key_owner st k' = Some a \<longleftrightarrow> rp_vote_keys st a = Some k'" for a k' using assms(1) by (simp add: keys_ok_def)
  have free: "rp_vote_keys st a = Some k \<Longrightarrow> a = who" for a using assms(2) k [of k a] by auto
  have "rp_vote_keys st' a = Some k' \<longleftrightarrow> rp_key_owner st' k' = Some a" for a k'
  proof (cases "k' = k")
    case True
    then show ?thesis by (auto simp: st' dest: free)
  next
    case False
    have one: "rp_vote_keys st a = Some k' \<Longrightarrow> rp_vote_keys st who = Some k' \<Longrightarrow> a = who" using k [of k' a] k [of k' who] by simp
    show ?thesis using False by (cases "rp_vote_keys st who") (auto simp: st' k dest: one)
  qed
  then show ?thesis by (simp add: keys_ok_def)
qed

lemma keys_step:
  assumes "keys_ok st" "rep_step cfg c st = Inr st'"
  shows "keys_ok st'"
proof (cases c)
  case (Pair env call)
  show ?thesis
  proof (cases call)
    case (Set_vote_key who k sg)
    then have "set_vote_key env who k sg st = Inr st'" using assms(2) by (simp add: Pair)
    then show ?thesis by (rule set_vote_key_effect) (rule keys_bound [OF assms(1)], simp_all)
  next
    case (Attest a b s n)
    then have "attest_evidence cfg a b s n st = Inr st'" using assms(2) by (simp add: Pair)
    then show ?thesis by (rule attest_effect) (use assms(1) in \<open>simp add: keys_ok_def\<close>)
  next
    case (Vouch_for a b s w)
    then have "rp_vouch cfg env a b s w st = Inr st'" using assms(2) by (simp add: Pair)
    then show ?thesis by (rule vouch_effect) (use assms(1) in \<open>simp add: keys_ok_def\<close>)
  next
    case Upgrade_runtime
    then show ?thesis using assms by (simp add: Pair upgrade_keys)
  next
    case (Verdict c s ids n d)
    then show ?thesis using assms keys_ok_same [OF conjunct1 [OF rectify_same [of st cfg env c s ids n d]]] by (auto simp: Pair)
  next
    case (Report_fraud p c s n d)
    then show ?thesis using assms cascade_same [of st cfg env c s n d]
      by (auto simp: Pair report_fraud_def keys_ok_def same_claims_def split: if_splits)
  next
    case Begin_rep_block
    then show ?thesis using assms keys_ok_same [OF on_initialize_same [of st cfg env]] by (auto simp: Pair)
  next
    case (Clear_vote_key who)
    have k: "rp_key_owner st k' = Some a \<longleftrightarrow> rp_vote_keys st a = Some k'" for a k' using assms(1) by (simp add: keys_ok_def)
    obtain old where "rp_vote_keys st who = Some old" "rp_vote_keys st' = (rp_vote_keys st)(who := None)"
      "rp_key_owner st' = (rp_key_owner st)(old := None)"
      using assms(2) by (auto simp: Pair Clear_vote_key clear_vote_key_def split: option.splits)
    note eff = this
    have one: "rp_vote_keys st a = Some old \<Longrightarrow> rp_vote_keys st who = Some old \<Longrightarrow> a = who" for a
      using k [of old a] k [of old who] by simp
    show ?thesis unfolding keys_ok_def eff by (auto simp: k eff(1) dest: one)
  qed (use assms in \<open>auto simp: Pair keys_ok_def small_calls split: if_splits option.splits\<close>)
qed

interpretation vote_keys: call_system "rep_step cfg" "\<lambda>_. True" keys_ok for cfg
  by unfold_locales (rule keys_step)

lemma genesis_keys:
  assumes "rep_genesis cfg env evs keys = Some st"
  shows "keys_ok st"
proof -
  let ?f = "\<lambda>(who, s, amount) st. snd (journal_evidence who s amount (st\<lparr>rp_evidence := (rp_evidence st)((who, s) \<mapsto> amount)\<rparr>))"
  let ?g = "\<lambda>(who, k) st. st\<lparr>rp_vote_keys := (rp_vote_keys st)(who \<mapsto> k), rp_key_owner := (rp_key_owner st)(k \<mapsto> who)\<rparr>"
  let ?st1 = "fold ?f evs (empty_reputation cfg)"
  have "same_claims (empty_reputation cfg) ?st1"
    by (rule fold_related) (auto simp: journal_evidence_def Let_def same_claims_def)
  then have start: "keys_ok ?st1" by (rule keys_ok_same) (simp add: keys_ok_def empty_reputation_def)
  have "keys_ok (fold ?g ks s)" if "keys_ok s" "distinct (map fst ks)" "distinct (map snd ks)"
    "\<forall>(a, k)\<in>set ks. rp_vote_keys s a = None \<and> rp_key_owner s k = None" for ks and s :: "'a reputation"
    using that
  proof (induction ks arbitrary: s)
    case (Cons p ks)
    obtain a k where p: "p = (a, k)" by (cases p)
    have o: "rp_key_owner s k' = Some a' \<longleftrightarrow> rp_vote_keys s a' = Some k'" for a' k'
      using Cons.prems(1) by (simp add: keys_ok_def)
    have "rp_vote_keys s a' \<noteq> Some k" for a' using Cons.prems(4) o [of k a'] by (auto simp: p)
    then have "keys_ok (?g p s)" using Cons.prems(4) by (auto simp: p keys_ok_def o)
    then have "keys_ok (fold ?g ks (?g p s))"
      by (rule Cons.IH) (use Cons.prems in \<open>force simp: p\<close>)+
    then show ?case by (simp only: fold_simps)
  qed simp
  note this [OF start]
  moreover have "vote_keys_valid env keys" using assms by (auto simp: rep_genesis_def Let_def split: if_splits)
  moreover have "rp_vote_keys ?st1 a = None" "rp_key_owner ?st1 k = None" for a k
    using \<open>same_claims (empty_reputation cfg) ?st1\<close> by (simp_all add: same_claims_def empty_reputation_def)
  ultimately have "keys_ok (fold ?g keys ?st1)" by (simp add: vote_keys_valid_def split_def)
  moreover have "same_claims (fold ?g keys ?st1) st"
    using assms recompute_effect [of env "fold ?g keys ?st1"]
    by (auto simp: rep_genesis_def Let_def same_claims_def split: if_splits)
  ultimately show ?thesis by (rule keys_ok_same [rotated])
qed

section \<open>The weight of a pair\<close>

text \<open>The most a pair's testimonies ask for along a run, each capped by the witness's own evidence at that time.\<close>

definition testimony_base :: "rep_config \<Rightarrow> 'a \<times> 'a \<times> suit \<Rightarrow> 'a reputation \<Rightarrow> 'a rep_call \<Rightarrow> nat" where
  "testimony_base cfg p st c = (case c of
       Attest a b s n \<Rightarrow> if (a, b, s) = p then min n (sat_mul u128_max (evidence_of st a s) (rc_stake_multiplier cfg)) else 0
     | _ \<Rightarrow> 0)"

primrec testimony_peak ::
  "rep_config \<Rightarrow> 'a \<times> 'a \<times> suit \<Rightarrow> ('a :: linorder rep_env \<times> 'a rep_call) list \<Rightarrow> 'a reputation \<Rightarrow> nat" where
  "testimony_peak cfg p [] st = 0"
| "testimony_peak cfg p (c # cs) st =
     max (testimony_base cfg p st (snd c)) (testimony_peak cfg p cs (apply_call (rep_step cfg c) st))"

definition halving :: "nat \<Rightarrow> 'a \<times> 'a \<times> suit \<Rightarrow> 'a reputation \<Rightarrow> bool" where
  "halving C p st = (rp_pair_count st p \<le> 16
     \<and> sum_list (testimony p (rp_log st)) * 2 ^ rp_pair_count st p + 2 * C \<le> C * 2 ^ Suc (rp_pair_count st p))"

lemma halving_same: "same_claims st st' \<Longrightarrow> halving C p st \<Longrightarrow> halving C p st'"
  by (cases p) (simp add: halving_def same_claims_def)

lemma attest_step:
  assumes "attest_evidence cfg a b s n st = Inr st'"
  shows "\<exists>w. testimony p (rp_log st') = testimony p (rp_log st) @ (if (a, b, s) = p then [w] else [])
    \<and> rp_pair_count st' p = rp_pair_count st p + (if (a, b, s) = p \<and> 0 < w then 1 else 0)
    \<and> ((a, b, s) = p \<and> 0 < w \<longrightarrow> rp_pair_count st p < 16
        \<and> w * 2 ^ rp_pair_count st p \<le> min n (sat_mul u128_max (evidence_of st a s) (rc_stake_multiplier cfg)))"
proof -
  let ?st1 = "st\<lparr>rp_attests := (rp_attests st)(a := (rp_epoch st,
      sat_add u32_max (if fst (rp_attests st a) = rp_epoch st then snd (rp_attests st a) else 0) 1))\<rparr>"
  obtain w st2 where w: "attest_weight cfg a b s n ?st1 = (w, st2)" by fastforce
  have st': "rp_log st' = rp_log st2 @ [AttestationMade a b s n w]" "rp_pair_count st' = rp_pair_count st2"
    using assms w by (auto simp: attest_evidence_def Let_def split_def split: if_splits)
  have "rp_log st2 = rp_log st" "rp_pair_count st2 p = rp_pair_count st p + (if (a, b, s) = p \<and> 0 < w then 1 else 0)"
    "0 < w \<longrightarrow> rp_pair_count st (a, b, s) < 16
        \<and> w = min n (sat_mul u128_max (evidence_of st a s) (rc_stake_multiplier cfg)) div 2 ^ rp_pair_count st (a, b, s)"
    using w by (auto simp: attest_weight_def ATTEST_PAIR_DECAY_MAX_def Let_def evidence_of_def sat_add_def split: if_splits)
  moreover have "x div 2 ^ k * 2 ^ k \<le> x" for x k :: nat by (rule div_times_less_eq_dividend)
  ultimately show ?thesis
    by (intro exI [of _ w]) (auto simp del: min_less_iff_conj min.bounded_iff simp: st')
qed

lemma halving_step:
  assumes "halving C p st" "testimony_base cfg p st (snd c) \<le> C" "rep_step cfg c st = Inr st'"
  shows "halving C p st'"
proof (cases c)
  case (Pair env call)
  show ?thesis
  proof (cases call)
    case (Attest a b s n)
    obtain w where w: "testimony p (rp_log st') = testimony p (rp_log st) @ (if (a, b, s) = p then [w] else [])"
      "rp_pair_count st' p = rp_pair_count st p + (if (a, b, s) = p \<and> 0 < w then 1 else 0)"
      "(a, b, s) = p \<and> 0 < w \<longrightarrow> rp_pair_count st p < 16
        \<and> w * 2 ^ rp_pair_count st p \<le> min n (sat_mul u128_max (evidence_of st a s) (rc_stake_multiplier cfg))"
      using attest_step [of cfg a b s n st st' p] assms(3) by (auto simp: Pair Attest)
    show ?thesis
    proof (cases "(a, b, s) = p \<and> 0 < w")
      case True
      then have "w * 2 ^ rp_pair_count st p \<le> min n (sat_mul u128_max (evidence_of st a s) (rc_stake_multiplier cfg))"
        using w(3) by blast
      also have "... \<le> C" using assms(2) True by (simp add: Pair Attest testimony_base_def)
      finally have "w * 2 ^ rp_pair_count st p \<le> C" .
      moreover have "rp_pair_count st p < 16" using w(3) True by simp
      moreover have "sum_list (testimony p (rp_log st)) * 2 ^ rp_pair_count st p + 2 * C \<le> C * 2 ^ Suc (rp_pair_count st p)"
        using assms(1) by (simp add: halving_def)
      ultimately show ?thesis using True w(1,2) by (simp add: halving_def algebra_simps)
    next
      case False
      then show ?thesis using assms(1) w(1,2) by (auto simp: halving_def split: if_splits)
    qed
  next
    case (Verdict c s ids n d)
    then show ?thesis using assms halving_same [OF conjunct1 [OF rectify_same [of st cfg env c s ids n d]]] by (auto simp: Pair)
  next
    case (Report_fraud q c s n d)
    then show ?thesis using assms cascade_same [of st cfg env c s n d]
      by (auto simp: Pair report_fraud_def halving_def same_claims_def split: if_splits)
  next
    case Begin_rep_block
    then show ?thesis using assms halving_same [OF on_initialize_same [of st cfg env]] by (auto simp: Pair)
  next
    case Upgrade_runtime
    then show ?thesis using assms upgrade_effect [of env st] by (auto simp: Pair halving_def)
  next
    case (Vouch_for a b s w)
    then have "rp_vouch cfg env a b s w st = Inr st'" using assms(3) by (simp add: Pair)
    then show ?thesis by (rule vouch_effect) (use assms(1) in \<open>simp add: halving_def\<close>)
  next
    case (Set_vote_key who k sg)
    then have "set_vote_key env who k sg st = Inr st'" using assms(3) by (simp add: Pair)
    then show ?thesis by (rule set_vote_key_effect) (use assms(1) in \<open>simp add: halving_def\<close>)
  qed (use assms in \<open>auto simp: Pair halving_def small_calls split: if_splits option.splits\<close>)
qed

lemma halving_run:
  "halving C p st \<Longrightarrow> testimony_peak cfg p cs st \<le> C \<Longrightarrow> halving C p (run_calls (rep_step cfg) cs st)"
proof (induction cs arbitrary: st)
  case (Cons c cs)
  have "halving C p (apply_call (rep_step cfg c) st)"
    using halving_step [OF Cons.prems(1), of cfg c] Cons.prems by (cases "rep_step cfg c st") auto
  then show ?case using Cons.IH Cons.prems(2) by simp
qed simp

lemma genesis_start:
  assumes "rep_genesis cfg env evs keys = Some st"
  shows "rp_log st = [] \<and> rp_pair_count st = (\<lambda>_. 0) \<and> rp_bootstrap_end st = 0 \<and> rp_vouches st = Map.empty
    \<and> same_guard (empty_reputation cfg) st"
proof -
  let ?P = "\<lambda>a b. rp_log b = rp_log a \<and> rp_pair_count b = rp_pair_count a \<and> rp_bootstrap_end b = rp_bootstrap_end a
      \<and> rp_vouches b = rp_vouches a \<and> same_guard a b"
  let ?f = "\<lambda>(who, s, amount) st. snd (journal_evidence who s amount (st\<lparr>rp_evidence := (rp_evidence st)((who, s) \<mapsto> amount)\<rparr>))"
  let ?g = "\<lambda>(who, k) st. st\<lparr>rp_vote_keys := (rp_vote_keys st)(who \<mapsto> k), rp_key_owner := (rp_key_owner st)(k \<mapsto> who)\<rparr>"
  have f: "?P a (fold ?f xs a)" for xs and a :: "'a reputation"
    by (rule fold_related) (auto simp: journal_evidence_def Let_def same_guard_def)
  have g: "?P a (fold ?g xs a)" for xs and a :: "'a reputation"
    by (rule fold_related) (auto simp: same_guard_def)
  have "?P (fold ?g keys (fold ?f evs (empty_reputation cfg))) st"
    using assms recompute_effect [of env "fold ?g keys (fold ?f evs (empty_reputation cfg))"]
    by (auto simp: rep_genesis_def Let_def same_guard_def split: if_splits)
  with f [of evs "empty_reputation cfg"] g [of keys "fold ?f evs (empty_reputation cfg)"]
  show ?thesis by (simp add: empty_reputation_def same_guard_def)
qed

end
