(* ===== verification/ReputationSlashing.thy ===== *)
theory ReputationSlashing
imports ReputationProps
begin

text \<open>
  The slashing cascade of the reputation pallet and the verdicts of juries: who pays, how much, and that a struck record
  never counts again.
\<close>

section \<open>Liability\<close>

text \<open>\<open>(who, v)\<close>: the account \<open>v\<close> stands for \<open>who\<close> in the suit, with a vouch that has matured.\<close>

definition liable :: "'a rep_env \<Rightarrow> 'a reputation \<Rightarrow> suit \<Rightarrow> ('a \<times> 'a) set" where
  "liable env st s = {(who, v). v \<in> set (vouchers env st) \<and> list_ex (\<lambda>(t, s', _). t = who \<and> s' = s) (edges_of st v)
     \<and> \<not> fresh_vouch env st s v who}"

lemma liable_only: "only_evidence st st' \<Longrightarrow> liable env st' s = liable env st s"
  unfolding only_evidence_def by (erule ssubst) (simp add: liable_def vouchers_def edges_of_def fresh_vouch_def cong: option.case_cong)

lemma charged_liable: "v \<in> set (charged_sponsors env st s visited who) \<Longrightarrow> (who, v) \<in> liable env st s \<and> v \<notin> set visited"
  by (auto simp: charged_sponsors_def liable_def)

lemma half: "permill_ok env \<Longrightarrow> 2 * re_mul_floor env 500000 x \<le> x"
proof -
  assume "permill_ok env"
  then have "re_mul_floor env 500000 x * 1000000 \<le> 500000 * x" by (simp add: permill_ok_def)
  then show ?thesis by simp
qed

definition slashed ::
  "'a rep_env \<Rightarrow> suit \<Rightarrow> 'a \<Rightarrow> nat \<Rightarrow> nat \<Rightarrow> 'a reputation \<Rightarrow> 'a reputation \<Rightarrow> 'a list \<Rightarrow> bool" where
  "slashed env s c n d st0 st visited = (only_evidence st0 st
     \<and> (\<forall>a t. t \<noteq> s \<longrightarrow> evidence_of st a t = evidence_of st0 a t)
     \<and> (\<forall>a. a \<notin> set visited \<longrightarrow> evidence_of st a s = evidence_of st0 a s)
     \<and> (\<forall>a\<in>set visited. a \<noteq> c \<longrightarrow> evidence_of st0 a s \<le> 2 * evidence_of st a s \<and> evidence_of st a s \<le> evidence_of st0 a s
          \<and> (\<exists>j. 1 \<le> j \<and> j \<le> d \<and> (c, a) \<in> liable env st0 s ^^ j))
     \<and> (c \<in> set visited \<longrightarrow> evidence_of st c s = evidence_of st0 c s - n))"

lemma evidence_of_upd: "evidence_of (st\<lparr>rp_evidence := (rp_evidence st)((w, s) \<mapsto> e)\<rparr>) a t = (if a = w \<and> t = s then e else evidence_of st a t)"
  by (simp add: evidence_of_def)

lemma slash_sponsor:
  assumes ok: "permill_ok env" and inv: "slashed env s c n d st0 st vis" "c \<in> set vis"
    and who: "(c, who) \<in> liable env st0 s ^^ k" "1 \<le> k" "k \<le> d"
    and nxt: "\<forall>(v, _)\<in>set nxt. (c, v) \<in> liable env st0 s ^^ Suc k"
    and step: "slash_account cfg env s False r (who, amt) (st, vis, nxt) = (st', vis', nxt')"
  shows "slashed env s c n d st0 st' vis' \<and> c \<in> set vis' \<and> (\<forall>(v, _)\<in>set nxt'. (c, v) \<in> liable env st0 s ^^ Suc k)"
proof (cases "amt = 0 \<or> who \<in> set vis")
  case True
  then show ?thesis using step inv nxt by (simp add: slash_account_def)
next
  case False
  let ?hit = "min amt (re_mul_floor env 500000 (evidence_of st who s))"
  let ?st1 = "st\<lparr>rp_evidence := (rp_evidence st)((who, s) \<mapsto> evidence_of st who s - ?hit)\<rparr>"
  have fresh: "who \<notin> set vis" "who \<noteq> c" using False inv(2) by auto
  have same: "evidence_of st who s = evidence_of st0 who s" using inv(1) fresh(1) by (simp add: slashed_def)
  have hit: "2 * ?hit \<le> evidence_of st who s" using half [OF ok, of "evidence_of st who s"] by linarith
  have only: "only_evidence st0 ?st1"
    using inv(1) only_evidence_upd only_evidence_trans by (fastforce simp: slashed_def)
  have s1: "slashed env s c n d st0 ?st1 (vis @ [who])"
    using inv fresh who hit same only unfolding slashed_def by (auto simp: evidence_of_upd)
  have s0: "slashed env s c n d st0 st (vis @ [who])"
    using inv fresh who hit same unfolding slashed_def by auto
  have more: "(c, v) \<in> liable env st0 s ^^ Suc k" if "v \<in> set (charged_sponsors env ?st1 s (vis @ [who]) who)" for v
    using charged_liable [OF that] who(1) liable_only [OF only, of env s] by (auto intro: relpow_Suc_I)
  show ?thesis
    using step False s0 s1 inv(2) nxt more by (auto simp: slash_account_def Let_def split: if_splits)
qed

lemma slash_level_sponsors:
  assumes ok: "permill_ok env" and k: "1 \<le> k" "k \<le> d"
  shows "slashed env s c n d st0 st vis \<Longrightarrow> c \<in> set vis \<Longrightarrow> \<forall>(v, _)\<in>set level. (c, v) \<in> liable env st0 s ^^ k
    \<Longrightarrow> \<forall>(v, _)\<in>set nxt. (c, v) \<in> liable env st0 s ^^ Suc k
    \<Longrightarrow> fold (slash_account cfg env s False r) level (st, vis, nxt) = (st', vis', nxt')
    \<Longrightarrow> slashed env s c n d st0 st' vis' \<and> c \<in> set vis' \<and> (\<forall>(v, _)\<in>set nxt'. (c, v) \<in> liable env st0 s ^^ Suc k)"
proof (induction level arbitrary: st vis nxt)
  case (Cons p level)
  obtain who amt where p: "p = (who, amt)" by (cases p)
  obtain st1 vis1 nxt1 where one: "slash_account cfg env s False r (who, amt) (st, vis, nxt) = (st1, vis1, nxt1)"
    by (cases "slash_account cfg env s False r (who, amt) (st, vis, nxt)")
  have "(c, who) \<in> liable env st0 s ^^ k" using Cons.prems(3) p by simp
  from slash_sponsor [OF ok Cons.prems(1,2) this k Cons.prems(4) one]
  show ?case using Cons.IH [of st1 vis1 nxt1] Cons.prems(3,5) one p by auto
qed auto

lemma slash_levels_sponsors:
  assumes ok: "permill_ok env"
  shows "slashed env s c n d st0 st vis \<Longrightarrow> c \<in> set vis \<Longrightarrow> \<forall>(v, _)\<in>set level. (c, v) \<in> liable env st0 s ^^ k
    \<Longrightarrow> 1 \<le> k \<Longrightarrow> k + r \<le> d \<Longrightarrow> cascade_levels r cfg env s False level (st, vis) = (st', vis')
    \<Longrightarrow> slashed env s c n d st0 st' vis' \<and> c \<in> set vis'"
proof (induction r arbitrary: k level st vis)
  case 0
  obtain st1 vis1 nxt1 where f: "fold (slash_account cfg env s False 0) level (st, vis, []) = (st1, vis1, nxt1)"
    by (cases "fold (slash_account cfg env s False 0) level (st, vis, [])")
  have "k \<le> d" using 0 by simp
  from slash_level_sponsors [OF ok 0(4) this 0(1,2,3) _ f] show ?case using 0(6) f by simp
next
  case (Suc r)
  obtain st1 vis1 nxt1 where f: "fold (slash_account cfg env s False (Suc r)) level (st, vis, []) = (st1, vis1, nxt1)"
    by (cases "fold (slash_account cfg env s False (Suc r)) level (st, vis, [])")
  have "k \<le> d" using Suc.prems by simp
  from slash_level_sponsors [OF ok Suc.prems(4) this Suc.prems(1,2,3) _ f]
  have one: "slashed env s c n d st0 st1 vis1" "c \<in> set vis1" "\<forall>(v, _)\<in>set nxt1. (c, v) \<in> liable env st0 s ^^ Suc k" by simp_all
  show ?case
  proof (cases "nxt1 = []")
    case True
    then show ?thesis using Suc.prems(6) f one by simp
  next
    case False
    then show ?thesis using Suc.IH [OF one] Suc.prems(5,6) f by simp
  qed
qed

lemma cascade_slashed:
  assumes ok: "permill_ok env"
  shows "\<exists>vis. slashed env s c n d st (cascade_slash cfg env c s n d st) vis \<and> (0 < n \<longrightarrow> c \<in> set vis)"
proof (cases "n = 0")
  case True
  have "slashed env s c n d st st []" by (simp add: slashed_def only_evidence_refl)
  moreover have "cascade_slash cfg env c s n d st = st"
    using True by (cases d) (simp_all add: cascade_slash_def slash_account_def)
  ultimately show ?thesis using True by auto
next
  case False
  let ?st1 = "st\<lparr>rp_evidence := (rp_evidence st)((c, s) \<mapsto> evidence_of st c s - n)\<rparr>"
  have s1: "slashed env s c n d st ?st1 [c]"
    by (auto simp: slashed_def evidence_of_upd only_evidence_upd)
  show ?thesis
  proof (cases d)
    case 0
    then have "cascade_slash cfg env c s n d st = ?st1"
      using False by (simp add: cascade_slash_def slash_account_def Let_def)
    then show ?thesis using s1 by auto
  next
    case (Suc r)
    let ?p = "re_mul_floor env (rc_liability cfg) n"
    define nxt where "nxt = (if ?p = 0 then [] else map (\<lambda>v. (v, ?p)) (charged_sponsors env ?st1 s [c] c))"
    have one: "slash_account cfg env s True (Suc r) (c, n) (st, [], []) = (?st1, [c], nxt)"
      using False by (simp add: slash_account_def Let_def nxt_def)
    obtain st' vis' where l: "cascade_levels r cfg env s False nxt (?st1, [c]) = (st', vis')"
      by (cases "cascade_levels r cfg env s False nxt (?st1, [c])")
    have "(c, v) \<in> liable env st s ^^ 1" if "v \<in> set (charged_sponsors env ?st1 s [c] c)" for v
      using charged_liable [OF that] liable_only [OF only_evidence_upd [of st "(rp_evidence st)((c, s) \<mapsto> evidence_of st c s - n)"], of env s] by simp
    then have "\<forall>(v, _)\<in>set nxt. (c, v) \<in> liable env st s ^^ 1" by (auto simp: nxt_def)
    from slash_levels_sponsors [OF ok s1 _ this _ _ l] Suc have rest: "slashed env s c n d st st' vis' \<and> c \<in> set vis'" by simp
    have "cascade_slash cfg env c s n d st = (if nxt = [] then ?st1 else st')"
      unfolding cascade_slash_def Suc by (simp add: one l)
    then show ?thesis using s1 rest by (cases "nxt = []") auto
  qed
qed

section \<open>The journal\<close>

text \<open>A record below the head is never written again: it stays, or it is struck or swept.\<close>

definition journal_kept :: "'a reputation \<Rightarrow> 'a reputation \<Rightarrow> bool" where
  "journal_kept st st' = (rp_next_record st \<le> rp_next_record st'
     \<and> (\<forall>i<rp_next_record st. rp_records st' i = rp_records st i \<or> rp_records st' i = None))"

lemma journal_kept_refl [simp, intro]: "journal_kept st st"
  by (simp add: journal_kept_def)

lemma journal_kept_trans [trans]: "journal_kept a b \<Longrightarrow> journal_kept b c \<Longrightarrow> journal_kept a c"
  unfolding journal_kept_def by (metis order_less_le_trans order_trans)

lemma journal_kept_same: "rp_next_record st' = rp_next_record st \<Longrightarrow> rp_records st' = rp_records st \<Longrightarrow> journal_kept st st'"
  by (simp add: journal_kept_def)

definition head_fits :: "'a reputation \<Rightarrow> bool" where
  "head_fits st = (rp_next_record st \<le> u64_max)"

lemma admit_journal: "head_fits st \<Longrightarrow> journal_kept st (admit_evidence who s n st) \<and> head_fits (admit_evidence who s n st)"
  by (simp add: journal_kept_def head_fits_def admit_evidence_effect sat_add_def)

lemma service_epoch_journal:
  "head_fits st \<Longrightarrow> journal_kept st (credit_service_epoch cfg env e st) \<and> head_fits (credit_service_epoch cfg env e st)"
proof -
  let ?R = "\<lambda>a b. head_fits a \<longrightarrow> journal_kept a b \<and> head_fits b"
  have "?R st (credit_service_epoch cfg env e st)"
    unfolding credit_service_epoch_def
    by (rule fold_related [where R = ?R]) (auto simp: Let_def admit_journal intro: journal_kept_trans split: prod.split)
  then show "head_fits st \<Longrightarrow> ?thesis" by blast
qed

lemma service_steps_journal:
  "head_fits (snd ns) \<Longrightarrow> journal_kept (snd ns) (snd (service_steps k cfg env ended ns)) \<and> head_fits (snd (service_steps k cfg env ended ns))"
proof (induction k arbitrary: ns)
  case (Suc k)
  from Suc.IH [of "(sat_add u64_max (fst ns) 1, credit_service_epoch cfg env (fst ns) (snd ns))"]
    service_epoch_journal [OF Suc.prems, of cfg env "fst ns"] Suc.prems
  show ?case by (auto intro: journal_kept_trans)
qed simp

lemma credit_service_journal:
  "head_fits st \<Longrightarrow> journal_kept st (credit_service_evidence cfg env st) \<and> head_fits (credit_service_evidence cfg env st)"
  using service_steps_journal [of "(rp_service_cursor st, st)" 8 cfg env "re_now env div rc_epoch_length cfg - 1"]
  by (simp add: credit_service_evidence_def Let_def split_def) (simp add: journal_kept_def head_fits_def)

lemma guard_journal:
  "rp_records (step_entrenchment_guard env reps st) = rp_records st \<and> rp_next_record (step_entrenchment_guard env reps st) = rp_next_record st"
  by (simp add: step_entrenchment_guard_def Let_def split_def)

lemma floor_journal: "rp_records (update_attest_floor reps st) = rp_records st \<and> rp_next_record (update_attest_floor reps st) = rp_next_record st"
  by (simp add: update_attest_floor_def Let_def)

lemma sweep_journal: "journal_kept st (sweep_dust_records cfg env st) \<and> rp_next_record (sweep_dust_records cfg env st) = rp_next_record st"
proof -
  obtain rec c where "sweep_dust_records cfg env st = st\<lparr>rp_records := rec, rp_sweep_cursor := c\<rparr>"
    "\<forall>i. rec i = rp_records st i \<or> rec i = None" using sweep_effect [of cfg env st] by (elim exE conjE)
  then show ?thesis by (simp add: journal_kept_def)
qed

lemma run_epoch_journal: "head_fits st \<Longrightarrow> journal_kept st (rep_run_epoch cfg env st) \<and> head_fits (rep_run_epoch cfg env st)"
proof -
  assume fits: "head_fits st"
  let ?st0 = "decay_evidence cfg env st"
  let ?st1 = "credit_service_evidence cfg env ?st0"
  let ?rc = "recompute_reputation env ?st1"
  let ?st3 = "(snd ?rc)\<lparr>rp_report := Some (case fst ?rc of None \<Rightarrow> no_report | Some r \<Rightarrow> r)\<rparr>"
  let ?reps = "consensus_reputation env ?st3"
  let ?st4 = "update_attest_floor ?reps (step_entrenchment_guard env ?reps ?st3)"
  have d: "rp_records ?st0 = rp_records st" "rp_next_record ?st0 = rp_next_record st" by (simp_all add: decay_evidence_def)
  have "head_fits ?st0" using fits by (simp add: head_fits_def d)
  note c = credit_service_journal [OF this, of cfg env]
  have r: "rp_records ?st3 = rp_records ?st1" "rp_next_record ?st3 = rp_next_record ?st1"
    using recompute_effect [of env ?st1] by auto
  have g: "rp_records ?st4 = rp_records ?st1" "rp_next_record ?st4 = rp_next_record ?st1"
    using guard_journal floor_journal r by metis+
  have s: "journal_kept ?st4 (sweep_dust_records cfg env ?st4)" "rp_next_record (sweep_dust_records cfg env ?st4) = rp_next_record ?st4"
    using sweep_journal by blast+
  have "journal_kept st (sweep_dust_records cfg env ?st4)"
    using journal_kept_same [OF d(2,1)] c journal_kept_same [OF g(2,1)] s(1) by (blast intro: journal_kept_trans)
  moreover have "head_fits (sweep_dust_records cfg env ?st4)" using c s(2) g(2) by (simp add: head_fits_def)
  ultimately show ?thesis
    by (simp add: rep_run_epoch_def Let_def split_def) (simp add: journal_kept_def head_fits_def)
qed

lemma rectify_records:
  "rp_records (snd (rectify_for_verdict cfg env c s ids n d st))
     = rp_records st |` (- set (snd (verdict_records cfg env c s ids st)))
   \<and> rp_next_record (snd (rectify_for_verdict cfg env c s ids n d st)) = rp_next_record st"
  using cascade_same [of st cfg env c s _ d] by (simp add: rectify_for_verdict_def Let_def split_def)

lemma journal_step:
  assumes "head_fits st" "rep_step cfg c st = Inr st'"
  shows "journal_kept st st' \<and> head_fits st'"
proof (cases c)
  case (Pair env call)
  show ?thesis
  proof (cases call)
    case (Set_vote_key who k sg)
    then have "set_vote_key env who k sg st = Inr st'" using assms(2) by (simp add: Pair)
    then show ?thesis by (rule set_vote_key_effect) (use assms(1) in \<open>simp add: journal_kept_def head_fits_def\<close>)
  next
    case (Attest a b s n)
    then have "attest_evidence cfg a b s n st = Inr st'" using assms(2) by (simp add: Pair)
    then show ?thesis by (rule attest_effect) (use assms(1) in \<open>simp add: journal_kept_def head_fits_def\<close>)
  next
    case (Vouch_for a b s w)
    then have "rp_vouch cfg env a b s w st = Inr st'" using assms(2) by (simp add: Pair)
    then show ?thesis by (rule vouch_effect) (use assms(1) in \<open>simp add: journal_kept_def head_fits_def\<close>)
  next
    case Upgrade_runtime
    then show ?thesis using assms upgrade_effect [of env st] by (auto simp: Pair journal_kept_def head_fits_def)
  next
    case (Verdict c s ids n d)
    then show ?thesis using assms rectify_records [of cfg env c s ids n d st]
      by (auto simp: Pair journal_kept_def head_fits_def restrict_map_def)
  next
    case (Report_fraud p c s n d)
    then show ?thesis using assms cascade_same [of st cfg env c s n d]
      by (auto simp: Pair report_fraud_def journal_kept_def head_fits_def split: if_splits)
  next
    case Begin_rep_block
    then show ?thesis using assms run_epoch_journal [OF assms(1), of cfg env]
      by (auto simp: Pair rep_on_initialize_def Let_def split: if_splits)
  next
    case (Claim b a s)
    let ?taken = "st\<lparr>rp_attestations := (rp_attestations st)((a, b, s) := None)\<rparr>"
    obtain n where "st' = admit_evidence b s n ?taken"
      using assms(2) by (auto simp: Pair Claim claim_attested_evidence_def split: option.splits)
    moreover have "head_fits ?taken" "journal_kept st ?taken" using assms(1) by (simp_all add: head_fits_def journal_kept_def)
    ultimately show ?thesis using admit_journal [of ?taken b s n] by (blast intro: journal_kept_trans)
  next
    case (Submit_evidence p who s n)
    then show ?thesis using assms admit_journal [OF assms(1), of who s n]
      by (auto simp: Pair submit_evidence_def split: if_splits)
  qed (use assms in \<open>auto simp: Pair journal_kept_def head_fits_def set_bootstrap_window_def set_probation_window_def
      revoke_vouch_def clear_vote_key_def split: if_splits option.splits\<close>)
qed

text \<open>Once gone, a record stays gone.\<close>

definition struck :: "nat set \<Rightarrow> 'a reputation \<Rightarrow> bool" where
  "struck I st = (head_fits st \<and> (\<forall>i\<in>I. i < rp_next_record st \<and> rp_records st i = None))"

interpretation strikes: call_system "rep_step cfg" "\<lambda>_. True" "struck I" for cfg I
proof unfold_locales
  fix c s s'
  assume "struck I s" "rep_step cfg c s = Inr s'"
  then show "struck I s'" using journal_step [of s cfg c s'] by (force simp: struck_def journal_kept_def)
qed

text \<open>The cap and the records of a verdict.\<close>

definition disputed :: "rep_config \<Rightarrow> 'a rep_env \<Rightarrow> 'a \<Rightarrow> suit \<Rightarrow> 'a reputation \<Rightarrow> nat \<Rightarrow> nat" where
  "disputed cfg env c s st i = (case evidence_record_current cfg env st i of
     Some (owner, s', current) \<Rightarrow> if owner = c \<and> s' = s then current else 0 | None \<Rightarrow> 0)"

definition names_record :: "'a \<Rightarrow> suit \<Rightarrow> 'a reputation \<Rightarrow> nat \<Rightarrow> bool" where
  "names_record c s st i = (case rp_records st i of Some (owner, s', _) \<Rightarrow> owner = c \<and> s' = s | None \<Rightarrow> False)"

lemma verdict_record_effect:
  "fst (verdict_record cfg env c s st x q) \<le> fst q + disputed cfg env c s st x
   \<and> set (snd (verdict_record cfg env c s st x q)) = set (snd q) \<union> {i. i = x \<and> names_record c s st i}"
proof -
  obtain cap xs where q: "q = (cap, xs)" by (cases q)
  show ?thesis
  proof (cases "rp_records st x")
    case None
    then show ?thesis by (auto simp: q verdict_record_def evidence_record_current_def names_record_def)
  next
    case (Some r)
    obtain w s' a e where r: "r = (w, s', a, e)" by (cases r)
    define cur where "cur = re_mul_floor env (re_pow env (rc_retention cfg) (min (rp_epoch st - e) u32_max)) a"
    have e: "evidence_record_current cfg env st x = Some (w, s', cur)"
      by (simp add: evidence_record_current_def Some r cur_def)
    have n: "names_record c s st x = (w = c \<and> s' = s)" by (simp add: names_record_def Some r)
    show ?thesis using sat_add_le(2) [of u128_max cap cur] n by (auto simp: q verdict_record_def e disputed_def)
  qed
qed

lemma verdict_fold:
  "fst (fold (verdict_record cfg env c s st) xs q) \<le> fst q + sum_list (map (disputed cfg env c s st) xs)
   \<and> set (snd (fold (verdict_record cfg env c s st) xs q)) = set (snd q) \<union> {i \<in> set xs. names_record c s st i}"
proof (induction xs arbitrary: q)
  case (Cons x xs)
  from Cons [of "verdict_record cfg env c s st x q"] verdict_record_effect [of cfg env c s st x q]
  show ?case by auto
qed simp

lemma rectify_applied: "fst (rectify_for_verdict cfg env c s ids n d st) = min n (fst (verdict_records cfg env c s ids st))"
  by (simp add: rectify_for_verdict_def Let_def split_def)

end
