(* ===== verification/ReputationVerdicts.thy ===== *)
theory ReputationVerdicts
imports ReputationSlashing
begin

text \<open>
  Properties of the reputation pallet over histories: vote keys, the weight of a pair's testimony, the cascade of a
  fraud, the records a verdict strikes; with the small world their witnesses run in.
\<close>

section \<open>Properties\<close>

text \<open>
  C21: a hot key serves one account. From a genesis the chain accepts, after any calls, verdicts, blocks and runtime
  upgrades, the map of vote keys and its reverse are inverse to each other, so no two accounts share a key and the
  resolution of a vote is unique; and the migration of the reverse map changes nothing.
\<close>

theorem one_account_per_vote_key:
  assumes "rep_genesis cfg env evs keys = Some st"
  shows "keys_ok (run_calls (rep_step cfg) cs st)
    \<and> rep_on_runtime_upgrade env' (run_calls (rep_step cfg) cs st) = run_calls (rep_step cfg) cs st"
proof -
  have "keys_ok (run_calls (rep_step cfg) cs st)"
    by (rule vote_keys.run_inv [OF _ genesis_keys [OF assms]]) (simp add: list_all_iff)
  then show ?thesis by (simp add: upgrade_keys)
qed

definition demo_rep_config :: rep_config where
  "demo_rep_config = \<lparr>rc_max_vouches = 8, rc_quota_k = 10, rc_retention = 900000, rc_epoch_length = 10, rc_liability = 500000,
     rc_attest_budget = 8, rc_probation = 0, rc_floor_min = 0, rc_stake_multiplier = 1, rc_service_rate = 1\<rparr>"

definition demo_rep_env :: "nat rep_env" where
  "demo_rep_env = \<lparr>re_now = 5, re_service = (\<lambda>_. []), re_verify = (\<lambda>sg msg k. sg = k), re_encode = (\<lambda>a. []),
     re_quantiser = demo_quantiser, re_mul_floor = (\<lambda>p x. p * x div 1000000), re_pow = (\<lambda>p e. if e = 0 then 1000000 else p),
     re_order = (\<lambda>P. filter P [1, 2, 3])\<rparr>"

lemma demo_permill_ok: "permill_ok demo_rep_env"
  by (simp add: permill_ok_def demo_rep_env_def)

definition demo_keys :: "(nat \<times> byte list) list" where
  "demo_keys = [(1, [7]), (2, [8])]"

definition demo_rep :: "nat reputation" where
  "demo_rep = (empty_reputation demo_rep_config)\<lparr>rp_vote_keys := [1 \<mapsto> [7], 2 \<mapsto> [8]], rp_key_owner := [[7] \<mapsto> 1, [8] \<mapsto> 2]\<rparr>"

lemma demo_rep_genesis: "rep_genesis demo_rep_config demo_rep_env [] demo_keys = Some demo_rep"
  by (simp add: demo_rep_def rep_genesis_def demo_keys_def vote_keys_valid_def demo_rep_env_def empty_reputation_def)

text \<open>The third account is refused the first one's key; the first rotates to a new key, and the third binds the old one.\<close>

definition demo_binds :: "(nat rep_env \<times> nat rep_call) list" where
  "demo_binds = [(demo_rep_env, Set_vote_key 3 [7] [7]), (demo_rep_env, Set_vote_key 1 [9] [9]), (demo_rep_env, Set_vote_key 3 [7] [7])]"

theorem one_account_per_vote_key_witness:
  "rp_vote_keys (run_calls (rep_step demo_rep_config) demo_binds demo_rep) 3 = Some [7]
   \<and> rp_vote_keys (run_calls (rep_step demo_rep_config) demo_binds demo_rep) 1 \<noteq> Some [7]"
proof -
  let ?st = "run_calls (rep_step demo_rep_config) demo_binds demo_rep"
  have "rp_vote_keys ?st 3 = Some [7]"
    by (simp add: demo_binds_def demo_rep_def demo_rep_env_def set_vote_key_def
        apply_call_def rp_emit_def empty_reputation_def Let_def)
  moreover have "keys_ok ?st" using one_account_per_vote_key [OF demo_rep_genesis, of demo_binds demo_rep_env] by simp
  ultimately show ?thesis by (auto simp: keys_ok_def)
qed

text \<open>
  C22: one pair can never fabricate evidence. From genesis on, after any history, all that an attester's testimonies for one
  beneficiary in one suit ever admitted is at most twice the largest single one of them, each capped by the evidence the
  attester itself held when it spoke; and at most sixteen of them weighed anything.
\<close>

theorem pair_testimony_bounded:
  assumes "rep_genesis cfg env evs keys = Some st"
  shows "sum_list (testimony p (rp_log (run_calls (rep_step cfg) cs st))) \<le> 2 * testimony_peak cfg p cs st
    \<and> rp_pair_count (run_calls (rep_step cfg) cs st) p \<le> 16"
proof -
  let ?C = "testimony_peak cfg p cs st" and ?st = "run_calls (rep_step cfg) cs st"
  have "halving ?C p st" using genesis_start [OF assms] by (cases p) (simp add: halving_def)
  then have h: "halving ?C p ?st" by (rule halving_run) simp
  then have "sum_list (testimony p (rp_log ?st)) * 2 ^ rp_pair_count ?st p + 2 * ?C \<le> 2 * ?C * 2 ^ rp_pair_count ?st p"
    by (simp add: halving_def ac_simps)
  then have "sum_list (testimony p (rp_log ?st)) * 2 ^ rp_pair_count ?st p \<le> 2 * ?C * 2 ^ rp_pair_count ?st p" by linarith
  then have "sum_list (testimony p (rp_log ?st)) \<le> 2 * ?C" by simp
  with h show ?thesis by (simp add: halving_def)
qed

definition demo_attests :: "(nat rep_env \<times> nat rep_call) list" where
  "demo_attests = [(demo_rep_env, Submit_evidence True 1 Commerce 100), (demo_rep_env, Attest 1 2 Commerce 500),
     (demo_rep_env, Attest 1 2 Commerce 500), (demo_rep_env, Attest 1 2 Commerce 500)]"

lemma no_standing: "rp_snapshot st = Map.empty \<Longrightarrow> consensus_reputation_of st who = 0"
  by (simp add: consensus_reputation_of_def suits_snapshot_of_def snapshot_of_def all_suits_def concave_aggregate_fp_def
      i128_sat_mul_def i128_max_def i128_min_def)

lemma demo_attests_log:
  "testimony (1, 2, Commerce) (rp_log (run_calls (rep_step demo_rep_config) demo_attests demo_rep)) = [100, 50, 25]"
proof -
  have floor: "attest_floor demo_rep_config st = 0" if "rp_floor st = 0" for st :: "nat reputation"
    using that by (simp add: attest_floor_def demo_rep_config_def)
  have cfg: "rc_attest_budget demo_rep_config = 8" "rc_stake_multiplier demo_rep_config = 1" by (simp_all add: demo_rep_config_def)
  have u: "sat_mul u128_max a 1 = (if a \<le> u128_max then a else u128_max)" for a by (simp add: sat_mul_def)
  have m: "100 \<le> u128_max" "50 \<le> u128_max" "25 \<le> u128_max" "150 \<le> u128_max" "175 \<le> u128_max" "1 \<le> u32_max" "2 \<le> u32_max" "3 \<le> u32_max"
    by (simp_all add: u128_max_def u32_max_def)
  have n: "min u32_max x < 8 \<longleftrightarrow> x < 8" for x by (simp add: min_less_iff_disj u32_max_def)
  show ?thesis
    by (simp add: demo_attests_def demo_rep_def empty_reputation_def apply_call_def submit_evidence_def admit_evidence_effect
        attest_evidence_def attest_weight_def no_standing floor cfg evidence_of_def ATTEST_PAIR_DECAY_MAX_def Let_def m n
        sat_add_def sat_mul_def)
qed

theorem pair_testimony_bounded_witness:
  "sum_list (testimony (1, 2, Commerce) (rp_log (run_calls (rep_step demo_rep_config) demo_attests demo_rep))) = 175
   \<and> rp_pair_count (run_calls (rep_step demo_rep_config) demo_attests demo_rep) (1, 2, Commerce) \<le> 16"
  using pair_testimony_bounded [OF demo_rep_genesis, of "(1, 2, Commerce)" demo_attests] by (simp add: demo_attests_log [simplified])

text \<open>
  C39: whoever vouches answers, within bounds. A proven fraud takes from the culprit exactly the loss (or all it has in the
  suit), nothing in any other suit, and from any other account at most half of what it has, once, however the vouches
  run in circles; and only from accounts that a chain of at most \<open>depth\<close> matured vouches in that suit ties to the
  culprit. Nothing but evidence changes.
\<close>

theorem fraud_cascade_bounded:
  assumes "permill_ok env"
  shows "evidence_of (cascade_slash cfg env c s n d st) c s = evidence_of st c s - n
    \<and> (\<forall>a t. evidence_of (cascade_slash cfg env c s n d st) a t = evidence_of st a t
        \<or> (t = s \<and> (a = c \<or> (evidence_of st a s \<le> 2 * evidence_of (cascade_slash cfg env c s n d st) a s
            \<and> evidence_of (cascade_slash cfg env c s n d st) a s < evidence_of st a s
            \<and> (\<exists>j. 1 \<le> j \<and> j \<le> d \<and> (c, a) \<in> liable env st s ^^ j)))))
    \<and> cascade_slash cfg env c s n d st = st\<lparr>rp_evidence := rp_evidence (cascade_slash cfg env c s n d st)\<rparr>"
proof -
  let ?st = "cascade_slash cfg env c s n d st"
  obtain vis where vis: "slashed env s c n d st ?st vis" "0 < n \<longrightarrow> c \<in> set vis" using cascade_slashed [OF assms] by blast
  have c: "evidence_of ?st c s = evidence_of st c s - n" using vis by (cases "c \<in> set vis") (auto simp: slashed_def)
  moreover have "evidence_of ?st a t = evidence_of st a t \<or> (t = s \<and> (a = c \<or> (evidence_of st a s \<le> 2 * evidence_of ?st a s
            \<and> evidence_of ?st a s < evidence_of st a s \<and> (\<exists>j. 1 \<le> j \<and> j \<le> d \<and> (c, a) \<in> liable env st s ^^ j))))" for a t
    using vis(1) by (cases "t = s"; cases "a \<in> set vis"; cases "a = c") (fastforce simp: slashed_def)+
  ultimately show ?thesis using cascade_effect [of st cfg env c s n d] by (auto simp: only_evidence_def)
qed

text \<open>Two sponsors that vouch for the culprit and for each other.\<close>

definition demo_stakes :: "nat \<Rightarrow> nat \<Rightarrow> nat \<Rightarrow> nat \<times> suit \<rightharpoonup> nat" where
  "demo_stakes x y z = (\<lambda>(a, s). if s = Commerce then [1 \<mapsto> x, 2 \<mapsto> y, 3 \<mapsto> z] a else None)"

definition demo_sponsors :: "nat \<Rightarrow> nat \<Rightarrow> nat \<Rightarrow> nat reputation" where
  "demo_sponsors x y z = (empty_reputation demo_rep_config)\<lparr>
     rp_vouches := [2 \<mapsto> [(1, Commerce, 1), (3, Commerce, 1)], 3 \<mapsto> [(2, Commerce, 1)]], rp_evidence := demo_stakes x y z\<rparr>"

lemma demo_sponsors_evidence:
  "evidence_of (demo_sponsors x y z) 1 Commerce = x" "evidence_of (demo_sponsors x y z) 2 Commerce = y"
  "evidence_of (demo_sponsors x y z) 3 Commerce = z"
  by (simp_all add: demo_sponsors_def evidence_of_def demo_stakes_def)

lemma demo_stakes_update:
  "(demo_stakes x y z)((1, Commerce) \<mapsto> w) = demo_stakes w y z" "(demo_stakes x y z)((2, Commerce) \<mapsto> w) = demo_stakes x w z"
  "(demo_stakes x y z)((3, Commerce) \<mapsto> w) = demo_stakes x y w"
  by (auto simp: demo_stakes_def fun_eq_iff)

lemma demo_sponsors_pay:
  "rp_evidence_update (\<lambda>_. (rp_evidence (demo_sponsors x y z))((1, Commerce) \<mapsto> w)) (demo_sponsors x y z) = demo_sponsors w y z"
  "rp_evidence_update (\<lambda>_. (rp_evidence (demo_sponsors x y z))((2, Commerce) \<mapsto> w)) (demo_sponsors x y z) = demo_sponsors x w z"
  "rp_evidence_update (\<lambda>_. (rp_evidence (demo_sponsors x y z))((3, Commerce) \<mapsto> w)) (demo_sponsors x y z) = demo_sponsors x y w"
  by (simp_all add: demo_sponsors_def demo_stakes_update [simplified])

lemma demo_sponsors_charged:
  "charged_sponsors demo_rep_env (demo_sponsors x y z) Commerce [1] 1 = [2]"
  "charged_sponsors demo_rep_env (demo_sponsors x y z) Commerce [1, 2] 2 = [3]"
  "charged_sponsors demo_rep_env (demo_sponsors x y z) Commerce [1, 2, 3] 3 = []"
  by (simp_all add: demo_sponsors_def demo_rep_env_def charged_sponsors_def vouchers_def edges_of_def fresh_vouch_def
      empty_reputation_def demo_rep_config_def)

lemma demo_cascade: "cascade_slash demo_rep_config demo_rep_env 1 Commerce 80 3 (demo_sponsors 100 60 40) = demo_sponsors 20 30 25"
proof -
  have floor: "re_mul_floor demo_rep_env p x = p * x div 1000000" for p x by (simp add: demo_rep_env_def)
  have cfg: "rc_liability demo_rep_config = 500000" by (simp add: demo_rep_config_def)
  have "slash_account demo_rep_config demo_rep_env Commerce True (Suc (Suc (Suc 0))) (1, 80) (demo_sponsors 100 60 40, [], [])
      = (demo_sponsors 20 60 40, [1], [(2, 40)])"
    by (simp add: slash_account_def demo_sponsors_evidence [simplified] demo_sponsors_pay [simplified] demo_sponsors_charged [simplified] floor cfg Let_def)
  moreover have "slash_account demo_rep_config demo_rep_env Commerce False (Suc (Suc 0)) (2, 40) (demo_sponsors 20 60 40, [1], [])
      = (demo_sponsors 20 30 40, [1, 2], [(3, 15)])"
    by (simp add: slash_account_def demo_sponsors_evidence [simplified] demo_sponsors_pay [simplified] demo_sponsors_charged [simplified] floor cfg Let_def)
  moreover have "slash_account demo_rep_config demo_rep_env Commerce False (Suc 0) (3, 15) (demo_sponsors 20 30 40, [1, 2], [])
      = (demo_sponsors 20 30 25, [1, 2, 3], [])"
    by (simp add: slash_account_def demo_sponsors_evidence [simplified] demo_sponsors_pay [simplified] demo_sponsors_charged [simplified] floor cfg Let_def)
  ultimately show ?thesis by (simp add: cascade_slash_def numeral_3_eq_3)
qed

theorem fraud_cascade_bounded_witness:
  "evidence_of (cascade_slash demo_rep_config demo_rep_env 1 Commerce 80 3 (demo_sponsors 100 60 40)) 1 Commerce = 20
   \<and> cascade_slash demo_rep_config demo_rep_env 1 Commerce 80 3 (demo_sponsors 100 60 40) = demo_sponsors 20 30 25"
  using conjunct1 [OF fraud_cascade_bounded [OF demo_permill_ok, of demo_rep_config 1 Commerce 80 3 "demo_sponsors 100 60 40"]]
  by (simp add: demo_cascade [simplified] demo_sponsors_evidence [simplified])

text \<open>
  C24: a verdict strikes exactly the falsehoods it names, once. What it takes is at most what was asked and at most what the
  named records of the culprit in that suit are worth that day, each counted once; the culprit loses exactly that
  (or all it has); exactly these records leave the journal; and no later verdict, after any further history and
  whatever it asks, takes anything for them again.
\<close>

theorem verdict_strikes_once:
  assumes "permill_ok env" "head_fits st" "list_all (\<lambda>i. i < rp_next_record st) ids"
  shows "fst (rectify_for_verdict cfg env c s ids n d st) \<le> n
    \<and> fst (rectify_for_verdict cfg env c s ids n d st) \<le> sum (disputed cfg env c s st) (set ids)
    \<and> evidence_of (snd (rectify_for_verdict cfg env c s ids n d st)) c s
        = evidence_of st c s - fst (rectify_for_verdict cfg env c s ids n d st)
    \<and> rp_records (snd (rectify_for_verdict cfg env c s ids n d st))
        = (\<lambda>i. if i \<in> set ids \<and> names_record c s st i then None else rp_records st i)
    \<and> fst (rectify_for_verdict cfg env2 c s (filter (names_record c s st) ids) n2 d2
        (run_calls (rep_step cfg) cs (snd (rectify_for_verdict cfg env c s ids n d st)))) = 0"
proof -
  let ?v = "verdict_records cfg env c s ids st" and ?st = "snd (rectify_for_verdict cfg env c s ids n d st)"
  let ?I = "{i \<in> set ids. names_record c s st i}"
  have v: "fst ?v \<le> sum (disputed cfg env c s st) (set ids)" "set (snd ?v) = ?I"
    using verdict_fold [of cfg env c s st "sort (remdups ids)" "(0, [])"]
    by (simp_all add: verdict_records_def sum_list_distinct_conv_sum_set)
  note fst = rectify_applied [of cfg env c s ids n d st]
  obtain vis where "slashed env s c (min n (fst ?v)) d st (cascade_slash cfg env c s (min n (fst ?v)) d st) vis"
    "0 < min n (fst ?v) \<longrightarrow> c \<in> set vis" using cascade_slashed [OF assms(1)] by blast
  then have "evidence_of (cascade_slash cfg env c s (min n (fst ?v)) d st) c s = evidence_of st c s - min n (fst ?v)"
    by (cases "c \<in> set vis") (auto simp: slashed_def)
  then have ev: "evidence_of ?st c s = evidence_of st c s - min n (fst ?v)"
    by (simp add: rectify_for_verdict_def Let_def split_def evidence_of_def)
  have recs: "rp_records ?st = (\<lambda>i. if i \<in> set ids \<and> names_record c s st i then None else rp_records st i)"
    using rectify_records [of cfg env c s ids n d st] v(2) by (auto simp: restrict_map_def)
  have "struck ?I ?st"
    using assms(2,3) conjunct2 [OF rectify_records [of cfg env c s ids n d st]] by (auto simp: struck_def head_fits_def recs list_all_iff)
  then have later: "struck ?I (run_calls (rep_step cfg) cs ?st)" by (intro strikes.run_inv) (simp_all add: list_all_iff)
  let ?st2 = "run_calls (rep_step cfg) cs ?st"
  have "disputed cfg env2 c s ?st2 i = 0" if "i \<in> set (filter (names_record c s st) ids)" for i
    using later that by (simp add: struck_def disputed_def evidence_record_current_def)
  then have "fst (verdict_records cfg env2 c s (filter (names_record c s st) ids) ?st2) = 0"
    using verdict_fold [of cfg env2 c s ?st2 "sort (remdups (filter (names_record c s st) ids))" "(0, [])"]
    by (simp add: verdict_records_def sum_list_distinct_conv_sum_set)
  then have "fst (rectify_for_verdict cfg env2 c s (filter (names_record c s st) ids) n2 d2 ?st2) = 0"
    by (simp add: rectify_applied)
  with v fst ev recs show ?thesis by simp
qed

text \<open>A false record among two, named twice over.\<close>

definition demo_journal :: "nat reputation" where
  "demo_journal = admit_evidence 1 Commerce 40 (admit_evidence 1 Commerce 60 (empty_reputation demo_rep_config))"

theorem verdict_strikes_once_witness:
  "fst (rectify_for_verdict demo_rep_config demo_rep_env 1 Commerce [0, 0] 500 2 demo_journal) = 60
   \<and> fst (rectify_for_verdict demo_rep_config demo_rep_env 1 Commerce [0] 500 2
        (run_calls (rep_step demo_rep_config) [(demo_rep_env, Submit_evidence True 1 Commerce 9)]
          (snd (rectify_for_verdict demo_rep_config demo_rep_env 1 Commerce [0] 500 2 demo_journal)))) = 0"
proof -
  have fits: "head_fits demo_journal" and next0: "rp_next_record demo_journal = 2"
    and rec0: "rp_records demo_journal 0 = Some (1, Commerce, 60, 0)"
    by (simp_all add: head_fits_def demo_journal_def admit_evidence_effect empty_reputation_def sat_add_def u64_max_def)
  have "rp_epoch demo_journal = 0" by (simp add: demo_journal_def admit_evidence_effect empty_reputation_def)
  then have "fst (rectify_for_verdict demo_rep_config demo_rep_env 1 Commerce [0, 0] 500 2 demo_journal) = 60"
    by (simp add: rectify_applied verdict_records_def verdict_record_def evidence_record_current_def rec0 demo_rep_env_def demo_rep_config_def
        sat_add_def u128_max_def u32_max_def Let_def)
  moreover have "names_record 1 Commerce demo_journal 0" by (simp add: names_record_def rec0)
  ultimately show ?thesis
    using verdict_strikes_once [OF demo_permill_ok fits, of "[0]" demo_rep_config 1 Commerce 500 2 demo_rep_env 500 2
        "[(demo_rep_env, Submit_evidence True 1 Commerce 9)]"] by (simp add: next0)
qed

end
