(* ===== verification/ReputationEntrenchment.thy ===== *)
theory ReputationEntrenchment
imports ReputationVerdicts JuryDraw
begin

text \<open>
  The entrenchment guard over histories: the counter, the freeze and the recovery bands are functions of what the public
  log announced; and who takes part in the recompute.
\<close>

section \<open>One epoch of the guard\<close>

definition bands_ok :: "bool \<Rightarrow> (nat \<times> nat option) list \<Rightarrow> bool" where
  "bands_ok halted bands = (length bands \<le> MAX_BANDS \<and> list_all (\<lambda>(_, cleared). cleared \<noteq> None) (butlast bands)
     \<and> halted = (bands \<noteq> [] \<and> snd (last bands) = None))"

lemma bands_ok_step:
  assumes "bands_ok was bands"
  shows "bands_ok is (step_bands now was is bands)"
proof (cases "was = is")
  case True
  with assms show ?thesis by (auto simp: step_bands_def)
next
  case False
  show ?thesis
  proof (cases was)
    case True
    then have b: "bands \<noteq> []" "snd (last bands) = None" using assms by (simp_all add: bands_ok_def)
    then have "length (butlast bands) + 1 \<le> MAX_BANDS" using assms by (cases bands rule: rev_cases) (simp_all add: bands_ok_def)
    with b True False assms show ?thesis by (simp add: step_bands_def bands_ok_def)
  next
    case w: False
    then have closed: "list_all (\<lambda>(_, cleared). cleared \<noteq> None) bands"
      using assms by (cases bands rule: rev_cases) (auto simp: bands_ok_def)
    let ?b = "if length bands \<ge> MAX_BANDS then tl bands else bands"
    have "list_all (\<lambda>(_, cleared). cleared \<noteq> None) ?b" using closed by (cases bands) auto
    moreover have "length ?b + 1 \<le> MAX_BANDS" using assms by (auto simp: bands_ok_def MAX_BANDS_def)
    ultimately show ?thesis using w False by (simp add: step_bands_def bands_ok_def)
  qed
qed

text \<open>The guard agrees with the log.\<close>

definition guard_ok :: "'a reputation \<Rightarrow> bool" where
  "guard_ok st = (rp_counter st = min u32_max (fst (over_run (0, False) (rp_log st)))
     \<and> rp_halted st = (ENTRENCHMENT_REQUIRED_EPOCHS \<le> fst (over_run (0, False) (rp_log st)))
     \<and> \<not> snd (over_run (0, False) (rp_log st)) 
     \<and> bands_ok (ENTRENCHMENT_REQUIRED_EPOCHS \<le> fst (over_run (0, False) (rp_log st))) (rp_bands st))"

lemma guard_ok_same: "same_guard st st' \<Longrightarrow> guard_ok st \<Longrightarrow> guard_ok st'"
  by (simp add: guard_ok_def same_guard_def)

lemma guard_epoch:
  assumes "guard_ok st"
  obtains n over where "over_run (0, False) (rp_log (step_entrenchment_guard env reps st)) = (n, over)"
    "rp_counter (step_entrenchment_guard env reps st) = (if over then min u32_max (n + 1) else 0)"
    "rp_halted (step_entrenchment_guard env reps st) = (over \<and> ENTRENCHMENT_REQUIRED_EPOCHS \<le> n + 1)"
    "bands_ok (rp_halted (step_entrenchment_guard env reps st)) (rp_bands (step_entrenchment_guard env reps st))"
proof -
  obtain cl real where sig: "cluster_signal env st reps = (cl, real)" by fastforce
  define armed where "armed = (rp_armed st \<or> (real \<and> cl > 0 \<and> cl < ENTRENCHMENT_THRESHOLD_FP))"
  define share where "share = max (max_single_entity_share_fp (map snd reps)) (if armed then cl else 0)"
  define st2 where "st2 = (if armed \<noteq> rp_armed st \<or> cl > ENTRENCHMENT_THRESHOLD_FP
      then rp_emit (ClusterGuard cl armed) (st\<lparr>rp_armed := armed\<rparr>) else st\<lparr>rp_armed := armed\<rparr>)"
  have st2: "rp_counter st2 = rp_counter st" "rp_halted st2 = rp_halted st" "rp_bands st2 = rp_bands st"
    "over_run q (rp_log st2) = over_run q (rp_log st)" for q
    by (simp_all add: st2_def)
  define counter where "counter = (if share > ENTRENCHMENT_THRESHOLD_FP then sat_add u32_max (rp_counter st) 1 else 0)"
  define halted where "halted = (share > ENTRENCHMENT_THRESHOLD_FP \<and> ENTRENCHMENT_REQUIRED_EPOCHS \<le> counter)"
  have step: "entrenchment_halt_step share ENTRENCHMENT_THRESHOLD_FP (rp_counter st) ENTRENCHMENT_REQUIRED_EPOCHS = (counter, halted)"
    by (simp add: entrenchment_halt_step_def counter_def halted_def Let_def)
  let ?st3 = "st2\<lparr>rp_counter := counter, rp_halted := halted, rp_bands := step_bands (re_now env) (rp_halted st) halted (rp_bands st)\<rparr>"
  have g: "step_entrenchment_guard env reps st =
      (if halted \<noteq> rp_halted st \<or> share > ENTRENCHMENT_THRESHOLD_FP then rp_emit (EntrenchmentHalt share counter halted) ?st3 else ?st3)"
    by (simp only: step_entrenchment_guard_def sig Let_def prod.case armed_def [symmetric] share_def [symmetric]
        st2_def [symmetric] st2 step)
  let ?run = "over_run (0, False) (rp_log st)"
  have quiet: "snd ?run = False" and bands: "bands_ok (rp_halted st) (rp_bands st)" using assms by (simp_all add: guard_ok_def)
  have c: "counter = (if share > ENTRENCHMENT_THRESHOLD_FP then min u32_max (fst ?run + 1) else 0)"
    using assms by (auto simp: counter_def guard_ok_def sat_add_def)
  have h: "halted = (share > ENTRENCHMENT_THRESHOLD_FP \<and> ENTRENCHMENT_REQUIRED_EPOCHS \<le> fst ?run + 1)"
    by (auto simp: halted_def c ENTRENCHMENT_REQUIRED_EPOCHS_def u32_max_def)
  have "over_run (0, False) (rp_log (step_entrenchment_guard env reps st)) = (fst ?run, share > ENTRENCHMENT_THRESHOLD_FP)"
    using quiet by (cases ?run) (auto simp: g st2 h)
  moreover have "rp_counter (step_entrenchment_guard env reps st) = counter" "rp_halted (step_entrenchment_guard env reps st) = halted"
    "rp_bands (step_entrenchment_guard env reps st) = step_bands (re_now env) (rp_halted st) halted (rp_bands st)"
    by (simp_all add: g)
  ultimately show thesis using bands_ok_step [OF bands] c h by (intro that) auto
qed

lemma run_epoch_guard:
  assumes "guard_ok st"
  shows "guard_ok (rep_run_epoch cfg env st)"
proof -
  let ?st1 = "credit_service_evidence cfg env (decay_evidence cfg env st)"
  let ?rc = "recompute_reputation env ?st1"
  let ?st3 = "(snd ?rc)\<lparr>rp_report := Some (case fst ?rc of None \<Rightarrow> no_report | Some r \<Rightarrow> r)\<rparr>"
  let ?reps = "consensus_reputation env ?st3"
  let ?g = "step_entrenchment_guard env ?reps ?st3"
  have "same_guard st (decay_evidence cfg env st)" by (simp add: decay_evidence_def same_guard_def)
  also have "same_guard (decay_evidence cfg env st) ?st1" using credit_service_same by blast
  also have "same_guard ?st1 ?st3" using recompute_effect [of env ?st1] by (auto simp: same_guard_def)
  finally have "guard_ok ?st3" using assms by (rule guard_ok_same)
  then obtain n over where
    over: "over_run (0, False) (rp_log ?g) = (n, over)" "rp_counter ?g = (if over then min u32_max (n + 1) else 0)"
    "rp_halted ?g = (over \<and> ENTRENCHMENT_REQUIRED_EPOCHS \<le> n + 1)" "bands_ok (rp_halted ?g) (rp_bands ?g)"
    by (rule guard_epoch [of _ env ?reps])
  let ?w = "sweep_dust_records cfg env (update_attest_floor ?reps ?g)"
  have "same_guard ?g (update_attest_floor ?reps ?g)" by (rule floor_same)
  also have "same_guard (update_attest_floor ?reps ?g) ?w"
    using sweep_effect [of cfg env "update_attest_floor ?reps ?g"] by (auto simp: same_guard_def)
  finally have w: "same_guard ?g ?w" .
  have "rep_run_epoch cfg env st = rp_emit (EpochAdvanced (sat_add u64_max (rp_epoch ?w) 1)
      (er_members (case fst ?rc of None \<Rightarrow> no_report | Some r \<Rightarrow> r)) (er_active (case fst ?rc of None \<Rightarrow> no_report | Some r \<Rightarrow> r)))
      (?w\<lparr>rp_epoch := sat_add u64_max (rp_epoch ?w) 1\<rparr>)"
    by (simp only: rep_run_epoch_def Let_def split_def)
  with w over show ?thesis
    by (cases over) (simp_all add: guard_ok_def same_guard_def ENTRENCHMENT_REQUIRED_EPOCHS_def)
qed

lemma guard_step:
  assumes "guard_ok st" "rep_step cfg c st = Inr st'"
  shows "guard_ok st'"
proof (cases c)
  case (Pair env call)
  show ?thesis
  proof (cases call)
    case Begin_rep_block
    then show ?thesis using assms run_epoch_guard [OF assms(1), of cfg env]
      by (auto simp: Pair rep_on_initialize_def Let_def split: if_splits)
  next
    case (Set_vote_key who k sg)
    then have "set_vote_key env who k sg st = Inr st'" using assms(2) by (simp add: Pair)
    then show ?thesis by (rule set_vote_key_effect) (use assms(1) in \<open>simp add: guard_ok_def\<close>)
  next
    case (Attest a b s n)
    then have att: "attest_evidence cfg a b s n st = Inr st'" using assms(2) by (simp add: Pair)
    then obtain w st2 where "st' = rp_emit (AttestationMade a b s n w) st2" "same_guard st st2"
      by (auto simp: attest_evidence_def attest_weight_def same_guard_def Let_def split: if_splits prod.splits)
    then show ?thesis using guard_ok_same [of st st2] assms(1) by (simp add: guard_ok_def)
  next
    case (Vouch_for a b s w)
    then have "rp_vouch cfg env a b s w st = Inr st'" using assms(2) by (simp add: Pair)
    then show ?thesis by (rule vouch_effect) (use assms(1) in \<open>simp add: guard_ok_def\<close>)
  next
    case Upgrade_runtime
    then show ?thesis using assms upgrade_effect [of env st] by (auto simp: Pair guard_ok_def)
  next
    case (Verdict c s ids n d)
    then show ?thesis using assms guard_ok_same [OF conjunct1 [OF conjunct2 [OF rectify_same [of st cfg env c s ids n d]]]]
      by (auto simp: Pair)
  next
    case (Report_fraud p c s n d)
    then show ?thesis using assms guard_ok_same [OF conjunct1 [OF conjunct2 [OF cascade_same [of st cfg env c s n d]]]]
      by (auto simp: Pair report_fraud_def guard_ok_def split: if_splits)
  qed (use assms in \<open>auto simp: Pair guard_ok_def small_calls split: if_splits option.splits\<close>)
qed

interpretation guard: call_system "rep_step cfg" "\<lambda>_. True" guard_ok for cfg
  by unfold_locales (rule guard_step)

lemma genesis_guard:
  assumes "rep_genesis cfg env evs keys = Some st"
  shows "guard_ok st"
proof -
  have "guard_ok (empty_reputation cfg)"
    by (simp add: guard_ok_def empty_reputation_def bands_ok_def ENTRENCHMENT_REQUIRED_EPOCHS_def)
  with genesis_start [OF assms] show ?thesis by (blast intro: guard_ok_same)
qed

section \<open>The recompute\<close>

lemma position_nth:
  assumes "distinct xs" "i < length xs"
  shows "position xs (xs ! i) = Some i"
proof -
  have "takeWhile (\<lambda>x. x \<noteq> xs ! i) xs = take i xs"
    using assms by (auto intro!: takeWhile_eq_take_P_nth simp: nth_eq_iff_index_eq)
  with assms show ?thesis by (simp add: position_def Let_def)
qed

lemma position_None: "a \<notin> set xs \<Longrightarrow> position xs a = None"
proof -
  assume "a \<notin> set xs"
  then have "takeWhile (\<lambda>x. x \<noteq> a) xs = xs" by (auto simp: takeWhile_eq_all_conv)
  then show ?thesis by (simp only: position_def Let_def less_irrefl if_False)
qed

lemma inj_digits: "inj digits"
  by (metis injI option.inject parse_usize_digits)

lemma suit_reputation_values:
  assumes "distinct accounts"
  shows "map (suit_reputation env st accounts s) accounts
      = map (Some \<circ> snd) (reputation_dimension_fp (re_quantiser env) pallet_params (map dim_name all_suits) (rep_agents st accounts)
          (vouch_graph (\<lambda>a. map_option digits (position accounts a)) env st) (dim_name s))"
proof -
  let ?rep = "reputation_dimension_fp (re_quantiser env) pallet_params (map dim_name all_suits) (rep_agents st accounts)
          (vouch_graph (\<lambda>a. map_option digits (position accounts a)) env st) (dim_name s)"
  have keys: "map fst ?rep = map digits [0..<length accounts]"
    by (simp add: engine_answers_agents rep_agents_def comp_def)
  then have len: "length ?rep = length accounts" by (metis length_map length_upt minus_nat.diff_0)
  have d: "distinct (map fst ?rep)" unfolding keys by (simp add: distinct_map inj_on_subset [OF inj_digits])
  show ?thesis
  proof (rule nth_equalityI)
    fix i assume "i < length (map (suit_reputation env st accounts s) accounts)"
    then have i: "i < length accounts" by simp
    have "fst (?rep ! i) = map fst ?rep ! i" using i len by simp
    also have "... = digits i" unfolding keys using i by simp
    finally have "?rep ! i = (digits i, snd (?rep ! i))" by (metis prod.collapse)
    moreover have "?rep ! i \<in> set ?rep" using i len by simp
    ultimately have "map_of ?rep (digits i) = Some (snd (?rep ! i))" using d by (metis map_of_is_SomeI)
    then show "map (suit_reputation env st accounts s) accounts ! i = map (Some \<circ> snd) ?rep ! i"
      using i len by (simp add: suit_reputation_def position_nth [OF assms i])
  qed (simp add: len)
qed

text \<open>Who takes part: accounts with an evidence entry, with a list of vouches (even an empty one), or vouched for.\<close>

definition takes_part :: "'a reputation \<Rightarrow> 'a \<Rightarrow> bool" where
  "takes_part st a = (list_ex (\<lambda>s. rp_evidence st (a, s) \<noteq> None) all_suits \<or> rp_vouches st a \<noteq> None
     \<or> (\<exists>b t w. (a, t, w) \<in> set (edges_of st b)))"

definition finite_entries :: "'a reputation \<Rightarrow> bool" where
  "finite_entries st = (finite (dom (rp_evidence st)) \<and> finite (dom (rp_vouches st)))"

lemma set_vouchers: "order_lists (re_order env) \<Longrightarrow> finite_entries st \<Longrightarrow> set (vouchers env st) = dom (rp_vouches st)"
  by (simp add: vouchers_def order_lists_def finite_entries_def dom_def)

lemma set_participants:
  assumes "order_lists (re_order env)" "finite_entries st"
  shows "set (participants env st) = Collect (takes_part st)"
proof -
  have "{a. list_ex (\<lambda>s. rp_evidence st (a, s) \<noteq> None) all_suits} \<subseteq> fst ` dom (rp_evidence st)"
    by (force simp: list_ex_iff)
  then have "finite {a. list_ex (\<lambda>s. rp_evidence st (a, s) \<noteq> None) all_suits}"
    using assms(2) by (meson finite_entries_def finite_imageI finite_subset)
  then have e: "set (re_order env (\<lambda>a. list_ex (\<lambda>s. rp_evidence st (a, s) \<noteq> None) all_suits))
      = {a. list_ex (\<lambda>s. rp_evidence st (a, s) \<noteq> None) all_suits}"
    using assms(1) by (simp add: order_lists_def)
  have img: "fst ` set (edges_of st b) = {a. \<exists>t w. (a, t, w) \<in> set (edges_of st b)}" for b by force
  have entry: "(a, t, w) \<in> set (edges_of st b) \<Longrightarrow> b \<in> dom (rp_vouches st)" for a b t w
    by (cases "rp_vouches st b") (auto simp: edges_of_def)
  have "(\<Union>b\<in>dom (rp_vouches st). fst ` set (edges_of st b)) = {a. \<exists>b t w. (a, t, w) \<in> set (edges_of st b)}"
  proof (intro subset_antisym subsetI)
    fix a assume "a \<in> {a. \<exists>b t w. (a, t, w) \<in> set (edges_of st b)}"
    then obtain b t w where m: "(a, t, w) \<in> set (edges_of st b)" by (elim CollectE exE)
    show "a \<in> (\<Union>b\<in>dom (rp_vouches st). fst ` set (edges_of st b))"
      by (rule UN_I [OF entry [OF m]]) (rule image_eqI [OF _ m], simp)
  qed (auto simp: img)
  moreover have "(\<Union>b\<in>D. {b} \<union> A b) = D \<union> (\<Union>b\<in>D. A b)" for D :: "'a set" and A by auto
  ultimately have v: "(\<Union>b\<in>dom (rp_vouches st). {b} \<union> fst ` set (edges_of st b))
      = dom (rp_vouches st) \<union> {a. \<exists>b t w. (a, t, w) \<in> set (edges_of st b)}" by simp
  have "set (participants env st) = set (re_order env (\<lambda>a. list_ex (\<lambda>s. rp_evidence st (a, s) \<noteq> None) all_suits))
      \<union> (\<Union>b\<in>set (vouchers env st). {b} \<union> fst ` set (edges_of st b))"
    by (simp add: participants_def)
  then show ?thesis unfolding e set_vouchers [OF assms] v by (auto simp: takes_part_def)
qed

lemma recompute_some: "participants env st \<noteq> [] \<Longrightarrow> \<exists>report st'. recompute_reputation env st = (Some report, st')"
  by (simp add: recompute_reputation_def Let_def)

definition suit_mass :: "'a :: linorder rep_env \<Rightarrow> 'a reputation \<Rightarrow> 'a reputation \<Rightarrow> suit \<Rightarrow> int" where
  "suit_mass env st st' s = sum_list (map (\<lambda>a. snapshot_of st' a s) (participants env st))"


definition demo_chain_env :: "nat rep_env" where
  "demo_chain_env = demo_rep_env\<lparr>re_now := 10, re_order := (\<lambda>P. sorted_list_of_set {a. P a})\<rparr>"

lemma demo_chain_ok: "order_lists (re_order demo_chain_env)" "quantiser_ok (re_quantiser demo_chain_env)"
  by (simp_all add: order_lists_def demo_chain_env_def demo_rep_env_def demo_quantiser_ok)

lemma demo_pre_le: "sum_list (engine_pre demo_quantiser agents dim) \<le> FP_SCALE"
proof (cases "sum_list (map (\<lambda>(_, e). e dim) agents) = 0")
  case True
  then have "engine_pre demo_quantiser agents dim = map (\<lambda>_. 0) agents" by (simp add: engine_pre_def demo_quantiser_def split_def)
  then show ?thesis by (simp add: sum_list_triv)
next
  case False
  let ?s = "int (sum_list (map (\<lambda>(_, e). e dim) agents))"
  have pos: "0 < ?s" using False by (metis of_nat_0_less_iff neq0_conv)
  have "sum_list (engine_pre demo_quantiser agents dim) = sum_list (map (\<lambda>x. int (snd x dim) * FP_SCALE div ?s) agents)"
  proof -
    have "q_pre demo_quantiser es e = int e * FP_SCALE div int (sum_list es)" if "sum_list es \<noteq> 0" for es e
      using that by (simp add: demo_quantiser_def del: sum_list_eq_0_iff)
    from this [OF False] show ?thesis by (simp add: engine_pre_def split_def)
  qed
  also have "... \<le> sum_list (map (\<lambda>x. int (snd x dim) * FP_SCALE) agents) div ?s" by (rule sum_floors [OF pos]) simp
  also have "sum_list (map (\<lambda>x. int (snd x dim) * FP_SCALE) agents) = FP_SCALE * ?s"
    by (induction agents) (simp_all add: split_def algebra_simps)
  also have "FP_SCALE * ?s div ?s = FP_SCALE" using pos by (intro nonzero_mult_div_cancel_right) linarith
  finally show ?thesis .
qed


text \<open>
  Anyone can become a participant for good: revoking a vouch never given writes an empty list of vouches for the caller, no
  operation ever removes such an entry, and the recompute counts it.
\<close>

lemma vouches_kept:
  assumes "rp_vouches st a \<noteq> None" "rep_step cfg c st = Inr st'"
  shows "rp_vouches st' a \<noteq> None"
proof (cases c)
  case (Pair env call)
  show ?thesis
  proof (cases call)
    case Begin_rep_block
    then show ?thesis using assms on_initialize_same [of st cfg env] by (auto simp: Pair same_claims_def)
  next
    case (Set_vote_key who k sg)
    then have "set_vote_key env who k sg st = Inr st'" using assms(2) by (simp add: Pair)
    then show ?thesis by (rule set_vote_key_effect) (use assms(1) in simp)
  next
    case (Attest x b s n)
    then have "attest_evidence cfg x b s n st = Inr st'" using assms(2) by (simp add: Pair)
    then show ?thesis by (rule attest_effect) (use assms(1) in simp)
  next
    case (Vouch_for x b s w)
    then have "rp_vouch cfg env x b s w st = Inr st'" using assms(2) by (simp add: Pair)
    then show ?thesis by (rule vouch_effect) (use assms(1) in simp)
  next
    case Upgrade_runtime
    then show ?thesis using assms upgrade_effect [of env st] by (auto simp: Pair)
  next
    case (Verdict c s ids n d)
    then show ?thesis using assms rectify_same [of st cfg env c s ids n d] by (auto simp: Pair same_claims_def)
  next
    case (Report_fraud p c s n d)
    then show ?thesis using assms cascade_same [of st cfg env c s n d]
      by (auto simp: Pair report_fraud_def same_claims_def split: if_splits)
  qed (use assms in \<open>auto simp: Pair small_calls split: if_splits option.splits\<close>)
qed

interpretation entries: call_system "rep_step cfg" "\<lambda>_. True" "\<lambda>st. rp_vouches st a \<noteq> None" for cfg a
  by unfold_locales (rule vouches_kept)

lemma stranger_stays_participant:
  assumes "revoke_vouch a b s st = Inr st1"
  shows "takes_part (run_calls (rep_step cfg) cs st1) a"
proof -
  have "rp_vouches st1 a \<noteq> None" using assms by (auto simp: revoke_vouch_def)
  then have "rp_vouches (run_calls (rep_step cfg) cs st1) a \<noteq> None" by (rule entries.run_inv [rotated]) (simp add: list_all_iff)
  then show ?thesis by (simp add: takes_part_def)
qed

text \<open>
  C18: the freeze follows what was announced, and only that. After any history from genesis the counter is the number of last
  epochs in a row announced over the threshold (up to its width), finality is frozen exactly when they are at least
  seven, the recovery bands are at most eight, all but the last are closed, and the last is open exactly while frozen.
\<close>

theorem freeze_follows_the_log:
  assumes "rep_genesis cfg env evs keys = Some st0" "st = run_calls (rep_step cfg) cs st0"
  shows "rp_counter st = min u32_max (fst (over_run (0, False) (rp_log st)))
    \<and> rp_halted st = (7 \<le> fst (over_run (0, False) (rp_log st)))
    \<and> length (rp_bands st) \<le> 8 \<and> list_all (\<lambda>(_, cleared). cleared \<noteq> None) (butlast (rp_bands st))
    \<and> rp_halted st = (rp_bands st \<noteq> [] \<and> snd (last (rp_bands st)) = None)"
proof -
  have "guard_ok st" unfolding assms(2) by (rule guard.run_inv [OF _ genesis_guard [OF assms(1)]]) (simp add: list_all_iff)
  then show ?thesis by (simp add: guard_ok_def bands_ok_def MAX_BANDS_def ENTRENCHMENT_REQUIRED_EPOCHS_def)
qed

definition demo_block :: "(nat rep_env \<times> nat rep_call) list" where
  "demo_block = [(demo_rep_env\<lparr>re_now := 10\<rparr>, Begin_rep_block)]"

lemma demo_block_log: "rp_log (run_calls (rep_step demo_rep_config) demo_block demo_rep) = [EpochAdvanced 1 0 0]"
proof -
  define env where "env = demo_rep_env\<lparr>re_now := 10\<rparr>"
  have env: "re_now env = 10" "re_service env n = []" "re_order env P = filter P [1, 2, 3]" for n P
    by (simp_all add: env_def demo_rep_env_def)
  have cfg: "rc_epoch_length demo_rep_config = 10" "rc_service_rate demo_rep_config = 1" by (simp_all add: demo_rep_config_def)
  define st where "st = credit_service_evidence demo_rep_config env (decay_evidence demo_rep_config env demo_rep)"
  have st: "rp_evidence st = Map.empty" "rp_vouches st = Map.empty" "rp_snapshot st = Map.empty" "rp_log st = []"
    "rp_next_record st = 0" "rp_armed st = False" "rp_halted st = False" "rp_counter st = 0" "rp_epoch st = 0"
  proof -
    have eight: "(8 :: nat) = Suc (Suc 6)" by simp
    have "st = decay_evidence demo_rep_config env demo_rep\<lparr>rp_service_cursor := 1\<rparr>"
      unfolding st_def credit_service_evidence_def eight service_steps.simps
      by (simp add: cfg env credit_service_epoch_def decay_evidence_def demo_rep_def empty_reputation_def sat_add_def u64_max_def)
    then show "rp_evidence st = Map.empty" "rp_vouches st = Map.empty" "rp_snapshot st = Map.empty" "rp_log st = []"
      "rp_next_record st = 0" "rp_armed st = False" "rp_halted st = False" "rp_counter st = 0" "rp_epoch st = 0"
      by (simp_all add: decay_evidence_def demo_rep_def empty_reputation_def)
  qed
  have parts: "participants env st = []" by (simp add: participants_def vouchers_def env st all_suits_def)
  have rec: "recompute_reputation env st = (None, st)" by (simp add: recompute_reputation_def parts)
  let ?st3 = "st\<lparr>rp_report := Some no_report\<rparr>"
  have reps: "consensus_reputation env ?st3 = []" by (simp add: consensus_reputation_def env st all_suits_def)
  have sig: "cluster_signal env ?st3 [] = (0, False)"
    by (simp add: cluster_signal_def Let_def all_suits_def max_cluster_share_fp_def real_cluster_def)
  define g where "g = step_entrenchment_guard env [] ?st3"
  have "(0 :: int) < ENTRENCHMENT_THRESHOLD_FP" by (simp add: ENTRENCHMENT_THRESHOLD_FP_def FP_SCALE_def sdiv_pos)
  then have g: "rp_log g = []" "rp_next_record g = 0" "rp_epoch g = 0"
    by (simp_all add: g_def step_entrenchment_guard_def sig st Let_def max_single_entity_share_fp_def entrenchment_halt_step_def)
  have sweep: "sweep_dust_records demo_rep_config env (update_attest_floor [] g) = update_attest_floor [] g"
    by (simp add: sweep_dust_records_def update_attest_floor_def g)
  have "rp_log (rep_run_epoch demo_rep_config env demo_rep) = [EpochAdvanced 1 0 0]"
    unfolding rep_run_epoch_def st_def [symmetric] Let_def rec prod.case option.case reps g_def [symmetric] sweep
    by (simp add: update_attest_floor_def g no_report_def sat_add_def u64_max_def)
  then show ?thesis
    by (simp add: demo_block_def env_def [symmetric] rep_on_initialize_def env cfg)
qed

theorem freeze_follows_the_log_witness:
  "\<not> rp_halted (run_calls (rep_step demo_rep_config) demo_block demo_rep)
   \<and> rp_counter (run_calls (rep_step demo_rep_config) demo_block demo_rep) = 0"
  using freeze_follows_the_log [OF demo_rep_genesis refl, of demo_block] by (simp add: demo_block_log)

end
