(* ===== verification/FinalityVotes.thy ===== *)
theory FinalityVotes
imports SignedMessages Snowball
begin

text \<open>
  Votes and proofs of the node's finality gadget, \<open>chain/node/src/finality.rs\<close>: the wire layout of a vote, the
  message it signs, the delegation of a cold account to a hot key, the proof a decision carries and its
  verification. Byte arrays are lists; sr25519 verification is the parameter \<open>verify signer signature message\<close>.
  A \<open>BTreeMap\<close> whose order matters is a list sorted by key. What the cargo feature \<open>mainnet\<close> selects is a record with
  its two values.
\<close>

section \<open>Build constants\<close>

record build =
  bd_flavor :: byte
  bd_beta :: nat
  bd_step :: nat
  bd_burial :: nat
  bd_tau :: nat
  bd_epoch :: nat
  bd_cutoff :: nat

definition mainnet :: build where
  "mainnet = \<lparr>bd_flavor = 1, bd_beta = 12, bd_step = 15, bd_burial = 32, bd_tau = 60, bd_epoch = 300, bd_cutoff = 0\<rparr>"

definition testnet :: build where
  "testnet = \<lparr>bd_flavor = 0, bd_beta = 4, bd_step = 8, bd_burial = 15, bd_tau = 4, bd_epoch = 10, bd_cutoff = 0\<rparr>"

section \<open>Votes\<close>

record vote =
  vt_height :: nat
  vt_hash :: "byte list"
  vt_signer :: key
  vt_sig :: "byte list"

definition VOTE_LEN :: nat where "VOTE_LEN = 8 + 32 + 32 + 64"

definition sign_message :: "build \<Rightarrow> byte list \<Rightarrow> nat \<Rightarrow> byte list \<Rightarrow> byte list" where
  "sign_message bd genesis height hsh = VOTE_DOMAIN_V2 @ [bd_flavor bd] @ genesis @ to_le64 height @ hsh"

definition legacy_sign_message :: "nat \<Rightarrow> byte list \<Rightarrow> byte list" where
  "legacy_sign_message height hsh = to_le64 height @ hsh"

definition vote_encode :: "vote \<Rightarrow> byte list" where
  "vote_encode v = to_le64 (vt_height v) @ vt_hash v @ vt_signer v @ vt_sig v"

definition vote_decode :: "byte list \<Rightarrow> vote option" where
  "vote_decode d =
     (if length d \<noteq> VOTE_LEN then None
      else Some \<lparr>vt_height = le_value (take 8 d), vt_hash = take 32 (drop 8 d), vt_signer = take 32 (drop 40 d),
                 vt_sig = take 64 (drop 72 d)\<rparr>)"

type_synonym verifier = "key \<Rightarrow> byte list \<Rightarrow> byte list \<Rightarrow> bool"

definition verify_sig :: "build \<Rightarrow> verifier \<Rightarrow> byte list \<Rightarrow> vote \<Rightarrow> bool" where
  "verify_sig bd verify genesis v =
     (if verify (vt_signer v) (vt_sig v) (sign_message bd genesis (vt_height v) (vt_hash v)) then True
      else vt_height v \<le> bd_cutoff bd
        \<and> verify (vt_signer v) (vt_sig v) (legacy_sign_message (vt_height v) (vt_hash v)))"

section \<open>Delegation\<close>

definition resolve_voter :: "key \<Rightarrow> (key \<rightharpoonup> key) \<Rightarrow> key" where
  "resolve_voter signer delegation = (case delegation signer of Some acc \<Rightarrow> acc | None \<Rightarrow> signer)"

section \<open>Proofs\<close>

definition PROOF_HEADER :: nat where "PROOF_HEADER = 8 + 32 + 2"
definition PROOF_VOTE :: nat where "PROOF_VOTE = 32 + 64"
definition u16_max :: nat where "u16_max = 2 ^ 16 - 1"

definition to_le16 :: "nat \<Rightarrow> byte list" where
  "to_le16 n = map (\<lambda>i. ucast (drop_bit (8 * i) (of_nat n :: 16 word))) [0..<2]"

text \<open>The votes of the map in key order.\<close>

definition encode_proof :: "nat \<Rightarrow> byte list \<Rightarrow> (key \<times> vote) list \<Rightarrow> byte list" where
  "encode_proof height hsh votes =
     (let selected = filter (\<lambda>v. vt_height v = height \<and> vt_hash v = hsh) (map snd votes);
          count = min (length selected) u16_max
      in to_le64 height @ hsh @ to_le16 count @ concat (map (\<lambda>v. vt_signer v @ vt_sig v) (take count selected)))"

datatype proof_error =
    ProofTooShort
  | HeightMismatch
  | HashMismatch
  | ProofLengthMismatch
  | EmptyCommittee
  | InsufficientSignatures

text \<open>The wall: \<open>ceil (0.70 k)\<close>, at least a strict majority.\<close>

definition quorum_wall :: "nat \<Rightarrow> nat" where
  "quorum_wall k = max ((k * 7 + 9) div 10) (k div 2 + 1)"

definition verify_proof ::
  "build \<Rightarrow> verifier \<Rightarrow> byte list \<Rightarrow> byte list \<Rightarrow> nat \<Rightarrow> byte list \<Rightarrow> key set \<Rightarrow> (key \<rightharpoonup> key) \<Rightarrow> proof_error + unit" where
  "verify_proof bd verify genesis hsh number pf committee delegation =
     (if length pf < PROOF_HEADER then Inl ProofTooShort
      else let p_height = le_value (take 8 pf); p_hash = take 32 (drop 8 pf); count = le_value (take 2 (drop 40 pf))
      in if p_height \<noteq> number then Inl HeightMismatch
      else if p_hash \<noteq> hsh then Inl HashMismatch
      else if length pf \<noteq> PROOF_HEADER + count * PROOF_VOTE then Inl ProofLengthMismatch
      else let k = card committee
      in if k = 0 then Inl EmptyCommittee
      else let alpha = quorum_wall k;
               msg_v2 = sign_message bd genesis p_height p_hash;
               msg_legacy = (if p_height \<le> bd_cutoff bd then Some (legacy_sign_message p_height p_hash) else None);
               seen = foldl (\<lambda>seen i.
                 let off = PROOF_HEADER + i * PROOF_VOTE;
                     signer = take 32 (drop off pf);
                     sig = take 64 (drop (off + 32) pf);
                     account = resolve_voter signer delegation
                 in if account \<notin> committee then seen
                    else if \<not> (verify signer sig msg_v2
                            \<or> (case msg_legacy of Some m \<Rightarrow> verify signer sig m | None \<Rightarrow> False)) then seen
                    else insert account seen) {} [0..<count]
      in if alpha \<le> card seen then Inr () else Inl InsufficientSignatures)"

definition proof_header :: "byte list \<Rightarrow> (nat \<times> byte list) option" where
  "proof_header pf =
     (if length pf < PROOF_HEADER then None else Some (le_value (take 8 pf), take 32 (drop 8 pf)))"

lemmas wire_sizes = VOTE_LEN_def PROOF_HEADER_def PROOF_VOTE_def u16_max_def

section \<open>Wire layouts\<close>

definition vote_typed :: "vote \<Rightarrow> bool" where
  "vote_typed v = (vt_height v < 2 ^ 64 \<and> length (vt_hash v) = 32 \<and> length (vt_signer v) = 32 \<and> length (vt_sig v) = 64)"

lemma le_value_bound: "le_value xs < 256 ^ length xs"
proof (induction xs)
  case (Cons x xs)
  have "unat x < 256" using unsigned_less [of x] by simp
  with Cons show ?case by simp
qed simp

lemma le_value_le16: "n < 2 ^ 16 \<Longrightarrow> le_value (to_le16 n) = n"
  using le_value_bytes [of "of_nat n :: 16 word" 2] by (simp add: to_le16_def unat_of_nat)

lemma length_to_le16 [simp]: "length (to_le16 n) = 2"
  by (simp add: to_le16_def)

lemma length_to_le64 [simp]: "length (to_le64 n) = 8"
  by (rule label_lengths)

lemma vote_decode_typed: "vote_decode d = Some v \<Longrightarrow> vote_typed v"
  using le_value_bound [of "take 8 d"] by (auto simp: vote_decode_def vote_typed_def wire_sizes split: if_splits)

lemma vote_decode_encode: "vote_typed v \<Longrightarrow> vote_decode (vote_encode v) = Some v"
  by (simp add: vote_typed_def vote_decode_def vote_encode_def wire_sizes le_value_le64)

section \<open>What a proof proves\<close>

definition proof_votes :: "byte list \<Rightarrow> (key \<times> byte list) list" where
  "proof_votes pf = map (\<lambda>i. (take 32 (drop (PROOF_HEADER + i * PROOF_VOTE) pf),
     take 64 (drop (PROOF_HEADER + i * PROOF_VOTE + 32) pf))) [0..<le_value (take 2 (drop 40 pf))]"

text \<open>The committee members for whom one of the signatures was made, over this height and hash.\<close>

definition backers ::
  "build \<Rightarrow> verifier \<Rightarrow> byte list \<Rightarrow> byte list \<Rightarrow> nat \<Rightarrow> (key \<times> byte list) list \<Rightarrow> key set \<Rightarrow> (key \<rightharpoonup> key) \<Rightarrow> key set" where
  "backers bd verify genesis hsh number vs committee delegation =
     {resolve_voter s delegation | s g. (s, g) \<in> set vs \<and> resolve_voter s delegation \<in> committee
        \<and> verify_sig bd verify genesis \<lparr>vt_height = number, vt_hash = hsh, vt_signer = s, vt_sig = g\<rparr>}"

lemma image_pairs: "{f s | s g. (s, g) \<in> (\<lambda>i. (p i, q i)) ` I \<and> f s \<in> C \<and> ok s g}
    = {f (p i) | i. i \<in> I \<and> f (p i) \<in> C \<and> ok (p i) (q i)}" (is "?A = ?B")
proof (intro set_eqI iffI)
  fix x assume "x \<in> ?A"
  then obtain s g where x: "x = f s" "(s, g) \<in> (\<lambda>i. (p i, q i)) ` I" "f s \<in> C" "ok s g" by (elim CollectE exE conjE)
  from x(2) obtain i where "i \<in> I" "s = p i" "g = q i" by (elim imageE) simp
  with x show "x \<in> ?B" by (intro CollectI exI [of _ i]) simp
next
  fix x assume "x \<in> ?B"
  then obtain i where x: "x = f (p i)" "i \<in> I" "f (p i) \<in> C" "ok (p i) (q i)" by (elim CollectE exE conjE)
  from x(2) have "(p i, q i) \<in> (\<lambda>i. (p i, q i)) ` I" by (rule imageI)
  with x show "x \<in> ?A" by blast
qed

lemma seen_loop:
  "foldl (\<lambda>seen i. if f i \<notin> C then seen else if \<not> ok i then seen else insert (f i) seen) A xs
    = A \<union> {f i | i. i \<in> set xs \<and> f i \<in> C \<and> ok i}"
  by (induction xs arbitrary: A) auto

lemma verify_proof_iff:
  "verify_proof bd verify genesis hsh number pf committee delegation = Inr () \<longleftrightarrow>
     PROOF_HEADER \<le> length pf \<and> le_value (take 8 pf) = number \<and> take 32 (drop 8 pf) = hsh
     \<and> length pf = PROOF_HEADER + le_value (take 2 (drop 40 pf)) * PROOF_VOTE \<and> card committee \<noteq> 0
     \<and> quorum_wall (card committee) \<le> card (backers bd verify genesis hsh number (proof_votes pf) committee delegation)"
proof -
  let ?count = "le_value (take 2 (drop 40 pf))"
  let ?off = "\<lambda>i. PROOF_HEADER + i * PROOF_VOTE"
  let ?s = "\<lambda>i. take 32 (drop (?off i) pf)" and ?g = "\<lambda>i. take 64 (drop (?off i + 32) pf)"
  let ?acc = "\<lambda>i. resolve_voter (?s i) delegation"
  define ok where "ok = (\<lambda>n h i. verify (?s i) (?g i) (sign_message bd genesis n h)
      \<or> (case if n \<le> bd_cutoff bd then Some (legacy_sign_message n h) else None of
          Some m \<Rightarrow> verify (?s i) (?g i) m | None \<Rightarrow> False))"
  define loop where "loop = (\<lambda>n h. foldl (\<lambda>seen i. if ?acc i \<notin> committee then seen else if \<not> ok n h i then seen
      else insert (?acc i) seen) {} [0..<?count])"
  have ok: "ok number hsh i \<longleftrightarrow> verify_sig bd verify genesis \<lparr>vt_height = number, vt_hash = hsh, vt_signer = ?s i, vt_sig = ?g i\<rparr>" for i
    by (simp add: ok_def verify_sig_def)
  have loop: "loop number hsh = backers bd verify genesis hsh number (proof_votes pf) committee delegation"
    unfolding loop_def seen_loop ok unfolding backers_def proof_votes_def set_map image_pairs by simp
  have "verify_proof bd verify genesis hsh number pf committee delegation =
     (if length pf < PROOF_HEADER then Inl ProofTooShort
      else if le_value (take 8 pf) \<noteq> number then Inl HeightMismatch
      else if take 32 (drop 8 pf) \<noteq> hsh then Inl HashMismatch
      else if length pf \<noteq> PROOF_HEADER + ?count * PROOF_VOTE then Inl ProofLengthMismatch
      else if card committee = 0 then Inl EmptyCommittee
      else if quorum_wall (card committee) \<le> card (loop (le_value (take 8 pf)) (take 32 (drop 8 pf)))
      then Inr () else Inl InsufficientSignatures)"
    unfolding verify_proof_def Let_def loop_def ok_def by (rule refl)
  moreover have "(if a then Inl e1 else if b \<noteq> number then Inl e2 else if c \<noteq> hsh then Inl e3 else if d then Inl e4
      else if e then Inl e5 else if w \<le> card (L b c) then Inr () else Inl e6) = (Inr () :: proof_error + unit)
    \<longleftrightarrow> \<not> a \<and> b = number \<and> c = hsh \<and> \<not> d \<and> \<not> e \<and> w \<le> card (L number hsh)"
    for a b c d e e1 e2 e3 e4 e5 e6 w and L :: "nat \<Rightarrow> byte list \<Rightarrow> key set" by auto
  ultimately show ?thesis by (simp only: loop not_less not_not)
qed

lemma backers_committee: "backers bd verify genesis hsh number vs committee delegation \<subseteq> committee"
  by (auto simp: backers_def)

text \<open>Two quorums of the wall share two fifths of the committee.\<close>

lemma walls_overlap:
  assumes "finite C" "A \<subseteq> C" "B \<subseteq> C" "quorum_wall (card C) \<le> card A" "quorum_wall (card C) \<le> card B"
  shows "2 * card C \<le> 5 * card (A \<inter> B)" "0 < card (A \<inter> B)"
proof -
  have fin: "finite A" "finite B" using assms by (auto intro: finite_subset)
  have "card (A \<union> B) \<le> card C" using assms by (intro card_mono) auto
  moreover have "card A + card B = card (A \<union> B) + card (A \<inter> B)" using fin by (rule card_Un_Int)
  moreover have "card C * 7 + 9 < 10 * quorum_wall (card C) + 10" "card C + 1 \<le> 2 * quorum_wall (card C)"
    "card C * 7 \<le> 10 * quorum_wall (card C)"
    by (auto simp: quorum_wall_def max_def)
  ultimately show "2 * card C \<le> 5 * card (A \<inter> B)" "0 < card (A \<inter> B)" using assms(4,5) by linarith+
qed

lemma quorum_wall_pos [simp]: "0 < quorum_wall k"
  by (simp add: quorum_wall_def)

lemma sign_message_inj:
  "length h1 = length h2 \<Longrightarrow> h1 \<noteq> h2 \<Longrightarrow> sign_message bd genesis n h1 \<noteq> sign_message bd genesis n h2"
  by (simp add: sign_message_def)

section \<open>A proof read back\<close>

lemma concat_blocks:
  assumes "\<forall>b\<in>set bs. length b = n" "i < length bs"
  shows "take n (drop (i * n) (concat bs)) = bs ! i"
  using assms
proof (induction bs arbitrary: i)
  case (Cons b bs)
  then show ?case by (cases i) simp_all
qed simp

lemma concat_blocks_length: "\<forall>b\<in>set bs. length b = n \<Longrightarrow> length (concat bs) = length bs * n"
  by (induction bs) simp_all

definition selected_votes :: "nat \<Rightarrow> byte list \<Rightarrow> (key \<times> vote) list \<Rightarrow> vote list" where
  "selected_votes height hsh votes = filter (\<lambda>v. vt_height v = height \<and> vt_hash v = hsh) (map snd votes)"

lemma encode_proof_parts:
  assumes "height < 2 ^ 64" "length hsh = 32" "length votes < 2 ^ 16" "\<forall>(a, v)\<in>set votes. vote_typed v"
  defines "pf \<equiv> encode_proof height hsh votes" and "sel \<equiv> selected_votes height hsh votes"
  shows "le_value (take 8 pf) = height" "take 32 (drop 8 pf) = hsh" "le_value (take 2 (drop 40 pf)) = length sel"
    "length pf = PROOF_HEADER + length sel * PROOF_VOTE" "proof_votes pf = map (\<lambda>v. (vt_signer v, vt_sig v)) sel"
proof -
  have "length sel \<le> length votes" using length_filter_le [of _ "map snd votes"] by (simp add: sel_def selected_votes_def)
  with assms(3) have n: "length sel < 2 ^ 16" "min (length sel) u16_max = length sel" by (auto simp: u16_max_def)
  let ?bs = "map (\<lambda>v. vt_signer v @ vt_sig v) sel"
  have pf: "pf = to_le64 height @ hsh @ to_le16 (length sel) @ concat ?bs"
    using n by (simp add: pf_def encode_proof_def Let_def sel_def [unfolded selected_votes_def, symmetric])
  have typed: "vote_typed v" if "v \<in> set sel" for v using that assms(4) by (auto simp: sel_def selected_votes_def)
  then have len: "\<forall>b\<in>set ?bs. length b = PROOF_VOTE" by (auto simp: vote_typed_def PROOF_VOTE_def)
  show h: "le_value (take 8 pf) = height" "take 32 (drop 8 pf) = hsh" "le_value (take 2 (drop 40 pf)) = length sel"
    using assms(1,2) n(1) by (simp_all add: pf le_value_le64 le_value_le16)
  show "length pf = PROOF_HEADER + length sel * PROOF_VOTE"
    using assms(2) concat_blocks_length [OF len] by (simp add: pf wire_sizes)
  have tail: "drop PROOF_HEADER pf = concat ?bs" using assms(2) by (simp add: pf PROOF_HEADER_def)
  have "(take 32 (drop (PROOF_HEADER + i * PROOF_VOTE) pf), take 64 (drop (PROOF_HEADER + i * PROOF_VOTE + 32) pf))
      = (vt_signer (sel ! i), vt_sig (sel ! i))" if i: "i < length sel" for i
  proof -
    have b: "take PROOF_VOTE (drop (i * PROOF_VOTE) (drop PROOF_HEADER pf)) = vt_signer (sel ! i) @ vt_sig (sel ! i)"
      using concat_blocks [OF len, of i] i by (simp add: tail)
    have t: "length (vt_signer (sel ! i)) = 32" "length (vt_sig (sel ! i)) = 64"
      using typed [of "sel ! i"] i by (simp_all add: vote_typed_def)
    have "take 32 (drop (PROOF_HEADER + i * PROOF_VOTE) pf)
        = take 32 (take PROOF_VOTE (drop (i * PROOF_VOTE) (drop PROOF_HEADER pf)))"
      by (simp add: PROOF_VOTE_def add.commute)
    moreover have "take 64 (drop (PROOF_HEADER + i * PROOF_VOTE + 32) pf)
        = drop 32 (take PROOF_VOTE (drop (i * PROOF_VOTE) (drop PROOF_HEADER pf)))"
      by (simp add: PROOF_VOTE_def drop_take add.commute add.left_commute)
    ultimately show ?thesis unfolding b using t by simp
  qed
  then show "proof_votes pf = map (\<lambda>v. (vt_signer v, vt_sig v)) sel"
    unfolding proof_votes_def h(3) by (intro nth_equalityI) simp_all
qed

text \<open>Who backs the hash among the votes held.\<close>

lemma backers_selected:
  "backers bd verify genesis hsh height (map (\<lambda>v. (vt_signer v, vt_sig v)) (selected_votes height hsh votes)) committee delegation
    = {resolve_voter (vt_signer v) delegation | a v. (a, v) \<in> set votes \<and> vt_height v = height \<and> vt_hash v = hsh
        \<and> resolve_voter (vt_signer v) delegation \<in> committee \<and> verify_sig bd verify genesis v}"
proof -
  have "set (selected_votes height hsh votes) = {v. \<exists>a. (a, v) \<in> set votes \<and> vt_height v = height \<and> vt_hash v = hsh}"
    unfolding selected_votes_def by force
  then have "v \<in> set (selected_votes height hsh votes)
      \<and> P \<and> verify_sig bd verify genesis \<lparr>vt_height = height, vt_hash = hsh, vt_signer = vt_signer v, vt_sig = vt_sig v\<rparr>
    \<longleftrightarrow> (\<exists>a. (a, v) \<in> set votes \<and> vt_height v = height \<and> vt_hash v = hsh \<and> P \<and> verify_sig bd verify genesis v)" for v P
    by (cases v) auto
  then have "(\<exists>v. x = resolve_voter (vt_signer v) delegation \<and> v \<in> set (selected_votes height hsh votes)
      \<and> resolve_voter (vt_signer v) delegation \<in> committee
      \<and> verify_sig bd verify genesis \<lparr>vt_height = height, vt_hash = hsh, vt_signer = vt_signer v, vt_sig = vt_sig v\<rparr>)
    \<longleftrightarrow> (\<exists>a v. x = resolve_voter (vt_signer v) delegation \<and> (a, v) \<in> set votes \<and> vt_height v = height
      \<and> vt_hash v = hsh \<and> resolve_voter (vt_signer v) delegation \<in> committee \<and> verify_sig bd verify genesis v)" for x
    by blast
  then show ?thesis unfolding backers_def set_map image_pairs by (intro Collect_cong)
qed

lemma own_proof_verifies:
  assumes "height < 2 ^ 64" "length hsh = 32" "length votes < 2 ^ 16" "\<forall>(a, v)\<in>set votes. vote_typed v"
  shows "verify_proof bd verify genesis hsh height (encode_proof height hsh votes) committee delegation = Inr () \<longleftrightarrow>
    card committee \<noteq> 0 \<and> quorum_wall (card committee) \<le> card {resolve_voter (vt_signer v) delegation | a v.
      (a, v) \<in> set votes \<and> vt_height v = height \<and> vt_hash v = hsh
        \<and> resolve_voter (vt_signer v) delegation \<in> committee \<and> verify_sig bd verify genesis v}"
  unfolding verify_proof_iff using encode_proof_parts [OF assms] by (simp add: backers_selected)

end
