(* ===== verification/FinalityChain.thy ===== *)
theory FinalityChain
imports FinalityVotes
begin

text \<open>
  What the finality gadget reads of the chain (\<open>chain/node/src/finality.rs\<close>): the target block, the block an
  epoch is read at, the committee and the delegation there, the healthy boundary past a frozen band, and the proofs a
  starting node asks for. \<open>node_client\<close> is the node's view of its best chain at one moment (its \<open>client\<close>);
  \<open>chain_api\<close> the runtime API, whose answer at a block hash never changes. \<open>None\<close> is a call's error.
\<close>

record node_client =
  ci_best :: nat
  ci_best_hash :: "byte list"
  ci_finalized :: nat
  ci_finalized_hash :: "byte list"
  ci_hash :: "nat \<Rightarrow> byte list option"
  ci_justification :: "byte list \<Rightarrow> byte list option"

record chain_api =
  api_reputation :: "byte list \<Rightarrow> (key \<times> int) list option"
  api_halted :: "byte list \<Rightarrow> bool option"
  api_committed :: "byte list \<Rightarrow> (key \<times> string) list option"
  api_seed :: "byte list \<Rightarrow> byte list option"
  api_vote_keys :: "byte list \<Rightarrow> (key \<times> key) list option"
  api_version :: "byte list \<Rightarrow> nat option"

definition zero_hash :: "byte list" where "zero_hash = replicate 32 0"

definition target_hash :: "node_client \<Rightarrow> nat \<Rightarrow> (byte list \<times> bool) option" where
  "target_hash cl height =
     (if ci_best cl < height then Some (zero_hash, False)
      else case ci_hash cl height of Some h \<Rightarrow> Some (h, True) | None \<Rightarrow> Some (zero_hash, False))"

definition epoch_of :: "build \<Rightarrow> nat \<Rightarrow> nat" where
  "epoch_of bd height = height div bd_epoch bd"

definition epoch_pinned_at :: "build \<Rightarrow> node_client \<Rightarrow> nat \<Rightarrow> byte list" where
  "epoch_pinned_at bd cl height =
     (case ci_hash cl (epoch_of bd height * bd_epoch bd) of Some h \<Rightarrow> h | None \<Rightarrow> ci_best_hash cl)"

definition COMMITTEE_SEED :: string where "COMMITTEE_SEED = FINALITY_COMMITTEE_SEED"

text \<open>\<open>unwrap_or\<close>, and \<open>unwrap_or_else\<close> with a closure that only logs.\<close>

definition unwrap_or :: "'a \<Rightarrow> 'a option \<Rightarrow> 'a" where
  "unwrap_or d r = (case r of Some x \<Rightarrow> x | None \<Rightarrow> d)"

definition committee_for_height :: "build \<Rightarrow> chain_api \<Rightarrow> nat \<Rightarrow> byte list \<Rightarrow> key set" where
  "committee_for_height bd net height at =
     (let onchain = unwrap_or [] (api_reputation net at);
          halted = unwrap_or False (api_halted net at);
          committed = unwrap_or [] (api_committed net at);
          beacon_seed = unwrap_or zero_hash (api_seed net at);
          bound = unwrap_or [] (map_option (map fst) (api_vote_keys net at))
      in elect_finality_committee onchain bound committed beacon_seed (epoch_of bd height) (bd_tau bd) COMMITTEE_SEED halted)"

text \<open>The last entry of a hot key wins, as in the collected \<open>BTreeMap\<close>.\<close>

definition vote_keys_rev_for_height :: "chain_api \<Rightarrow> byte list \<Rightarrow> (key \<rightharpoonup> key)" where
  "vote_keys_rev_for_height net at =
     map_of (rev (map (\<lambda>(account, session). (session, account)) (unwrap_or [] (api_vote_keys net at))))"

section \<open>The healthy boundary\<close>

definition healthy_boundary :: "build \<Rightarrow> chain_api \<Rightarrow> node_client \<Rightarrow> nat \<Rightarrow> bool" where
  "healthy_boundary bd net cl h =
     (let at = epoch_pinned_at bd cl h; halted = unwrap_or True (api_halted net at)
      in \<not> halted \<and> committee_for_height bd net h at \<noteq> {})"

text \<open>The loop from \<open>h\<close>; the outer \<open>None\<close> is a loop that does not return.\<close>

partial_function (option) boundary_loop ::
  "build \<Rightarrow> chain_api \<Rightarrow> node_client \<Rightarrow> nat \<Rightarrow> nat option option" where
  "boundary_loop bd net cl h =
     (if sat_add u32_max h (bd_burial bd) \<le> ci_best cl then
        if healthy_boundary bd net cl h then Some (Some h)
        else case checked_add u32_max h (bd_step bd) of
               None \<Rightarrow> Some None
             | Some h' \<Rightarrow> boundary_loop bd net cl h'
      else Some None)"

definition first_healthy_boundary_after :: "build \<Rightarrow> chain_api \<Rightarrow> node_client \<Rightarrow> nat \<Rightarrow> nat option option" where
  "first_healthy_boundary_after bd net cl from0 =
     (case checked_add u32_max from0 (bd_step bd) of
        None \<Rightarrow> Some None
      | Some h \<Rightarrow> boundary_loop bd net cl h)"

section \<open>Catch-up requests\<close>

definition MAX_CATCHUP_TARGETS :: nat where "MAX_CATCHUP_TARGETS = 8"

partial_function (option) catchup_loop ::
  "build \<Rightarrow> node_client \<Rightarrow> nat \<Rightarrow> (byte list \<times> nat) list \<Rightarrow> (byte list \<times> nat) list option" where
  "catchup_loop bd cl height wanted =
     (if height \<le> ci_best cl \<and> length wanted < MAX_CATCHUP_TARGETS then
        let wanted' = (case ci_hash cl height of Some h \<Rightarrow> wanted @ [(h, height)] | None \<Rightarrow> wanted)
        in catchup_loop bd cl (sat_add u32_max height (bd_step bd)) wanted'
      else Some wanted)"

definition on_start :: "build \<Rightarrow> node_client \<Rightarrow> (byte list \<times> nat) list option" where
  "on_start bd cl =
     (if ci_best cl \<le> ci_finalized cl then Some []
      else catchup_loop bd cl (sat_add u32_max (ci_finalized cl) (bd_step bd)) [])"

section \<open>The boundary search returns the first healthy boundary\<close>

definition candidate :: "build \<Rightarrow> nat \<Rightarrow> nat \<Rightarrow> nat" where
  "candidate bd h k = h + k * bd_step bd"

lemma candidate_mono: "j \<le> k \<Longrightarrow> candidate bd h j \<le> candidate bd h k"
  by (simp add: candidate_def)

lemma boundary_loop_Some:
  assumes "healthy_boundary bd net cl (candidate bd h k)" "\<forall>j<k. \<not> healthy_boundary bd net cl (candidate bd h j)"
    "candidate bd h k + bd_burial bd \<le> ci_best cl" "ci_best cl < u32_max"
  shows "boundary_loop bd net cl h = Some (Some (candidate bd h k))"
  using assms(1,2,3)
proof (induction k arbitrary: h)
  case 0
  with assms(4) show ?case by (subst boundary_loop.simps) (simp add: candidate_def sat_add_def)
next
  case (Suc k)
  have shift: "candidate bd (h + bd_step bd) j = candidate bd h (Suc j)" for j by (simp add: candidate_def)
  have "\<not> healthy_boundary bd net cl h" using Suc.prems(2) [rule_format, of 0] by (simp add: candidate_def)
  moreover have "h + bd_burial bd \<le> ci_best cl" "h + bd_step bd \<le> u32_max" using Suc.prems(3) assms(4) by (simp_all add: candidate_def)
  moreover have "boundary_loop bd net cl (h + bd_step bd) = Some (Some (candidate bd (h + bd_step bd) k))"
    by (rule Suc.IH) (use Suc.prems in \<open>auto simp: shift\<close>)
  ultimately show ?case using assms(4)
    by (subst boundary_loop.simps) (simp add: shift sat_add_def checked_add_def)
qed

lemma boundary_loop_None:
  assumes "0 < bd_step bd" "ci_best cl < u32_max"
    "\<forall>k. candidate bd h k + bd_burial bd \<le> ci_best cl \<longrightarrow> \<not> healthy_boundary bd net cl (candidate bd h k)"
  shows "boundary_loop bd net cl h = Some None"
  using assms(3)
proof (induction "Suc (ci_best cl) - h" arbitrary: h rule: less_induct)
  case less
  have shift: "candidate bd (h + bd_step bd) j = candidate bd h (Suc j)" for j by (simp add: candidate_def)
  show ?case
  proof (cases "h + bd_burial bd \<le> ci_best cl")
    case True
    with less.prems [rule_format, of 0] have "\<not> healthy_boundary bd net cl h" by (simp add: candidate_def)
    moreover have "boundary_loop bd net cl (h + bd_step bd) = Some None"
      by (rule less.hyps) (use True assms(1) less.prems shift in auto)
    ultimately show ?thesis using True assms(2)
      by (subst boundary_loop.simps) (simp add: sat_add_def checked_add_def)
  next
    case False
    then show ?thesis using assms(2) by (subst boundary_loop.simps) (auto simp: sat_add_def min_le_iff_disj)
  qed
qed

lemma boundary_loop_first:
  assumes "0 < bd_step bd" "ci_best cl < u32_max"
  shows "boundary_loop bd net cl h = Some (if \<exists>k. candidate bd h k + bd_burial bd \<le> ci_best cl
        \<and> healthy_boundary bd net cl (candidate bd h k)
      then Some (candidate bd h (LEAST k. healthy_boundary bd net cl (candidate bd h k))) else None)"
proof (cases "\<exists>k. candidate bd h k + bd_burial bd \<le> ci_best cl \<and> healthy_boundary bd net cl (candidate bd h k)")
  case True
  then obtain k where k: "candidate bd h k + bd_burial bd \<le> ci_best cl" "healthy_boundary bd net cl (candidate bd h k)" by blast
  let ?m = "LEAST k. healthy_boundary bd net cl (candidate bd h k)"
  have "?m \<le> k" using k(2) by (rule Least_le)
  then have "candidate bd h ?m \<le> candidate bd h k" by (rule candidate_mono)
  then have b: "candidate bd h ?m + bd_burial bd \<le> ci_best cl" using k(1) by linarith
  have h: "healthy_boundary bd net cl (candidate bd h ?m)" using k(2) by (rule LeastI)
  have "\<forall>j<?m. \<not> healthy_boundary bd net cl (candidate bd h j)" using not_less_Least by blast
  from boundary_loop_Some [OF h this b assms(2)] True show ?thesis by (simp only: if_True)
next
  case False
  then have "boundary_loop bd net cl h = Some None" by (intro boundary_loop_None [OF assms]) blast
  with False show ?thesis by (simp only: if_False)
qed

lemma healthy_boundary_agree:
  assumes "\<forall>n\<le>b. ci_hash c1 n = ci_hash c2 n \<and> ci_hash c1 n \<noteq> None" "h \<le> b"
  shows "healthy_boundary bd net c1 h = healthy_boundary bd net c2 h"
proof -
  have "epoch_of bd h * bd_epoch bd \<le> b" using assms(2) by (simp add: epoch_of_def le_trans [OF div_times_less_eq_dividend])
  with assms(1) have "epoch_pinned_at bd c1 h = epoch_pinned_at bd c2 h"
    by (auto simp: epoch_pinned_at_def split: option.split)
  then show ?thesis by (simp add: healthy_boundary_def)
qed

section \<open>The proofs a starting node asks for\<close>

lemma catchup_loop_spec:
  assumes "0 < bd_step bd" "ci_best cl < u32_max" "\<forall>n\<le>ci_best cl. ci_hash cl n \<noteq> None"
    "length wanted \<le> 8" "height = f + Suc (length wanted) * bd_step bd"
    "length wanted \<le> (ci_best cl - f) div bd_step bd"
  shows "catchup_loop bd cl height wanted = Some (wanted @ map (\<lambda>k. (the (ci_hash cl (f + Suc k * bd_step bd)), f + Suc k * bd_step bd))
    [length wanted..<min 8 ((ci_best cl - f) div bd_step bd)])"
  using assms(4-6)
proof (induction "8 - length wanted" arbitrary: height wanted)
  case 0
  then show ?case by (subst catchup_loop.simps) (simp add: MAX_CATCHUP_TARGETS_def)
next
  case (Suc m)
  have below: "f + Suc k * bd_step bd \<le> ci_best cl \<longleftrightarrow> k < (ci_best cl - f) div bd_step bd" for k
    using assms(1) by (simp add: less_eq_div_iff_mult_less_eq Suc_le_eq [symmetric]) linarith
  show ?case
  proof (cases "height \<le> ci_best cl")
    case True
    then obtain h where h: "ci_hash cl height = Some h" using assms(3) by blast
    let ?w = "wanted @ [(h, height)]"
    have l: "length wanted < (ci_best cl - f) div bd_step bd" using True below [of "length wanted"] Suc.prems(2) by simp
    have "catchup_loop bd cl (f + Suc (length ?w) * bd_step bd) ?w = Some (?w @ map (\<lambda>k. (the (ci_hash cl (f + Suc k * bd_step bd)),
        f + Suc k * bd_step bd)) [length ?w..<min 8 ((ci_best cl - f) div bd_step bd)])"
      by (rule Suc.hyps(1)) (use Suc.hyps(2) Suc.prems l in auto)
    moreover have "catchup_loop bd cl u32_max ?w = Some ?w"
      using assms(2) by (subst catchup_loop.simps) simp
    moreover have "[length ?w..<min 8 ((ci_best cl - f) div bd_step bd)] = []" if "u32_max \<le> f + Suc (length ?w) * bd_step bd"
    proof -
      have "\<not> length ?w < (ci_best cl - f) div bd_step bd" using that assms(2) below [of "length ?w"] by linarith
      then show ?thesis by simp
    qed
    ultimately have "catchup_loop bd cl (sat_add u32_max height (bd_step bd)) ?w = Some (?w @ map (\<lambda>k. (the (ci_hash cl (f + Suc k * bd_step bd)),
        f + Suc k * bd_step bd)) [length ?w..<min 8 ((ci_best cl - f) div bd_step bd)])"
      using Suc.prems(2) by (cases "height + bd_step bd \<le> u32_max") (auto simp: sat_add_def min_def add.commute add.left_commute)
    moreover have "[length wanted..<min 8 ((ci_best cl - f) div bd_step bd)]
        = length wanted # [length ?w..<min 8 ((ci_best cl - f) div bd_step bd)]"
      using l Suc.hyps(2) by (simp add: upt_conv_Cons)
    ultimately show ?thesis using True h Suc.hyps(2) Suc.prems(2)
      by (subst catchup_loop.simps) (simp add: MAX_CATCHUP_TARGETS_def)
  next
    case False
    then have "(ci_best cl - f) div bd_step bd \<le> length wanted" using below [of "length wanted"] Suc.prems(2) by simp
    with False show ?thesis by (subst catchup_loop.simps) simp
  qed
qed

lemma on_start_targets:
  assumes "0 < bd_step bd" "ci_best cl < u32_max" "\<forall>n\<le>ci_best cl. ci_hash cl n \<noteq> None"
  shows "on_start bd cl = Some (map (\<lambda>k. (the (ci_hash cl (ci_finalized cl + Suc k * bd_step bd)), ci_finalized cl + Suc k * bd_step bd))
    [0..<min 8 ((ci_best cl - ci_finalized cl) div bd_step bd)])"
proof (cases "ci_finalized cl + bd_step bd \<le> u32_max")
  case True
  then show ?thesis using catchup_loop_spec [OF assms, of "[]" "ci_finalized cl + bd_step bd" "ci_finalized cl"]
    by (simp add: on_start_def)
next
  case False
  then have "ci_best cl - ci_finalized cl < bd_step bd" using assms(1,2) by arith
  then have "(ci_best cl - ci_finalized cl) div bd_step bd = 0" by (rule div_less)
  moreover have "catchup_loop bd cl u32_max [] = Some []" using assms(2) by (subst catchup_loop.simps) simp
  ultimately show ?thesis using False by (simp add: on_start_def sat_add_def min_def)
qed

section \<open>Pallet and node agree\<close>

text \<open>On the same state the participation pallet caches the committee that the node votes and verifies with.\<close>

lemma same_committee:
  assumes "pe_reputation env = unwrap_or [] (api_reputation net at)"
    "pe_bound env = map fst (unwrap_or [] (api_vote_keys net at))"
    "pe_committed env = unwrap_or [] (api_committed net at)" "pe_beacon env = unwrap_or zero_hash (api_seed net at)"
    "pe_halted env = unwrap_or False (api_halted net at)"
    "pc_committee_tau cfg = bd_tau bd" "epoch_of bd height < 2 ^ 32"
    "card (committee_for_height bd net height at) \<le> pc_max_committee cfg"
  shows "set (build_committee cfg env (epoch_of bd height)) = committee_for_height bd net height at"
proof -
  have b: "unwrap_or [] (map_option (map fst) (api_vote_keys net at)) = pe_bound env"
    by (simp add: assms(2) unwrap_or_def split: option.split)
  let ?C = "committee_for_height bd net height at"
  have "finite ?C" by (auto simp: committee_for_height_def elect_finality_committee_def finality_draw_def Let_def)
  moreover have "build_committee cfg env (epoch_of bd height) = take (pc_max_committee cfg) (sorted_list_of_set ?C)"
    using assms(7) by (simp add: build_committee_def committee_for_height_def b assms(1,3-6) COMMITTEE_SEED_def)
  ultimately show ?thesis using assms(8) by simp
qed

end
