(* ===== verification/FinalityWorker.thy ===== *)
theory FinalityWorker
imports FinalityChain
begin

text \<open>
  The finality worker of the node (\<open>run_worker\<close> in \<open>chain/node/src/finality.rs\<close>) and its vote gossip validator.
  The worker's local variables and the two shared counters are the record \<open>worker\<close>; one branch of its \<open>select!\<close> is a
  function on it: \<open>worker_tick\<close> for the timer, \<open>hear\<close> for a message. What it does outside, gossip and
  finalisation, is the list of events a tick returns. \<open>we_finalize\<close> is the client's \<open>finalize_block\<close>: the client
  afterwards, or \<open>None\<close> for an error. A tick is \<open>None\<close> if the boundary search inside it does not return.
\<close>

fun bt_insert :: "'k::linorder \<Rightarrow> 'v \<Rightarrow> ('k \<times> 'v) list \<Rightarrow> ('k \<times> 'v) list" where
  "bt_insert k v [] = [(k, v)]"
| "bt_insert k v (e # es) =
     (if k < fst e then (k, v) # e # es else if k = fst e then (k, v) # es else e # bt_insert k v es)"

record worker =
  wk_height :: nat
  wk_round :: "byte list voter_state"
  wk_votes :: "(key \<times> vote) list"
  wk_at :: "byte list"
  wk_committee :: "key set"
  wk_rev :: "key \<rightharpoonup> key"
  wk_topic :: nat
  wk_below :: nat
  wk_skew :: nat
  wk_watermark :: nat
  wk_horizon :: nat

record worker_env =
  we_build :: build
  we_net :: chain_api
  we_genesis :: "byte list"
  we_spec :: nat
  we_verify :: verifier
  we_keys :: "(key \<times> (byte list \<Rightarrow> byte list)) option"
  we_finalize :: "node_client \<Rightarrow> byte list \<Rightarrow> byte list \<Rightarrow> node_client option"

datatype worker_event =
    Gossiped nat "byte list"
  | Finalised nat "byte list" "byte list"

section \<open>The gossip of votes\<close>

datatype verdict_on_message = ProcessAndKeep nat | ProcessAndDiscard nat | Discard

definition vote_validate :: "worker_env \<Rightarrow> nat \<Rightarrow> nat \<Rightarrow> byte list \<Rightarrow> verdict_on_message" where
  "vote_validate env watermark horizon data =
     (case vote_decode data of
        Some v \<Rightarrow>
          if vt_height v > watermark \<and> verify_sig (we_build env) (we_verify env) (we_genesis env) v then
            if vt_height v > horizon then ProcessAndDiscard (vt_height v) else ProcessAndKeep (vt_height v)
          else Discard
      | None \<Rightarrow> Discard)"

definition vote_expired :: "nat \<Rightarrow> nat \<Rightarrow> bool" where
  "vote_expired watermark topic = (topic \<le> watermark)"

definition vote_allowed :: "nat \<Rightarrow> nat \<Rightarrow> nat \<Rightarrow> bool" where
  "vote_allowed watermark horizon topic = (topic > watermark \<and> topic \<le> horizon)"

definition vote_horizon :: "build \<Rightarrow> node_client \<Rightarrow> nat" where
  "vote_horizon bd cl = ci_best cl + 2 * bd_step bd"

section \<open>Aiming\<close>

text \<open>The assignments with which the worker starts on a height, at start, on re-aiming, on a skip and after finalising.\<close>

definition fresh_round :: "node_client \<Rightarrow> nat \<Rightarrow> byte list voter_state" where
  "fresh_round cl height = new_node (fst (unwrap_or (zero_hash, False) (target_hash cl height)))"

definition refresh :: "worker_env \<Rightarrow> worker \<Rightarrow> worker" where
  "refresh env w = w\<lparr>wk_committee := committee_for_height (we_build env) (we_net env) (wk_height w) (wk_at w),
     wk_rev := vote_keys_rev_for_height (we_net env) (wk_at w)\<rparr>"

definition aim :: "worker_env \<Rightarrow> node_client \<Rightarrow> nat \<Rightarrow> worker \<Rightarrow> worker" where
  "aim env cl height w =
     (refresh env (w\<lparr>wk_height := height, wk_at := epoch_pinned_at (we_build env) cl height\<rparr>))
       \<lparr>wk_votes := [], wk_below := 0, wk_round := fresh_round cl height, wk_topic := height\<rparr>"

definition worker_start :: "worker_env \<Rightarrow> node_client \<Rightarrow> worker" where
  "worker_start env cl =
     aim env cl (ci_finalized cl + bd_step (we_build env))
       \<lparr>wk_height = 0, wk_round = new_node zero_hash, wk_votes = [], wk_at = zero_hash, wk_committee = {}, wk_rev = Map.empty,
        wk_topic = 0, wk_below = 0, wk_skew = 0, wk_watermark = ci_finalized cl,
        wk_horizon = vote_horizon (we_build env) cl\<rparr>"

definition follow_local_finality :: "node_client \<Rightarrow> nat \<Rightarrow> worker \<Rightarrow> worker" where
  "follow_local_finality cl h w = w\<lparr>wk_watermark := max (wk_watermark w) (ci_finalized cl), wk_horizon := h\<rparr>"

definition re_aim :: "worker_env \<Rightarrow> node_client \<Rightarrow> worker \<Rightarrow> worker" where
  "re_aim env cl w =
     (if wk_height w \<le> ci_finalized cl then aim env cl (ci_finalized cl + bd_step (we_build env)) w else w)"

section \<open>Voting, tallying, finalising\<close>

definition own_vote :: "worker_env \<Rightarrow> byte list \<Rightarrow> worker \<Rightarrow> worker \<times> worker_event list" where
  "own_vote env p w =
     (case we_keys env of
        None \<Rightarrow> (w, [])
      | Some (signer, sign) \<Rightarrow>
          let msg = sign_message (we_build env) (we_genesis env) (wk_height w) p;
              v = \<lparr>vt_height = wk_height w, vt_hash = p, vt_signer = signer, vt_sig = sign msg\<rparr>;
              account = resolve_voter signer (wk_rev w)
          in (if account \<in> wk_committee w then w\<lparr>wk_votes := bt_insert account v (wk_votes w)\<rparr> else w,
              [Gossiped (wk_height w) (vote_encode v)]))"

definition round_params :: "build \<Rightarrow> nat \<Rightarrow> snowball_params" where
  "round_params bd k = \<lparr>sb_k = k, sb_alpha = quorum_wall k, sb_beta = bd_beta bd, sb_max_rounds = 80\<rparr>"

definition reaches_quorum :: "worker \<Rightarrow> bool" where
  "reaches_quorum w = (length (wk_votes w) * 10 \<ge> card (wk_committee w) * 6)"

definition count_below :: "worker \<Rightarrow> worker" where
  "count_below w = w\<lparr>wk_below := (if reaches_quorum w then 0 else sat_add u32_max (wk_below w) 1)\<rparr>"

definition observe_votes :: "build \<Rightarrow> worker \<Rightarrow> worker \<times> byte list option" where
  "observe_votes bd w =
     (let (r, out) = finality_observe (map (vt_hash \<circ> snd) (wk_votes w)) (round_params bd (card (wk_committee w)))
            (reaches_quorum w) (wk_round w)
      in (w\<lparr>wk_round := r\<rparr>, case out of Some d \<Rightarrow> Some d | None \<Rightarrow> decision r))"

definition finalise ::
  "worker_env \<Rightarrow> node_client \<Rightarrow> byte list \<Rightarrow> worker \<Rightarrow> (node_client \<times> worker) \<times> worker_event list" where
  "finalise env cl decided w =
     (let pf = encode_proof (wk_height w) decided (wk_votes w)
      in case we_finalize env cl decided pf of
           Some cl' \<Rightarrow> ((cl', aim env cl' (ci_finalized cl' + bd_step (we_build env)) (w\<lparr>wk_watermark := wk_height w\<rparr>)),
                        [Finalised (wk_height w) decided pf])
         | None \<Rightarrow> ((cl, w), []))"

definition ballot ::
  "worker_env \<Rightarrow> node_client \<Rightarrow> byte list \<Rightarrow> worker \<Rightarrow> (node_client \<times> worker) \<times> worker_event list" where
  "ballot env cl p w =
     (let (w1, sent) = own_vote env p w;
          (w2, decided) = observe_votes (we_build env) (count_below w1)
      in case decided of
           None \<Rightarrow> ((cl, w2), sent)
         | Some d \<Rightarrow> let (s, evs) = finalise env cl d w2 in (s, sent @ evs))"

section \<open>One tick\<close>

text \<open>The part after the spec check: the committee of the height, the skip over a frozen band, the ballot.\<close>

definition seat_and_vote ::
  "worker_env \<Rightarrow> node_client \<Rightarrow> byte list \<Rightarrow> worker \<Rightarrow> ((node_client \<times> worker) \<times> worker_event list) option" where
  "seat_and_vote env cl p w0 =
     (let w1 = refresh env w0;
          w = w1\<lparr>wk_votes := filter (\<lambda>(acc, _). acc \<in> wk_committee w1) (wk_votes w1)\<rparr>
      in if card (wk_committee w) = 0 then
           if \<not> unwrap_or False (api_halted (we_net env) (wk_at w)) then Some ((cl, w), [])
           else (case first_healthy_boundary_after (we_build env) (we_net env) cl (wk_height w) of
                   None \<Rightarrow> None
                 | Some None \<Rightarrow> Some ((cl, w), [])
                 | Some (Some healthy) \<Rightarrow>
                     let w' = aim env cl healthy w
                     in case target_hash cl healthy of
                          Some (q, True) \<Rightarrow> if card (wk_committee w') = 0 then Some ((cl, w'), []) else Some (ballot env cl q w')
                        | _ \<Rightarrow> Some ((cl, w'), []))
         else Some (ballot env cl p w))"

definition worker_tick ::
  "worker_env \<Rightarrow> node_client \<times> worker \<Rightarrow> ((node_client \<times> worker) \<times> worker_event list) option" where
  "worker_tick env s =
     (let cl = fst s;
          w1 = re_aim env cl (follow_local_finality cl (vote_horizon (we_build env) cl) (snd s))
      in case target_hash cl (wk_height w1) of
           None \<Rightarrow> Some ((cl, w1), [])
         | Some (p, have_block) \<Rightarrow>
             if \<not> have_block then Some ((cl, w1), [])
             else
               let at = epoch_pinned_at (we_build env) cl (wk_height w1);
                   w2 = w1\<lparr>wk_at := at\<rparr>;
                   passive = w2\<lparr>wk_skew := sat_add u32_max (wk_skew w2) 1\<rparr>
               in case api_version (we_net env) at of
                    Some v \<Rightarrow> if v = we_spec env then seat_and_vote env cl p (w2\<lparr>wk_skew := 0\<rparr>) else Some ((cl, passive), [])
                  | None \<Rightarrow> Some ((cl, passive), []))"

section \<open>A message\<close>

definition hear :: "worker_env \<Rightarrow> byte list \<Rightarrow> worker \<Rightarrow> worker" where
  "hear env msg w =
     (case vote_decode msg of
        Some v \<Rightarrow>
          let account = resolve_voter (vt_signer v) (wk_rev w)
          in if vt_height v = wk_height w \<and> verify_sig (we_build env) (we_verify env) (we_genesis env) v
                \<and> account \<in> wk_committee w
             then w\<lparr>wk_votes := bt_insert account v (wk_votes w)\<rparr> else w
      | None \<Rightarrow> w)"

end
