(* ===== verification/FinalityProps.thy ===== *)
theory FinalityProps
imports FinalityWorker
begin

text \<open>
  What the finality gadget guarantees: the votes a worker holds are always genuine votes of the height it works on, one per
  account; the proof of a decision convinces every node; two proofs for one height convict two fifths of the
  committee; the search past a frozen band answers alike on every node; and no tick leaves the target behind finality.
\<close>

section \<open>The map of votes\<close>

abbreviation key_sorted :: "('k::linorder \<times> 'v) list \<Rightarrow> bool" where
  "key_sorted es \<equiv> sorted_wrt (<) (map fst es)"

lemma bt_insert_keys: "fst ` set (bt_insert k v es) = insert k (fst ` set es)"
  by (induction es) auto

lemma bt_insert_key_sorted: "key_sorted es \<Longrightarrow> key_sorted (bt_insert k v es)"
proof (induction es)
  case (Cons e es)
  then have IH: "key_sorted (bt_insert k v es)" by simp
  have "fst e < x" if "x \<in> fst ` set (bt_insert k v es)" "fst e < k" for x
    using that Cons.prems bt_insert_keys [of k v es] by auto
  with IH Cons.prems show ?case by force
qed simp

lemma set_bt_insert: "set (bt_insert k v es) \<subseteq> insert (k, v) (set es)"
  by (induction es) auto

lemma key_sorted_filter: "key_sorted es \<Longrightarrow> key_sorted (filter P es)"
  by (induction es) auto

lemma key_sorted_distinct: "key_sorted es \<Longrightarrow> distinct (map fst es)"
  by (simp add: strict_sorted_iff)

section \<open>The invariant of the worker\<close>

definition client_typed :: "node_client \<Rightarrow> bool" where
  "client_typed cl = (ci_best cl < u32_max \<and> ci_finalized cl \<le> ci_best cl
     \<and> (\<forall>n h. ci_hash cl n = Some h \<longrightarrow> length h = 32))"

text \<open>
  What the worker relies on: the constants are those of a build, the keys sign what they verify (sr25519), the
  client's \<open>finalize_block\<close> leaves a client as typed as before and finality never goes back.
\<close>

definition env_sound :: "worker_env \<Rightarrow> bool" where
  "env_sound env = (0 < bd_step (we_build env) \<and> bd_step (we_build env) \<le> u32_max
     \<and> (\<forall>signer sign. we_keys env = Some (signer, sign) \<longrightarrow> length signer = 32
         \<and> (\<forall>m. length (sign m) = 64 \<and> we_verify env signer (sign m) m))
     \<and> (\<forall>cl d pf cl'. we_finalize env cl d pf = Some cl' \<longrightarrow> client_typed cl \<longrightarrow>
         client_typed cl' \<and> ci_finalized cl \<le> ci_finalized cl'))"

definition vote_sound :: "worker_env \<Rightarrow> worker \<Rightarrow> key \<times> vote \<Rightarrow> bool" where
  "vote_sound env w e = (vt_height (snd e) = wk_height w \<and> vote_typed (snd e)
     \<and> verify_sig (we_build env) (we_verify env) (we_genesis env) (snd e))"

definition worker_inv :: "worker_env \<Rightarrow> worker \<Rightarrow> bool" where
  "worker_inv env w = (key_sorted (wk_votes w) \<and> (\<forall>e\<in>set (wk_votes w). vote_sound env w e) \<and> wk_height w < 2 ^ 64)"

text \<open>Every vote is held under the account its signer resolves to.\<close>

definition resolved :: "worker \<Rightarrow> bool" where
  "resolved w = (\<forall>(acc, v)\<in>set (wk_votes w). resolve_voter (vt_signer v) (wk_rev w) = acc)"

definition constant_delegation :: "worker_env \<Rightarrow> bool" where
  "constant_delegation env = (\<forall>at at'. vote_keys_rev_for_height (we_net env) at = vote_keys_rev_for_height (we_net env) at')"

lemma aim_simps [simp]:
  "wk_votes (aim env cl h w) = []" "wk_height (aim env cl h w) = h" "wk_at (aim env cl h w) = epoch_pinned_at (we_build env) cl h"
  "wk_committee (aim env cl h w) = committee_for_height (we_build env) (we_net env) h (epoch_pinned_at (we_build env) cl h)"
  "wk_rev (aim env cl h w) = vote_keys_rev_for_height (we_net env) (epoch_pinned_at (we_build env) cl h)"
  "wk_round (aim env cl h w) = fresh_round cl h"
  by (simp_all add: aim_def refresh_def)

lemma aim_inv: "h < 2 ^ 64 \<Longrightarrow> worker_inv env (aim env cl h w)" "resolved (aim env cl h w)"
  by (simp_all add: worker_inv_def resolved_def)

lemma insert_inv:
  assumes "worker_inv env w" "vote_sound env w (acc, v)"
  shows "worker_inv env (w\<lparr>wk_votes := bt_insert acc v (wk_votes w)\<rparr>)"
  using assms set_bt_insert [of acc v "wk_votes w"] bt_insert_key_sorted [of "wk_votes w" acc v]
  by (auto simp: worker_inv_def vote_sound_def)

lemma insert_resolved:
  assumes "resolved w" "resolve_voter (vt_signer v) (wk_rev w) = acc"
  shows "resolved (w\<lparr>wk_votes := bt_insert acc v (wk_votes w)\<rparr>)"
  using assms set_bt_insert [of acc v "wk_votes w"] by (fastforce simp: resolved_def)

lemma own_vote_sound:
  assumes "env_sound env" "we_keys env = Some (signer, sign)" "wk_height w < 2 ^ 64" "length p = 32"
  shows "vote_sound env w (acc, \<lparr>vt_height = wk_height w, vt_hash = p, vt_signer = signer,
    vt_sig = sign (sign_message (we_build env) (we_genesis env) (wk_height w) p)\<rparr>)"
  using assms by (simp add: env_sound_def vote_sound_def vote_typed_def verify_sig_def)

lemma own_vote_inv:
  assumes "env_sound env" "worker_inv env w" "length p = 32"
  shows "worker_inv env (fst (own_vote env p w))"
proof (cases "we_keys env")
  case None
  with assms show ?thesis by (simp add: own_vote_def)
next
  case (Some a)
  obtain signer sign where a: "a = (signer, sign)" by (cases a)
  have "wk_height w < 2 ^ 64" using assms(2) by (simp add: worker_inv_def)
  from insert_inv [OF assms(2) own_vote_sound [OF assms(1) Some [unfolded a] this assms(3)]] assms(2)
  show ?thesis by (simp add: own_vote_def Some a Let_def)
qed

lemma own_vote_frame:
  "wk_height (fst (own_vote env p w)) = wk_height w" "wk_committee (fst (own_vote env p w)) = wk_committee w"
  "wk_rev (fst (own_vote env p w)) = wk_rev w" "wk_round (fst (own_vote env p w)) = wk_round w"
  "wk_at (fst (own_vote env p w)) = wk_at w"
  "resolved w \<Longrightarrow> resolved (fst (own_vote env p w))"
  "fst ` set (wk_votes w) \<subseteq> wk_committee w \<Longrightarrow> fst ` set (wk_votes (fst (own_vote env p w))) \<subseteq> wk_committee w"
  by (auto simp: own_vote_def Let_def bt_insert_keys insert_resolved split: option.split)

lemma count_below_frame [simp]:
  "wk_height (count_below w) = wk_height w" "wk_votes (count_below w) = wk_votes w" "wk_committee (count_below w) = wk_committee w"
  "wk_rev (count_below w) = wk_rev w" "wk_round (count_below w) = wk_round w" "wk_at (count_below w) = wk_at w"
  by (simp_all add: count_below_def)

lemma observe_votes_frame [simp]:
  "wk_height (fst (observe_votes bd w)) = wk_height w" "wk_votes (fst (observe_votes bd w)) = wk_votes w"
  "wk_committee (fst (observe_votes bd w)) = wk_committee w" "wk_rev (fst (observe_votes bd w)) = wk_rev w"
  "wk_at (fst (observe_votes bd w)) = wk_at w"
  by (simp_all add: observe_votes_def Let_def split: prod.split)

lemma worker_inv_cong:
  "wk_votes w = wk_votes w' \<Longrightarrow> wk_height w = wk_height w' \<Longrightarrow> worker_inv env w = worker_inv env w'"
  by (simp add: worker_inv_def vote_sound_def)

lemma resolved_cong: "wk_votes w = wk_votes w' \<Longrightarrow> wk_rev w = wk_rev w' \<Longrightarrow> resolved w = resolved w'"
  by (simp add: resolved_def)

section \<open>Every step keeps it\<close>

lemma client_typed_target:
  "client_typed cl \<Longrightarrow> target_hash cl h = Some (p, True) \<Longrightarrow> length p = 32 \<and> h \<le> ci_best cl"
  by (auto simp: client_typed_def target_hash_def split: if_splits option.splits)

lemma aim_height: "env_sound env \<Longrightarrow> client_typed cl \<Longrightarrow> ci_finalized cl + bd_step (we_build env) < 2 ^ 64"
  by (simp add: env_sound_def client_typed_def u32_max_def)

lemma finalise_inv:
  assumes "env_sound env" "client_typed cl" "worker_inv env w" "finalise env cl d w = ((cl', w'), evs)"
  shows "worker_inv env w' \<and> client_typed cl' \<and> ci_finalized cl \<le> ci_finalized cl' \<and> (resolved w \<longrightarrow> resolved w')
    \<and> (wk_rev w' = wk_rev w \<or> (\<exists>at. wk_rev w' = vote_keys_rev_for_height (we_net env) at))"
proof (cases "we_finalize env cl d (encode_proof (wk_height w) d (wk_votes w))")
  case None
  with assms show ?thesis by (simp add: finalise_def Let_def)
next
  case (Some c)
  have c: "client_typed c" "ci_finalized cl \<le> ci_finalized c" using assms(1,2) Some by (auto simp: env_sound_def)
  have eq: "cl' = c" and eq2: "w' = aim env c (ci_finalized c + bd_step (we_build env)) (w\<lparr>wk_watermark := wk_height w\<rparr>)"
    using assms(4) Some by (auto simp: finalise_def Let_def)
  show ?thesis unfolding eq eq2 using c aim_inv aim_height [OF assms(1) c(1)] by auto
qed

text \<open>The worker on which a ballot decides: its own vote cast, the round observed.\<close>

definition voted :: "worker_env \<Rightarrow> byte list \<Rightarrow> worker \<Rightarrow> worker" where
  "voted env p w = count_below (fst (own_vote env p w))"

lemma ballot_alt: "ballot env cl p w =
    (case snd (observe_votes (we_build env) (voted env p w)) of
       None \<Rightarrow> ((cl, fst (observe_votes (we_build env) (voted env p w))), snd (own_vote env p w))
     | Some d \<Rightarrow> (fst (finalise env cl d (fst (observe_votes (we_build env) (voted env p w)))),
         snd (own_vote env p w) @ snd (finalise env cl d (fst (observe_votes (we_build env) (voted env p w))))))"
  by (simp add: ballot_def voted_def Let_def split_beta split: option.split)

lemma ballot_inv:
  assumes "env_sound env" "client_typed cl" "worker_inv env w" "length p = 32" "ballot env cl p w = ((cl', w'), evs)"
  shows "worker_inv env w' \<and> client_typed cl' \<and> ci_finalized cl \<le> ci_finalized cl' \<and> (resolved w \<longrightarrow> resolved w')
    \<and> (wk_rev w' = wk_rev w \<or> (\<exists>at. wk_rev w' = vote_keys_rev_for_height (we_net env) at))"
proof -
  let ?w2 = "fst (observe_votes (we_build env) (voted env p w))"
  have w2: "worker_inv env ?w2" "resolved w \<longrightarrow> resolved ?w2" "wk_rev ?w2 = wk_rev w"
    using own_vote_inv [OF assms(1,3,4)] worker_inv_cong [of ?w2 "fst (own_vote env p w)"]
      resolved_cong [of ?w2 "fst (own_vote env p w)"] own_vote_frame(3,6) by (simp_all add: voted_def)
  show ?thesis
  proof (cases "snd (observe_votes (we_build env) (voted env p w))")
    case None
    then have "cl' = cl" "w' = ?w2" using assms(5) by (simp_all add: ballot_alt)
    with w2 assms(2) show ?thesis by simp
  next
    case (Some d)
    then have "fst (finalise env cl d ?w2) = (cl', w')" using assms(5) by (simp add: ballot_alt)
    then have "finalise env cl d ?w2 = ((cl', w'), snd (finalise env cl d ?w2))" by (metis prod.collapse)
    from finalise_inv [OF assms(1,2) w2(1) this] w2 show ?thesis by auto
  qed
qed

lemma healthy_height:
  assumes "env_sound env" "client_typed cl" "first_healthy_boundary_after (we_build env) net cl from0 = Some (Some h)"
  shows "from0 < h" "h \<le> ci_best cl" "healthy_boundary (we_build env) net cl h"
proof -
  have pre: "0 < bd_step (we_build env)" "ci_best cl < u32_max" using assms(1,2) by (auto simp: env_sound_def client_typed_def)
  let ?P = "\<lambda>k. healthy_boundary (we_build env) net cl (candidate (we_build env) (from0 + bd_step (we_build env)) k)"
  have "boundary_loop (we_build env) net cl (from0 + bd_step (we_build env)) = Some (Some h)"
    using assms(3) by (auto simp: first_healthy_boundary_after_def checked_add_def split: if_splits)
  then have ex: "\<exists>k. candidate (we_build env) (from0 + bd_step (we_build env)) k + bd_burial (we_build env) \<le> ci_best cl \<and> ?P k"
    and h: "h = candidate (we_build env) (from0 + bd_step (we_build env)) (LEAST k. ?P k)"
    unfolding boundary_loop_first [OF pre] by (auto split: if_splits)
  from ex obtain k where k: "candidate (we_build env) (from0 + bd_step (we_build env)) k + bd_burial (we_build env) \<le> ci_best cl"
    and P: "?P k" by blast
  have "(LEAST k. ?P k) \<le> k" using P by (rule Least_le)
  then have "h \<le> candidate (we_build env) (from0 + bd_step (we_build env)) k"
    unfolding h by (rule candidate_mono)
  with k show "h \<le> ci_best cl" by linarith
  show "healthy_boundary (we_build env) net cl h" unfolding h using P by (rule LeastI)
  show "from0 < h" unfolding h candidate_def using pre(1) by simp
qed

lemma refresh_frame [simp]:
  "wk_height (refresh env w) = wk_height w" "wk_votes (refresh env w) = wk_votes w" "wk_at (refresh env w) = wk_at w"
  "wk_rev (refresh env w) = vote_keys_rev_for_height (we_net env) (wk_at w)" "wk_round (refresh env w) = wk_round w"
  by (simp_all add: refresh_def)

text \<open>The states a tick may pass through before its ballot, and the ballot it may hold.\<close>

definition pruned :: "worker_env \<Rightarrow> worker \<Rightarrow> worker" where
  "pruned env w = (refresh env w)
     \<lparr>wk_votes := filter (\<lambda>(acc, _). acc \<in> wk_committee (refresh env w)) (wk_votes (refresh env w))\<rparr>"

lemma seat_and_vote_alt: "seat_and_vote env cl p w =
    (if card (wk_committee (pruned env w)) = 0 then
       if \<not> unwrap_or False (api_halted (we_net env) (wk_at (pruned env w))) then Some ((cl, pruned env w), [])
       else (case first_healthy_boundary_after (we_build env) (we_net env) cl (wk_height (pruned env w)) of
               None \<Rightarrow> None
             | Some None \<Rightarrow> Some ((cl, pruned env w), [])
             | Some (Some healthy) \<Rightarrow>
                 (case target_hash cl healthy of
                    Some (q, True) \<Rightarrow>
                      if card (wk_committee (aim env cl healthy (pruned env w))) = 0
                      then Some ((cl, aim env cl healthy (pruned env w)), [])
                      else Some (ballot env cl q (aim env cl healthy (pruned env w)))
                  | _ \<Rightarrow> Some ((cl, aim env cl healthy (pruned env w)), [])))
     else Some (ballot env cl p (pruned env w)))"
  unfolding seat_and_vote_def pruned_def Let_def by (rule refl)

lemma pruned_frame [simp]:
  "wk_height (pruned env w) = wk_height w" "wk_at (pruned env w) = wk_at w" "wk_round (pruned env w) = wk_round w"
  "wk_rev (pruned env w) = vote_keys_rev_for_height (we_net env) (wk_at w)"
  "wk_committee (pruned env w) = committee_for_height (we_build env) (we_net env) (wk_height w) (wk_at w)"
  "wk_votes (pruned env w) = filter (\<lambda>(acc, _). acc \<in> wk_committee (pruned env w)) (wk_votes w)"
  by (simp_all add: pruned_def refresh_def)

lemma seat_and_vote_cases:
  assumes "env_sound env" "client_typed cl" "seat_and_vote env cl p w = Some ((cl', w'), evs)"
  obtains (quiet) "cl' = cl" "evs = []" "w' = pruned env w"
  | (skipped) h where "cl' = cl" "evs = []" "wk_height w < h" "h \<le> ci_best cl" "w' = aim env cl h (pruned env w)"
  | (skip_vote) h q where "wk_height w < h" "target_hash cl h = Some (q, True)"
      "card (wk_committee (aim env cl h (pruned env w))) \<noteq> 0" "ballot env cl q (aim env cl h (pruned env w)) = ((cl', w'), evs)"
  | (vote) "card (wk_committee (pruned env w)) \<noteq> 0" "ballot env cl p (pruned env w) = ((cl', w'), evs)"
proof (cases "card (wk_committee (pruned env w)) = 0")
  case False
  then have "Some (ballot env cl p (pruned env w)) = Some ((cl', w'), evs)"
    using assms(3) unfolding seat_and_vote_alt by (simp only: if_False)
  with False show thesis by (intro vote) simp_all
next
  case True
  show thesis
  proof (cases "unwrap_or False (api_halted (we_net env) (wk_at (pruned env w)))")
    case False
    then have "Some ((cl, pruned env w), []) = Some ((cl', w'), evs)"
      using assms(3) True unfolding seat_and_vote_alt by (simp only: if_True simp_thms)
    then show thesis by (intro quiet) simp_all
  next
    case halted: True
    then have sv: "(case first_healthy_boundary_after (we_build env) (we_net env) cl (wk_height (pruned env w)) of
               None \<Rightarrow> None
             | Some None \<Rightarrow> Some ((cl, pruned env w), [])
             | Some (Some healthy) \<Rightarrow>
                 (case target_hash cl healthy of
                    Some (q, True) \<Rightarrow>
                      if card (wk_committee (aim env cl healthy (pruned env w))) = 0
                      then Some ((cl, aim env cl healthy (pruned env w)), [])
                      else Some (ballot env cl q (aim env cl healthy (pruned env w)))
                  | _ \<Rightarrow> Some ((cl, aim env cl healthy (pruned env w)), []))) = Some ((cl', w'), evs)"
      using assms(3) True unfolding seat_and_vote_alt by (simp only: if_True if_False simp_thms)
    show thesis
    proof (cases "first_healthy_boundary_after (we_build env) (we_net env) cl (wk_height (pruned env w))")
      case None
      with sv show thesis by simp
    next
      case (Some r)
      show thesis
      proof (cases r)
        case None
        with sv Some show thesis by (intro quiet) auto
      next
        case (Some h)
        with \<open>first_healthy_boundary_after _ _ _ _ = Some r\<close>
        have h: "first_healthy_boundary_after (we_build env) (we_net env) cl (wk_height (pruned env w)) = Some (Some h)" by simp
        note hh = healthy_height [OF assms(1,2) h [unfolded pruned_frame]]
        note sv = sv [unfolded h option.case]
        show thesis
        proof (cases "\<exists>q. target_hash cl h = Some (q, True) \<and> card (wk_committee (aim env cl h (pruned env w))) \<noteq> 0")
          case t: True
          then obtain q where "target_hash cl h = Some (q, True)" "card (wk_committee (aim env cl h (pruned env w))) \<noteq> 0" by blast
          with sv hh show thesis by (intro skip_vote) auto
        next
          case t: False
          with sv hh show thesis by (intro skipped) (auto split: option.splits prod.splits bool.splits if_splits)
        qed
      qed
    qed
  qed
qed

lemma pruned_inv:
  assumes "worker_inv env w"
  shows "worker_inv env (pruned env w)"
  using assms key_sorted_filter [of "wk_votes w"] by (auto simp: worker_inv_def vote_sound_def)

lemma pruned_resolved:
  assumes "constant_delegation env" "resolved w" "wk_rev w = vote_keys_rev_for_height (we_net env) at"
  shows "resolved (pruned env w)"
proof -
  have "vote_keys_rev_for_height (we_net env) (wk_at w) = wk_rev w"
    using assms(1,3) by (metis constant_delegation_def)
  with assms(2) show ?thesis by (auto simp: resolved_def)
qed

text \<open>The delegation a worker uses was read somewhere.\<close>

definition delegated :: "worker_env \<Rightarrow> worker \<Rightarrow> bool" where
  "delegated env w = (resolved w \<and> (\<exists>at. wk_rev w = vote_keys_rev_for_height (we_net env) at))"

lemma aim_delegated: "delegated env (aim env cl h w)"
  by (auto simp: delegated_def aim_inv)

lemma seat_and_vote_inv:
  assumes "env_sound env" "client_typed cl" "worker_inv env w" "length p = 32"
    "seat_and_vote env cl p w = Some ((cl', w'), evs)"
  shows "worker_inv env w' \<and> client_typed cl' \<and> ci_finalized cl \<le> ci_finalized cl'
    \<and> (constant_delegation env \<longrightarrow> delegated env w \<longrightarrow> delegated env w')"
  using assms(1,2,5)
proof (cases rule: seat_and_vote_cases)
  case quiet
  with assms(2) pruned_inv [OF assms(3)] pruned_resolved [of env w] show ?thesis by (auto simp: delegated_def)
next
  case (skipped h)
  then have "h < 2 ^ 64" using assms(2) by (simp add: client_typed_def u32_max_def)
  with skipped assms(2) show ?thesis by (simp add: aim_inv aim_delegated)
next
  case (skip_vote h q)
  note t = client_typed_target [OF assms(2) skip_vote(2)]
  then have "h < 2 ^ 64" using assms(2) by (simp add: client_typed_def u32_max_def)
  then have "worker_inv env (aim env cl h (pruned env w))" by (rule aim_inv)
  from ballot_inv [OF assms(1,2) this conjunct1 [OF t] skip_vote(4)] aim_delegated [of env cl h "pruned env w"]
  show ?thesis by (auto simp: delegated_def)
next
  case vote
  from ballot_inv [OF assms(1,2) pruned_inv [OF assms(3)] assms(4) vote(2)] pruned_resolved [of env w]
  show ?thesis by (auto simp: delegated_def)
qed

text \<open>The worker a tick starts from, re-aimed.\<close>

definition aimed :: "worker_env \<Rightarrow> node_client \<Rightarrow> worker \<Rightarrow> worker" where
  "aimed env cl w = re_aim env cl (follow_local_finality cl (vote_horizon (we_build env) cl) w)"

lemma follow_frame [simp]:
  "wk_height (follow_local_finality cl h w) = wk_height w" "wk_votes (follow_local_finality cl h w) = wk_votes w"
  "wk_rev (follow_local_finality cl h w) = wk_rev w" "wk_round (follow_local_finality cl h w) = wk_round w"
  by (simp_all add: follow_local_finality_def)

lemma aimed_inv:
  assumes "env_sound env" "client_typed cl" "worker_inv env w"
  shows "worker_inv env (aimed env cl w)" "delegated env w \<Longrightarrow> delegated env (aimed env cl w)"
    "ci_finalized cl < wk_height (aimed env cl w)"
proof -
  have "0 < bd_step (we_build env)" using assms(1) by (simp add: env_sound_def)
  then show "ci_finalized cl < wk_height (aimed env cl w)" by (simp add: aimed_def re_aim_def)
  have "worker_inv env (follow_local_finality cl h w)" "delegated env w \<Longrightarrow> delegated env (follow_local_finality cl h w)" for h
    using assms(3) worker_inv_cong [of "follow_local_finality cl h w" w] resolved_cong [of "follow_local_finality cl h w" w]
    by (simp_all add: delegated_def)
  then show "worker_inv env (aimed env cl w)" "delegated env w \<Longrightarrow> delegated env (aimed env cl w)"
    using aim_inv(1) [OF aim_height [OF assms(1,2)]] aim_delegated by (auto simp: aimed_def re_aim_def)
qed

lemma worker_tick_cases:
  assumes "worker_tick env (cl, w) = Some ((cl', w'), evs)"
  obtains (waits) "cl' = cl" "evs = []" "w' = aimed env cl w"
  | (skewed) p n where "target_hash cl (wk_height (aimed env cl w)) = Some (p, True)" "cl' = cl" "evs = []"
      "w' = aimed env cl w\<lparr>wk_at := epoch_pinned_at (we_build env) cl (wk_height (aimed env cl w)), wk_skew := n\<rparr>"
  | (seats) p where "target_hash cl (wk_height (aimed env cl w)) = Some (p, True)"
      "seat_and_vote env cl p (aimed env cl w\<lparr>wk_at := epoch_pinned_at (we_build env) cl (wk_height (aimed env cl w)), wk_skew := 0\<rparr>)
        = Some ((cl', w'), evs)"
  using assms unfolding worker_tick_def Let_def fst_conv snd_conv aimed_def [symmetric]
  by (auto split: option.splits prod.splits if_splits)

lemma worker_tick_inv:
  assumes "env_sound env" "client_typed cl" "worker_inv env w" "worker_tick env (cl, w) = Some ((cl', w'), evs)"
  shows "worker_inv env w' \<and> client_typed cl' \<and> ci_finalized cl \<le> ci_finalized cl'
    \<and> (constant_delegation env \<longrightarrow> delegated env w \<longrightarrow> delegated env w')"
  using assms(4)
proof (cases rule: worker_tick_cases)
  case waits
  with aimed_inv [OF assms(1-3)] assms(2) show ?thesis by simp
next
  case (skewed p n)
  with aimed_inv [OF assms(1-3)] assms(2) worker_inv_cong [of w' "aimed env cl w" env] resolved_cong [of w' "aimed env cl w"]
  show ?thesis by (simp add: delegated_def)
next
  case (seats p)
  let ?w = "aimed env cl w\<lparr>wk_at := epoch_pinned_at (we_build env) cl (wk_height (aimed env cl w)), wk_skew := 0\<rparr>"
  have w: "worker_inv env ?w" "delegated env w \<Longrightarrow> delegated env ?w"
    using aimed_inv [OF assms(1-3)] worker_inv_cong [of ?w "aimed env cl w" env] resolved_cong [of ?w "aimed env cl w"]
    by (simp_all add: delegated_def)
  from seat_and_vote_inv [OF assms(1,2) w(1) conjunct1 [OF client_typed_target [OF assms(2) seats(1)]] seats(2)] w(2)
  show ?thesis by blast
qed

lemma hear_inv:
  assumes "worker_inv env w"
  shows "worker_inv env (hear env msg w)" "delegated env w \<Longrightarrow> delegated env (hear env msg w)"
proof -
  have "vote_sound env w (acc, v)" if "vote_decode msg = Some v" "vt_height v = wk_height w"
    "verify_sig (we_build env) (we_verify env) (we_genesis env) v" for acc v
    using that vote_decode_typed by (simp add: vote_sound_def)
  then show "worker_inv env (hear env msg w)" using assms insert_inv by (auto simp: hear_def Let_def split: option.split)
  show "delegated env w \<Longrightarrow> delegated env (hear env msg w)"
    using insert_resolved by (auto simp: hear_def delegated_def Let_def split: option.split)
qed

section \<open>Reachable workers\<close>

text \<open>Ticks, messages and the chain's own progress, in any order. The chain may reorganise; its finality does not recede.\<close>

inductive worker_reach :: "worker_env \<Rightarrow> node_client \<Rightarrow> worker \<Rightarrow> bool" for env where
  start: "client_typed cl \<Longrightarrow> worker_reach env cl (worker_start env cl)"
| tick: "worker_reach env cl w \<Longrightarrow> worker_tick env (cl, w) = Some ((cl', w'), evs) \<Longrightarrow> worker_reach env cl' w'"
| message: "worker_reach env cl w \<Longrightarrow> worker_reach env cl (hear env msg w)"
| chain: "worker_reach env cl w \<Longrightarrow> client_typed cl' \<Longrightarrow> ci_finalized cl \<le> ci_finalized cl' \<Longrightarrow> worker_reach env cl' w"

lemma worker_reach_inv:
  assumes "worker_reach env cl w" "env_sound env"
  shows "client_typed cl \<and> worker_inv env w \<and> (constant_delegation env \<longrightarrow> delegated env w)"
  using assms(1)
proof induction
  case (start cl)
  then show ?case using aim_inv(1) [OF aim_height [OF assms(2) start]] aim_delegated by (simp add: worker_start_def)
next
  case (tick cl w cl' w' evs)
  then show ?case using worker_tick_inv [OF assms(2)] by blast
next
  case (message cl w msg)
  then show ?case using hear_inv by blast
qed simp

section \<open>A decision taken now has its proof\<close>

lemma finality_observe_decides:
  assumes "finality_observe votes p q n = (n', out)" "decision n = None"
    "(case out of Some d \<Rightarrow> Some d | None \<Rightarrow> decision n') = Some h"
  shows "sb_alpha p \<le> vote_count votes h \<and> q"
proof (cases "leading votes")
  case None
  with assms show ?thesis by (auto simp: finality_observe_def)
next
  case (Some l)
  obtain c m where l: "l = (c, m)" by (cases l)
  from leading_Some(2) [OF Some [unfolded l]] assms Some l show ?thesis
    by (auto simp: finality_observe_def Let_def split: if_splits)
qed

lemma vote_count_keys:
  assumes "key_sorted es"
  shows "vote_count (map (vt_hash \<circ> snd) es) h = card {acc. \<exists>v. (acc, v) \<in> set es \<and> vt_hash v = h}"
proof -
  let ?f = "filter (\<lambda>e. vt_hash (snd e) = h) es"
  have "vote_count (map (vt_hash \<circ> snd) es) h = length ?f" by (simp add: filter_map comp_def)
  moreover have "distinct (map fst ?f)" using key_sorted_distinct [OF key_sorted_filter [OF assms]] .
  then have "length ?f = card (fst ` set ?f)" using distinct_card [of "map fst ?f"] by simp
  moreover have "fst ` set ?f = {acc. \<exists>v. (acc, v) \<in> set es \<and> vt_hash v = h}" by force
  ultimately show ?thesis by simp
qed

lemma fresh_finalisation:
  assumes "env_sound env" "client_typed cl" "worker_inv env w" "resolved w" "length p = 32"
    "fst ` set (wk_votes w) \<subseteq> wk_committee w" "finite (wk_committee w)" "card (wk_committee w) < 2 ^ 16"
    "decision (wk_round w) = None" "ballot env cl p w = ((cl', w'), evs)" "Finalised n h pf \<in> set evs"
  shows "n = wk_height w \<and> wk_committee (voted env p w) = wk_committee w \<and> wk_rev (voted env p w) = wk_rev w
    \<and> verify_proof (we_build env) (we_verify env) (we_genesis env) h n pf (wk_committee w) (wk_rev w) = Inr ()
    \<and> 6 * card (wk_committee w) \<le> 10 * length (wk_votes (voted env p w))"
proof -
  let ?v = "voted env p w"
  have frame: "wk_height ?v = wk_height w" "wk_committee ?v = wk_committee w" "wk_rev ?v = wk_rev w" "wk_round ?v = wk_round w"
    "worker_inv env ?v" "resolved ?v" "fst ` set (wk_votes ?v) \<subseteq> wk_committee w"
    using own_vote_frame own_vote_inv [OF assms(1,3,5)] worker_inv_cong [of ?v "fst (own_vote env p w)" env]
      resolved_cong [of ?v "fst (own_vote env p w)"] assms(4,6) by (simp_all add: voted_def)
  have nofin: "Finalised n h pf \<notin> set (snd (own_vote env p w))" by (auto simp: own_vote_def Let_def split: option.split)
  obtain d where d: "snd (observe_votes (we_build env) ?v) = Some d"
    using assms(10,11) nofin by (cases "snd (observe_votes (we_build env) ?v)") (auto simp: ballot_alt)
  have "Finalised n h pf \<in> set (snd (finalise env cl d (fst (observe_votes (we_build env) ?v))))"
    using assms(10,11) nofin d by (auto simp: ballot_alt)
  then have n: "n = wk_height w" "h = d" "pf = encode_proof (wk_height w) d (wk_votes ?v)"
    using frame(1) by (auto simp: finalise_def Let_def split: option.splits)
  obtain r out where o: "finality_observe (map (vt_hash \<circ> snd) (wk_votes ?v)) (round_params (we_build env) (card (wk_committee w)))
      (reaches_quorum ?v) (wk_round w) = (r, out)" by fastforce
  have "(case out of Some d \<Rightarrow> Some d | None \<Rightarrow> decision r) = Some h"
    using d frame o n(2) by (simp add: observe_votes_def)
  from finality_observe_decides [OF o assms(9) this]
  have wall: "quorum_wall (card (wk_committee w)) \<le> vote_count (map (vt_hash \<circ> snd) (wk_votes ?v)) h"
    and q: "reaches_quorum ?v" by (simp_all add: round_params_def)
  have sorted: "key_sorted (wk_votes ?v)" and sound: "\<And>e. e \<in> set (wk_votes ?v) \<Longrightarrow> vote_sound env ?v e" and small: "wk_height w < 2 ^ 64"
    using frame(1,5) by (auto simp: worker_inv_def)
  have "length (wk_votes ?v) = card (fst ` set (wk_votes ?v))"
    using distinct_card [OF key_sorted_distinct [OF sorted]] by simp
  then have len: "length (wk_votes ?v) < 2 ^ 16" using card_mono [OF assms(7) frame(7)] assms(8) by simp
  have "filter (\<lambda>e. vt_hash (snd e) = h) (wk_votes ?v) \<noteq> []"
    using less_le_trans [OF quorum_wall_pos wall] by (auto simp: filter_map comp_def)
  then obtain e where e: "e \<in> set (wk_votes ?v)" "vt_hash (snd e) = h" by (auto simp: filter_empty_conv)
  then have h: "length h = 32" using sound [OF e(1)] by (simp add: vote_sound_def vote_typed_def)
  have "fst e \<in> wk_committee w" using e frame(7) by auto
  then have pos: "card (wk_committee w) \<noteq> 0" using assms(7) by auto
  have "{acc. \<exists>v. (acc, v) \<in> set (wk_votes ?v) \<and> vt_hash v = h}
      = {resolve_voter (vt_signer v) (wk_rev w) | a v. (a, v) \<in> set (wk_votes ?v) \<and> vt_height v = wk_height w \<and> vt_hash v = h
        \<and> resolve_voter (vt_signer v) (wk_rev w) \<in> wk_committee w
        \<and> verify_sig (we_build env) (we_verify env) (we_genesis env) v}" (is "?A = ?B")
  proof -
    have key: "resolve_voter (vt_signer v) (wk_rev w) = acc" "vt_height v = wk_height w" "acc \<in> wk_committee w"
      "verify_sig (we_build env) (we_verify env) (we_genesis env) v" if "(acc, v) \<in> set (wk_votes ?v)" for acc v
      using that sound [OF that] frame by (auto simp: resolved_def vote_sound_def)
    show ?thesis
    proof (intro set_eqI iffI)
      fix acc assume "acc \<in> ?A"
      then obtain v where v: "(acc, v) \<in> set (wk_votes ?v)" "vt_hash v = h" by (elim CollectE exE conjE)
      from key [OF v(1)] v show "acc \<in> ?B" by (intro CollectI exI [of _ acc] exI [of _ v]) simp
    next
      fix acc assume "acc \<in> ?B"
      then obtain a v where v: "acc = resolve_voter (vt_signer v) (wk_rev w)" "(a, v) \<in> set (wk_votes ?v)" "vt_hash v = h"
        by (elim CollectE exE conjE)
      with key(1) [OF v(2)] show "acc \<in> ?A" by auto
    qed
  qed
  with wall vote_count_keys [OF sorted, of h]
  have "quorum_wall (card (wk_committee w)) \<le> card ?B" by simp
  moreover have "\<forall>(a, v)\<in>set (wk_votes ?v). vote_typed v" using sound by (auto simp: vote_sound_def)
  ultimately have "verify_proof (we_build env) (we_verify env) (we_genesis env) h n pf (wk_committee w) (wk_rev w) = Inr ()"
    unfolding n(1,3) n(2) [symmetric] using own_proof_verifies [OF small h len] pos by blast
  with n(1) frame q show ?thesis by (simp add: reaches_quorum_def)
qed

lemma finite_committee: "finite (committee_for_height bd net height at)"
  by (auto simp: committee_for_height_def elect_finality_committee_def finality_draw_def Let_def)

lemma aimed_cases:
  "aimed env cl w = follow_local_finality cl (vote_horizon (we_build env) cl) w
    \<or> (\<exists>h. aimed env cl w = aim env cl h (follow_local_finality cl (vote_horizon (we_build env) cl) w))"
  by (auto simp: aimed_def re_aim_def)

end
