(* ===== verification/FinalityImport.thy ===== *)
theory FinalityImport
imports FinalityWorker
begin

text \<open>
  How finality travels (\<open>chain/node/src/finality.rs\<close>, steps 3b and 3c): the proof a justification carries is verified on
  block import and on justification import, and the proof worker (\<open>run_proof_worker\<close>) publishes the proof of the node's own
  latest finalised block, caches the highest proof it hears and finalises with it once it has the block. The
  client's \<open>finalize_block\<close> and its inner block import are parameters, as in the worker of votes.
\<close>

section \<open>Verification on import\<close>

definition check_proof :: "worker_env \<Rightarrow> node_client \<Rightarrow> byte list \<Rightarrow> nat \<Rightarrow> nat \<Rightarrow> byte list \<Rightarrow> proof_error + unit" where
  "check_proof env cl hsh number height pf =
     (let at = epoch_pinned_at (we_build env) cl height;
          committee = committee_for_height (we_build env) (we_net env) height at;
          delegation = vote_keys_rev_for_height (we_net env) at
      in verify_proof (we_build env) (we_verify env) (we_genesis env) hsh number pf committee delegation)"

definition ENGINE_ID :: "byte list" where "ENGINE_ID = bytes_of ''WTC1''"

text \<open>A block on its way into the inner import: its hash, its number and the justifications attached by engine.\<close>

record import_params =
  ip_hash :: "byte list"
  ip_number :: nat
  ip_justifications :: "(byte list \<rightharpoonup> byte list) option"
  ip_finalized :: bool
  ip_longest_chain :: bool

definition import_block :: "worker_env \<Rightarrow> node_client \<Rightarrow> import_params \<Rightarrow> import_params" where
  "import_block env cl block =
     (case ip_justifications block of
        None \<Rightarrow> block
      | Some justifications \<Rightarrow>
          (case justifications ENGINE_ID of
             None \<Rightarrow> block
           | Some pf \<Rightarrow>
               (case check_proof env cl (ip_hash block) (ip_number block) (ip_number block) pf of
                  Inl _ \<Rightarrow> block\<lparr>ip_justifications := None\<rparr>
                | Inr _ \<Rightarrow> block)))"

definition import_verify :: "import_params \<Rightarrow> import_params" where
  "import_verify block = block\<lparr>ip_finalized := False, ip_longest_chain := True\<rparr>"

datatype import_error = Rejected proof_error | FinaliseFailed

definition import_justification ::
  "worker_env \<Rightarrow> node_client \<Rightarrow> byte list \<Rightarrow> nat \<Rightarrow> byte list \<times> byte list \<Rightarrow> import_error + node_client" where
  "import_justification env cl hsh number justification =
     (let (engine, pf) = justification in
      if engine \<noteq> ENGINE_ID then Inr cl
      else case check_proof env cl hsh number number pf of
             Inl e \<Rightarrow> Inl (Rejected e)
           | Inr _ \<Rightarrow> (case we_finalize env cl hsh pf of None \<Rightarrow> Inl FinaliseFailed | Some cl' \<Rightarrow> Inr cl'))"

section \<open>The gossip of proofs\<close>

definition proof_topic :: nat where "proof_topic = 2 ^ 64 - 1"

definition proof_validate :: "nat \<Rightarrow> nat \<Rightarrow> byte list \<Rightarrow> verdict_on_message" where
  "proof_validate watermark horizon data =
     (case proof_header data of
        Some (height, _) \<Rightarrow>
          if height > watermark then
            if height > horizon then ProcessAndDiscard proof_topic else ProcessAndKeep proof_topic
          else Discard
      | None \<Rightarrow> Discard)"

definition proof_expired :: "nat \<Rightarrow> byte list \<Rightarrow> bool" where
  "proof_expired watermark data = (case proof_header data of Some (height, _) \<Rightarrow> height < watermark | None \<Rightarrow> True)"

definition proof_allowed :: "nat \<Rightarrow> nat \<Rightarrow> byte list \<Rightarrow> bool" where
  "proof_allowed watermark horizon data =
     (case proof_header data of Some (height, _) \<Rightarrow> height \<ge> watermark \<and> height \<le> horizon | None \<Rightarrow> False)"

section \<open>The proof worker\<close>

record proof_worker =
  pw_watermark :: nat
  pw_horizon :: nat
  pw_pending :: "(nat \<times> byte list \<times> byte list) option"

datatype proof_event =
    Published "byte list"
  | Applied nat "byte list" "byte list"

definition proof_worker_start :: "node_client \<Rightarrow> proof_worker" where
  "proof_worker_start cl = \<lparr>pw_watermark = ci_finalized cl, pw_horizon = ci_best cl, pw_pending = None\<rparr>"

text \<open>The result: the client, the watermark, whether the block is final now, and what was finalised. Block numbers are \<open>u32\<close>, the height of a proof
  \<open>u64\<close>: the cast truncates.\<close>

definition as_u32 :: "nat \<Rightarrow> nat" where "as_u32 n = n mod 2 ^ 32"

definition try_apply_proof ::
  "worker_env \<Rightarrow> node_client \<Rightarrow> nat \<Rightarrow> nat \<Rightarrow> byte list \<Rightarrow> byte list \<Rightarrow> (node_client \<times> nat) \<times> bool \<times> proof_event list" where
  "try_apply_proof env cl watermark height hsh pf =
     (if height \<le> ci_finalized cl then ((cl, ci_finalized cl), True, [])
      else if ci_hash cl (as_u32 height) \<noteq> Some hsh then ((cl, watermark), False, [])
      else case check_proof env cl hsh height (as_u32 height) pf of
             Inl _ \<Rightarrow> ((cl, watermark), False, [])
           | Inr _ \<Rightarrow>
               (case we_finalize env cl hsh pf of
                  Some cl' \<Rightarrow> ((cl', height), True, [Applied height hsh pf])
                | None \<Rightarrow> ((cl, watermark), False, [])))"

definition publish_own :: "node_client \<Rightarrow> proof_event list" where
  "publish_own cl =
     (if ci_finalized cl > 0 then
        (case ci_justification cl (ci_finalized_hash cl) of Some pf \<Rightarrow> [Published pf] | None \<Rightarrow> [])
      else [])"

definition proof_tick :: "worker_env \<Rightarrow> node_client \<times> proof_worker \<Rightarrow> (node_client \<times> proof_worker) \<times> proof_event list" where
  "proof_tick env s =
     (let cl = fst s;
          w = (snd s)\<lparr>pw_watermark := max (pw_watermark (snd s)) (ci_finalized cl), pw_horizon := ci_best cl\<rparr>;
          published = publish_own cl
      in case pw_pending w of
           None \<Rightarrow> ((cl, w), published)
         | Some (height, hsh, pf) \<Rightarrow>
             (case try_apply_proof env cl (pw_watermark w) height hsh pf of ((cl', wm), done1, evs) \<Rightarrow>
               let w1 = w\<lparr>pw_watermark := wm\<rparr>;
                   w2 = (if done1 then w1\<lparr>pw_pending := None\<rparr>
                         else if height \<le> ci_finalized cl' then w1\<lparr>pw_pending := None\<rparr> else w1)
               in ((cl', w2), published @ evs)))"

definition proof_hear ::
  "worker_env \<Rightarrow> byte list \<Rightarrow> node_client \<times> proof_worker \<Rightarrow> (node_client \<times> proof_worker) \<times> proof_event list" where
  "proof_hear env msg s =
     (let cl = fst s; w = snd s in
      case proof_header msg of
        None \<Rightarrow> (s, [])
      | Some (height, hsh) \<Rightarrow>
          if height > pw_watermark w then
            let take1 = (case pw_pending w of Some (h, _, _) \<Rightarrow> height > h | None \<Rightarrow> True);
                w1 = (if take1 then w\<lparr>pw_pending := Some (height, hsh, msg)\<rparr> else w)
            in (case try_apply_proof env cl (pw_watermark w1) height hsh msg of ((cl', wm), done1, evs) \<Rightarrow>
                 let w2 = w1\<lparr>pw_watermark := wm\<rparr>
                 in ((cl', if done1 then w2\<lparr>pw_pending := None\<rparr> else w2), evs))
          else (s, []))"

section \<open>What a node applies\<close>

lemma as_u32_small: "n < 2 ^ 32 \<Longrightarrow> as_u32 n = n"
  by (simp add: as_u32_def)

lemma check_proof_header:
  "check_proof env cl hsh n height pf = Inr () \<Longrightarrow> proof_header pf = Some (n, hsh)"
  unfolding check_proof_def Let_def verify_proof_iff by (elim conjE) (simp only: proof_header_def not_less [symmetric] if_False)

lemma try_apply_cases:
  assumes "try_apply_proof env cl wm height hsh pf = ((cl', wm'), ok, evs)"
  obtains (final) "height \<le> ci_finalized cl" "cl' = cl" "wm' = ci_finalized cl" "ok" "evs = []"
  | (no) "cl' = cl" "wm' = wm" "\<not> ok" "evs = []"
  | (applied) "ci_finalized cl < height" "ci_hash cl (as_u32 height) = Some hsh"
      "check_proof env cl hsh height (as_u32 height) pf = Inr ()" "we_finalize env cl hsh pf = Some cl'"
      "wm' = height" "ok" "evs = [Applied height hsh pf]"
  using assms unfolding try_apply_proof_def by (auto split: if_splits sum.splits option.splits)

text \<open>Every block finalised with a proof, with the client at that moment.\<close>

inductive proof_reach :: "worker_env \<Rightarrow> node_client \<Rightarrow> proof_worker \<Rightarrow> proof_event list \<Rightarrow> bool" for env where
  start: "proof_reach env cl (proof_worker_start cl) []"
| tick: "proof_reach env cl w log \<Longrightarrow> proof_tick env (cl, w) = ((cl', w'), evs) \<Longrightarrow> proof_reach env cl' w' (log @ evs)"
| message: "proof_reach env cl w log \<Longrightarrow> proof_hear env msg (cl, w) = ((cl', w'), evs) \<Longrightarrow> proof_reach env cl' w' (log @ evs)"
| chain: "proof_reach env cl w log \<Longrightarrow> ci_finalized cl \<le> ci_finalized cl' \<Longrightarrow> proof_reach env cl' w log"

lemma publish_own_no: "Applied n h pf \<notin> set (publish_own cl)"
proof -
  have "publish_own cl = [] \<or> (\<exists>x. publish_own cl = [Published x])"
    by (cases "ci_justification cl (ci_finalized_hash cl)") (simp_all add: publish_own_def)
  then show ?thesis by (elim disjE exE) simp_all
qed

lemma tick_applied:
  assumes "proof_tick env (cl, w) = ((cl', w'), evs)" "Applied n h pf \<in> set evs"
  shows "ci_finalized cl < n \<and> ci_hash cl (as_u32 n) = Some h \<and> check_proof env cl h n (as_u32 n) pf = Inr ()
    \<and> we_finalize env cl h pf = Some cl'"
proof -
  note no = publish_own_no [of n h pf cl]
  obtain height hsh pf0 where p: "pw_pending w = Some (height, hsh, pf0)"
  proof (cases "pw_pending w")
    case None
    then have "evs = publish_own cl" using assms(1) by (auto simp: proof_tick_def Let_def)
    with assms(2) no show thesis by simp
  next
    case (Some a)
    with that show thesis by (cases a) simp
  qed
  let ?wm = "max (pw_watermark w) (ci_finalized cl)"
  obtain c wm ok es where t: "try_apply_proof env cl ?wm height hsh pf0 = ((c, wm), ok, es)"
    by (metis surj_pair)
  have "cl' = c \<and> evs = publish_own cl @ es"
    using assms(1) by (simp add: proof_tick_def Let_def p t)
  with assms(2) no have "c = cl'" "Applied n h pf \<in> set es" by auto
  with t show ?thesis by (cases rule: try_apply_cases) auto
qed

lemma hear_applied:
  assumes "proof_hear env msg (cl, w) = ((cl', w'), evs)" "Applied n h pf \<in> set evs"
  shows "ci_finalized cl < n \<and> ci_hash cl (as_u32 n) = Some h \<and> check_proof env cl h n (as_u32 n) pf = Inr ()
    \<and> we_finalize env cl h pf = Some cl'"
proof -
  obtain height hsh where p: "proof_header msg = Some (height, hsh)" "pw_watermark w < height"
    using assms by (auto simp: proof_hear_def Let_def split: option.splits if_splits)
  define w1 where "w1 = (if (case pw_pending w of Some (h, _, _) \<Rightarrow> height > h | None \<Rightarrow> True)
    then w\<lparr>pw_pending := Some (height, hsh, msg)\<rparr> else w)"
  obtain c wm ok es where t: "try_apply_proof env cl (pw_watermark w1) height hsh msg = ((c, wm), ok, es)"
    by (metis surj_pair)
  have "c = cl'" "es = evs" using assms(1) p t by (simp_all add: proof_hear_def Let_def w1_def [symmetric])
  with t assms(2) show ?thesis by (cases rule: try_apply_cases) auto
qed

lemma imported_earned:
  assumes "proof_reach env cl w log" "Applied n h pf \<in> set log"
  shows "\<exists>c w0 log0. proof_reach env c w0 log0 \<and> ci_finalized c < n \<and> ci_hash c (as_u32 n) = Some h
    \<and> check_proof env c h n (as_u32 n) pf = Inr ()"
  using assms
proof (induction)
  case (tick cl w log cl' w' evs)
  then show ?case using tick_applied [OF tick.hyps(2)] by (cases "Applied n h pf \<in> set log") auto
next
  case (message cl w log msg cl' w' evs)
  then show ?case using hear_applied [OF message.hyps(2)] by (cases "Applied n h pf \<in> set log") auto
qed auto

text \<open>A node that has the block of a sound proof applies it on hearing it.\<close>

lemma hear_applies:
  assumes "check_proof env cl h n n pf = Inr ()" "n < 2 ^ 32" "ci_finalized cl < n" "pw_watermark w < n"
    "ci_hash cl n = Some h" "we_finalize env cl h pf = Some cl'"
  shows "\<exists>w'. proof_hear env pf (cl, w) = ((cl', w'), [Applied n h pf]) \<and> pw_pending w' = None \<and> pw_watermark w' = n"
proof -
  note hd = check_proof_header [OF assms(1)]
  have t: "try_apply_proof env cl wm n h pf = ((cl', n), True, [Applied n h pf])" for wm
    using assms by (simp add: try_apply_proof_def as_u32_small)
  show ?thesis using assms(4) by (simp add: proof_hear_def hd t Let_def)
qed

text \<open>
  The cache holds the highest header heard, verified or not. While it holds a height that is not below that of a sound
  proof, the proof is forgotten if its block is not there yet, and no later tick applies it.
\<close>

lemma unverified_header_blocks_cache:
  assumes "pw_pending w = Some (hj, hashj, junk)" "n \<le> hj" "proof_header pf = Some (n, h)"
    "ci_finalized cl < n" "pw_watermark w < n" "ci_hash cl (as_u32 n) = None"
    "ci_hash cl2 (as_u32 hj) \<noteq> Some hashj" "ci_finalized cl2 < hj"
  shows "proof_hear env pf (cl, w) = ((cl, w), [])"
    "\<exists>w'. proof_tick env (cl2, w) = ((cl2, w'), publish_own cl2) \<and> pw_pending w' = Some (hj, hashj, junk)"
  using assms by (simp_all add: proof_hear_def proof_tick_def try_apply_proof_def Let_def)

section \<open>Blocks keep coming\<close>

lemma import_block_keeps:
  "ip_hash (import_block env cl block) = ip_hash block" "ip_number (import_block env cl block) = ip_number block"
  "ip_finalized (import_block env cl block) = ip_finalized block"
  "ip_longest_chain (import_block env cl block) = ip_longest_chain block"
  by (simp_all add: import_block_def split: option.split sum.split)

section \<open>The gossip of proofs and of votes\<close>

text \<open>
  What is kept is sent on and not expired. The proof at the node's own finalised height still goes out to those behind,
  the votes at that height do not.
\<close>

lemma kept_is_allowed:
  "proof_validate wm hz d = ProcessAndKeep t \<Longrightarrow> proof_allowed wm hz d \<and> \<not> proof_expired wm d"
  "vote_validate env wm hz d = ProcessAndKeep t \<Longrightarrow> vote_allowed wm hz t \<and> \<not> vote_expired wm t"
  "proof_header d = Some (wm, h) \<Longrightarrow> wm \<le> hz \<Longrightarrow> proof_allowed wm hz d \<and> \<not> proof_expired wm d"
  "\<not> vote_allowed wm hz wm \<and> vote_expired wm wm"
  by (auto simp: proof_validate_def proof_allowed_def proof_expired_def vote_validate_def vote_allowed_def vote_expired_def
      split: option.splits if_splits)

end
