(* ===== verification/FinalityTheorems.thy ===== *)
theory FinalityTheorems
imports FinalityProps FinalityImport
begin

text \<open>
  The properties of the finality gadget, and a network of one member on which they are seen at work: its account holds all
  the reputation, so with the main network's \<open>tau\<close> it is elected whatever the draw.
\<close>

section \<open>A network of one member\<close>

definition demo_account :: key where "demo_account = replicate 32 1"
definition demo_hash :: "byte list" where "demo_hash = replicate 32 3"
definition demo_signature :: "byte list" where "demo_signature = replicate 64 2"

definition demo_net :: chain_api where
  "demo_net = \<lparr>api_reputation = \<lambda>_. Some [(demo_account, 1)], api_halted = \<lambda>at. Some (at = zero_hash), api_committed = \<lambda>_. Some [],
     api_seed = \<lambda>_. None, api_vote_keys = \<lambda>_. Some [(demo_account, demo_account)], api_version = \<lambda>_. Some 7\<rparr>"

definition demo_build :: build where "demo_build = mainnet\<lparr>bd_beta := 1\<rparr>"

definition demo_env :: worker_env where
  "demo_env = \<lparr>we_build = demo_build, we_net = demo_net, we_genesis = zero_hash, we_spec = 7,
     we_verify = \<lambda>signer sig m. sig = demo_signature, we_keys = Some (demo_account, \<lambda>_. demo_signature),
     we_finalize = \<lambda>cl d pf. if d = demo_hash then Some (cl\<lparr>ci_finalized := ci_best cl\<rparr>) else None\<rparr>"

definition demo_client :: node_client where
  "demo_client = \<lparr>ci_best = 20, ci_best_hash = demo_hash, ci_finalized = 0, ci_finalized_hash = zero_hash,
     ci_hash = \<lambda>n. if n \<le> 20 then Some demo_hash else None, ci_justification = \<lambda>_. None\<rparr>"

lemma lone_committee: "committee_for_height demo_build demo_net h at = (if at = zero_hash then {} else {demo_account})"
proof (cases "at = zero_hash")
  case True
  then show ?thesis by (simp add: committee_for_height_def elect_finality_committee_def unwrap_or_def demo_net_def Let_def)
next
  case False
  then show ?thesis
    by (simp add: committee_for_height_def unwrap_or_def demo_net_def sole_member_elected Let_def demo_build_def mainnet_def)
qed

lemma demo_rev: "vote_keys_rev_for_height demo_net at = [demo_account \<mapsto> demo_account]"
  by (simp add: vote_keys_rev_for_height_def demo_net_def unwrap_or_def)

lemma demo_env_simps [simp]:
  "we_build demo_env = demo_build" "we_net demo_env = demo_net" "we_genesis demo_env = zero_hash" "we_spec demo_env = 7"
  "we_verify demo_env = (\<lambda>signer sig m. sig = demo_signature)" "we_keys demo_env = Some (demo_account, \<lambda>_. demo_signature)"
  "we_finalize demo_env cl d pf = (if d = demo_hash then Some (cl\<lparr>ci_finalized := ci_best cl\<rparr>) else None)"
  by (simp_all add: demo_env_def)

lemma demo_sound: "env_sound demo_env"
  by (auto simp: env_sound_def demo_env_def demo_build_def mainnet_def u32_max_def demo_account_def demo_signature_def
      client_typed_def split: if_splits)

lemma demo_typed: "client_typed demo_client"
  by (auto simp: client_typed_def demo_client_def u32_max_def demo_hash_def split: if_splits)

lemma demo_hash_zero: "demo_hash \<noteq> zero_hash"
  by (simp add: demo_hash_def zero_hash_def)

text \<open>The member's first tick: it votes, its vote is a quorum of one, the block at height 15 is final.\<close>

definition demo_vote :: "nat \<Rightarrow> vote" where
  "demo_vote h = \<lparr>vt_height = h, vt_hash = demo_hash, vt_signer = demo_account, vt_sig = demo_signature\<rparr>"

definition demo_proof :: "byte list" where "demo_proof = encode_proof 15 demo_hash [(demo_account, demo_vote 15)]"

lemma demo_pinned: "n \<le> 20 \<Longrightarrow> epoch_pinned_at bd demo_client n = demo_hash"
  by (simp add: epoch_pinned_at_def demo_client_def epoch_of_def le_trans [OF div_times_less_eq_dividend])

lemma demo_start: "wk_height (worker_start demo_env demo_client) = 15"
  "wk_votes (worker_start demo_env demo_client) = []"
  "wk_round (worker_start demo_env demo_client) = new_node demo_hash"
  by (simp_all add: worker_start_def demo_env_def demo_client_def demo_build_def mainnet_def fresh_round_def
      target_hash_def unwrap_or_def)

lemma demo_ballot:
  assumes p: "wk_height w = 15" "wk_votes w = []" "wk_round w = new_node demo_hash" "wk_committee w = {demo_account}"
    "wk_rev w = [demo_account \<mapsto> demo_account]"
  shows "\<exists>cl' w'. ballot demo_env demo_client demo_hash w
    = ((cl', w'), [Gossiped 15 (vote_encode (demo_vote 15)), Finalised 15 demo_hash demo_proof])"
proof -
  have v: "own_vote demo_env demo_hash w = (w\<lparr>wk_votes := [(demo_account, demo_vote 15)]\<rparr>, [Gossiped 15 (vote_encode (demo_vote 15))])"
    by (simp add: own_vote_def p resolve_voter_def demo_vote_def Let_def)
  let ?q = "count_below (w\<lparr>wk_votes := [(demo_account, demo_vote 15)]\<rparr>)"
  have d: "snd (observe_votes demo_build ?q) = Some demo_hash"
    by (simp add: observe_votes_def p round_params_def quorum_wall_def reaches_quorum_def finality_observe_def new_node_def
        leading_def tally_def demo_vote_def demo_build_def mainnet_def Let_def)
  have "snd (finalise demo_env demo_client demo_hash (fst (observe_votes demo_build ?q))) = [Finalised 15 demo_hash demo_proof]"
    by (simp add: finalise_def p demo_proof_def Let_def)
  then show ?thesis
    by (cases "fst (finalise demo_env demo_client demo_hash (fst (observe_votes demo_build ?q)))")
      (simp add: ballot_alt voted_def v d)
qed

lemma demo_tick:
  "\<exists>cl' w'. worker_tick demo_env (demo_client, worker_start demo_env demo_client)
     = Some ((cl', w'), [Gossiped 15 (vote_encode (demo_vote 15)), Finalised 15 demo_hash demo_proof])"
proof -
  define W where "W = aimed demo_env demo_client (worker_start demo_env demo_client)"
  have w: "wk_height W = 15" "wk_votes W = []" "wk_round W = new_node demo_hash"
    by (simp_all add: W_def aimed_def re_aim_def demo_start) (simp_all add: demo_client_def)
  have t: "target_hash demo_client 15 = Some (demo_hash, True)" by (simp add: target_hash_def demo_client_def)
  define P where "P = pruned demo_env (W\<lparr>wk_at := demo_hash, wk_skew := 0\<rparr>)"
  have p: "wk_height P = 15" "wk_votes P = []" "wk_round P = new_node demo_hash" "wk_committee P = {demo_account}"
    "wk_rev P = [demo_account \<mapsto> demo_account]"
    by (simp_all add: P_def w lone_committee demo_rev demo_hash_zero)
  from demo_ballot [OF this] obtain cl' w' where "ballot demo_env demo_client demo_hash P
      = ((cl', w'), [Gossiped 15 (vote_encode (demo_vote 15)), Finalised 15 demo_hash demo_proof])" by blast
  then have "seat_and_vote demo_env demo_client demo_hash (W\<lparr>wk_at := demo_hash, wk_skew := 0\<rparr>)
      = Some ((cl', w'), [Gossiped 15 (vote_encode (demo_vote 15)), Finalised 15 demo_hash demo_proof])"
    unfolding seat_and_vote_alt P_def [symmetric] using p(4) by simp
  moreover have "worker_tick demo_env (demo_client, worker_start demo_env demo_client)
      = seat_and_vote demo_env demo_client demo_hash (W\<lparr>wk_at := demo_hash, wk_skew := 0\<rparr>)"
    unfolding worker_tick_def Let_def fst_conv snd_conv aimed_def [symmetric] W_def [symmetric] w(1)
    by (simp add: t demo_pinned demo_net_def)
  ultimately show ?thesis by auto
qed

section \<open>Where a proof fails\<close>

text \<open>
  The proof is packed from the votes held when the block is finalised. A follower of the chain without a key whose round has
  decided and whose finalisation failed, so that it retries with the votes of a later tick, and a worker whose votes were
  admitted under another delegation finalise with a proof that no node accepts.
\<close>

lemma ballot_retries:
  assumes "we_keys env = None" "decision (wk_round w) = Some h"
    "we_finalize env cl h (encode_proof (wk_height w) h (wk_votes w)) = Some cl1"
  shows "\<exists>s. ballot env cl p w = (s, [Finalised (wk_height w) h (encode_proof (wk_height w) h (wk_votes w))])"
proof -
  have "snd (observe_votes (we_build env) (count_below w)) = Some h"
    by (simp add: observe_votes_def finality_observe_def assms(2))
  then show ?thesis using assms(3)
    by (simp add: ballot_alt voted_def own_vote_def assms(1) finalise_def Let_def)
qed

lemma too_few_backers:
  assumes "worker_inv env w" "length h = 32" "length (wk_votes w) < 2 ^ 16"
    "card {resolve_voter (vt_signer v) delegation | acc v. (acc, v) \<in> set (wk_votes w) \<and> vt_hash v = h} < quorum_wall (card committee)"
  shows "verify_proof (we_build env) (we_verify env) (we_genesis env) h (wk_height w)
    (encode_proof (wk_height w) h (wk_votes w)) committee delegation \<noteq> Inr ()"
proof -
  let ?A = "{resolve_voter (vt_signer v) delegation | acc v. (acc, v) \<in> set (wk_votes w) \<and> vt_hash v = h}"
  let ?B = "{resolve_voter (vt_signer v) delegation | a v. (a, v) \<in> set (wk_votes w) \<and> vt_height v = wk_height w \<and> vt_hash v = h
      \<and> resolve_voter (vt_signer v) delegation \<in> committee \<and> verify_sig (we_build env) (we_verify env) (we_genesis env) v}"
  have "?A \<subseteq> (\<lambda>(acc, v). resolve_voter (vt_signer v) delegation) ` set (wk_votes w)" by force
  then have "finite ?A" by (rule finite_subset) simp
  then have "card ?B \<le> card ?A" by (rule card_mono) blast
  with assms(4) have "\<not> quorum_wall (card committee) \<le> card ?B" by linarith
  moreover have "wk_height w < 2 ^ 64" "\<forall>(a, v)\<in>set (wk_votes w). vote_typed v"
    using assms(1) by (auto simp: worker_inv_def vote_sound_def)
  ultimately show ?thesis using own_proof_verifies [of "wk_height w" h "wk_votes w"] assms(2,3) by blast
qed

section \<open>Properties\<close>

text \<open>
  C37: a decision comes with a proof that convinces everybody. Whatever votes, forged or genuine, a worker has heard and
  however the chain has moved, if it finalises a block on the tick on which its round decides, then the proof it attaches
  is accepted by \<open>verify_proof\<close> at every node that reads the same epoch's start, provided that the signers of the votes
  held still resolve to the accounts they were counted for and the committee has less than 65536 seats. So a
  follower with the same block at that height that hears the proof finalises that block at once.
\<close>

theorem decision_proof_accepted:
  assumes "env_sound env" "worker_reach env cl w" "worker_tick env (cl, w) = Some ((cl', w'), evs)"
    "Finalised n h pf \<in> set evs" "decision (wk_round w) = None"
    "\<forall>(acc, v)\<in>set (wk_votes w).
       resolve_voter (vt_signer v) (vote_keys_rev_for_height (we_net env) (epoch_pinned_at (we_build env) cl (wk_height w))) = acc"
    "\<forall>height at. card (committee_for_height (we_build env) (we_net env) height at) < 2 ^ 16"
  defines "at \<equiv> epoch_pinned_at (we_build env) cl n"
  shows "verify_proof (we_build env) (we_verify env) (we_genesis env) h n pf
      (committee_for_height (we_build env) (we_net env) n at) (vote_keys_rev_for_height (we_net env) at) = Inr ()
    \<and> (\<forall>env2 cl2 w2 cl2'. we_build env2 = we_build env \<longrightarrow> we_net env2 = we_net env \<longrightarrow> we_genesis env2 = we_genesis env \<longrightarrow>
        we_verify env2 = we_verify env \<longrightarrow> epoch_pinned_at (we_build env) cl2 n = at \<longrightarrow> ci_hash cl2 n = Some h \<longrightarrow>
        ci_finalized cl2 < n \<longrightarrow> pw_watermark w2 < n \<longrightarrow> we_finalize env2 cl2 h pf = Some cl2' \<longrightarrow>
        (\<exists>w2'. proof_hear env2 pf (cl2, w2) = ((cl2', w2'), [Applied n h pf])))"
proof -
  note inv = worker_reach_inv [OF assms(2,1)]
  let ?ok = "verify_proof (we_build env) (we_verify env) (we_genesis env) h n pf
      (committee_for_height (we_build env) (we_net env) n at) (vote_keys_rev_for_height (we_net env) at) = Inr () \<and> n < 2 ^ 32"
  have undecided: "decision (wk_round (aimed env cl w)) = None"
    using aimed_cases [of env cl w] assms(5) by (auto simp: fresh_round_def new_node_def)
  have small: "m < 2 ^ 32" if "target_hash cl m = Some (q, True)" for m q
    using client_typed_target [OF conjunct1 [OF inv] that] conjunct1 [OF inv] by (simp add: client_typed_def u32_max_def)
  have here: ?ok if b: "ballot env cl p u = ((cl', w'), evs)" and u: "worker_inv env u" "resolved u"
      "fst ` set (wk_votes u) \<subseteq> wk_committee u" "decision (wk_round u) = None"
      "wk_committee u = committee_for_height (we_build env) (we_net env) (wk_height u) (epoch_pinned_at (we_build env) cl (wk_height u))"
      "wk_rev u = vote_keys_rev_for_height (we_net env) (epoch_pinned_at (we_build env) cl (wk_height u))"
      and p: "length p = 32" and t: "target_hash cl (wk_height u) = Some (q, True)" for p q u
  proof -
    have "finite (wk_committee u)" "card (wk_committee u) < 2 ^ 16" using u(5) finite_committee assms(7) by auto
    note f = fresh_finalisation [OF assms(1) conjunct1 [OF inv] u(1,2) p u(3) this u(4) b assms(4)]
    from f have "n = wk_height u"
      "verify_proof (we_build env) (we_verify env) (we_genesis env) h n pf (wk_committee u) (wk_rev u) = Inr ()" by blast+
    with small [OF t] show ?thesis unfolding at_def u(5,6) by simp
  qed
  from assms(3) have ok: ?ok
  proof (cases rule: worker_tick_cases)
    case (seats p)
    let ?a = "aimed env cl w\<lparr>wk_at := epoch_pinned_at (we_build env) cl (wk_height (aimed env cl w)), wk_skew := 0\<rparr>"
    have a: "worker_inv env ?a" using aimed_inv(1) [OF assms(1)] inv worker_inv_cong [of ?a "aimed env cl w" env] by simp
    have p: "length p = 32" using client_typed_target [OF _ seats(1)] inv by blast
    have held: "(acc, v) \<in> set (wk_votes (aimed env cl w)) \<Longrightarrow> resolve_voter (vt_signer v)
        (vote_keys_rev_for_height (we_net env) (epoch_pinned_at (we_build env) cl (wk_height (aimed env cl w)))) = acc" for acc v
      using aimed_cases [of env cl w] assms(6) by auto
    from assms(1) conjunct1 [OF inv] seats(2) show ?thesis
    proof (cases rule: seat_and_vote_cases)
      case (skip_vote hh q)
      have hh: "hh < 2 ^ 64" "length q = 32"
        using small [OF skip_vote(2)] client_typed_target [OF conjunct1 [OF inv] skip_vote(2)] by simp_all
      show ?thesis by (rule here [OF skip_vote(4) aim_inv(1) [OF hh(1)] aim_inv(2) _ _ _ _ hh(2), of q])
        (simp_all add: fresh_round_def new_node_def skip_vote(2))
    next
      case vote
      show ?thesis
        by (rule here [OF vote(2) pruned_inv [OF a] _ _ _ _ _ p, of p]) (use held undecided seats(1) in \<open>auto simp: resolved_def\<close>)
    qed (use assms(4) in simp_all)
  qed (use assms(4) in simp_all)
  have "\<exists>w2'. proof_hear env2 pf (cl2, w2) = ((cl2', w2'), [Applied n h pf])"
    if "we_build env2 = we_build env" "we_net env2 = we_net env" "we_genesis env2 = we_genesis env" "we_verify env2 = we_verify env"
      "epoch_pinned_at (we_build env) cl2 n = at" "ci_hash cl2 n = Some h" "ci_finalized cl2 < n" "pw_watermark w2 < n"
      "we_finalize env2 cl2 h pf = Some cl2'" for env2 cl2 w2 cl2'
  proof -
    have "check_proof env2 cl2 h n n pf = Inr ()" using ok that(1-5) by (simp add: check_proof_def Let_def)
    from hear_applies [OF this conjunct2 [OF ok] that(7,8,6,9)] show ?thesis by blast
  qed
  with ok show ?thesis by blast
qed

theorem decision_proof_accepted_witness:
  "verify_proof demo_build (\<lambda>signer sig m. sig = demo_signature) zero_hash demo_hash 15 demo_proof {demo_account}
     [demo_account \<mapsto> demo_account] = Inr ()
   \<and> (\<exists>w2'. proof_hear demo_env demo_proof (demo_client, proof_worker_start demo_client)
        = ((demo_client\<lparr>ci_finalized := 20\<rparr>, w2'), [Applied 15 demo_hash demo_proof]))"
proof -
  obtain cl' w' where t: "worker_tick demo_env (demo_client, worker_start demo_env demo_client)
     = Some ((cl', w'), [Gossiped 15 (vote_encode (demo_vote 15)), Finalised 15 demo_hash demo_proof])"
    using demo_tick by blast
  have fin: "Finalised 15 demo_hash demo_proof \<in> set [Gossiped 15 (vote_encode (demo_vote 15)), Finalised 15 demo_hash demo_proof]"
    by simp
  have start: "decision (wk_round (worker_start demo_env demo_client)) = None"
    "\<forall>(acc, v)\<in>set (wk_votes (worker_start demo_env demo_client)). resolve_voter (vt_signer v) (vote_keys_rev_for_height (we_net demo_env)
      (epoch_pinned_at (we_build demo_env) demo_client (wk_height (worker_start demo_env demo_client)))) = acc"
    "\<forall>height at. card (committee_for_height (we_build demo_env) (we_net demo_env) height at) < 2 ^ 16"
    by (simp_all add: demo_start new_node_def lone_committee)
  have best: "ci_finalized demo_client = 0" "ci_hash demo_client 15 = Some demo_hash" "ci_best demo_client = 20"
    by (simp_all add: demo_client_def)
  from decision_proof_accepted [OF demo_sound worker_reach.start [OF demo_typed] t fin start]
  show ?thesis by (auto simp: demo_pinned lone_committee demo_rev demo_hash_zero best proof_worker_start_def)
qed

text \<open>
  C29: finality cannot fork unseen. If two proofs for different blocks of one height are both accepted under the committee of
  that height, then the signers name at least two fifths of the committee, and at least one member: for each of
  these members there are valid signatures of its keys over both blocks, so the fork itself convicts them.
\<close>

theorem finality_fork_accountable:
  assumes "verify_proof bd verify genesis h1 n p1 committee delegation = Inr ()"
    "verify_proof bd verify genesis h2 n p2 committee delegation = Inr ()" "h1 \<noteq> h2"
  shows "\<exists>D\<subseteq>committee. 2 * card committee \<le> 5 * card D \<and> D \<noteq> {}
    \<and> sign_message bd genesis n h1 \<noteq> sign_message bd genesis n h2
    \<and> (\<forall>acc\<in>D. \<exists>v1 v2. resolve_voter (vt_signer v1) delegation = acc \<and> resolve_voter (vt_signer v2) delegation = acc
        \<and> vt_height v1 = n \<and> vt_height v2 = n \<and> vt_hash v1 = h1 \<and> vt_hash v2 = h2
        \<and> verify_sig bd verify genesis v1 \<and> verify_sig bd verify genesis v2)"
proof -
  let ?A = "backers bd verify genesis h1 n (proof_votes p1) committee delegation"
  let ?B = "backers bd verify genesis h2 n (proof_votes p2) committee delegation"
  have "card committee \<noteq> 0" using assms(1) by (simp add: verify_proof_iff)
  then have fin: "finite committee" by (rule contrapos_np) simp
  from walls_overlap [OF fin backers_committee [of bd verify genesis h1 n "proof_votes p1"]
      backers_committee [of bd verify genesis h2 n "proof_votes p2"]] assms(1,2)
  have "2 * card committee \<le> 5 * card (?A \<inter> ?B)" "0 < card (?A \<inter> ?B)" by (simp_all add: verify_proof_iff)
  moreover have "length h1 = 32" "length h2 = 32"
  proof -
    have long: "take 32 (drop 8 pf) = h \<Longrightarrow> PROOF_HEADER \<le> length pf \<Longrightarrow> length h = 32" for h pf :: "byte list"
      by (auto simp: PROOF_HEADER_def)
    show "length h1 = 32" "length h2 = 32"
      using assms(1,2) unfolding verify_proof_iff by (blast intro: long)+
  qed
  then have "sign_message bd genesis n h1 \<noteq> sign_message bd genesis n h2" using assms(3) by (intro sign_message_inj) simp_all
  moreover have "\<exists>v1 v2. resolve_voter (vt_signer v1) delegation = acc \<and> resolve_voter (vt_signer v2) delegation = acc
        \<and> vt_height v1 = n \<and> vt_height v2 = n \<and> vt_hash v1 = h1 \<and> vt_hash v2 = h2
        \<and> verify_sig bd verify genesis v1 \<and> verify_sig bd verify genesis v2" if "acc \<in> ?A \<inter> ?B" for acc
  proof -
    from that obtain s1 g1 s2 g2 where "acc = resolve_voter s1 delegation" "acc = resolve_voter s2 delegation"
      "verify_sig bd verify genesis \<lparr>vt_height = n, vt_hash = h1, vt_signer = s1, vt_sig = g1\<rparr>"
      "verify_sig bd verify genesis \<lparr>vt_height = n, vt_hash = h2, vt_signer = s2, vt_sig = g2\<rparr>"
      unfolding backers_def by blast
    then show ?thesis
      by (intro exI [of _ "\<lparr>vt_height = n, vt_hash = h1, vt_signer = s1, vt_sig = g1\<rparr>"]
          exI [of _ "\<lparr>vt_height = n, vt_hash = h2, vt_signer = s2, vt_sig = g2\<rparr>"]) simp
  qed
  moreover have "?A \<inter> ?B \<subseteq> committee" using backers_committee by blast
  ultimately show ?thesis by (intro exI [of _ "?A \<inter> ?B"]) auto
qed

definition fork_proof :: "byte list \<Rightarrow> byte list" where
  "fork_proof h = encode_proof 15 h [(demo_account, (demo_vote 15)\<lparr>vt_hash := h\<rparr>)]"

lemma fork_proof_accepted:
  assumes "length h = 32"
  shows "verify_proof demo_build (\<lambda>signer sig m. sig = demo_signature) zero_hash h 15 (fork_proof h) {demo_account} Map.empty = Inr ()"
proof -
  let ?v = "(demo_vote 15)\<lparr>vt_hash := h\<rparr>"
  have "{resolve_voter (vt_signer v) Map.empty | a v. (a, v) \<in> set [(demo_account, ?v)] \<and> vt_height v = 15 \<and> vt_hash v = h
      \<and> resolve_voter (vt_signer v) Map.empty \<in> {demo_account}
      \<and> verify_sig demo_build (\<lambda>signer sig m. sig = demo_signature) zero_hash v} = {demo_account}"
    by (auto simp: demo_vote_def resolve_voter_def verify_sig_def)
  then show ?thesis unfolding fork_proof_def using assms
    by (subst own_proof_verifies) (simp_all add: vote_typed_def demo_vote_def demo_account_def demo_signature_def quorum_wall_def)
qed

theorem finality_fork_accountable_witness:
  "\<exists>D\<subseteq>{demo_account}. D \<noteq> {} \<and> 2 * card {demo_account} \<le> 5 * card D"
  using finality_fork_accountable [OF fork_proof_accepted [of demo_hash] fork_proof_accepted [of zero_hash] demo_hash_zero]
  by (auto simp: demo_hash_def zero_hash_def)

lemma gossiped_vote:
  assumes "env_sound env" "worker_inv env w" "length p = 32" "Gossiped t m \<in> set (snd (own_vote env p w))"
  shows "\<exists>v. vote_decode m = Some v \<and> vote_typed v \<and> vt_height v = t
    \<and> verify_sig (we_build env) (we_verify env) (we_genesis env) v"
proof (cases "we_keys env")
  case None
  with assms show ?thesis by (simp add: own_vote_def)
next
  case (Some a)
  obtain signer sign where a: "a = (signer, sign)" by (cases a)
  let ?v = "\<lparr>vt_height = wk_height w, vt_hash = p, vt_signer = signer,
    vt_sig = sign (sign_message (we_build env) (we_genesis env) (wk_height w) p)\<rparr>"
  have v: "vote_sound env w (signer, ?v)"
    using own_vote_sound [OF assms(1) Some [unfolded a] _ assms(3)] assms(2) by (simp add: worker_inv_def)
  have "t = wk_height w" "m = vote_encode ?v" using assms(4) by (simp_all add: own_vote_def Some a Let_def)
  with v show ?thesis by (intro exI [of _ ?v]) (simp add: vote_sound_def vote_decode_encode)
qed

lemma ballot_gossip:
  assumes "ballot env cl p w = (s', evs)" "Gossiped t m \<in> set evs"
  shows "Gossiped t m \<in> set (snd (own_vote env p w))"
proof -
  have "Gossiped t m \<notin> set (snd (finalise env cl d u))" for d u by (auto simp: finalise_def Let_def split: option.split)
  with assms show ?thesis by (auto simp: ballot_alt split: option.splits)
qed

text \<open>
  C31: what a worker holds and sends is well formed. In every reachable state the votes held are in strict order of
  their accounts, one each, and every one is a full-width vote for the worker's own height whose signature verifies. Every
  message a tick gossips decodes to such a vote for the topic it is sent to, and a peer whose watermark and horizon
  enclose that height keeps and relays it.
\<close>

theorem worker_state_typed:
  assumes "env_sound env" "worker_reach env cl w"
  shows "sorted_wrt (<) (map fst (wk_votes w))
    \<and> (\<forall>(acc, v)\<in>set (wk_votes w). vote_typed v \<and> vt_height v = wk_height w
         \<and> verify_sig (we_build env) (we_verify env) (we_genesis env) v)
    \<and> (\<forall>s' evs t m. worker_tick env (cl, w) = Some (s', evs) \<longrightarrow> Gossiped t m \<in> set evs \<longrightarrow>
         (\<exists>v. vote_decode m = Some v \<and> vote_typed v \<and> vt_height v = t
            \<and> (\<forall>watermark horizon. watermark < t \<longrightarrow> t \<le> horizon \<longrightarrow> vote_validate env watermark horizon m = ProcessAndKeep t)))"
proof (intro conjI allI impI)
  note inv = worker_reach_inv [OF assms(2,1)]
  show "sorted_wrt (<) (map fst (wk_votes w))" using inv by (simp add: worker_inv_def)
  show "\<forall>(acc, v)\<in>set (wk_votes w). vote_typed v \<and> vt_height v = wk_height w
       \<and> verify_sig (we_build env) (we_verify env) (we_genesis env) v"
    using inv by (auto simp: worker_inv_def vote_sound_def)
  fix s' evs t m assume t: "worker_tick env (cl, w) = Some (s', evs)" and g: "Gossiped t m \<in> set evs"
  obtain cl' w' where s': "s' = (cl', w')" by (cases s')
  have kept: "\<exists>v. vote_decode m = Some v \<and> vote_typed v \<and> vt_height v = t
      \<and> (\<forall>watermark horizon. watermark < t \<longrightarrow> t \<le> horizon \<longrightarrow> vote_validate env watermark horizon m = ProcessAndKeep t)"
    if "ballot env cl p u = ((cl', w'), evs)" "worker_inv env u" "length p = 32" for p u
  proof -
    from gossiped_vote [OF assms(1) that(2,3) ballot_gossip [OF that(1) g]] obtain v where
      v: "vote_decode m = Some v" "vote_typed v" "vt_height v = t" "verify_sig (we_build env) (we_verify env) (we_genesis env) v"
      by blast
    then show ?thesis by (intro exI [of _ v]) (simp add: vote_validate_def)
  qed
  from t [unfolded s'] show "\<exists>v. vote_decode m = Some v \<and> vote_typed v \<and> vt_height v = t
      \<and> (\<forall>watermark horizon. watermark < t \<longrightarrow> t \<le> horizon \<longrightarrow> vote_validate env watermark horizon m = ProcessAndKeep t)"
  proof (cases rule: worker_tick_cases)
    case (seats p)
    let ?a = "aimed env cl w\<lparr>wk_at := epoch_pinned_at (we_build env) cl (wk_height (aimed env cl w)), wk_skew := 0\<rparr>"
    have a: "worker_inv env ?a" using aimed_inv(1) [OF assms(1)] inv worker_inv_cong [of ?a "aimed env cl w" env] by simp
    have p: "length p = 32" using client_typed_target [OF _ seats(1)] inv by blast
    from assms(1) conjunct1 [OF inv] seats(2) show ?thesis
    proof (cases rule: seat_and_vote_cases)
      case (skip_vote hh q)
      have "hh < 2 ^ 64" "length q = 32"
        using client_typed_target [OF conjunct1 [OF inv] skip_vote(2)] conjunct1 [OF inv] by (auto simp: client_typed_def u32_max_def)
      with kept [OF skip_vote(4) aim_inv(1)] show ?thesis by blast
    next
      case vote
      from kept [OF vote(2) pruned_inv [OF a] p] show ?thesis .
    qed (use g in simp_all)
  qed (use g in simp_all)
qed

theorem worker_state_typed_witness:
  "\<exists>v. vote_decode (vote_encode (demo_vote 15)) = Some v \<and> vt_height v = 15
    \<and> vote_validate demo_env 0 20 (vote_encode (demo_vote 15)) = ProcessAndKeep 15"
proof -
  obtain cl' w' where t: "worker_tick demo_env (demo_client, worker_start demo_env demo_client)
     = Some ((cl', w'), [Gossiped 15 (vote_encode (demo_vote 15)), Finalised 15 demo_hash demo_proof])"
    using demo_tick by blast
  from worker_state_typed [OF demo_sound worker_reach.start [OF demo_typed]] t
  have "\<exists>v. vote_decode (vote_encode (demo_vote 15)) = Some v \<and> vote_typed v \<and> vt_height v = 15
      \<and> (\<forall>watermark horizon. watermark < 15 \<longrightarrow> 15 \<le> horizon \<longrightarrow>
          vote_validate demo_env watermark horizon (vote_encode (demo_vote 15)) = ProcessAndKeep 15)"
    by (auto dest!: spec)
  then show ?thesis by auto
qed

text \<open>
  C9: the search past a frozen band returns, and every node finds the same boundary. On any chain below \<open>u32::MAX\<close> the
  search ends. If a node finds a boundary, it is a whole number of steps above the stuck height, buried deep enough under the
  node's best block, with a guard that is not halted and a committee that is not empty at its own epoch's start, and no
  earlier step is; and a node that has the same chain up to there and more finds the same one.
\<close>

theorem healthy_boundary_agreed:
  assumes "0 < bd_step bd" "ci_best c1 \<le> ci_best c2" "ci_best c2 < u32_max"
    "\<forall>n\<le>ci_best c1. ci_hash c1 n = ci_hash c2 n \<and> ci_hash c1 n \<noteq> None"
  shows "first_healthy_boundary_after bd net c1 from0 \<noteq> None
    \<and> (\<forall>h. first_healthy_boundary_after bd net c1 from0 = Some (Some h) \<longrightarrow>
        first_healthy_boundary_after bd net c2 from0 = Some (Some h)
        \<and> (\<exists>k. h = from0 + Suc k * bd_step bd \<and> h + bd_burial bd \<le> ci_best c1
            \<and> \<not> unwrap_or True (api_halted net (epoch_pinned_at bd c1 h))
            \<and> committee_for_height bd net h (epoch_pinned_at bd c1 h) \<noteq> {}
            \<and> (\<forall>j<k. \<not> healthy_boundary bd net c1 (from0 + Suc j * bd_step bd))))"
proof (cases "from0 + bd_step bd \<le> u32_max")
  case False
  then show ?thesis by (simp add: first_healthy_boundary_after_def checked_add_def)
next
  case True
  let ?h0 = "from0 + bd_step bd"
  have b1: "ci_best c1 < u32_max" using assms(2,3) by linarith
  have s: "first_healthy_boundary_after bd net cl from0 = boundary_loop bd net cl ?h0" for cl
    using True by (simp add: first_healthy_boundary_after_def checked_add_def)
  have c: "candidate bd ?h0 k = from0 + Suc k * bd_step bd" for k by (simp add: candidate_def)
  show ?thesis unfolding s
  proof (intro conjI allI impI)
    show "boundary_loop bd net c1 ?h0 \<noteq> None" by (simp add: boundary_loop_first [OF assms(1) b1])
    fix h assume found: "boundary_loop bd net c1 ?h0 = Some (Some h)"
    let ?P = "\<lambda>k. healthy_boundary bd net c1 (candidate bd ?h0 k)"
    let ?m = "LEAST k. ?P k"
    have ex: "\<exists>k. candidate bd ?h0 k + bd_burial bd \<le> ci_best c1 \<and> ?P k" and h: "h = candidate bd ?h0 ?m"
      using found unfolding boundary_loop_first [OF assms(1) b1] by (auto split: if_splits)
    from ex obtain k where k: "candidate bd ?h0 k + bd_burial bd \<le> ci_best c1" "?P k" by blast
    have "?m \<le> k" using k(2) by (rule Least_le)
    then have "candidate bd ?h0 ?m \<le> candidate bd ?h0 k" by (rule candidate_mono)
    with k(1) have buried: "candidate bd ?h0 ?m + bd_burial bd \<le> ci_best c1" by linarith
    have m: "?P ?m" using k(2) by (rule LeastI)
    have first: "\<forall>j<?m. \<not> ?P j" using not_less_Least by blast
    have mono: "candidate bd ?h0 j \<le> ci_best c1" if "j \<le> ?m" for j
    proof -
      have "candidate bd ?h0 j \<le> candidate bd ?h0 ?m" using that by (rule candidate_mono)
      with buried show ?thesis by linarith
    qed
    have same: "healthy_boundary bd net c2 (candidate bd ?h0 j) = ?P j" if "j \<le> ?m" for j
      using healthy_boundary_agree [OF assms(4) mono [OF that]] by simp
    have first2: "\<forall>j<?m. \<not> healthy_boundary bd net c2 (candidate bd ?h0 j)"
      using first same less_imp_le by blast
    have m2: "healthy_boundary bd net c2 (candidate bd ?h0 ?m)" using same [OF order_refl] m by blast
    show "boundary_loop bd net c2 ?h0 = Some (Some h)" unfolding h
      by (rule boundary_loop_Some [OF m2 first2 le_trans [OF buried assms(2)] assms(3)])
    from m have "\<not> unwrap_or True (api_halted net (epoch_pinned_at bd c1 h))"
      "committee_for_height bd net h (epoch_pinned_at bd c1 h) \<noteq> {}"
      unfolding h healthy_boundary_def Let_def by blast+
    with buried first show "\<exists>k. h = from0 + Suc k * bd_step bd \<and> h + bd_burial bd \<le> ci_best c1
            \<and> \<not> unwrap_or True (api_halted net (epoch_pinned_at bd c1 h))
            \<and> committee_for_height bd net h (epoch_pinned_at bd c1 h) \<noteq> {}
            \<and> (\<forall>j<k. \<not> healthy_boundary bd net c1 (from0 + Suc j * bd_step bd))"
      unfolding c [symmetric] h by blast
  qed
qed

text \<open>A chain frozen in its first epoch: height 15 is read at genesis, height 300 at a healthy block.\<close>

definition frozen_client :: "nat \<Rightarrow> node_client" where
  "frozen_client best = demo_client\<lparr>ci_best := best, ci_hash := \<lambda>n. if n \<le> best then Some (if n < 300 then zero_hash else demo_hash) else None\<rparr>"

theorem healthy_boundary_agreed_witness:
  "first_healthy_boundary_after demo_build demo_net (frozen_client 400) 15 \<noteq> None"
  using healthy_boundary_agreed [of demo_build "frozen_client 400" "frozen_client 500" demo_net 15]
  by (simp add: demo_build_def mainnet_def frozen_client_def demo_client_def u32_max_def)

lemma ballot_target:
  assumes "env_sound env" "ci_finalized cl < wk_height w" "ballot env cl p w = ((cl', w'), evs)"
  shows "ci_finalized cl' < wk_height w'"
proof (cases "snd (observe_votes (we_build env) (voted env p w))")
  case None
  with assms own_vote_frame(1) [of env p w] show ?thesis by (auto simp: ballot_alt voted_def)
next
  case (Some d)
  have "fst (finalise env cl d (fst (observe_votes (we_build env) (voted env p w)))) = (cl', w')"
    using assms(3) Some by (simp add: ballot_alt)
  moreover have "0 < bd_step (we_build env)" using assms(1) by (simp add: env_sound_def)
  ultimately show ?thesis using assms(2) own_vote_frame(1) [of env p w]
    by (auto simp: finalise_def voted_def Let_def split: option.splits)
qed

text \<open>
  C35: the target never falls behind and the guards are not terminal. Whatever the worker's state, after a tick its target
  lies above everything finalised; and if the block at the re-aimed target exists, the runtime at its epoch's start is the
  one the node was built for and the committee there is not empty, then the tick casts the node's vote for that block,
  however long the node had been passive.
\<close>

theorem target_stays_ahead:
  fixes w :: worker
  assumes "env_sound env" "client_typed cl"
  defines "h \<equiv> if wk_height w \<le> ci_finalized cl then ci_finalized cl + bd_step (we_build env) else wk_height w"
    and "at \<equiv> \<lambda>n. epoch_pinned_at (we_build env) cl n"
  shows "(\<forall>cl' w' evs. worker_tick env (cl, w) = Some ((cl', w'), evs) \<longrightarrow> ci_finalized cl' < wk_height w')
    \<and> (\<forall>p signer sign. target_hash cl h = Some (p, True) \<longrightarrow> api_version (we_net env) (at h) = Some (we_spec env) \<longrightarrow>
         committee_for_height (we_build env) (we_net env) h (at h) \<noteq> {} \<longrightarrow> we_keys env = Some (signer, sign) \<longrightarrow>
         (\<exists>s' evs. worker_tick env (cl, w) = Some (s', evs)
           \<and> Gossiped h (vote_encode \<lparr>vt_height = h, vt_hash = p, vt_signer = signer,
               vt_sig = sign (sign_message (we_build env) (we_genesis env) h p)\<rparr>) \<in> set evs))"
proof (intro conjI allI impI)
  have ahead: "ci_finalized cl < wk_height (aimed env cl w)"
    using assms(1) by (auto simp: aimed_def re_aim_def env_sound_def)
  have h: "wk_height (aimed env cl w) = h" by (simp add: h_def aimed_def re_aim_def)
  {
    fix cl' w' evs assume "worker_tick env (cl, w) = Some ((cl', w'), evs)"
    then show "ci_finalized cl' < wk_height w'"
    proof (cases rule: worker_tick_cases)
      case (seats p)
      from assms(1,2) seats(2) show ?thesis
      proof (cases rule: seat_and_vote_cases)
        case (skip_vote hh q)
        then show ?thesis using ahead by (intro ballot_target [OF assms(1) _ skip_vote(4)]) simp
      next
        case vote
        show ?thesis using ahead by (intro ballot_target [OF assms(1) _ vote(2)]) simp
      qed (use ahead in simp_all)
    qed (use ahead in simp_all)
  }
  fix p signer sign
  assume t: "target_hash cl h = Some (p, True)" and v: "api_version (we_net env) (at h) = Some (we_spec env)"
    and c: "committee_for_height (we_build env) (we_net env) h (at h) \<noteq> {}" and k: "we_keys env = Some (signer, sign)"
  define u where "u = aimed env cl w\<lparr>wk_at := at h, wk_skew := 0\<rparr>"
  have "card (wk_committee (pruned env u)) \<noteq> 0" using c finite_committee by (simp add: u_def h)
  then have "seat_and_vote env cl p u = Some (ballot env cl p (pruned env u))"
    unfolding seat_and_vote_alt by (simp only: if_False)
  moreover have "worker_tick env (cl, w) = seat_and_vote env cl p u"
    unfolding worker_tick_def Let_def fst_conv snd_conv aimed_def [symmetric] h using t v by (simp add: u_def at_def)
  moreover have "snd (own_vote env p (pruned env u)) = [Gossiped h (vote_encode \<lparr>vt_height = h, vt_hash = p, vt_signer = signer,
      vt_sig = sign (sign_message (we_build env) (we_genesis env) h p)\<rparr>)]"
    by (simp add: own_vote_def k Let_def u_def h)
  then have "Gossiped h (vote_encode \<lparr>vt_height = h, vt_hash = p, vt_signer = signer,
      vt_sig = sign (sign_message (we_build env) (we_genesis env) h p)\<rparr>) \<in> set (snd (ballot env cl p (pruned env u)))"
    by (simp add: ballot_alt split: option.split)
  ultimately show "\<exists>s' evs. worker_tick env (cl, w) = Some (s', evs)
      \<and> Gossiped h (vote_encode \<lparr>vt_height = h, vt_hash = p, vt_signer = signer,
          vt_sig = sign (sign_message (we_build env) (we_genesis env) h p)\<rparr>) \<in> set evs"
    by (intro exI [of _ "fst (ballot env cl p (pruned env u))"] exI [of _ "snd (ballot env cl p (pruned env u))"]) simp
qed

theorem target_stays_ahead_witness:
  "\<exists>s' evs. worker_tick demo_env (demo_client, worker_start demo_env demo_client) = Some (s', evs)
    \<and> Gossiped 15 (vote_encode (demo_vote 15)) \<in> set evs"
proof -
  have h: "(if wk_height (worker_start demo_env demo_client) \<le> ci_finalized demo_client
      then ci_finalized demo_client + bd_step (we_build demo_env) else wk_height (worker_start demo_env demo_client)) = 15"
    by (simp add: demo_start) (simp add: demo_client_def)
  have "target_hash demo_client 15 = Some (demo_hash, True)" by (simp add: target_hash_def demo_client_def)
  moreover have "api_version demo_net demo_hash = Some 7" by (simp add: demo_net_def)
  ultimately show ?thesis
    using target_stays_ahead [OF demo_sound demo_typed, of "worker_start demo_env demo_client", unfolded h]
    by (simp add: demo_pinned lone_committee demo_hash_zero demo_vote_def)
qed

text \<open>
  C19: finality taken from others is earned. Whatever proofs, headers or rubbish a node hears, whenever it finalises
  a block with a proof, it had that very block at that height on its own chain, the height was above what was final,
  and members of the elected committee of that height making up the wall (seven tenths of the seats, and a majority) had signed
  that height and hash with a key that resolves to them.
\<close>

theorem imports_earned:
  assumes "proof_reach env cl w log" "Applied n h pf \<in> set log"
  shows "\<exists>c w0 log0. proof_reach env c w0 log0 \<and> ci_finalized c < n \<and> ci_hash c (as_u32 n) = Some h
    \<and> (let at = epoch_pinned_at (we_build env) c (as_u32 n);
           committee = committee_for_height (we_build env) (we_net env) (as_u32 n) at
       in \<exists>D\<subseteq>committee. 7 * card committee \<le> 10 * card D \<and> card committee < 2 * card D
         \<and> (\<forall>acc\<in>D. \<exists>v. resolve_voter (vt_signer v) (vote_keys_rev_for_height (we_net env) at) = acc
             \<and> vt_height v = n \<and> vt_hash v = h \<and> verify_sig (we_build env) (we_verify env) (we_genesis env) v))"
proof -
  from imported_earned [OF assms] obtain c w0 log0 where c: "proof_reach env c w0 log0" "ci_finalized c < n"
    "ci_hash c (as_u32 n) = Some h" "check_proof env c h n (as_u32 n) pf = Inr ()" by blast
  define at where "at = epoch_pinned_at (we_build env) c (as_u32 n)"
  let ?C = "committee_for_height (we_build env) (we_net env) (as_u32 n) at"
  let ?R = "vote_keys_rev_for_height (we_net env) at"
  let ?D = "backers (we_build env) (we_verify env) (we_genesis env) h n (proof_votes pf) ?C ?R"
  have "verify_proof (we_build env) (we_verify env) (we_genesis env) h n pf ?C ?R = Inr ()"
    using c(4) by (simp add: check_proof_def Let_def at_def)
  then have "quorum_wall (card ?C) \<le> card ?D" unfolding verify_proof_iff by blast
  moreover have "7 * k \<le> 10 * quorum_wall k" "k < 2 * quorum_wall k" for k by (auto simp: quorum_wall_def max_def)
  ultimately have size: "7 * card ?C \<le> 10 * card ?D" "card ?C < 2 * card ?D"
    by (meson le_trans mult_le_mono2, meson less_le_trans mult_le_mono2)
  have "\<exists>v. resolve_voter (vt_signer v) ?R = acc \<and> vt_height v = n \<and> vt_hash v = h
      \<and> verify_sig (we_build env) (we_verify env) (we_genesis env) v" if "acc \<in> ?D" for acc
  proof -
    from that obtain s g where "acc = resolve_voter s ?R"
      "verify_sig (we_build env) (we_verify env) (we_genesis env) \<lparr>vt_height = n, vt_hash = h, vt_signer = s, vt_sig = g\<rparr>"
      unfolding backers_def by blast
    then show ?thesis by (intro exI [of _ "\<lparr>vt_height = n, vt_hash = h, vt_signer = s, vt_sig = g\<rparr>"]) simp
  qed
  then have signed: "\<forall>acc\<in>?D. \<exists>v. resolve_voter (vt_signer v) ?R = acc \<and> vt_height v = n \<and> vt_hash v = h
      \<and> verify_sig (we_build env) (we_verify env) (we_genesis env) v" by (rule ballI)
  have "\<exists>D\<subseteq>?C. 7 * card ?C \<le> 10 * card D \<and> card ?C < 2 * card D
      \<and> (\<forall>acc\<in>D. \<exists>v. resolve_voter (vt_signer v) ?R = acc \<and> vt_height v = n \<and> vt_hash v = h
          \<and> verify_sig (we_build env) (we_verify env) (we_genesis env) v)"
    by (intro exI [of _ ?D] conjI backers_committee size signed)
  with c(1-3) show ?thesis unfolding at_def Let_def by (intro exI [of _ c] exI [of _ w0] exI [of _ log0] conjI)
qed

lemma demo_hears:
  "\<exists>w'. proof_hear demo_env demo_proof (demo_client, proof_worker_start demo_client)
    = ((demo_client\<lparr>ci_finalized := 20\<rparr>, w'), [Applied 15 demo_hash demo_proof])"
proof -
  have "demo_proof = fork_proof demo_hash" by (simp add: demo_proof_def fork_proof_def demo_vote_def)
  moreover have "verify_proof demo_build (\<lambda>signer sig m. sig = demo_signature) zero_hash demo_hash 15 (fork_proof demo_hash) {demo_account}
      [demo_account \<mapsto> demo_account] = Inr ()"
  proof -
    have r: "resolve_voter s [demo_account \<mapsto> demo_account] = resolve_voter s Map.empty" for s by (simp add: resolve_voter_def)
    have "length demo_hash = 32" by (simp add: demo_hash_def)
    from fork_proof_accepted [OF this] show ?thesis unfolding verify_proof_iff backers_def r .
  qed
  ultimately have "check_proof demo_env demo_client demo_hash 15 15 demo_proof = Inr ()"
    by (simp add: check_proof_def demo_pinned lone_committee demo_rev demo_hash_zero)
  moreover have "we_finalize demo_env demo_client demo_hash demo_proof = Some (demo_client\<lparr>ci_finalized := 20\<rparr>)"
    by (simp add: demo_client_def)
  ultimately show ?thesis
    using hear_applies [of demo_env demo_client demo_hash 15 demo_proof "proof_worker_start demo_client"]
    by (auto simp: demo_client_def proof_worker_start_def)
qed

theorem imports_earned_witness:
  "\<exists>c :: node_client. ci_finalized c < 15 \<and> ci_hash c 15 = Some demo_hash"
proof -
  obtain w' where "proof_hear demo_env demo_proof (demo_client, proof_worker_start demo_client)
    = ((demo_client\<lparr>ci_finalized := 20\<rparr>, w'), [Applied 15 demo_hash demo_proof])" using demo_hears by blast
  from proof_reach.message [OF proof_reach.start this]
  have "proof_reach demo_env (demo_client\<lparr>ci_finalized := 20\<rparr>) w' [Applied 15 demo_hash demo_proof]" by simp
  from imports_earned [OF this list.set_intros(1)]
  obtain c :: node_client where "ci_finalized c < 15" "ci_hash c (as_u32 15) = Some demo_hash" by (elim exE conjE) (rule that, assumption+)
  then show ?thesis by (intro exI [of _ c]) (simp add: as_u32_def)
qed


end
