(* ===== verification/ParticipationInherent.thy ===== *)
theory ParticipationInherent
imports FinalityImport ParticipationProps
begin

text \<open>
  The node's provider of the participation inherent, \<open>chain/node/src/participation_inherent.rs\<close>: the record an author
  puts into its block, assembled from the proofs stored with finalised blocks. It joins the finality gadget, which
  stores the proofs, to the participation pallet, which pays for the votes in them. \<open>node_client\<close> is the author's
  backend; the number of the parent and the cursor the runtime API reports there are arguments, \<open>None\<close> where the call
  fails; a vote key is its public half and its signing function.
\<close>

section \<open>The provider\<close>

definition MAX_HEIGHTS_PER_RECORD :: nat where "MAX_HEIGHTS_PER_RECORD = 64"

definition decode_proof_votes :: "byte list \<Rightarrow> signed_vote list option" where
  "decode_proof_votes pf =
     (if length pf < PROOF_HEADER then None
      else let height = le_value (take 8 pf); block_hash = take 32 (drop 8 pf); count = le_value (take 2 (drop 40 pf))
      in if length pf < PROOF_HEADER + count * PROOF_VOTE then None
      else Some (map (\<lambda>i. let base = PROOF_HEADER + i * PROOF_VOTE in
             \<lparr>sv_signer = take 32 (drop base pf), sv_sig = take 64 (drop (base + 32) pf), sv_height = height,
              sv_block_hash = block_hash\<rparr>) [0..<count]))"

definition votes_for_height :: "node_client \<Rightarrow> nat \<Rightarrow> signed_vote list option" where
  "votes_for_height cl height =
     (case ci_hash cl (as_u32 height) of None \<Rightarrow> None
      | Some hsh \<Rightarrow> (case ci_justification cl hsh of None \<Rightarrow> None | Some pf \<Rightarrow> decode_proof_votes pf))"

type_synonym vote_pair = "(key \<times> (byte list \<Rightarrow> byte list)) option"

definition provider_for :: "nat option \<Rightarrow> nat option \<Rightarrow> node_client \<Rightarrow> vote_pair \<Rightarrow> participation_record" where
  "provider_for number participation_cursor cl pair =
     (let at_block = (case number of Some n \<Rightarrow> n + 1 | None \<Rightarrow> 0);
          cursor = unwrap_or 0 participation_cursor;
          frm = sat_add u64_max cursor 1;
          upto = min (ci_finalized cl) (sat_add u64_max cursor MAX_HEIGHTS_PER_RECORD);
          votes = concat (map (\<lambda>h. unwrap_or [] (votes_for_height cl h)) [frm..<upto + 1]);
          author = (case pair of Some (public, sign) \<Rightarrow> (public, sign (author_message at_block))
                    | None \<Rightarrow> (replicate 32 0, replicate 64 0))
      in \<lparr>pr_author_key = fst author, pr_author_sig = snd author, pr_finality_votes = votes, pr_at_block = at_block\<rparr>)"

section \<open>What the record carries\<close>

definition carried :: "nat \<Rightarrow> byte list \<Rightarrow> key \<times> byte list \<Rightarrow> signed_vote" where
  "carried height hsh = (\<lambda>(signer, sig). \<lparr>sv_signer = signer, sv_sig = sig, sv_height = height, sv_block_hash = hsh\<rparr>)"

lemma decode_proof_votes_eq:
  "decode_proof_votes pf =
     (if PROOF_HEADER + le_value (take 2 (drop 40 pf)) * PROOF_VOTE \<le> length pf
      then Some (map (carried (le_value (take 8 pf)) (take 32 (drop 8 pf))) (proof_votes pf)) else None)"
  by (auto simp: decode_proof_votes_def proof_votes_def carried_def Let_def)

text \<open>The provider reads back what \<open>encode_proof\<close> wrote.\<close>

lemma decode_encoded_proof:
  assumes "height < 2 ^ 64" "length hsh = 32" "length votes < 2 ^ 16" "\<forall>(a, v)\<in>set votes. vote_typed v"
  shows "decode_proof_votes (encode_proof height hsh votes) =
    Some (map (\<lambda>v. carried height hsh (vt_signer v, vt_sig v)) (selected_votes height hsh votes))"
  using encode_proof_parts [OF assms] by (simp add: decode_proof_votes_eq o_def)

text \<open>The stored proofs of the heights from \<open>lo\<close> are proofs of these heights.\<close>

definition backend_sound :: "nat \<Rightarrow> node_client \<Rightarrow> bool" where
  "backend_sound lo cl = (ci_finalized cl \<le> u32_max \<and> (\<forall>h hsh pf. lo < h \<longrightarrow> h \<le> ci_finalized cl \<longrightarrow> ci_hash cl h = Some hsh
     \<longrightarrow> ci_justification cl hsh = Some pf \<longrightarrow> le_value (take 8 pf) = h))"

lemma provider_member:
  assumes "ci_finalized cl \<le> u32_max"
  shows "v \<in> set (pr_finality_votes (provider_for n (Some c) cl pair)) \<longleftrightarrow>
    (\<exists>h vs. c < h \<and> h \<le> ci_finalized cl \<and> h \<le> c + MAX_HEIGHTS_PER_RECORD \<and> votes_for_height cl h = Some vs \<and> v \<in> set vs)"
proof -
  let ?I = "[sat_add u64_max c 1..<min (ci_finalized cl) (sat_add u64_max c MAX_HEIGHTS_PER_RECORD) + 1]"
  have i: "h \<in> set ?I \<longleftrightarrow> c < h \<and> h \<le> ci_finalized cl \<and> h \<le> c + MAX_HEIGHTS_PER_RECORD" for h
    using assms by (auto simp: sat_add_def u64_max_def u32_max_def MAX_HEIGHTS_PER_RECORD_def)
  have u: "v \<in> set (unwrap_or [] o1) \<longleftrightarrow> (\<exists>vs. o1 = Some vs \<and> v \<in> set vs)" for o1 :: "signed_vote list option"
    by (cases o1) (simp_all add: unwrap_or_def)
  have "pr_finality_votes (provider_for n (Some c) cl pair) = concat (map (\<lambda>h. unwrap_or [] (votes_for_height cl h)) ?I)"
    by (simp add: provider_for_def Let_def unwrap_or_def [of _ "Some c"])
  then have "v \<in> set (pr_finality_votes (provider_for n (Some c) cl pair)) \<longleftrightarrow>
      (\<exists>h\<in>set ?I. v \<in> set (unwrap_or [] (votes_for_height cl h)))"
    by (simp only: set_concat set_map) blast
  then show ?thesis unfolding Bex_def i u by blast
qed

lemma provider_at: "pr_at_block (provider_for (Some n) c cl pair) = n + 1"
  by (simp add: provider_for_def Let_def)

lemma votes_for_height_eq:
  assumes "backend_sound c cl" "c < h" "h \<le> ci_finalized cl" "votes_for_height cl h = Some vs"
  obtains hsh pf where "ci_hash cl h = Some hsh" "ci_justification cl hsh = Some pf" "le_value (take 8 pf) = h"
    "vs = map (carried h (take 32 (drop 8 pf))) (proof_votes pf)"
proof -
  have "h < 2 ^ 32" using assms(1,3) by (simp add: backend_sound_def u32_max_def)
  with assms(4) obtain hsh pf where p: "ci_hash cl h = Some hsh" "ci_justification cl hsh = Some pf"
      "decode_proof_votes pf = Some vs"
    by (auto simp: votes_for_height_def as_u32_small split: option.splits)
  moreover from p assms(1-3) have "le_value (take 8 pf) = h" by (simp add: backend_sound_def)
  ultimately show thesis by (intro that) (auto simp: decode_proof_votes_eq split: if_splits)
qed

lemma provider_heights:
  assumes "backend_sound c cl" "v \<in> set (pr_finality_votes (provider_for n (Some c) cl pair))"
  shows "c < sv_height v \<and> sv_height v \<le> c + MAX_HEIGHTS_PER_RECORD \<and> sv_height v \<le> ci_finalized cl
    \<and> (\<exists>vs. votes_for_height cl (sv_height v) = Some vs \<and> v \<in> set vs)"
proof -
  have "ci_finalized cl \<le> u32_max" using assms(1) by (simp add: backend_sound_def)
  from provider_member [OF this] assms(2) obtain h vs where h: "c < h" "h \<le> ci_finalized cl" "h \<le> c + MAX_HEIGHTS_PER_RECORD"
      "votes_for_height cl h = Some vs" "v \<in> set vs" by blast
  obtain pf where "vs = map (carried h (take 32 (drop 8 pf))) (proof_votes pf)"
    by (rule votes_for_height_eq [OF assms(1) h(1,2,4)]) blast
  with h(5) have "sv_height v = h" by (auto simp: carried_def)
  with h show ?thesis by blast
qed

section \<open>The cursor\<close>

definition credited :: "pt_event list \<Rightarrow> nat \<Rightarrow> key set" where
  "credited es h = {who. (h, who) \<in> set (votes_in es)}"

text \<open>A chain of blocks whose authors use this provider.\<close>

definition authored_block ::
  "pt_config \<Rightarrow> pt_env \<times> node_client \<times> vote_pair \<Rightarrow> nat \<times> participation \<Rightarrow> nat \<times> participation" where
  "authored_block cfg b s = (case b of (env, cl, pair) \<Rightarrow>
     run_calls (pt_step cfg) [BeginBlock env, Note env (provider_for (Some (fst s)) (Some (last_credited (snd s))) cl pair)] s)"

lemma hook_cursor: "last_credited (pt_on_initialize cfg env n st) = last_credited st" "pt_log (pt_on_initialize cfg env n st) = pt_log st"
  by (simp_all add: pt_on_initialize_def fold_epoch_def cache_committee_def roll_up_def Let_def)

lemma seen_creditable:
  "set (vs_seen (scanned cfg env st vs)) \<subseteq> vote_mark env ` {v \<in> set vs. creditable cfg env st v}"
  using scanned_ok [of cfg env st vs] unfolding scan_ok_def by blast

lemma seen_max: "vs_max (scanned cfg env st vs) = Max (insert (last_credited st) (fst ` set (vs_seen (scanned cfg env st vs))))"
  using scanned_ok [of cfg env st vs] unfolding scan_ok_def by blast

lemma note_nothing:
  assumes "note_participation cfg env n r st = Inr st'" "\<forall>v\<in>set (pr_finality_votes r). \<not> creditable cfg env st v"
  shows "last_credited st' = last_credited st" "votes_in (pt_log st') = votes_in (pt_log st)"
proof -
  have none: "{v \<in> set (pr_finality_votes r). creditable cfg env st v} = {}" using assms(2) by blast
  have "set (vs_seen (scanned cfg env st (pr_finality_votes r))) = {}"
    using seen_creditable [of cfg env st "pr_finality_votes r"] unfolding none by (simp only: image_empty subset_empty)
  then have s: "vs_seen (scanned cfg env st (pr_finality_votes r)) = []" by simp
  then show "last_credited st' = last_credited st" "votes_in (pt_log st') = votes_in (pt_log st)"
    by (simp_all add: note_effect(4,9) [OF assms(1)] note_votes seen_max)
qed

text \<open>One block: with no vote to credit up to 64 heights past the cursor, the cursor stays.\<close>

lemma authored_block_stuck:
  assumes "backend_sound (last_credited st) cl"
    and "\<forall>h k. h \<le> last_credited st + MAX_HEIGHTS_PER_RECORD \<longrightarrow>
      \<not> is_member cfg h k (pt_on_initialize cfg env (n + 1) st)"
  shows "last_credited (snd (authored_block cfg (env, cl, pair) (n, st))) = last_credited st
    \<and> votes_in (pt_log (snd (authored_block cfg (env, cl, pair) (n, st)))) = votes_in (pt_log st)"
proof -
  let ?st = "pt_on_initialize cfg env (n + 1) st"
  let ?r = "provider_for (Some n) (Some (last_credited st)) cl pair"
  have nc: "\<forall>v\<in>set (pr_finality_votes ?r). \<not> creditable cfg env ?st v"
    using provider_heights [OF assms(1)] assms(2) by (auto simp: creditable_def)
  show ?thesis
  proof (cases "note_participation cfg env (n + 1) ?r ?st")
    case (Inl e)
    then show ?thesis by (simp add: authored_block_def hook_cursor apply_call_def)
  next
    case (Inr st')
    from note_nothing [OF Inr nc] Inr show ?thesis by (simp add: authored_block_def hook_cursor apply_call_def)
  qed
qed

primrec authored_chain ::
  "pt_config \<Rightarrow> (pt_env \<times> node_client \<times> vote_pair) list \<Rightarrow> nat \<times> participation \<Rightarrow> nat \<times> participation" where
  "authored_chain cfg [] s = s"
| "authored_chain cfg (b # bs) s = authored_chain cfg bs (authored_block cfg b s)"

text \<open>Four committee epochs past the window, every committee in it is gone from the storage.\<close>

definition out_of_reach :: "pt_config \<Rightarrow> nat \<Rightarrow> nat \<Rightarrow> bool" where
  "out_of_reach cfg cursor n =
     ((cursor + MAX_HEIGHTS_PER_RECORD) div pc_committee_epoch cfg + 4 \<le> n div pc_committee_epoch cfg)"

lemma pruned_members:
  assumes "seats_ok cfg envs (n, st)" "out_of_reach cfg c n" "h \<le> c + MAX_HEIGHTS_PER_RECORD"
  shows "\<not> is_member cfg h k st"
proof -
  have "h div pc_committee_epoch cfg \<le> (c + MAX_HEIGHTS_PER_RECORD) div pc_committee_epoch cfg"
    using assms(3) by (rule div_le_mono)
  then have "committees st (h div pc_committee_epoch cfg) = None"
    using assms(1,2) by (auto simp: seats_ok_def seated_at_def out_of_reach_def Let_def)
  then show ?thesis by (simp add: is_member_def)
qed

lemma out_of_reach_mono: "out_of_reach cfg c n \<Longrightarrow> out_of_reach cfg c (Suc n)"
  using div_le_mono [of n "Suc n" "pc_committee_epoch cfg"] by (auto simp: out_of_reach_def elim: le_trans)

lemma authored_chain_stuck:
  assumes "2 \<le> pc_committee_epoch cfg"
  shows "seats_ok cfg envs (n, st) \<Longrightarrow> out_of_reach cfg (last_credited st) n \<Longrightarrow>
    \<forall>(env, cl, pair)\<in>set blocks. backend_sound (last_credited st) cl \<Longrightarrow>
    last_credited (snd (authored_chain cfg blocks (n, st))) = last_credited st
      \<and> votes_in (pt_log (snd (authored_chain cfg blocks (n, st)))) = votes_in (pt_log st)"
proof (induction blocks arbitrary: envs n st)
  case (Cons b bs)
  obtain env cl pair where b: "b = (env, cl, pair)" by (cases b)
  let ?s = "authored_block cfg b (n, st)"
  have hook: "seats_ok cfg (envs @ [env]) (n + 1, pt_on_initialize cfg env (n + 1) st)"
    by (rule seats_begin [OF Cons.prems(1) assms])
  have far: "out_of_reach cfg (last_credited st) (n + 1)" using out_of_reach_mono [OF Cons.prems(2)] by simp
  have keep: "last_credited (snd ?s) = last_credited st \<and> votes_in (pt_log (snd ?s)) = votes_in (pt_log st)"
    using authored_block_stuck [of st cl cfg env n pair] pruned_members [OF hook far] Cons.prems(3) by (simp add: b)
  have seats: "seats_ok cfg (envs @ [env]) ?s"
    using seats_run [OF assms Cons.prems(1), of "[BeginBlock env, Note env (provider_for (Some n) (Some (last_credited st)) cl pair)]"]
    by (simp add: authored_block_def b envs_of_def List.map_filter_simps)
  then have "fst ?s = Suc n" using Cons.prems(1) by (simp add: seats_ok_def)
  then obtain st' where s: "?s = (Suc n, st')" by (cases ?s) simp
  have "last_credited (snd (authored_chain cfg bs (Suc n, st'))) = last_credited st'
      \<and> votes_in (pt_log (snd (authored_chain cfg bs (Suc n, st')))) = votes_in (pt_log st')"
    by (rule Cons.IH [OF seats [unfolded s]]) (use keep far Cons.prems(3) in \<open>simp_all add: s\<close>)
  with keep show ?case by (simp add: s)
qed simp

section \<open>The votes a proof carries are the votes paid\<close>

lemma seen_exactly:
  assumes "length vs \<le> MAX_VOTES_CHECKED_PER_RECORD"
  shows "set (vs_seen (scanned cfg env st vs)) = vote_mark env ` {v \<in> set vs. creditable cfg env st v}"
    "distinct (vs_seen (scanned cfg env st vs))"
  using scanned_ok [of cfg env st vs] assms unfolding scan_ok_def by blast+

lemma resolve_is_resolve_voter: "resolve env k = resolve_voter k (pe_owner env)"
  by (simp add: resolve_def resolve_voter_def)

lemma carried_simps [simp]:
  "sv_height (carried h hsh (s, g)) = h" "sv_signer (carried h hsh (s, g)) = s" "sv_sig (carried h hsh (s, g)) = g"
  "sv_block_hash (carried h hsh (s, g)) = hsh"
  by (simp_all add: carried_def)

lemma carried_creditable:
  assumes "last_credited st < h" "committees st (h div pc_committee_epoch cfg) = Some c"
    "bd_flavor bd = pc_flavor cfg" "bd_cutoff bd = 0"
  shows "creditable cfg env st (carried h hsh (s, g)) \<longleftrightarrow> resolve_voter s (pe_owner env) \<in> set c
    \<and> verify_sig bd (pe_verify env) (pe_genesis env) \<lparr>vt_height = h, vt_hash = hsh, vt_signer = s, vt_sig = g\<rparr>"
  using assms by (auto simp: creditable_def is_member_def vote_signed_def verify_sig_def sign_message_def signed_message_def
      resolve_is_resolve_voter)

lemma ex_of_pair:
  "(\<exists>v. (\<exists>s g. P s g \<and> v = carried h hsh (s, g)) \<and> Q v \<and> resolve_voter (sv_signer v) d = who)
    \<longleftrightarrow> (\<exists>s g. P s g \<and> Q (carried h hsh (s, g)) \<and> resolve_voter s d = who)"
proof
  assume "\<exists>v. (\<exists>s g. P s g \<and> v = carried h hsh (s, g)) \<and> Q v \<and> resolve_voter (sv_signer v) d = who"
  then obtain s g where "P s g" "Q (carried h hsh (s, g))" "resolve_voter (sv_signer (carried h hsh (s, g))) d = who" by blast
  then show "\<exists>s g. P s g \<and> Q (carried h hsh (s, g)) \<and> resolve_voter s d = who" unfolding carried_simps by blast
next
  assume "\<exists>s g. P s g \<and> Q (carried h hsh (s, g)) \<and> resolve_voter s d = who"
  then obtain s g where "P s g" "Q (carried h hsh (s, g))" "resolve_voter s d = who" by blast
  then show "\<exists>v. (\<exists>s g. P s g \<and> v = carried h hsh (s, g)) \<and> Q v \<and> resolve_voter (sv_signer v) d = who"
    by (intro exI [of _ "carried h hsh (s, g)"]) auto
qed

lemma credited_votes:
  assumes b: "backend_sound (last_credited st) cl" and h: "last_credited st < h" "h \<le> ci_finalized cl"
      "h \<le> last_credited st + MAX_HEIGHTS_PER_RECORD"
    and p: "ci_hash cl h = Some hsh" "ci_justification cl hsh = Some pf" "take 32 (drop 8 pf) = hsh"
      "PROOF_HEADER + le_value (take 2 (drop 40 pf)) * PROOF_VOTE \<le> length pf"
    and c: "committees st (h div pc_committee_epoch cfg) = Some c" "bd_flavor bd = pc_flavor cfg" "bd_cutoff bd = 0"
  shows "{who. (h, who) \<in> vote_mark env ` {v \<in> set (pr_finality_votes (provider_for n (Some (last_credited st)) cl pair)).
      creditable cfg env st v}}
    = backers bd (pe_verify env) (pe_genesis env) hsh h (proof_votes pf) (set c) (pe_owner env)" (is "?L = ?R")
proof -
  let ?V = "set (pr_finality_votes (provider_for n (Some (last_credited st)) cl pair))"
  have lim: "ci_finalized cl \<le> u32_max" "h < 2 ^ 32" using b h by (simp_all add: backend_sound_def u32_max_def)
  have here: "votes_for_height cl h = Some (map (carried h hsh) (proof_votes pf))"
    using b h p lim by (simp add: votes_for_height_def as_u32_small decode_proof_votes_eq backend_sound_def)
  have V: "v \<in> ?V \<and> sv_height v = h \<longleftrightarrow> (\<exists>s g. (s, g) \<in> set (proof_votes pf) \<and> v = carried h hsh (s, g))" for v
  proof
    assume v: "v \<in> ?V \<and> sv_height v = h"
    with provider_heights [OF b, of v n pair] here have "v \<in> carried h hsh ` set (proof_votes pf)" by auto
    then show "\<exists>s g. (s, g) \<in> set (proof_votes pf) \<and> v = carried h hsh (s, g)" by auto
  next
    assume "\<exists>s g. (s, g) \<in> set (proof_votes pf) \<and> v = carried h hsh (s, g)"
    then have "v \<in> set (map (carried h hsh) (proof_votes pf))" "sv_height v = h" by auto
    with provider_member [OF lim(1)] here h show "v \<in> ?V \<and> sv_height v = h" by blast
  qed
  have "who \<in> ?L \<longleftrightarrow> (\<exists>v. (v \<in> ?V \<and> sv_height v = h) \<and> creditable cfg env st v \<and> resolve env (sv_signer v) = who)" for who
    by (auto simp: vote_mark_def image_iff)
  then have L: "who \<in> ?L \<longleftrightarrow> (\<exists>s g. (s, g) \<in> set (proof_votes pf) \<and> creditable cfg env st (carried h hsh (s, g))
      \<and> resolve_voter s (pe_owner env) = who)" for who
    unfolding V resolve_is_resolve_voter ex_of_pair .
  show ?thesis
    by (intro set_eqI) (simp only: L carried_creditable [OF h(1) c] backers_def mem_Collect_eq, metis)
qed

section \<open>An example\<close>

text \<open>One member votes for the block at height 15, whose proof its node has stored.\<close>

definition demo_member_key :: key where "demo_member_key = replicate 32 1"
definition demo_block :: "byte list" where "demo_block = replicate 32 3"

definition demo_ballots :: "(key \<times> vote) list" where
  "demo_ballots = [(demo_member_key, \<lparr>vt_height = 15, vt_hash = demo_block, vt_signer = demo_member_key, vt_sig = replicate 64 2\<rparr>)]"

definition demo_stored :: "byte list" where "demo_stored = encode_proof 15 demo_block demo_ballots"

definition demo_backend :: node_client where
  "demo_backend = \<lparr>ci_best = 20, ci_best_hash = demo_block, ci_finalized = 15, ci_finalized_hash = demo_block,
     ci_hash = \<lambda>h. if h = 15 then Some demo_block else None, ci_justification = \<lambda>_. Some demo_stored\<rparr>"

definition demo_reads :: pt_env where
  "demo_reads = \<lparr>pe_reputation = [], pe_bound = [], pe_committed = [], pe_beacon = [], pe_halted = False, pe_owner = \<lambda>_. None,
     pe_verify = \<lambda>_ sig _. sig = replicate 64 2, pe_genesis = zero_hash\<rparr>"

definition demo_seated :: participation where
  "demo_seated = empty_participation\<lparr>committees := [1 \<mapsto> [demo_member_key]]\<rparr>"

lemma demo_stored_parts:
  "le_value (take 8 demo_stored) = 15" "take 32 (drop 8 demo_stored) = demo_block"
  "le_value (take 2 (drop 40 demo_stored)) = 1" "length demo_stored = PROOF_HEADER + PROOF_VOTE"
  "proof_votes demo_stored = [(demo_member_key, replicate 64 2)]"
proof -
  have a: "(15::nat) < 2 ^ 64" "length demo_block = 32" "length demo_ballots < 2 ^ 16" "\<forall>(a, v)\<in>set demo_ballots. vote_typed v"
    by (simp_all add: demo_block_def demo_ballots_def vote_typed_def demo_member_key_def)
  have "selected_votes 15 demo_block demo_ballots = map snd demo_ballots" by (simp add: selected_votes_def demo_ballots_def)
  with encode_proof_parts [OF a] show
    "le_value (take 8 demo_stored) = 15" "take 32 (drop 8 demo_stored) = demo_block"
    "le_value (take 2 (drop 40 demo_stored)) = 1" "length demo_stored = PROOF_HEADER + PROOF_VOTE"
    "proof_votes demo_stored = [(demo_member_key, replicate 64 2)]"
    unfolding demo_stored_def by (simp_all add: demo_ballots_def)
qed

lemma demo_backend_sound: "backend_sound c demo_backend"
  by (simp add: backend_sound_def demo_backend_def u32_max_def demo_stored_parts)

lemma demo_backers: "backers mainnet (pe_verify demo_reads) zero_hash demo_block 15 (proof_votes demo_stored) {demo_member_key} (\<lambda>_. None)
    = {demo_member_key}"
  by (auto simp: backers_def demo_stored_parts resolve_voter_def verify_sig_def demo_reads_def)

lemma demo_votes_carried: "length (pr_finality_votes (provider_for n (Some 0) demo_backend pair)) = 1"
proof -
  have v: "votes_for_height demo_backend h = (if h = 15 then Some [carried 15 demo_block (demo_member_key, replicate 64 2)] else None)"
    if "h < 16" for h
    using that demo_stored_parts
    by (simp add: votes_for_height_def as_u32_def demo_backend_def decode_proof_votes_eq)
  have "map (\<lambda>h. unwrap_or [] (votes_for_height demo_backend h)) [1..<16]
      = map (\<lambda>h. if h = 15 then [carried 15 demo_block (demo_member_key, replicate 64 2)] else []) [1..<16]"
    by (rule map_cong) (auto simp: v unwrap_or_def)
  moreover have "pr_finality_votes (provider_for n (Some 0) demo_backend pair)
      = concat (map (\<lambda>h. unwrap_or [] (votes_for_height demo_backend h)) [1..<16])"
  proof -
    have "ci_finalized demo_backend = 15" by (simp add: demo_backend_def)
    then have "[sat_add u64_max 0 1..<min (ci_finalized demo_backend) (sat_add u64_max 0 MAX_HEIGHTS_PER_RECORD) + 1] = [1..<16]"
      by (simp add: sat_add_def u64_max_def MAX_HEIGHTS_PER_RECORD_def)
    then show ?thesis unfolding provider_for_def Let_def unwrap_or_def [of _ "Some 0"] by simp
  qed
  ultimately show ?thesis by (simp add: upt_rec)
qed

lemma note_returns: "\<not> noted st \<Longrightarrow> pr_at_block r = now \<Longrightarrow> \<exists>st'. note_participation cfg env now r st = Inr st'"
  by (auto simp: note_participation_def Let_def split: prod.split)

lemma begun_blocks:
  "\<exists>st'. run_calls (pt_step cfg) (replicate k (BeginBlock env)) (n, st) = (n + k, st') \<and> last_credited st' = last_credited st"
proof (induction k arbitrary: n st)
  case (Suc k)
  from Suc.IH [of "Suc n" "pt_on_initialize cfg env (Suc n) st"] show ?case by (auto simp: hook_cursor)
qed simp

section \<open>Properties\<close>



text \<open>
  C3: a gap silences the payments for good. Once the chain is four committee epochs past the 64 heights after the cursor,
  no block of an honest author ever credits another vote or moves the cursor, whatever is finalised meanwhile: the record
  reaches only the heights whose committees the pallet has dropped.
\<close>

theorem stalled_cursor_is_stuck:
  assumes "2 \<le> pc_committee_epoch cfg"
    and "run_calls (pt_step cfg) ops (0, empty_participation) = (n, st)"
    and "out_of_reach cfg (last_credited st) n"
    and "\<forall>(env, cl, pair)\<in>set blocks. backend_sound (last_credited st) cl"
  shows "last_credited (snd (authored_chain cfg blocks (n, st))) = last_credited st
    \<and> votes_in (pt_log (snd (authored_chain cfg blocks (n, st)))) = votes_in (pt_log st)"
  by (rule authored_chain_stuck [OF assms(1) _ assms(3,4)]) (use seats_reachable [OF assms(1), of ops] assms(2) in simp)

theorem stalled_cursor_is_stuck_witness:
  "\<exists>st. run_calls (pt_step demo_pt) (replicate 100 (BeginBlock demo_node)) (0, empty_participation) = (100, st)
    \<and> last_credited (snd (authored_chain demo_pt [(demo_node, demo_backend, None)] (100, st))) = 0"
proof -
  obtain st where r: "run_calls (pt_step demo_pt) (replicate 100 (BeginBlock demo_node)) (0, empty_participation) = (100, st)"
    and c: "last_credited st = 0"
    using begun_blocks [of demo_pt 100 demo_node 0 empty_participation] by (auto simp: empty_participation_def)
  have "last_credited (snd (authored_chain demo_pt [(demo_node, demo_backend, None)] (100, st))) = last_credited st"
    by (rule stalled_cursor_is_stuck [OF _ r, THEN conjunct1])
      (simp_all add: c demo_backend_sound out_of_reach_def demo_epoch MAX_HEIGHTS_PER_RECORD_def)
  with r c show ?thesis by auto
qed

end
