(* ===== verification/ContentId.thy ===== *)
theory ContentId
imports Sha256
begin

text \<open>
  Content addressing, \<open>chain/content-id/src/lib.rs\<close>: the digest stored on chain, the IPFS CIDv1 in base32,
  and the way back. Base32 is coded as the source does, through a \<open>u32\<close> accumulator that keeps shifting and
  loses its high bits. A CID is a list of bytes seen as characters.
\<close>

section \<open>Base32\<close>

definition content_digest :: "byte list \<Rightarrow> byte list" where
  "content_digest body = sha256 body"

definition CID_PREFIX :: "byte list" where
  "CID_PREFIX = [0x01, 0x55, 0x12, 0x20]"

definition ALPHABET :: string where
  "ALPHABET = ''abcdefghijklmnopqrstuvwxyz234567''"

text \<open>\<open>while bits >= 5 { bits -= 5; out.push(ALPHABET[(buffer >> bits) & 0x1f]) }\<close>: what is pushed, and
  the bits left.\<close>

fun base32_drain :: "w32 \<Rightarrow> nat \<Rightarrow> string \<times> nat" where
  "base32_drain buffer bits =
     (if bits \<ge> 5 then
        let bits' = bits - 5; (out, left) = base32_drain buffer bits'
        in (ALPHABET ! unat (drop_bit bits' buffer AND 0x1f) # out, left)
      else ([], bits))"

declare base32_drain.simps [simp del]

fun base32_into :: "byte list \<Rightarrow> w32 \<Rightarrow> nat \<Rightarrow> string" where
  "base32_into [] buffer bits =
     (if bits > 0 then [ALPHABET ! unat (push_bit (5 - bits) buffer AND 0x1f)] else [])"
| "base32_into (b # data) buffer bits =
     (let buffer' = push_bit 8 buffer OR ucast b; (out, left) = base32_drain buffer' (bits + 8)
      in out @ base32_into data buffer' left)"

definition base32_lower_nopad_into :: "byte list \<Rightarrow> string" where
  "base32_lower_nopad_into data = base32_into data 0 0"

definition base32_val :: "char \<Rightarrow> w32 option" where
  "base32_val c =
     (let n = (of_char c :: nat)
      in if 97 \<le> n \<and> n \<le> 122 then Some (of_nat (n - 97))
         else if 50 \<le> n \<and> n \<le> 55 then Some (of_nat (n - 50 + 26))
         else None)"

fun base32_from :: "string \<Rightarrow> w32 \<Rightarrow> nat \<Rightarrow> byte list option" where
  "base32_from [] buffer bits = Some []"
| "base32_from (c # s) buffer bits =
     (case base32_val c of None \<Rightarrow> None
      | Some v \<Rightarrow>
          let buffer' = push_bit 5 buffer OR v; bits' = bits + 5
          in if bits' \<ge> 8 then map_option (Cons (ucast (drop_bit (bits' - 8) buffer'))) (base32_from s buffer' (bits' - 8))
             else base32_from s buffer' bits')"

definition base32_lower_nopad_decode :: "string \<Rightarrow> byte list option" where
  "base32_lower_nopad_decode s = base32_from s 0 0"

section \<open>CIDs\<close>

definition cid_v1_raw_from_digest :: "byte list \<Rightarrow> string" where
  "cid_v1_raw_from_digest d = CHR ''b'' # base32_lower_nopad_into (CID_PREFIX @ d)"

definition cid_v1_raw :: "byte list \<Rightarrow> string" where
  "cid_v1_raw body = cid_v1_raw_from_digest (content_digest body)"

fun digest_from_cid :: "string \<Rightarrow> byte list option" where
  "digest_from_cid [] = None"
| "digest_from_cid (c # body) =
     (if c \<noteq> CHR ''b'' then None
      else case base32_lower_nopad_decode body of None \<Rightarrow> None
      | Some bytes \<Rightarrow>
          if length bytes \<noteq> 4 + 32 \<or> take 4 bytes \<noteq> CID_PREFIX then None
          else if cid_v1_raw_from_digest (drop 4 bytes) \<noteq> c # body then None
          else Some (drop 4 bytes))"

section \<open>The bits behind base32\<close>

text \<open>The \<open>n\<close> low bits of a word, the highest first: what the accumulator still holds.\<close>

definition low_bits :: "nat \<Rightarrow> 'a::len word \<Rightarrow> bool list" where
  "low_bits n w = map (bit w) (rev [0..<n])"

lemma length_low_bits [simp]: "length (low_bits n w) = n"
  by (simp add: low_bits_def)

lemma low_bits_0 [simp]: "low_bits 0 w = []"
  by (simp add: low_bits_def)

lemma nth_low_bits: "i < n \<Longrightarrow> low_bits n w ! i = bit w (n - 1 - i)"
  by (simp add: low_bits_def rev_nth)

lemma low_bits_shift_or:
  fixes buffer :: w32 and v :: "'a::len word"
  assumes "n + k \<le> 32" "\<And>i. k \<le> i \<Longrightarrow> \<not> bit v i"
  shows "low_bits (n + k) (push_bit k buffer OR ucast v) = low_bits n buffer @ low_bits k v"
  using assms
  by (intro nth_equalityI)
    (auto simp: nth_low_bits nth_append bit_or_iff bit_push_bit_iff bit_ucast_iff add.commute dest: bit_imp_le_length)

lemma low_bits_split: "m \<le> n \<Longrightarrow> low_bits n w = low_bits (n - m) (drop_bit m w) @ low_bits m w"
  by (intro nth_equalityI) (auto simp: nth_low_bits nth_append bit_drop_bit_eq intro!: arg_cong [where f = "bit w"])

lemma low_bits_pad:
  fixes buffer :: w32
  assumes "n \<le> 5"
  shows "low_bits 5 (push_bit (5 - n) buffer) = low_bits n buffer @ replicate (5 - n) False"
  using assms
  by (intro nth_equalityI) (auto simp: nth_low_bits nth_append bit_push_bit_iff intro!: arg_cong [where f = "bit buffer"])

lemma and_1f: "(w :: w32) AND 0x1f = take_bit 5 w"
  by (simp add: take_bit_eq_mask mask_eq_exp_minus_1)

lemma low_bits_take_bit [simp]: "low_bits n (take_bit n w) = low_bits n w"
  by (auto simp: low_bits_def bit_take_bit_iff)

lemma take_bit_5_less: "unat (take_bit 5 (w :: w32)) < 32"
  using take_bit_nat_less_exp [of 5 "unat w"] by (simp add: unsigned_take_bit_eq)

lemma low_bits_inject: "low_bits 8 (a :: byte) = low_bits 8 b \<longleftrightarrow> a = b"
proof
  assume eq: "low_bits 8 a = low_bits 8 b"
  have "bit a i = bit b i" if "i < 8" for i
  proof -
    have "low_bits 8 a ! (7 - i) = low_bits 8 b ! (7 - i)" by (simp add: eq)
    with that show ?thesis by (simp add: nth_low_bits)
  qed
  then show "a = b" by (intro bit_word_eqI) simp
qed simp

text \<open>A base32 character stands for five bits.\<close>

definition base32_char :: "char \<Rightarrow> bool" where
  "base32_char c = (base32_val c \<noteq> None)"

definition char_bits :: "char \<Rightarrow> bool list" where
  "char_bits c = low_bits 5 (the (base32_val c))"

lemma length_char_bits [simp]: "length (char_bits c) = 5"
  by (simp add: char_bits_def)

lemma alphabet_val: "n < 32 \<Longrightarrow> base32_val (ALPHABET ! n) = Some (of_nat n)"
proof -
  have "list_all (\<lambda>n. base32_val (ALPHABET ! n) = Some (of_nat n)) [0..<32]"
    by (simp add: upt_rec base32_val_def ALPHABET_def)
  then show "n < 32 \<Longrightarrow> base32_val (ALPHABET ! n) = Some (of_nat n)" by (simp add: list_all_iff)
qed

lemma alphabet_char:
  fixes w :: w32
  defines "c \<equiv> ALPHABET ! unat (w AND 0x1f)"
  shows "base32_char c" "char_bits c = low_bits 5 w"
  by (simp_all add: c_def base32_char_def char_bits_def alphabet_val [OF take_bit_5_less] and_1f)

lemma base32_val_5: "base32_val c = Some v \<Longrightarrow> 5 \<le> i \<Longrightarrow> \<not> bit v i"
proof -
  assume v: "base32_val c = Some v" and i: "5 \<le> i"
  obtain m where "m < 32" "v = of_nat m"
  proof (cases "97 \<le> (of_char c :: nat) \<and> (of_char c :: nat) \<le> 122")
    case True
    then have "(of_char c :: nat) - 97 < 32" by linarith
    moreover have "v = of_nat (of_char c - 97)" using v True by (simp add: base32_val_def Let_def)
    ultimately show ?thesis by (rule that)
  next
    case False
    then have "50 \<le> (of_char c :: nat) \<and> (of_char c :: nat) \<le> 55" "v = of_nat (of_char c - 50 + 26)"
      using v by (simp_all add: base32_val_def Let_def split: if_splits)
    moreover from this have "(of_char c :: nat) - 50 + 26 < 32" by linarith
    ultimately show ?thesis by (intro that [of "of_char c - 50 + 26"])
  qed
  then have "take_bit 5 v = v" by (simp add: take_bit_of_nat take_bit_nat_eq_self)
  with i show ?thesis by (metis bit_take_bit_iff not_le)
qed

lemma drain_bits:
  "n \<le> 32 \<Longrightarrow> base32_drain buffer n = (out, left) \<Longrightarrow>
    left < 5 \<and> list_all base32_char out \<and> low_bits n buffer = concat (map char_bits out) @ low_bits left buffer"
proof (induction buffer n arbitrary: out left rule: base32_drain.induct)
  case (1 buffer n)
  show ?case
  proof (cases "5 \<le> n")
    case True
    then obtain out' where o: "base32_drain buffer (n - 5) = (out', left)"
      and out: "out = ALPHABET ! unat (drop_bit (n - 5) buffer AND 0x1f) # out'"
      using "1.prems"(2) by (subst (asm) base32_drain.simps) (auto simp: Let_def split: prod.splits)
    have "low_bits n buffer = low_bits 5 (drop_bit (n - 5) buffer) @ low_bits (n - 5) buffer"
      using low_bits_split [of "n - 5" n buffer] True by simp
    with "1.IH" [OF True refl _ o] "1.prems"(1) show ?thesis by (simp add: out alphabet_char)
  qed (use "1.prems" in \<open>simp add: base32_drain.simps\<close>)
qed

lemma into_bits:
  "n < 5 \<Longrightarrow> \<exists>pad < 5. list_all base32_char (base32_into data buffer n)
    \<and> concat (map char_bits (base32_into data buffer n)) = low_bits n buffer @ concat (map (low_bits 8) data) @ replicate pad False"
proof (induction data buffer n rule: base32_into.induct)
  case (1 buffer n)
  then show ?case
    by (cases "n = 0") (auto simp: alphabet_char low_bits_pad intro!: exI [of _ "5 - n"] exI [of _ 0])
next
  case (2 b data buffer n)
  let ?b = "push_bit 8 buffer OR ucast b :: w32"
  obtain out left where d: "base32_drain ?b (n + 8) = (out, left)" by fastforce
  have l: "left < 5" "list_all base32_char out" "low_bits (n + 8) ?b = concat (map char_bits out) @ low_bits left ?b"
    using drain_bits [OF _ d] 2(2) by auto
  have "low_bits (n + 8) ?b = low_bits n buffer @ low_bits 8 b"
    using 2(2) by (intro low_bits_shift_or) (auto dest: bit_imp_le_length)
  with "2.IH" [OF refl d [symmetric] refl l(1)] l show ?case by (auto simp: Let_def d)
qed

lemma from_bits:
  "n < 8 \<Longrightarrow> list_all base32_char s \<Longrightarrow> \<exists>data rest. base32_from s buffer n = Some data \<and> length rest < 8
    \<and> low_bits n buffer @ concat (map char_bits s) = concat (map (low_bits 8) data) @ rest"
proof (induction s arbitrary: buffer n)
  case Nil
  then show ?case by (intro exI [of _ "[]"] exI [of _ "low_bits n buffer"]) simp
next
  case (Cons c s)
  then obtain v where v: "base32_val c = Some v" by (auto simp: base32_char_def)
  let ?b = "push_bit 5 buffer OR v :: w32"
  have now: "low_bits (n + 5) ?b = low_bits n buffer @ char_bits c"
    using low_bits_shift_or [of n 5 v buffer] base32_val_5 [OF v] Cons.prems(1) by (simp add: v char_bits_def)
  show ?case
  proof (cases "n + 5 \<ge> 8")
    case True
    let ?n = "n + 5 - 8" and ?a = "ucast (drop_bit (n + 5 - 8) ?b) :: byte"
    have split: "low_bits (n + 5) ?b = low_bits 8 (drop_bit ?n ?b) @ low_bits ?n ?b"
      using low_bits_split [of ?n "n + 5" ?b] True by simp
    have oct: "low_bits 8 (drop_bit ?n ?b) = low_bits 8 ?a"
      by (intro nth_equalityI) (auto simp: nth_low_bits bit_ucast_iff)
    have less: "?n < 8" using Cons.prems(1) by linarith
    obtain data rest where ih: "base32_from s ?b ?n = Some data" "length rest < 8"
        "low_bits ?n ?b @ concat (map char_bits s) = concat (map (low_bits 8) data) @ rest"
      using Cons.IH [of ?n ?b, OF less] Cons.prems(2) unfolding list.pred_inject(2) by blast
    have "low_bits n buffer @ concat (map char_bits (c # s)) = low_bits (n + 5) ?b @ concat (map char_bits s)"
      by (simp add: now)
    also have "\<dots> = low_bits 8 ?a @ concat (map (low_bits 8) data) @ rest"
      by (simp only: split oct append_assoc ih(3))
    finally have "low_bits n buffer @ concat (map char_bits (c # s)) = concat (map (low_bits 8) (?a # data)) @ rest"
      by (simp only: list.map concat.simps append_assoc)
    moreover have "base32_from (c # s) buffer n = Some (?a # data)" using True ih(1) by (simp add: v Let_def)
    ultimately show ?thesis using ih(2) by blast
  next
    case False
    then obtain data rest where ih: "base32_from s ?b (n + 5) = Some data" "length rest < 8"
        "low_bits (n + 5) ?b @ concat (map char_bits s) = concat (map (low_bits 8) data) @ rest"
      using Cons.IH [of "n + 5" ?b] Cons.prems by auto
    show ?thesis
      by (intro exI [of _ data] exI [of _ rest]) (use False ih now in \<open>simp add: v Let_def\<close>)
  qed
qed

lemma length_octets: "length (concat (map (low_bits 8) xs)) = 8 * length xs"
  by (induction xs) simp_all

lemma octets_unique:
  assumes "length r < 8" "length r' < 8"
    and eq: "concat (map (low_bits 8) xs) @ r = concat (map (low_bits 8) ys) @ r'"
  shows "xs = (ys :: byte list)"
proof -
  have "8 * length xs + length r = 8 * length ys + length r'"
    using arg_cong [OF eq, of length] by (simp only: length_append length_octets)
  with assms(1,2) have "length xs = length ys" by linarith
  then show ?thesis using eq by (induction xs ys rule: list_induct2) (simp_all add: low_bits_inject)
qed

lemma base32_roundtrip: "base32_lower_nopad_decode (base32_lower_nopad_into data) = Some data"
proof -
  let ?s = "base32_into data 0 0"
  obtain pad where p: "pad < 5" "list_all base32_char ?s"
      "concat (map char_bits ?s) = concat (map (low_bits 8) data) @ replicate pad False"
    using into_bits [of 0 data 0] by auto
  obtain out rest where o: "base32_from ?s 0 0 = Some out" "length rest < 8"
      "concat (map char_bits ?s) = concat (map (low_bits 8) out) @ rest"
    using from_bits [OF _ p(2), of 0 0] by auto
  have "data = out" by (rule octets_unique [of "replicate pad False" rest]) (use p o in simp_all)
  with o(1) show ?thesis by (simp add: base32_lower_nopad_decode_def base32_lower_nopad_into_def)
qed

lemma digest_from_cid_iff: "digest_from_cid cid = Some d \<longleftrightarrow> length d = 32 \<and> cid = cid_v1_raw_from_digest d"
proof
  show "digest_from_cid cid = Some d \<Longrightarrow> length d = 32 \<and> cid = cid_v1_raw_from_digest d"
    by (cases cid) (auto split: if_splits option.splits)
  show "length d = 32 \<and> cid = cid_v1_raw_from_digest d \<Longrightarrow> digest_from_cid cid = Some d"
    by (simp add: cid_v1_raw_from_digest_def base32_roundtrip CID_PREFIX_def)
qed

end
