(* ===== verification/ForumCore.thy ===== *)
theory ForumCore
imports ContentId
begin

text \<open>
  The canonical body of a forum post, \<open>chain/forum-core/src/lib.rs\<close>. A text is the list of its Unicode
  scalar values, encoded and checked as Rust's \<open>str\<close> does (UTF-8, \<open>core::str::from_utf8\<close>).
\<close>

section \<open>Texts\<close>

text \<open>
  Rust's \<open>String\<close>: UTF-8. \<open>utf8_char\<close> encodes a scalar value, \<open>first_char\<close> reads one off a list of bytes, and
  \<open>from_utf8\<close> refuses what is not the shortest form of scalar values.
\<close>

definition is_scalar :: "nat \<Rightarrow> bool" where
  "is_scalar c = (c < 0xD800 \<or> 0xE000 \<le> c \<and> c < 0x110000)"

definition byte_of :: "nat \<Rightarrow> byte" where
  "byte_of n = of_nat n"

definition tail_byte :: "nat \<Rightarrow> byte" where
  "tail_byte n = byte_of (128 + n mod 64)"

definition utf8_char :: "nat \<Rightarrow> byte list" where
  "utf8_char c =
     (if c < 0x80 then [byte_of c]
      else if c < 0x800 then [byte_of (192 + c div 64), tail_byte c]
      else if c < 0x10000 then [byte_of (224 + c div 4096), tail_byte (c div 64), tail_byte c]
      else [byte_of (240 + c div 262144), tail_byte (c div 4096), tail_byte (c div 64), tail_byte c])"

definition as_bytes :: "nat list \<Rightarrow> byte list" where
  "as_bytes t = concat (map utf8_char t)"

definition tail_bits :: "byte \<Rightarrow> nat option" where
  "tail_bits b = (if 128 \<le> unat b \<and> unat b < 192 then Some (unat b - 128) else None)"

fun first_char :: "byte list \<Rightarrow> (nat \<times> byte list) option" where
  "first_char [] = None"
| "first_char (a # r) =
     (if unat a < 128 then Some (unat a, r)
      else if 192 \<le> unat a \<and> unat a < 224 then
        (case r of b # r' \<Rightarrow>
           (case tail_bits b of Some x \<Rightarrow>
              let c = (unat a - 192) * 64 + x in if 0x80 \<le> c then Some (c, r') else None
            | None \<Rightarrow> None)
         | _ \<Rightarrow> None)
      else if 224 \<le> unat a \<and> unat a < 240 then
        (case r of b # b' # r' \<Rightarrow>
           (case (tail_bits b, tail_bits b') of (Some x, Some y) \<Rightarrow>
              let c = (unat a - 224) * 4096 + x * 64 + y in if 0x800 \<le> c \<and> is_scalar c then Some (c, r') else None
            | _ \<Rightarrow> None)
         | _ \<Rightarrow> None)
      else if 240 \<le> unat a \<and> unat a < 248 then
        (case r of b # b' # b'' # r' \<Rightarrow>
           (case (tail_bits b, tail_bits b', tail_bits b'') of (Some x, Some y, Some z) \<Rightarrow>
              let c = (unat a - 240) * 262144 + x * 4096 + y * 64 + z
              in if 0x10000 \<le> c \<and> is_scalar c then Some (c, r') else None
            | _ \<Rightarrow> None)
         | _ \<Rightarrow> None)
      else None)"

lemma first_char_shorter: "first_char bs = Some (c, r) \<Longrightarrow> length r < length bs"
  by (cases bs) (auto simp: Let_def split: if_splits list.splits option.splits)

declare first_char.simps(2) [simp del]

function from_utf8 :: "byte list \<Rightarrow> nat list option" where
  "from_utf8 [] = Some []"
| "from_utf8 (a # r) = (case first_char (a # r) of None \<Rightarrow> None | Some (c, r') \<Rightarrow> map_option (Cons c) (from_utf8 r'))"
  by pat_completeness auto
termination by (relation "measure length") (auto dest: first_char_shorter)

lemma unat_byte_of [simp]: "n < 256 \<Longrightarrow> unat (byte_of n) = n"
  by (simp add: byte_of_def unat_of_nat take_bit_nat_eq_self)

lemma byte_of_unat [simp]: "byte_of (unat b) = b"
  by (simp add: byte_of_def)

lemma tail_bits_byte [simp]: "tail_bits (tail_byte n) = Some (n mod 64)"
proof -
  have "n mod 64 < 64" by simp
  then have "128 + n mod 64 < 256" by linarith
  then show ?thesis by (simp add: tail_bits_def tail_byte_def)
qed

lemma tail_bits_Some: "tail_bits b = Some x \<Longrightarrow> x < 64 \<and> (\<forall>n. n mod 64 = x \<longrightarrow> tail_byte n = b)"
  by (auto simp: tail_bits_def tail_byte_def split: if_splits)

lemma digits64:
  "c = c div 64 * 64 + c mod (64::nat)" "c div 64 = c div 4096 * 64 + c div 64 mod (64::nat)"
  "c div 4096 = c div 262144 * 64 + c div 4096 mod (64::nat)"
  using div_mult2_eq [of c 64 64] div_mult2_eq [of c 4096 64] by simp_all

lemma first_char_encoded: "is_scalar c \<Longrightarrow> first_char (utf8_char c @ r) = Some (c, r)"
proof -
  assume c: "is_scalar c"
  then have b: "c < 0x110000" by (auto simp: is_scalar_def)
  consider "c < 0x80" | "0x80 \<le> c" "c < 0x800" | "0x800 \<le> c" "c < 0x10000" | "0x10000 \<le> c" by linarith
  then show ?thesis
  proof cases
    case 1
    then show ?thesis by (simp add: utf8_char_def first_char.simps)
  next
    case 2
    then have "c div 64 < 32" "unat (byte_of (192 + c div 64)) = 192 + c div 64" by auto
    with 2 show ?thesis by (simp add: utf8_char_def first_char.simps)
  next
    case 3
    then have "c div 4096 < 16" "unat (byte_of (224 + c div 4096)) = 224 + c div 4096" by auto
    moreover have "c div 4096 * 4096 + c div 64 mod 64 * 64 + c mod 64 = c" using digits64 [of c] by linarith
    ultimately show ?thesis using 3 c by (simp add: utf8_char_def first_char.simps)
  next
    case 4
    then have "c div 262144 < 5" "unat (byte_of (240 + c div 262144)) = 240 + c div 262144" using b by auto
    moreover have "c div 262144 * 262144 + c div 4096 mod 64 * 4096 + c div 64 mod 64 * 64 + c mod 64 = c"
      using digits64 [of c] by linarith
    ultimately show ?thesis using 4 c by (simp add: utf8_char_def first_char.simps)
  qed
qed

lemma digit64: "y < 64 \<Longrightarrow> (n * 64 + y) mod 64 = (y :: nat)" "y < 64 \<Longrightarrow> (n * 64 + y) div 64 = (n :: nat)"
  by simp_all

lemma first_char_canonical:
  assumes "first_char bs = Some (c, r)"
  shows "is_scalar c \<and> bs = utf8_char c @ r"
proof -
  obtain a q where bs: "bs = a # q" using assms by (cases bs) auto
  note f = assms [unfolded bs first_char.simps]
  consider "unat a < 128" | "192 \<le> unat a" "unat a < 224" | "224 \<le> unat a" "unat a < 240" | "240 \<le> unat a" "unat a < 248"
    using f by (auto split: if_splits)
  then show ?thesis
  proof cases
    case 1
    then show ?thesis using f by (auto simp: bs utf8_char_def is_scalar_def)
  next
    case 2
    then obtain b x where q: "q = b # r" "tail_bits b = Some x" "c = (unat a - 192) * 64 + x" "0x80 \<le> c"
      using f by (auto simp: Let_def split: list.splits option.splits if_splits)
    note x = tail_bits_Some [OF q(2)]
    have d: "c mod 64 = x" "c div 64 = unat a - 192" "c < 0x800" using q(3) 2 x by auto
    then have "tail_byte c = b" using x by blast
    with d 2 q show ?thesis by (simp add: bs utf8_char_def is_scalar_def)
  next
    case 3
    then obtain b b' x y where q: "q = b # b' # r" "tail_bits b = Some x" "tail_bits b' = Some y"
        "c = (unat a - 224) * 4096 + x * 64 + y" "0x800 \<le> c" "is_scalar c"
      using f by (auto simp: Let_def split: list.splits option.splits if_splits)
    note x = tail_bits_Some [OF q(2)] tail_bits_Some [OF q(3)]
    have c: "c = ((unat a - 224) * 64 + x) * 64 + y" using q(4) by simp
    have d: "c mod 64 = y" "c div 64 = (unat a - 224) * 64 + x" unfolding c using x by (simp_all only: digit64)
    have e: "c div 64 mod 64 = x" "c div 4096 = unat a - 224"
      using d x div_mult2_eq [of c 64 64] by simp_all
    have "c < 0x10000" using x(1) x(2) q(4) 3 by (elim conjE) linarith
    have "tail_byte c = b'" "tail_byte (c div 64) = b" using x d e by blast+
    with \<open>c < 0x10000\<close> e 3 q show ?thesis by (simp add: bs utf8_char_def)
  next
    case 4
    then obtain b b' b'' x y z where q: "q = b # b' # b'' # r" "tail_bits b = Some x" "tail_bits b' = Some y"
        "tail_bits b'' = Some z" "c = (unat a - 240) * 262144 + x * 4096 + y * 64 + z" "0x10000 \<le> c" "is_scalar c"
      using f by (auto simp: Let_def split: list.splits option.splits if_splits)
    note x = tail_bits_Some [OF q(2)] tail_bits_Some [OF q(3)] tail_bits_Some [OF q(4)]
    have c: "c = (((unat a - 240) * 64 + x) * 64 + y) * 64 + z" using q(5) by simp
    have d: "c mod 64 = z" "c div 64 = ((unat a - 240) * 64 + x) * 64 + y" unfolding c using x by (simp_all only: digit64)
    have e: "c div 64 mod 64 = y" "c div 4096 = (unat a - 240) * 64 + x"
      using x div_mult2_eq [of c 64 64] by (simp_all only: d(2) digit64 numeral_times_numeral semiring_norm)
    have g: "c div 4096 mod 64 = x" "c div 262144 = unat a - 240"
      using x div_mult2_eq [of c 4096 64] by (simp_all only: e(2) digit64 numeral_times_numeral semiring_norm)
    have "tail_byte c = b''" "tail_byte (c div 64) = b'" "tail_byte (c div 4096) = b" using x d e g by blast+
    with g 4 q show ?thesis by (simp add: bs utf8_char_def)
  qed
qed

lemma first_char_Nil [simp]: "utf8_char c \<noteq> []"
  by (simp add: utf8_char_def)

lemma from_utf8_step: "bs \<noteq> [] \<Longrightarrow>
    from_utf8 bs = (case first_char bs of None \<Rightarrow> None | Some (c, r) \<Rightarrow> map_option (Cons c) (from_utf8 r))"
  by (cases bs) simp_all

lemma from_utf8_as_bytes: "list_all is_scalar t \<Longrightarrow> from_utf8 (as_bytes t) = Some t"
proof (induction t)
  case (Cons c t)
  then show ?case using from_utf8_step [of "as_bytes (c # t)"] by (simp add: as_bytes_def first_char_encoded)
qed (simp add: as_bytes_def)

lemma from_utf8_canonical: "from_utf8 bs = Some t \<Longrightarrow> list_all is_scalar t \<and> as_bytes t = bs"
proof (induction bs arbitrary: t rule: from_utf8.induct)
  case (2 a r)
  then obtain c q u where f: "first_char (a # r) = Some (c, q)" "from_utf8 q = Some u" "t = c # u"
    by (auto split: option.splits)
  from "2.IH" [OF f(1) refl f(2)] first_char_canonical [OF f(1)] f(3) show ?case by (simp add: as_bytes_def)
qed (simp add: as_bytes_def)

lemma from_utf8_iff: "from_utf8 bs = Some t \<longleftrightarrow> list_all is_scalar t \<and> as_bytes t = bs"
  using from_utf8_as_bytes from_utf8_canonical by blast

section \<open>Bodies\<close>

definition FORMAT_VERSION :: byte where "FORMAT_VERSION = 1"
definition MAX_BODY_LEN :: nat where "MAX_BODY_LEN = 16 * 1024"

record post_body =
  pb_text :: "nat list"

record submission =
  sub_digest :: "byte list"
  sub_cid :: string
  ipfs_bytes :: "byte list"

datatype forum_error = BodyEmpty | BodyTooLong | BodyMalformed | DigestMismatch

definition forum_serialize :: "post_body \<Rightarrow> byte list" where
  "forum_serialize body = FORMAT_VERSION # as_bytes (pb_text body)"

fun forum_parse :: "byte list \<Rightarrow> forum_error + post_body" where
  "forum_parse [] = Inl BodyMalformed"
| "forum_parse (version # rest) =
     (if version \<noteq> FORMAT_VERSION then Inl BodyMalformed
      else if rest = [] then Inl BodyEmpty
      else if length rest > MAX_BODY_LEN then Inl BodyTooLong
      else case from_utf8 rest of None \<Rightarrow> Inl BodyMalformed | Some t \<Rightarrow> Inr \<lparr>pb_text = t\<rparr>)"

text \<open>\<open>char::is_whitespace\<close> (the Unicode property White_Space), and \<open>str::trim\<close>.\<close>

definition is_whitespace :: "nat \<Rightarrow> bool" where
  "is_whitespace c = (9 \<le> c \<and> c \<le> 13 \<or> c = 32 \<or> c = 0x85 \<or> c = 0xA0 \<or> c = 0x1680 \<or> 0x2000 \<le> c \<and> c \<le> 0x200A
     \<or> c = 0x2028 \<or> c = 0x2029 \<or> c = 0x202F \<or> c = 0x205F \<or> c = 0x3000)"

definition trim :: "nat list \<Rightarrow> nat list" where
  "trim t = rev (dropWhile is_whitespace (rev (dropWhile is_whitespace t)))"

definition forum_prepare :: "nat list \<Rightarrow> forum_error + submission" where
  "forum_prepare text =
     (if trim text = [] then Inl BodyEmpty
      else if length (as_bytes text) > MAX_BODY_LEN then Inl BodyTooLong
      else
        let body = \<lparr>pb_text = text\<rparr>; bytes = forum_serialize body
        in Inr \<lparr>sub_digest = content_digest bytes, sub_cid = cid_v1_raw bytes, ipfs_bytes = bytes\<rparr>)"

definition verify_fetched :: "byte list \<Rightarrow> byte list \<Rightarrow> forum_error + post_body" where
  "verify_fetched onchain_digest bytes =
     (if content_digest bytes \<noteq> onchain_digest then Inl DigestMismatch else forum_parse bytes)"

lemma trim_Nil: "trim t = [] \<longleftrightarrow> list_all is_whitespace t"
proof -
  have "(\<forall>c\<in>set (dropWhile is_whitespace t). is_whitespace c) \<longleftrightarrow> dropWhile is_whitespace t = []"
    by (metis empty_iff hd_dropWhile hd_in_set list.set(1))
  then show ?thesis by (simp add: trim_def list_all_iff)
qed

lemma as_bytes_Nil [simp]: "as_bytes t = [] \<longleftrightarrow> t = []"
  by (cases t) (simp_all add: as_bytes_def)

text \<open>What a body's bytes are, read off the parser.\<close>

lemma parse_iff: "forum_parse bytes = Inr body \<longleftrightarrow>
    list_all is_scalar (pb_text body) \<and> pb_text body \<noteq> [] \<and> length (as_bytes (pb_text body)) \<le> MAX_BODY_LEN
      \<and> bytes = forum_serialize body"
proof (cases bytes)
  case (Cons v rest)
  show ?thesis
  proof
    assume "forum_parse bytes = Inr body"
    then show "list_all is_scalar (pb_text body) \<and> pb_text body \<noteq> [] \<and> length (as_bytes (pb_text body)) \<le> MAX_BODY_LEN
        \<and> bytes = forum_serialize body"
      by (auto simp: Cons forum_serialize_def split: if_splits option.splits dest!: from_utf8_canonical)
  qed (auto simp: forum_serialize_def from_utf8_as_bytes)
qed (simp add: forum_serialize_def)

lemma prepare_iff: "forum_prepare text = Inr sub \<longleftrightarrow>
    \<not> list_all is_whitespace text \<and> length (as_bytes text) \<le> MAX_BODY_LEN
      \<and> sub = \<lparr>sub_digest = content_digest (forum_serialize \<lparr>pb_text = text\<rparr>),
          sub_cid = cid_v1_raw (forum_serialize \<lparr>pb_text = text\<rparr>), ipfs_bytes = forum_serialize \<lparr>pb_text = text\<rparr>\<rparr>"
  by (auto simp: forum_prepare_def trim_Nil Let_def)

lemma verify_fetched_iff: "verify_fetched d bytes = Inr body \<longleftrightarrow>
    content_digest bytes = d \<and> bytes = forum_serialize body
      \<and> list_all is_scalar (pb_text body) \<and> pb_text body \<noteq> [] \<and> length (as_bytes (pb_text body)) \<le> MAX_BODY_LEN"
  by (auto simp: verify_fetched_def parse_iff)

lemma serialize_inject: "list_all is_scalar (pb_text a) \<Longrightarrow> list_all is_scalar (pb_text b) \<Longrightarrow>
    forum_serialize a = forum_serialize b \<Longrightarrow> a = b"
  by (cases a, cases b) (simp add: forum_serialize_def, metis from_utf8_as_bytes option.inject)

text \<open>The parser takes blank bodies that no client prepares.\<close>

lemma blank_body_parses: "forum_prepare [32] = Inl BodyEmpty" "forum_parse [1, 32] = Inr \<lparr>pb_text = [32]\<rparr>"
proof -
  show "forum_prepare [32] = Inl BodyEmpty" by (simp add: forum_prepare_def trim_Nil is_whitespace_def)
  show "forum_parse [1, 32] = Inr \<lparr>pb_text = [32]\<rparr>"
    unfolding parse_iff
    by (simp add: forum_serialize_def FORMAT_VERSION_def as_bytes_def utf8_char_def byte_of_def is_scalar_def
        MAX_BODY_LEN_def)
qed

text \<open>
  C36: what a client publishes is what every reader gets back. The bytes prepared from a text verify against
  the digest stored on chain and give the text; the CID the bytes are fetched by gives that digest, and no
  other string does; and whatever other bytes a reader is handed, they are refused, unless they are a second
  preimage of the digest.
\<close>

theorem forum_body_roundtrip:
  assumes "forum_prepare text = Inr sub" "list_all is_scalar text"
  shows "verify_fetched (sub_digest sub) (ipfs_bytes sub) = Inr \<lparr>pb_text = text\<rparr>
    \<and> (\<forall>cid. digest_from_cid cid = Some (sub_digest sub) \<longleftrightarrow> cid = sub_cid sub)
    \<and> (\<forall>bytes body. verify_fetched (sub_digest sub) bytes = Inr body \<longrightarrow>
        body = \<lparr>pb_text = text\<rparr> \<or> (bytes \<noteq> ipfs_bytes sub \<and> sha256 bytes = sha256 (ipfs_bytes sub)))"
proof -
  let ?b = "forum_serialize \<lparr>pb_text = text\<rparr>"
  have p: "\<not> list_all is_whitespace text" "length (as_bytes text) \<le> MAX_BODY_LEN"
    "sub = \<lparr>sub_digest = content_digest ?b, sub_cid = cid_v1_raw ?b, ipfs_bytes = ?b\<rparr>"
    using assms(1) by (simp_all add: prepare_iff)
  have "text \<noteq> []" using p(1) by auto
  then show ?thesis using assms(2) p(2)
    by (auto simp: p(3) verify_fetched_iff digest_from_cid_iff cid_v1_raw_def content_digest_def length_digest
        dest!: serialize_inject [rotated 2])
qed

theorem forum_body_roundtrip_witness:
  "\<exists>sub. forum_prepare [104, 233, 8364] = Inr sub \<and> length (ipfs_bytes sub) = 7
    \<and> verify_fetched (sub_digest sub) (ipfs_bytes sub) = Inr \<lparr>pb_text = [104, 233, 8364]\<rparr>"
proof -
  let ?t = "[104, 233, 8364] :: nat list"
  obtain sub where s: "forum_prepare ?t = Inr sub" "ipfs_bytes sub = forum_serialize \<lparr>pb_text = ?t\<rparr>"
    using prepare_iff [of ?t] by (simp add: is_whitespace_def as_bytes_def utf8_char_def MAX_BODY_LEN_def)
  moreover have "length (ipfs_bytes sub) = 7" by (simp add: s(2) forum_serialize_def as_bytes_def utf8_char_def)
  moreover have "verify_fetched (sub_digest sub) (ipfs_bytes sub) = Inr \<lparr>pb_text = ?t\<rparr>"
    using forum_body_roundtrip [OF s(1)] by (simp add: is_scalar_def)
  ultimately show ?thesis by blast
qed

end
