(* ===== verification/ForumPallet.thy ===== *)
theory ForumPallet
imports ForumCore
begin

text \<open>
  The forum index, \<open>chain/pallet-forum/src/lib.rs\<close>: one extrinsic, \<open>post\<close>, that appends an entry. A body hash is any value
  (\<open>'c\<close>); the bodies themselves are theory \<open>ForumCore\<close>. Ids are \<open>u64\<close>, depths \<open>u32\<close>.
\<close>

section \<open>Storage and the extrinsic\<close>

record ('a, 'c) post =
  po_author :: 'a
  po_body :: 'c
  po_parent :: "nat option"
  po_at :: nat

datatype ('a, 'c) forum_event = Posted nat 'a 'c "nat option"

datatype post_error = ParentNotFound | ThreadTooDeep

record ('a, 'c) forum =
  fo_next :: nat
  fo_posts :: "nat \<rightharpoonup> ('a, 'c) post"
  fo_depth :: "nat \<Rightarrow> nat"
  fo_log :: "('a, 'c) forum_event list"

definition empty_forum :: "('a, 'c) forum" where
  "empty_forum = \<lparr>fo_next = 0, fo_posts = Map.empty, fo_depth = (\<lambda>_. 0), fo_log = []\<rparr>"

definition post_depth :: "nat \<Rightarrow> nat option \<Rightarrow> ('a, 'c) forum \<Rightarrow> post_error + nat" where
  "post_depth max_depth parent st =
     (case parent of None \<Rightarrow> Inr 0 | Some pid \<Rightarrow>
      if fo_posts st pid = None then Inl ParentNotFound
      else let d = sat_add u32_max (fo_depth st pid) 1
      in if \<not> d \<le> max_depth then Inl ThreadTooDeep else Inr d)"

definition forum_post ::
  "nat \<Rightarrow> nat \<Rightarrow> 'a \<Rightarrow> 'c \<Rightarrow> nat option \<Rightarrow> ('a, 'c) forum \<Rightarrow> post_error + ('a, 'c) forum" where
  "forum_post max_depth now author body parent st =
     (case post_depth max_depth parent st of Inl e \<Rightarrow> Inl e | Inr depth \<Rightarrow>
      let i = fo_next st
      in Inr (st\<lparr>fo_posts := (fo_posts st)(i \<mapsto> \<lparr>po_author = author, po_body = body, po_parent = parent, po_at = now\<rparr>),
        fo_depth := (fo_depth st)(i := depth), fo_next := sat_add u64_max i 1,
        fo_log := fo_log st @ [Posted i author body parent]\<rparr>))"

datatype ('a, 'c) forum_call = ForumPost nat 'a 'c "nat option"

fun forum_step :: "nat \<Rightarrow> ('a, 'c) forum_call \<Rightarrow> ('a, 'c) forum \<Rightarrow> post_error + ('a, 'c) forum" where
  "forum_step mx (ForumPost now author body parent) st = forum_post mx now author body parent st"

section \<open>Threads\<close>

definition forum_ids_left :: "('a, 'c) forum \<Rightarrow> bool" where
  "forum_ids_left st = (fo_next st < u64_max)"

definition entry_ok :: "nat \<Rightarrow> (nat \<Rightarrow> nat) \<Rightarrow> nat \<Rightarrow> ('a, 'c) post \<Rightarrow> bool" where
  "entry_ok mx depth i p = (depth i \<le> mx
     \<and> (case po_parent p of None \<Rightarrow> depth i = 0 | Some q \<Rightarrow> q < i \<and> depth i = Suc (depth q)))"

definition forum_ok :: "nat \<Rightarrow> ('a, 'c) forum \<Rightarrow> bool" where
  "forum_ok mx st = (dom (fo_posts st) = {..<fo_next st} \<and> (\<forall>i p. fo_posts st i = Some p \<longrightarrow> entry_ok mx (fo_depth st) i p))"

lemma forum_step_ok:
  assumes ok: "forum_ok mx st" and mx: "mx < u32_max" and left: "forum_ids_left st" and step: "forum_step mx c st = Inr st'"
  shows "forum_ok mx st'"
proof -
  obtain now who body parent where c: "c = ForumPost now who body parent" by (cases c)
  let ?i = "fo_next st" and ?p = "\<lparr>po_author = who, po_body = body, po_parent = parent, po_at = now\<rparr>"
  from step obtain d where d: "post_depth mx parent st = Inr d"
    and st': "st' = st\<lparr>fo_posts := (fo_posts st)(?i \<mapsto> ?p), fo_depth := (fo_depth st)(?i := d),
      fo_next := sat_add u64_max ?i 1, fo_log := fo_log st @ [Posted ?i who body parent]\<rparr>"
    unfolding c forum_step.simps forum_post_def Let_def guards by auto
  have dom: "dom (fo_posts st) = {..<?i}" using ok by (simp add: forum_ok_def)
  have new: "d \<le> mx \<and> (case parent of None \<Rightarrow> d = 0 | Some q \<Rightarrow> q < ?i \<and> d = Suc (fo_depth st q))"
  proof (cases parent)
    case (Some q)
    with d have q: "fo_posts st q \<noteq> None" "d = sat_add u32_max (fo_depth st q) 1" "d \<le> mx"
      by (auto simp: post_depth_def Let_def split: if_splits)
    then have "q < ?i" using dom by (auto simp: domIff)
    with q Some mx show ?thesis by (auto simp: sat_add_def)
  qed (use d in \<open>simp add: post_depth_def\<close>)
  have "entry_ok mx (fo_depth st') j p'" if p': "fo_posts st' j = Some p'" for j p'
  proof (cases "j = ?i")
    case True
    with p' new show ?thesis by (auto simp: st' entry_ok_def split: option.splits)
  next
    case False
    with p' have old: "fo_posts st j = Some p'" by (simp add: st')
    then have e: "entry_ok mx (fo_depth st) j p'" and "j < ?i" using ok dom by (auto simp: forum_ok_def)
    then show ?thesis by (auto simp: st' entry_ok_def split: option.splits)
  qed
  moreover have "dom (fo_posts st') = {..<fo_next st'}"
    using dom left by (auto simp: st' forum_ids_left_def)
  ultimately show ?thesis by (simp add: forum_ok_def)
qed

lemma forum_step_ids: "forum_step mx c st = Inr st' \<Longrightarrow> forum_ids_left st' \<Longrightarrow> forum_ids_left st"
  by (cases c) (auto simp: forum_post_def guards Let_def forum_ids_left_def sat_add_def split: if_splits)

lemma forum_ok_empty: "forum_ok mx empty_forum"
  by (simp add: forum_ok_def empty_forum_def)

interpretation forum_calls: call_system "forum_step mx" "\<lambda>_. mx < u32_max" "\<lambda>st. forum_ids_left st \<longrightarrow> forum_ok mx st"
  for mx
  by unfold_locales (metis forum_step_ids forum_step_ok)

lemma forum_post_kept:
  assumes ok: "forum_ok mx st" and step: "forum_step mx c st = Inr st'" and p: "fo_posts st i = Some p"
  shows "fo_posts st' i = Some p"
proof -
  have "i < fo_next st" using ok p by (auto simp: forum_ok_def)
  then show ?thesis using step p by (cases c) (auto simp: forum_post_def guards Let_def)
qed

interpretation forum_kept: call_system "forum_step mx" "\<lambda>_. mx < u32_max"
    "\<lambda>st. forum_ids_left st \<longrightarrow> forum_ok mx st \<and> fo_posts st i = Some p"
  for mx i p
  by unfold_locales (metis forum_step_ids forum_step_ok forum_post_kept)

text \<open>One step up a thread.\<close>

definition reply_to :: "('a, 'c) forum \<Rightarrow> nat \<Rightarrow> nat option" where
  "reply_to st i = (case fo_posts st i of None \<Rightarrow> None | Some p \<Rightarrow> po_parent p)"

primrec climb :: "('a, 'c) forum \<Rightarrow> nat \<Rightarrow> nat \<Rightarrow> nat option" where
  "climb st 0 i = Some i"
| "climb st (Suc n) i = (case reply_to st i of None \<Rightarrow> None | Some q \<Rightarrow> climb st n q)"

lemma climb_to_root:
  assumes "forum_ok mx st"
  shows "fo_posts st i = Some p \<Longrightarrow> fo_depth st i = n \<Longrightarrow>
    \<exists>r root. climb st n i = Some r \<and> r \<le> i \<and> fo_posts st r = Some root \<and> po_parent root = None"
proof (induction n arbitrary: i p)
  case 0
  then have "po_parent p = None" using assms by (auto simp: forum_ok_def entry_ok_def split: option.splits)
  with 0 show ?case by auto
next
  case (Suc n)
  then have "entry_ok mx (fo_depth st) i p" using assms by (simp add: forum_ok_def)
  then obtain q where q: "po_parent p = Some q" "q < i" "fo_depth st q = n"
    using Suc.prems(2) by (cases "po_parent p") (auto simp: entry_ok_def)
  have "i < fo_next st" using assms Suc.prems(1) by (auto simp: forum_ok_def)
  then have "q \<in> dom (fo_posts st)" using assms q(2) by (auto simp: forum_ok_def)
  then obtain p' where "fo_posts st q = Some p'" by auto
  from Suc.IH [OF this q(3)] q Suc.prems(1) show ?case by (auto simp: reply_to_def)
qed

section \<open>Properties\<close>

text \<open>
  The forum is an append-only record of shallow threads. After any calls that leave ids to give: the ids are dense in the order
  of posting; from every post, exactly its recorded depth of replies up, and at most \<open>MaxThreadDepth\<close>, stands the root of its
  thread; and no later call changes or removes it.
\<close>

theorem forum_append_only:
  assumes "st = run_calls (forum_step mx) calls empty_forum" "mx < u32_max"
    and "forum_ids_left st" "forum_ids_left (run_calls (forum_step mx) later st)"
    and "fo_posts st i = Some p"
  shows "dom (fo_posts st) = {..<fo_next st} \<and> fo_depth st i \<le> mx
    \<and> (\<exists>r root. climb st (fo_depth st i) i = Some r \<and> r \<le> i \<and> fo_posts st r = Some root \<and> po_parent root = None)
    \<and> fo_posts (run_calls (forum_step mx) later st) i = Some p"
proof -
  have ok: "forum_ok mx st"
    using forum_calls.run_inv [of mx calls empty_forum] assms(1-3) by (simp add: list.pred_set forum_ok_empty)
  moreover have "fo_posts (run_calls (forum_step mx) later st) i = Some p"
    using forum_kept.run_inv [of mx later st i p] ok assms(2,4,5) by (simp add: list.pred_set)
  ultimately show ?thesis using climb_to_root [OF ok assms(5) refl] assms(5) by (auto simp: forum_ok_def entry_ok_def)
qed

theorem forum_append_only_witness:
  "let st = run_calls (forum_step 1) [ForumPost 1 (7 :: nat) ''a'' None, ForumPost 2 8 ''b'' (Some 0), ForumPost 3 9 ''c'' (Some 1)] empty_forum
   in dom (fo_posts st) = {..<2} \<and> climb st (fo_depth st 1) 1 = Some 0
     \<and> fo_posts (run_calls (forum_step 1) [ForumPost 4 7 ''d'' None] st) 1 = fo_posts st 1"
proof -
  let ?calls = "[ForumPost 1 (7 :: nat) ''a'' None, ForumPost 2 8 ''b'' (Some 0), ForumPost 3 9 ''c'' (Some 1)]"
  define st where "st = run_calls (forum_step 1) ?calls empty_forum"
  have e: "fo_next st = 2" "fo_posts st 1 = Some \<lparr>po_author = 8, po_body = ''b'', po_parent = Some 0, po_at = 2\<rparr>"
    "fo_depth st 1 = 1" "climb st 1 1 = Some 0"
    by (simp_all add: st_def forum_post_def post_depth_def empty_forum_def apply_call_def Let_def sat_add_def u32_max_def u64_max_def
        reply_to_def)
  have "forum_ids_left st" "forum_ids_left (run_calls (forum_step 1) [ForumPost 4 7 ''d'' None] st)"
    using e(1) by (simp_all add: forum_ids_left_def apply_call_def forum_post_def post_depth_def Let_def sat_add_def u64_max_def)
  from forum_append_only [OF st_def _ this e(2)]
  have "dom (fo_posts st) = {..<2} \<and> climb st (fo_depth st 1) 1 = Some 0
     \<and> fo_posts (run_calls (forum_step 1) [ForumPost 4 7 ''d'' None] st) 1 = fo_posts st 1"
    by (simp add: e u32_max_def del: run_calls.simps One_nat_def)
  then show ?thesis unfolding Let_def st_def .
qed

end
