(* ===== verification/NewsPallet.thy ===== *)
theory NewsPallet
imports OpenSlots
begin

text \<open>
  The news board, \<open>chain/pallet-news/src/lib.rs\<close>: publish and withdraw. A body is its hash, any value (\<open>'c\<close>), as is a
  headline, whose bound is enforced when the call is decoded. The publish gate is the parameter \<open>gate\<close> (its error, if any).
  Ids are \<open>u64\<close>.
\<close>

section \<open>Storage and extrinsics\<close>

record ('a, 'c) news_item =
  nw_author :: 'a
  nw_headline :: 'c
  nw_body :: 'c
  nw_at :: nat
  nw_withdrawn :: bool

datatype ('a, 'c) news_event = NewsPublished nat 'a 'c | NewsWithdrawn nat

datatype 'e news_error = NewsNotFound | NotYourNews | NewsAlreadyWithdrawn | TooManyActiveNews | NewsGate 'e

record ('a, 'c) news =
  nw_next :: nat
  nw_items :: "nat \<rightharpoonup> ('a, 'c) news_item"
  nw_of :: "'a \<Rightarrow> nat list"
  nw_log :: "('a, 'c) news_event list"

definition empty_news :: "('a, 'c) news" where
  "empty_news = \<lparr>nw_next = 0, nw_items = Map.empty, nw_of = (\<lambda>_. []), nw_log = []\<rparr>"

definition news_publish ::
  "nat \<Rightarrow> ('a \<Rightarrow> 'e option) \<Rightarrow> nat \<Rightarrow> 'a \<Rightarrow> 'c \<Rightarrow> 'c \<Rightarrow> ('a, 'c) news \<Rightarrow> 'e news_error + ('a, 'c) news" where
  "news_publish max_per_mask gate now author headline body st =
     (case gate author of Some e \<Rightarrow> Inl (NewsGate e) | None \<Rightarrow>
      let i = nw_next st
      in if \<not> length (nw_of st author) < max_per_mask then Inl TooManyActiveNews
         else Inr (st\<lparr>nw_of := (nw_of st)(author := nw_of st author @ [i]),
           nw_items := (nw_items st)(i \<mapsto> \<lparr>nw_author = author, nw_headline = headline, nw_body = body, nw_at = now,
             nw_withdrawn = False\<rparr>),
           nw_next := sat_add u64_max i 1, nw_log := nw_log st @ [NewsPublished i author body]\<rparr>))"

definition news_withdraw :: "'a \<Rightarrow> nat \<Rightarrow> ('a, 'c) news \<Rightarrow> 'e news_error + ('a, 'c) news" where
  "news_withdraw who i st =
     (case nw_items st i of None \<Rightarrow> Inl NewsNotFound | Some n \<Rightarrow>
      if nw_author n \<noteq> who then Inl NotYourNews
      else if nw_withdrawn n then Inl NewsAlreadyWithdrawn
      else Inr (st\<lparr>nw_items := (nw_items st)(i \<mapsto> n\<lparr>nw_withdrawn := True\<rparr>),
        nw_of := (nw_of st)(who := filter (\<lambda>x. x \<noteq> i) (nw_of st who)), nw_log := nw_log st @ [NewsWithdrawn i]\<rparr>))"

datatype ('a, 'c) news_call = NewsPublish 'a 'c 'c | NewsWithdraw 'a nat

fun news_step ::
  "nat \<Rightarrow> (nat \<times> ('a \<Rightarrow> 'e option)) \<times> ('a, 'c) news_call \<Rightarrow> ('a, 'c) news \<Rightarrow> 'e news_error + ('a, 'c) news" where
  "news_step mx ((now, gate), NewsPublish who headline body) st = news_publish mx gate now who headline body st"
| "news_step mx ((now, gate), NewsWithdraw who i) st = news_withdraw who i st"

section \<open>The listing\<close>

interpretation news_listing: active_listing nw_author nw_withdrawn "\<lambda>n. n\<lparr>nw_withdrawn := True\<rparr>"
  by unfold_locales simp_all

definition news_ids_left :: "('a, 'c) news \<Rightarrow> bool" where
  "news_ids_left st = (nw_next st < u64_max)"

definition news_ok :: "nat \<Rightarrow> ('a, 'c) news \<Rightarrow> bool" where
  "news_ok mx st = (news_listing.listed_ok mx (nw_items st) (nw_of st) (nw_next st) \<and> dom (nw_items st) = {..<nw_next st})"

lemma news_step_ok:
  assumes ok: "news_ok mx st" and left: "news_ids_left st" and step: "news_step mx c st = Inr st'"
  shows "news_ok mx st'"
proof -
  obtain now gate call where c: "c = ((now, gate), call)" by (metis surj_pair)
  have l: "news_listing.listed_ok mx (nw_items st) (nw_of st) (nw_next st)" "dom (nw_items st) = {..<nw_next st}"
    using ok by (auto simp: news_ok_def)
  show ?thesis
  proof (cases call)
    case (NewsPublish who headline body)
    let ?n = "\<lparr>nw_author = who, nw_headline = headline, nw_body = body, nw_at = now, nw_withdrawn = False\<rparr>"
    from step have "length (nw_of st who) < mx" and st': "st' = st\<lparr>nw_of := (nw_of st)(who := nw_of st who @ [nw_next st]),
        nw_items := (nw_items st)(nw_next st \<mapsto> ?n), nw_next := sat_add u64_max (nw_next st) 1,
        nw_log := nw_log st @ [NewsPublished (nw_next st) who body]\<rparr>"
      unfolding c NewsPublish news_step.simps news_publish_def Let_def guards by auto
    with news_listing.listed_add [OF l(1), of ?n] l(2) left show ?thesis
      by (auto simp: news_ok_def news_ids_left_def)
  next
    case (NewsWithdraw who i)
    from step obtain n where n: "nw_items st i = Some n" "\<not> nw_withdrawn n" "nw_author n = who"
      and st': "st' = st\<lparr>nw_items := (nw_items st)(i \<mapsto> n\<lparr>nw_withdrawn := True\<rparr>),
        nw_of := (nw_of st)(who := filter (\<lambda>x. x \<noteq> i) (nw_of st who)), nw_log := nw_log st @ [NewsWithdrawn i]\<rparr>"
      unfolding c NewsWithdraw news_step.simps news_withdraw_def guards by auto
    with news_listing.listed_withdraw [OF l(1) n(1,2)] l(2) show ?thesis by (auto simp: news_ok_def)
  qed
qed

lemma news_step_ids: "news_step mx c st = Inr st' \<Longrightarrow> news_ids_left st' \<Longrightarrow> news_ids_left st"
proof -
  assume step: "news_step mx c st = Inr st'" and left: "news_ids_left st'"
  obtain now gate call where c: "c = ((now, gate), call)" by (metis surj_pair)
  show ?thesis using step left
    by (cases call; auto simp: c news_publish_def news_withdraw_def guards Let_def news_ids_left_def sat_add_def split: if_splits)
qed

lemma news_ok_empty: "news_ok mx empty_news"
  by (simp add: news_ok_def empty_news_def news_listing.listed_start)

interpretation news_calls: call_system "news_step mx" "\<lambda>_. True" "\<lambda>st. news_ids_left st \<longrightarrow> news_ok mx st"
  for mx
  by unfold_locales (metis news_step_ids news_step_ok)

text \<open>An item never changes but for its author's mark.\<close>

lemma news_item_kept:
  assumes ok: "news_ok mx st" and step: "news_step mx c st = Inr st'" and n: "nw_items st i = Some n"
  shows "nw_items st' i = Some n \<or> nw_items st' i = Some (n\<lparr>nw_withdrawn := True\<rparr>)"
proof -
  obtain now gate call where c: "c = ((now, gate), call)" by (metis surj_pair)
  have "i < nw_next st" using ok n by (auto simp: news_ok_def)
  then show ?thesis using step n
    by (cases call; auto simp: c news_publish_def news_withdraw_def guards Let_def split: if_splits)
qed

lemma news_withdraw_mark: "n\<lparr>nw_withdrawn := True\<rparr>\<lparr>nw_withdrawn := True\<rparr> = n\<lparr>nw_withdrawn := True\<rparr>"
  by simp

interpretation news_kept: call_system "news_step mx" "\<lambda>_. True"
    "\<lambda>st. news_ids_left st \<longrightarrow> news_ok mx st \<and> (nw_items st i = Some n \<or> nw_items st i = Some (n\<lparr>nw_withdrawn := True\<rparr>))"
  for mx i n
  by unfold_locales (metis news_step_ids news_step_ok news_item_kept news_withdraw_mark)

text \<open>
  The board after any calls that leave ids to give: the ids are dense, each mask's list is exactly its items not withdrawn, at most
  \<open>MaxPerMask\<close>; and an item once there stays, with its author, headline, body and block.
\<close>

lemma news_board:
  assumes "st = run_calls (news_step mx) calls empty_news" "news_ids_left (run_calls (news_step mx) later st)"
    and "nw_items st i = Some n" "news_ids_left st"
  shows "dom (nw_items st) = {..<nw_next st} \<and> length (nw_of st who) \<le> mx \<and> distinct (nw_of st who)
    \<and> set (nw_of st who) = {i. \<exists>n. nw_items st i = Some n \<and> nw_author n = who \<and> \<not> nw_withdrawn n}
    \<and> nw_items (run_calls (news_step mx) later st) i \<in> {Some n, Some (n\<lparr>nw_withdrawn := True\<rparr>)}"
proof -
  have ok: "news_ok mx st"
    using news_calls.run_inv [of calls empty_news mx] assms(1,4) by (simp add: list.pred_set news_ok_empty)
  with news_kept.run_inv [of later st mx i n] assms(2,3) show ?thesis
    by (simp add: list.pred_set) (simp add: news_ok_def news_listing.listed_ok_def news_listing.active_ids_def)
qed

end
