(* ===== verification/DirectoryPallet.thy ===== *)
theory DirectoryPallet
imports Sha256
begin

text \<open>
  The mask directory, \<open>chain/pallet-directory/src/lib.rs\<close>: register and deregister, with the handle derived from the
  account by the chain's own SHA-256. The SCALE encoding of an account is the parameter \<open>encode\<close>.
\<close>

section \<open>Storage and extrinsics\<close>

type_synonym handle = "byte list"

datatype 'a directory_event = MaskRegistered 'a handle | MaskDeregistered 'a handle

datatype directory_error = AlreadyRegistered | NotRegistered | HandleCollision

record 'a directory =
  handle_of :: "'a \<rightharpoonup> handle"
  owner_of :: "handle \<rightharpoonup> 'a"
  mask_count :: nat
  dir_log :: "'a directory_event list"

definition empty_directory :: "'a directory" where
  "empty_directory = \<lparr>handle_of = Map.empty, owner_of = Map.empty, mask_count = 0, dir_log = []\<rparr>"

definition derive :: "('a \<Rightarrow> byte list) \<Rightarrow> 'a \<Rightarrow> handle" where
  "derive encode who = take 16 (sha256 (encode who))"

definition dir_register :: "('a \<Rightarrow> byte list) \<Rightarrow> 'a \<Rightarrow> 'a directory \<Rightarrow> directory_error + 'a directory" where
  "dir_register encode who st =
     (if handle_of st who \<noteq> None then Inl AlreadyRegistered
      else let handle = derive encode who
      in if owner_of st handle \<noteq> None then Inl HandleCollision
      else Inr (st\<lparr>handle_of := (handle_of st)(who \<mapsto> handle), owner_of := (owner_of st)(handle \<mapsto> who),
        mask_count := sat_add u64_max (mask_count st) 1, dir_log := dir_log st @ [MaskRegistered who handle]\<rparr>))"

definition dir_deregister :: "'a \<Rightarrow> 'a directory \<Rightarrow> directory_error + 'a directory" where
  "dir_deregister who st =
     (case handle_of st who of
        None \<Rightarrow> Inl NotRegistered
      | Some handle \<Rightarrow> Inr (st\<lparr>handle_of := (handle_of st)(who := None), owner_of := (owner_of st)(handle := None),
          mask_count := mask_count st - 1, dir_log := dir_log st @ [MaskDeregistered who handle]\<rparr>))"

definition resolve_handle :: "handle \<Rightarrow> 'a directory \<Rightarrow> 'a option" where
  "resolve_handle handle st = owner_of st handle"

datatype 'a directory_call = DirRegister 'a | DirDeregister 'a

fun dir_step :: "('a \<Rightarrow> byte list) \<Rightarrow> 'a directory_call \<Rightarrow> 'a directory \<Rightarrow> directory_error + 'a directory" where
  "dir_step encode (DirRegister who) st = dir_register encode who st"
| "dir_step encode (DirDeregister who) st = dir_deregister who st"

section \<open>The two maps\<close>

definition dir_ok :: "('a \<Rightarrow> byte list) \<Rightarrow> 'a directory \<Rightarrow> bool" where
  "dir_ok encode st = ((\<forall>a h. handle_of st a = Some h \<longleftrightarrow> owner_of st h = Some a)
     \<and> (\<forall>a h. handle_of st a = Some h \<longrightarrow> h = derive encode a) \<and> finite (dom (handle_of st))
     \<and> (mask_count st = card (dom (handle_of st)) \<or> u64_max \<le> length (dir_log st)) \<and> mask_count st \<le> length (dir_log st))"

lemma dir_step_ok:
  assumes ok: "dir_ok encode st" and step: "dir_step encode c st = Inr st'"
  shows "dir_ok encode st'"
proof (cases c)
  case (DirRegister who)
  let ?h = "derive encode who"
  from step have new: "handle_of st who = None" "owner_of st ?h = None"
    and st': "st' = st\<lparr>handle_of := (handle_of st)(who \<mapsto> ?h), owner_of := (owner_of st)(?h \<mapsto> who),
        mask_count := sat_add u64_max (mask_count st) 1, dir_log := dir_log st @ [MaskRegistered who ?h]\<rparr>"
    unfolding DirRegister dir_step.simps dir_register_def Let_def guards by auto
  have "card (dom (handle_of st')) = card (dom (handle_of st)) + 1"
    using ok new by (simp add: st' dir_ok_def card_insert_if domIff)
  with ok new show ?thesis
    by (auto simp: st' dir_ok_def sat_add_def)
next
  case (DirDeregister who)
  from step obtain h where h: "handle_of st who = Some h"
    and st': "st' = st\<lparr>handle_of := (handle_of st)(who := None), owner_of := (owner_of st)(h := None),
          mask_count := mask_count st - 1, dir_log := dir_log st @ [MaskDeregistered who h]\<rparr>"
    unfolding DirDeregister dir_step.simps dir_deregister_def guards by auto
  have "card (dom (handle_of st')) = card (dom (handle_of st)) - 1"
    using ok h by (auto simp: st' dir_ok_def card_Diff_singleton_if domIff)
  moreover have "handle_of st' a = Some g \<longleftrightarrow> owner_of st' g = Some a" for a g
  proof -
    have both: "handle_of st a = Some g \<longleftrightarrow> owner_of st g = Some a" "owner_of st h = Some who"
      using ok h unfolding dir_ok_def by blast+
    then show ?thesis using h by (cases "a = who"; cases "g = h") (simp_all add: st')
  qed
  moreover have "handle_of st' a = Some g \<Longrightarrow> g = derive encode a" for a g
    using ok unfolding dir_ok_def by (simp add: st' split: if_splits)
  ultimately show ?thesis using ok by (simp add: dir_ok_def st') auto
qed

lemma dir_ok_empty: "dir_ok encode empty_directory"
  by (simp add: dir_ok_def empty_directory_def)

interpretation dir_calls: call_system "dir_step encode" "\<lambda>_. True" "dir_ok encode" for encode
  by unfold_locales (rule dir_step_ok)

text \<open>Nobody but its holder touches a mask.\<close>

definition call_of :: "'a directory_call \<Rightarrow> 'a" where
  "call_of c = (case c of DirRegister who \<Rightarrow> who | DirDeregister who \<Rightarrow> who)"

lemma dir_step_others:
  assumes "dir_ok encode st" "dir_step encode c st = Inr st'" "call_of c \<noteq> who"
  shows "handle_of st' who = handle_of st who"
  using assms by (cases c) (auto simp: dir_register_def dir_deregister_def call_of_def Let_def split: if_splits option.splits)

interpretation dir_mine: call_system "dir_step encode" "\<lambda>c. call_of c \<noteq> who"
    "\<lambda>st. dir_ok encode st \<and> handle_of st who = h" for encode who h
  by unfold_locales (metis dir_step_ok dir_step_others)

lemma dir_log_grows: "dir_step encode c st = Inr st' \<Longrightarrow> length (dir_log st') = Suc (length (dir_log st))"
  by (cases c) (auto simp: dir_register_def dir_deregister_def Let_def split: if_splits option.splits)

lemma dir_log_bound: "length (dir_log (run_calls (dir_step encode) calls st)) \<le> length (dir_log st) + length calls"
proof (induction calls arbitrary: st)
  case (Cons c calls)
  show ?case using Cons.IH [of "apply_call (dir_step encode c) st"]
    by (cases "dir_step encode c st") (auto dest: dir_log_grows)
qed simp

section \<open>Properties\<close>

text \<open>
  C15: the directory certifies itself and cannot be censored. After any calls: a handle resolves to an account
  exactly when that account has published it, and it is then the hash of that very account; the count is exact; whatever
  others call next, a published mask stays; and an account without a mask is refused only if a different account with the same
  sixteen bytes of SHA-256 is registered.
\<close>

theorem directory_self_certifying:
  assumes "st = run_calls (dir_step encode) calls empty_directory" "length calls < u64_max"
  shows "(resolve_handle h st = Some who \<longleftrightarrow> handle_of st who = Some h)
    \<and> (resolve_handle h st = Some who \<longrightarrow> h = derive encode who)
    \<and> mask_count st = card (dom (handle_of st))
    \<and> (list_all (\<lambda>c. call_of c \<noteq> who) later \<longrightarrow> handle_of (run_calls (dir_step encode) later st) who = handle_of st who)
    \<and> (handle_of st who = None \<longrightarrow> (\<forall>e. dir_register encode who st = Inl e \<longrightarrow>
         (\<exists>other. other \<noteq> who \<and> handle_of st other = Some (derive encode who) \<and> derive encode other = derive encode who)))"
proof -
  have ok: "dir_ok encode st"
    using dir_calls.run_inv [of calls encode empty_directory] assms(1) by (simp add: list.pred_set dir_ok_empty)
  have "length (dir_log st) < u64_max"
    using dir_log_bound [of encode calls empty_directory] assms by (simp add: empty_directory_def)
  then have count: "mask_count st = card (dom (handle_of st))" using ok by (auto simp: dir_ok_def)
  have "\<exists>other. other \<noteq> who \<and> handle_of st other = Some (derive encode who) \<and> derive encode other = derive encode who"
    if "handle_of st who = None" "dir_register encode who st = Inl e" for e
  proof -
    from that obtain other where "owner_of st (derive encode who) = Some other"
      by (auto simp: dir_register_def Let_def split: if_splits)
    then have "handle_of st other = Some (derive encode who)" using ok unfolding dir_ok_def by blast
    moreover from this have "derive encode other = derive encode who" using ok unfolding dir_ok_def by metis
    ultimately show ?thesis using that(1) by (intro exI [of _ other]) auto
  qed
  moreover have "handle_of (run_calls (dir_step encode) later st) who = handle_of st who"
    if "list_all (\<lambda>c. call_of c \<noteq> who) later"
    using dir_mine.run_inv [of who later encode st "handle_of st who"] that ok by blast
  ultimately show ?thesis using ok count by (auto simp: resolve_handle_def dir_ok_def)
qed

theorem directory_self_certifying_witness:
  "let st = run_calls (dir_step (\<lambda>n. [of_nat n])) [DirRegister 1, DirRegister 1, DirDeregister 2] empty_directory
   in mask_count st = 1 \<and> resolve_handle (derive (\<lambda>n. [of_nat n]) 1) st = Some (1 :: nat)
     \<and> handle_of (run_calls (dir_step (\<lambda>n. [of_nat n])) [DirDeregister 5] st) 1 = handle_of st 1"
proof -
  let ?calls = "[DirRegister 1, DirRegister 1, DirDeregister 2] :: nat directory_call list"
  define enc :: "nat \<Rightarrow> byte list" where "enc = (\<lambda>n. [of_nat n])"
  define st where "st = run_calls (dir_step enc) ?calls empty_directory"
  have h: "handle_of st = [1 \<mapsto> derive enc 1]"
    by (simp add: st_def dir_register_def dir_deregister_def empty_directory_def apply_call_def Let_def)
  from directory_self_certifying [OF st_def, of "derive enc 1" 1 "[DirDeregister 5]"]
  have "mask_count st = 1 \<and> resolve_handle (derive enc 1) st = Some 1
      \<and> handle_of (run_calls (dir_step enc) [DirDeregister 5] st) 1 = handle_of st 1"
    by (simp add: h u64_max_def call_of_def del: run_calls.simps)
  then show ?thesis unfolding Let_def st_def enc_def .
qed

end
