(* ===== verification/CheckNonce.thy ===== *)
theory CheckNonce
imports RuntimeFees
begin

text \<open>
  The nonce check with the cold-start lane, \<open>chain/runtime/src/check_nonce.rs\<close>: a fork of \<open>frame_system::CheckNonce\<close>
  in which the first extrinsic of a mask that does not exist yet may create it, if its call may ride the feeless lane.
  The account table is \<open>frame_system\<close>'s: its operations are the parameter \<open>('a, 's) frame_system\<close>, what is documented of
  them is \<open>system_laws\<close>. A pool tag is the pair it encodes. Nonces are \<open>u32\<close>.
\<close>

section \<open>The account table\<close>

record account_info =
  ac_nonce :: nat
  ac_providers :: nat
  ac_sufficients :: nat

definition no_account :: account_info where
  "no_account = \<lparr>ac_nonce = 0, ac_providers = 0, ac_sufficients = 0\<rparr>"

record ('a, 's) frame_system =
  fs_account :: "'s \<Rightarrow> 'a \<Rightarrow> account_info"
  fs_inc_sufficients :: "'a \<Rightarrow> 's \<Rightarrow> 's"
  fs_dec_sufficients :: "'a \<Rightarrow> 's \<Rightarrow> 's"
  fs_put_nonce :: "'a \<Rightarrow> nat \<Rightarrow> 's \<Rightarrow> 's"

definition dead :: "account_info \<Rightarrow> bool" where
  "dead acc = (ac_providers acc = 0 \<and> ac_sufficients acc = 0)"

text \<open>Documented: a reference is counted, the last one dropped reaps the account, a write concerns one account.\<close>

definition system_laws :: "('a, 's) frame_system \<Rightarrow> bool" where
  "system_laws fs = (\<forall>s a b.
     fs_account fs (fs_inc_sufficients fs a s) b =
       (if b = a then (fs_account fs s a)\<lparr>ac_sufficients := sat_add u32_max (ac_sufficients (fs_account fs s a)) 1\<rparr> else fs_account fs s b)
     \<and> (b \<noteq> a \<longrightarrow> fs_account fs (fs_dec_sufficients fs a s) b = fs_account fs s b)
     \<and> (0 < ac_sufficients (fs_account fs s a) \<longrightarrow> fs_account fs (fs_dec_sufficients fs a s) a =
       (if ac_sufficients (fs_account fs s a) = 1 \<and> ac_providers (fs_account fs s a) = 0 then no_account
        else (fs_account fs s a)\<lparr>ac_sufficients := ac_sufficients (fs_account fs s a) - 1\<rparr>))
     \<and> (\<forall>n. fs_account fs (fs_put_nonce fs a n s) b =
       (if b = a then (fs_account fs s a)\<lparr>ac_nonce := n\<rparr> else fs_account fs s b)))"

section \<open>The check\<close>

datatype validity_error = InvalidPayment | InvalidStale | InvalidFuture

record 'a valid_nonce_info =
  vn_provides :: "('a \<times> nat) list"
  vn_requires :: "('a \<times> nat) list"

definition newborn_allowed :: "runtime_call \<Rightarrow> nat \<Rightarrow> bool" where
  "newborn_allowed call nonce = (feeless_eligible call \<and> nonce = 0)"

definition validate_nonce_for_account ::
  "('a, 's) frame_system \<Rightarrow> 'a \<Rightarrow> runtime_call \<Rightarrow> nat \<Rightarrow> 's \<Rightarrow> validity_error + 'a valid_nonce_info" where
  "validate_nonce_for_account fs who call nonce s =
     (let account = fs_account fs s who
      in if ac_providers account = 0 \<and> ac_sufficients account = 0 \<and> \<not> newborn_allowed call nonce then Inl InvalidPayment
         else if nonce < ac_nonce account then Inl InvalidStale
         else Inr \<lparr>vn_provides = [(who, nonce)],
                   vn_requires = (if ac_nonce account < nonce then [(who, nonce - 1)] else [])\<rparr>)"

text \<open>Whether the account was created, and the state.\<close>

definition prepare_nonce_for_account ::
  "('a, 's) frame_system \<Rightarrow> 'a \<Rightarrow> runtime_call \<Rightarrow> nat \<Rightarrow> 's \<Rightarrow> validity_error + bool \<times> 's" where
  "prepare_nonce_for_account fs who call nonce s =
     (let account = fs_account fs s who;
          newborn = (ac_providers account = 0 \<and> ac_sufficients account = 0)
      in if newborn \<and> \<not> newborn_allowed call nonce then Inl InvalidPayment
         else let s1 = (if newborn then fs_inc_sufficients fs who s else s)
         in if nonce > ac_nonce account then Inl InvalidFuture
         else let next_nonce = (case checked_add u32_max nonce 1 of Some n \<Rightarrow> n | None \<Rightarrow> 0)
         in Inr (newborn, fs_put_nonce fs who next_nonce s1))"

datatype 'a nonce_val = ValCheck 'a | ValRefund nat
datatype 'a nonce_pre = NonceChecked | NonceCheckedNewborn 'a | PreRefund nat

text \<open>The extension: \<open>signer\<close> is the origin's, \<open>weight\<close> the extension's own.\<close>

definition ext_validate ::
  "('a, 's) frame_system \<Rightarrow> nat \<Rightarrow> 'a option \<Rightarrow> runtime_call \<Rightarrow> nat \<Rightarrow> 's \<Rightarrow> validity_error + 'a valid_nonce_info \<times> 'a nonce_val" where
  "ext_validate fs weight signer call nonce s =
     (case signer of
        None \<Rightarrow> Inr (\<lparr>vn_provides = [], vn_requires = []\<rparr>, ValRefund weight)
      | Some who \<Rightarrow>
          (case validate_nonce_for_account fs who call nonce s of
             Inl e \<Rightarrow> Inl e
           | Inr info \<Rightarrow> Inr (info, ValCheck who)))"

fun ext_prepare ::
  "('a, 's) frame_system \<Rightarrow> 'a nonce_val \<Rightarrow> runtime_call \<Rightarrow> nat \<Rightarrow> 's \<Rightarrow> validity_error + 'a nonce_pre \<times> 's" where
  "ext_prepare fs (ValRefund weight) call nonce s = Inr (PreRefund weight, s)"
| "ext_prepare fs (ValCheck who) call nonce s =
     (case prepare_nonce_for_account fs who call nonce s of
        Inl e \<Rightarrow> Inl e
      | Inr (created, s') \<Rightarrow> Inr (if created then NonceCheckedNewborn who else NonceChecked, s'))"

fun post_dispatch_details :: "('a, 's) frame_system \<Rightarrow> 'a nonce_pre \<Rightarrow> bool \<Rightarrow> 's \<Rightarrow> nat \<times> 's" where
  "post_dispatch_details fs NonceChecked ok s = (0, s)"
| "post_dispatch_details fs (NonceCheckedNewborn who) ok s = (0, if ok then s else fs_dec_sufficients fs who s)"
| "post_dispatch_details fs (PreRefund weight) ok s = (weight, s)"

section \<open>An extrinsic in a block\<close>

text \<open>
  An extrinsic with what surrounds the check: \<open>xt_others\<close>, the writes of the other extensions (\<open>None\<close> where one rejects
  it), and \<open>xt_dispatch\<close>, whether the call succeeds and the state after it. A rejected extrinsic is not part of the
  block and leaves no trace.
\<close>

record ('a, 's) xt =
  xt_who :: 'a
  xt_call :: runtime_call
  xt_nonce :: nat
  xt_others :: "'s \<Rightarrow> 's option"
  xt_dispatch :: "'s \<Rightarrow> bool \<times> 's"

definition include_xt :: "('a, 's) frame_system \<Rightarrow> ('a, 's) xt \<Rightarrow> 's \<Rightarrow> (bool \<times> 's) option" where
  "include_xt fs x s =
     (case ext_validate fs 0 (Some (xt_who x)) (xt_call x) (xt_nonce x) s of
        Inl _ \<Rightarrow> None
      | Inr (_, val) \<Rightarrow>
          (case ext_prepare fs val (xt_call x) (xt_nonce x) s of
             Inl _ \<Rightarrow> None
           | Inr (pre, s1) \<Rightarrow>
               (case xt_others x s1 of
                  None \<Rightarrow> None
                | Some s2 \<Rightarrow>
                    (case xt_dispatch x s2 of (ok, s3) \<Rightarrow> Some (ok, snd (post_dispatch_details fs pre ok s3))))))"

text \<open>The extrinsics of \<open>who\<close> that enter the chain: nonce, whether its call is feeless, whether it succeeded.\<close>

primrec included :: "('a, 's) frame_system \<Rightarrow> 'a \<Rightarrow> ('a, 's) xt list \<Rightarrow> 's \<Rightarrow> (nat \<times> bool \<times> bool) list" where
  "included fs who [] s = []"
| "included fs who (x # xs) s =
     (case include_xt fs x s of
        None \<Rightarrow> included fs who xs s
      | Some (ok, s') \<Rightarrow>
          (if xt_who x = who then [(xt_nonce x, feeless_eligible (xt_call x), ok)] else []) @ included fs who xs s')"

text \<open>The rest of the runtime leaves the nonce of \<open>who\<close> alone and does not drop its last reference.\<close>

definition keeps_account :: "('a, 's) frame_system \<Rightarrow> 'a \<Rightarrow> ('s \<Rightarrow> 's) \<Rightarrow> bool" where
  "keeps_account fs who f = (\<forall>s. ac_nonce (fs_account fs (f s) who) = ac_nonce (fs_account fs s who)
     \<and> (\<not> dead (fs_account fs s who) \<longrightarrow> \<not> dead (fs_account fs (f s) who))
     \<and> (0 < ac_sufficients (fs_account fs s who) \<longrightarrow> 0 < ac_sufficients (fs_account fs (f s) who)))"

definition xt_keeps :: "('a, 's) frame_system \<Rightarrow> 'a \<Rightarrow> ('a, 's) xt \<Rightarrow> bool" where
  "xt_keeps fs who x = (keeps_account fs who (\<lambda>s. case xt_others x s of None \<Rightarrow> s | Some s' \<Rightarrow> s')
     \<and> keeps_account fs who (\<lambda>s. snd (xt_dispatch x s)))"

section \<open>What an included extrinsic does to the account of its signer\<close>

lemma include_split:
  assumes "include_xt fs x s = Some (ok, s')"
  defines "who \<equiv> xt_who x" and "acc \<equiv> fs_account fs s (xt_who x)"
  obtains s2 where "xt_nonce x = ac_nonce acc" "dead acc \<Longrightarrow> newborn_allowed (xt_call x) (xt_nonce x)"
    "xt_others x (fs_put_nonce fs who (case checked_add u32_max (xt_nonce x) 1 of Some n \<Rightarrow> n | None \<Rightarrow> 0)
       (if dead acc then fs_inc_sufficients fs who s else s)) = Some s2"
    "ok = fst (xt_dispatch x s2)"
    "s' = (if dead acc \<and> \<not> ok then fs_dec_sufficients fs who (snd (xt_dispatch x s2)) else snd (xt_dispatch x s2))"
proof -
  obtain info where v: "validate_nonce_for_account fs who (xt_call x) (xt_nonce x) s = Inr info"
    using assms(1) by (auto simp: include_xt_def ext_validate_def who_def split: sum.splits)
  obtain created s1 where p: "prepare_nonce_for_account fs who (xt_call x) (xt_nonce x) s = Inr (created, s1)"
    using assms(1) v by (auto simp: include_xt_def ext_validate_def who_def split: sum.splits prod.splits)
  from v have a: "ac_nonce acc \<le> xt_nonce x" "dead acc \<Longrightarrow> newborn_allowed (xt_call x) (xt_nonce x)"
    by (auto simp: validate_nonce_for_account_def dead_def acc_def who_def Let_def split: if_splits)
  from p have b: "xt_nonce x \<le> ac_nonce acc" "created = dead acc"
    "s1 = fs_put_nonce fs who (case checked_add u32_max (xt_nonce x) 1 of Some n \<Rightarrow> n | None \<Rightarrow> 0)
       (if dead acc then fs_inc_sufficients fs who s else s)"
    by (auto simp: prepare_nonce_for_account_def dead_def acc_def who_def Let_def split: if_splits)
  obtain s2 where s2: "xt_others x s1 = Some s2" "ok = fst (xt_dispatch x s2)"
    "s' = snd (post_dispatch_details fs (if created then NonceCheckedNewborn who else NonceChecked) ok (snd (xt_dispatch x s2)))"
    using assms(1) v p by (auto simp: include_xt_def ext_validate_def who_def [symmetric] split: option.splits prod.splits)
  show thesis
    by (rule that [of s2]) (use a b s2 in auto)
qed

lemma others_keep: "xt_keeps fs who x \<Longrightarrow> xt_others x s = Some s' \<Longrightarrow>
    ac_nonce (fs_account fs s' who) = ac_nonce (fs_account fs s who)
    \<and> (\<not> dead (fs_account fs s who) \<longrightarrow> \<not> dead (fs_account fs s' who))
    \<and> (0 < ac_sufficients (fs_account fs s who) \<longrightarrow> 0 < ac_sufficients (fs_account fs s' who))"
  unfolding xt_keeps_def keeps_account_def by (metis option.simps(5))

lemma dispatch_keeps: "xt_keeps fs who x \<Longrightarrow>
    ac_nonce (fs_account fs (snd (xt_dispatch x s)) who) = ac_nonce (fs_account fs s who)
    \<and> (\<not> dead (fs_account fs s who) \<longrightarrow> \<not> dead (fs_account fs (snd (xt_dispatch x s)) who))
    \<and> (0 < ac_sufficients (fs_account fs s who) \<longrightarrow> 0 < ac_sufficients (fs_account fs (snd (xt_dispatch x s)) who))"
  unfolding xt_keeps_def keeps_account_def by blast

lemma lawsD:
  assumes "system_laws fs"
  shows "fs_account fs (fs_inc_sufficients fs a s) b =
      (if b = a then (fs_account fs s a)\<lparr>ac_sufficients := sat_add u32_max (ac_sufficients (fs_account fs s a)) 1\<rparr> else fs_account fs s b)"
    "0 < ac_sufficients (fs_account fs s a) \<Longrightarrow> fs_account fs (fs_dec_sufficients fs a s) a =
      (if ac_sufficients (fs_account fs s a) = 1 \<and> ac_providers (fs_account fs s a) = 0 then no_account
       else (fs_account fs s a)\<lparr>ac_sufficients := ac_sufficients (fs_account fs s a) - 1\<rparr>)"
    "b \<noteq> a \<Longrightarrow> fs_account fs (fs_dec_sufficients fs a s) b = fs_account fs s b"
    "fs_account fs (fs_put_nonce fs a n s) b =
      (if b = a then (fs_account fs s a)\<lparr>ac_nonce := n\<rparr> else fs_account fs s b)"
  using assms unfolding system_laws_def by blast+

lemma include_signer:
  assumes laws: "system_laws fs" and inc: "include_xt fs x s = Some (ok, s')" and keep: "xt_keeps fs (xt_who x) x"
    and room: "ac_nonce (fs_account fs s (xt_who x)) < u32_max"
  defines "acc \<equiv> fs_account fs s (xt_who x)" and "acc' \<equiv> fs_account fs s' (xt_who x)"
  shows "xt_nonce x = ac_nonce acc"
    and "dead acc \<Longrightarrow> newborn_allowed (xt_call x) (xt_nonce x)"
    and "acc' = no_account \<and> dead acc \<and> \<not> ok \<or> \<not> dead acc' \<and> ac_nonce acc' = ac_nonce acc + 1"
    and "\<not> dead acc \<or> ok \<Longrightarrow> \<not> dead acc' \<and> ac_nonce acc' = ac_nonce acc + 1"
proof -
  let ?w = "xt_who x"
  obtain s2 where c: "xt_nonce x = ac_nonce acc" "dead acc \<Longrightarrow> newborn_allowed (xt_call x) (xt_nonce x)"
    and s2: "xt_others x (fs_put_nonce fs ?w (case checked_add u32_max (xt_nonce x) 1 of Some n \<Rightarrow> n | None \<Rightarrow> 0)
       (if dead acc then fs_inc_sufficients fs ?w s else s)) = Some s2"
    and ok: "ok = fst (xt_dispatch x s2)"
    and s': "s' = (if dead acc \<and> \<not> ok then fs_dec_sufficients fs ?w (snd (xt_dispatch x s2)) else snd (xt_dispatch x s2))"
    using include_split [OF inc, folded acc_def] by metis
  from c show "xt_nonce x = ac_nonce acc" "dead acc \<Longrightarrow> newborn_allowed (xt_call x) (xt_nonce x)" by blast+
  let ?s1 = "fs_put_nonce fs ?w (case checked_add u32_max (xt_nonce x) 1 of Some n \<Rightarrow> n | None \<Rightarrow> 0)
       (if dead acc then fs_inc_sufficients fs ?w s else s)"
  let ?s3 = "snd (xt_dispatch x s2)"
  have next1: "(case checked_add u32_max (xt_nonce x) 1 of Some n \<Rightarrow> n | None \<Rightarrow> 0) = ac_nonce acc + 1"
    using room c(1) by (simp add: checked_add_def acc_def)
  have a1: "ac_nonce (fs_account fs ?s1 ?w) = ac_nonce acc + 1" "\<not> dead (fs_account fs ?s1 ?w)"
    "dead acc \<Longrightarrow> 0 < ac_sufficients (fs_account fs ?s1 ?w)"
    unfolding next1 by (auto simp: lawsD [OF laws] acc_def dead_def sat_add_def u32_max_def)
  from others_keep [OF keep s2] dispatch_keeps [OF keep, of s2] a1
  have a3: "ac_nonce (fs_account fs ?s3 ?w) = ac_nonce acc + 1" "\<not> dead (fs_account fs ?s3 ?w)"
    "dead acc \<Longrightarrow> 0 < ac_sufficients (fs_account fs ?s3 ?w)" by auto
  show alive: "\<not> dead acc \<or> ok \<Longrightarrow> \<not> dead acc' \<and> ac_nonce acc' = ac_nonce acc + 1"
    using a3 s' by (auto simp: acc'_def)
  show "acc' = no_account \<and> dead acc \<and> \<not> ok \<or> \<not> dead acc' \<and> ac_nonce acc' = ac_nonce acc + 1"
  proof (cases "dead acc \<and> \<not> ok")
    case True
    then have "s' = fs_dec_sufficients fs ?w ?s3" using s' by simp
    with lawsD(2) [OF laws a3(3)] True a3 show ?thesis by (auto simp: acc'_def dead_def)
  qed (use alive in blast)
qed

lemma include_other:
  assumes laws: "system_laws fs" and inc: "include_xt fs x s = Some (ok, s')" and keep: "xt_keeps fs w x" and ne: "w \<noteq> xt_who x"
  shows "ac_nonce (fs_account fs s' w) = ac_nonce (fs_account fs s w)"
    "\<not> dead (fs_account fs s w) \<Longrightarrow> \<not> dead (fs_account fs s' w)"
proof -
  let ?acc = "fs_account fs s (xt_who x)" and ?w = "xt_who x"
  let ?n = "case checked_add u32_max (xt_nonce x) 1 of Some n \<Rightarrow> n | None \<Rightarrow> 0"
  let ?s1 = "fs_put_nonce fs ?w ?n (if dead ?acc then fs_inc_sufficients fs ?w s else s)"
  obtain s2 where s2: "xt_others x ?s1 = Some s2"
    and s': "s' = (if dead ?acc \<and> \<not> ok then fs_dec_sufficients fs ?w (snd (xt_dispatch x s2)) else snd (xt_dispatch x s2))"
    using include_split [OF inc] by metis
  have same: "fs_account fs ?s1 w = fs_account fs s w" using ne by (auto simp: lawsD [OF laws])
  have "fs_account fs s' w = fs_account fs (snd (xt_dispatch x s2)) w"
    using lawsD(3) [OF laws ne] s' by auto
  then show "ac_nonce (fs_account fs s' w) = ac_nonce (fs_account fs s w)"
    "\<not> dead (fs_account fs s w) \<Longrightarrow> \<not> dead (fs_account fs s' w)"
    using others_keep [OF keep s2] dispatch_keeps [OF keep, of s2] unfolding same by auto
qed

section \<open>A history of extrinsics\<close>

text \<open>
  What enters of one account: first, if the account did not exist, attempts with nonce 0 that rode the feeless lane and failed;
  then each nonce once, in order.
\<close>

definition in_order :: "nat \<Rightarrow> bool \<Rightarrow> (nat \<times> bool \<times> bool) list \<Rightarrow> bool" where
  "in_order k newborn ys = (\<exists>f rest. ys = replicate f (0, True, False) @ rest \<and> map fst rest = [k..<k + length rest]
     \<and> (0 < f \<longrightarrow> newborn))"

lemma in_order_Nil: "in_order k b []"
  by (auto simp: in_order_def)

lemma in_order_mono: "in_order k b ys \<Longrightarrow> (b \<Longrightarrow> b') \<Longrightarrow> in_order k b' ys"
  by (auto simp: in_order_def)

lemma in_order_next: "in_order (k + 1) False ys \<Longrightarrow> fst y = k \<Longrightarrow> in_order k b (y # ys)"
  unfolding in_order_def by (elim exE) (intro exI [of _ 0] exI [of _ "y # ys"], simp add: upt_conv_Cons del: upt_Suc)

lemma in_order_failed: "in_order 0 True ys \<Longrightarrow> in_order 0 True ((0, True, False) # ys)"
  unfolding in_order_def by (elim exE) (rule exI [of _ "Suc _"], auto)

lemma included_in_order:
  assumes laws: "system_laws fs"
  shows "\<forall>x\<in>set xs. xt_keeps fs w x \<Longrightarrow> (dead (fs_account fs s w) \<Longrightarrow> ac_nonce (fs_account fs s w) = 0) \<Longrightarrow>
    ac_nonce (fs_account fs s w) + length xs \<le> u32_max \<Longrightarrow>
    in_order (ac_nonce (fs_account fs s w)) (dead (fs_account fs s w)) (included fs w xs s)"
proof (induction xs arbitrary: s)
  case (Cons x xs)
  let ?acc = "fs_account fs s w"
  note keep = Cons.prems(1) [rule_format, OF list.set_intros(1)]
  show ?case
  proof (cases "include_xt fs x s")
    case None
    with Cons show ?thesis by simp
  next
    case (Some r)
    then obtain ok s' where inc: "include_xt fs x s = Some (ok, s')" by (cases r) simp
    let ?acc' = "fs_account fs s' w"
    have ih: "in_order (ac_nonce ?acc') (dead ?acc') (included fs w xs s')"
      if "dead ?acc' \<Longrightarrow> ac_nonce ?acc' = 0" "ac_nonce ?acc' \<le> ac_nonce ?acc + 1"
      by (rule Cons.IH) (use Cons.prems that in auto)
    show ?thesis
    proof (cases "w = xt_who x")
      case False
      note o = include_other [OF laws inc keep False]
      have "in_order (ac_nonce ?acc) (dead ?acc') (included fs w xs s')"
        using ih o Cons.prems(2) by auto
      then have "in_order (ac_nonce ?acc) (dead ?acc) (included fs w xs s')"
        by (rule in_order_mono) (use o(2) in blast)
      then show ?thesis using inc False by simp
    next
      case True
      note c = include_signer [OF laws inc keep [unfolded True], folded True]
      have lt: "ac_nonce ?acc < u32_max" using Cons.prems(3) by simp
      have head: "fst (xt_nonce x, feeless_eligible (xt_call x), ok) = ac_nonce ?acc"
        "dead ?acc \<Longrightarrow> feeless_eligible (xt_call x)"
        using c(1,2) [OF lt] by (auto simp: newborn_allowed_def)
      have "in_order (ac_nonce ?acc) (dead ?acc) ((xt_nonce x, feeless_eligible (xt_call x), ok) # included fs w xs s')"
        using c(3) [OF lt]
      proof (elim disjE conjE)
        assume k: "?acc' = no_account" "dead ?acc" "\<not> ok"
        then have "in_order 0 True (included fs w xs s')" using ih by (simp add: no_account_def dead_def)
        with k head Cons.prems(2) show ?thesis using in_order_failed c(1) [OF lt] by simp
      next
        assume k: "\<not> dead ?acc'" "ac_nonce ?acc' = ac_nonce ?acc + 1"
        then have "in_order (ac_nonce ?acc + 1) False (included fs w xs s')" using ih by simp
        then show ?thesis by (rule in_order_next) (use head in auto)
      qed
      then show ?thesis using inc True by simp
    qed
  qed
qed (simp add: in_order_Nil)

section \<open>A concrete table\<close>

text \<open>The documented operations on a function from accounts.\<close>

definition table_system :: "('a, 'a \<Rightarrow> account_info) frame_system" where
  "table_system = \<lparr>fs_account = \<lambda>s a. s a,
     fs_inc_sufficients = \<lambda>a s. s(a := (s a)\<lparr>ac_sufficients := sat_add u32_max (ac_sufficients (s a)) 1\<rparr>),
     fs_dec_sufficients = \<lambda>a s. s(a := (if ac_sufficients (s a) = 1 \<and> ac_providers (s a) = 0 then no_account
        else (s a)\<lparr>ac_sufficients := ac_sufficients (s a) - 1\<rparr>)),
     fs_put_nonce = \<lambda>a n s. s(a := (s a)\<lparr>ac_nonce := n\<rparr>)\<rparr>"

lemma table_laws: "system_laws table_system"
  by (simp add: system_laws_def table_system_def)

definition demo_xt :: "nat \<Rightarrow> bool \<Rightarrow> (nat, nat \<Rightarrow> account_info) xt" where
  "demo_xt n ok = \<lparr>xt_who = 7, xt_call = (Forum, ''post''), xt_nonce = n, xt_others = Some, xt_dispatch = \<lambda>s. (ok, s)\<rparr>"

lemma demo_xt_keeps: "xt_keeps table_system w (demo_xt n ok)"
  by (simp add: xt_keeps_def keeps_account_def demo_xt_def)

lemmas check_nonce_defs = include_xt_def ext_validate_def validate_nonce_for_account_def prepare_nonce_for_account_def
  newborn_allowed_def checked_add_def Let_def

text \<open>A failed first extrinsic leaves no account: the same bytes are valid again, for anybody who kept them.\<close>

lemma failed_newborn_replays:
  "included table_system 7 [demo_xt 0 False, demo_xt 0 False, demo_xt 0 True, demo_xt 0 True, demo_xt 1 True] (\<lambda>_. no_account)
     = [(0, True, False), (0, True, False), (0, True, True), (1, True, True)]"
  by (simp add: check_nonce_defs demo_xt_def table_system_def no_account_def sat_add_def u32_max_def)

section \<open>Properties\<close>



end
