(* ===== verification/TxGuard.thy ===== *)
theory TxGuard
imports Sha256
begin

text \<open>
  The pool guard of the node, \<open>chain/node/src/txguard.rs\<close>: what is not an extrinsic by its first byte does not reach the
  runtime. The pool behind the guard, the encoding of a transaction and the SCALE decoder of an opaque extrinsic
  (\<open>unwrap\<close>) are parameters; the calls that only delegate are left out.
\<close>

definition looks_like_preamble :: "byte list \<Rightarrow> bool" where
  "looks_like_preamble inner =
     (case inner of [] \<Rightarrow> False
      | first # _ \<Rightarrow>
          let version = first AND 0x3f; ty = first AND 0xc0
          in if (version = 4 \<or> version = 5) \<and> ty = 0 then True
             else if version = 4 \<and> ty = 0x80 then True
             else version = 5 \<and> ty = 0x40)"

definition looks_like_extrinsic :: "(byte list \<Rightarrow> byte list option) \<Rightarrow> byte list \<Rightarrow> bool" where
  "looks_like_extrinsic unwrap bytes =
     (case unwrap bytes of Some unwrapped \<Rightarrow> looks_like_preamble unwrapped | None \<Rightarrow> looks_like_preamble bytes)"

datatype 'e pool_error = Rejected | PoolError 'e

text \<open>The answers of the pool put back in the places of the transactions that passed.\<close>

fun merge_answers :: "bool list \<Rightarrow> ('e pool_error + 'h) list \<Rightarrow> ('e pool_error + 'h) list" where
  "merge_answers [] passed = []"
| "merge_answers (True # oks) (r # passed) = r # merge_answers oks passed"
| "merge_answers (True # oks) [] = Inl Rejected # merge_answers oks []"
| "merge_answers (False # oks) passed = Inl Rejected # merge_answers oks passed"

type_synonym ('x, 'e, 'h) pool = "'x list \<Rightarrow> 'e pool_error + ('e pool_error + 'h) list"

definition submit_at ::
  "(byte list \<Rightarrow> byte list option) \<Rightarrow> ('x \<Rightarrow> byte list) \<Rightarrow> ('x, 'e, 'h) pool \<Rightarrow> ('x, 'e, 'h) pool" where
  "submit_at unwrap encode inner xts =
     (let verdicts = map (\<lambda>xt. looks_like_extrinsic unwrap (encode xt)) xts
      in if list_all (\<lambda>ok. ok) verdicts then inner xts
         else let good = List.map_filter (\<lambda>(xt, ok). if ok then Some xt else None) (zip xts verdicts)
         in case (if good = [] then Inr [] else inner good) of
              Inl e \<Rightarrow> Inl e
            | Inr passed \<Rightarrow> Inr (merge_answers verdicts passed))"

definition submit_one ::
  "(byte list \<Rightarrow> byte list option) \<Rightarrow> ('x \<Rightarrow> byte list) \<Rightarrow> ('x \<Rightarrow> 'e pool_error + 'h) \<Rightarrow> 'x \<Rightarrow> 'e pool_error + 'h" where
  "submit_one unwrap encode inner xt =
     (if \<not> looks_like_extrinsic unwrap (encode xt) then Inl Rejected else inner xt)"

text \<open>Exactly four first bytes pass.\<close>

lemma preamble_bytes: "looks_like_preamble (b # bs) \<longleftrightarrow> b \<in> {0x04, 0x05, 0x84, 0x45}"
proof -
  have all: "(255 :: byte) = - 1" by simp
  have split: "b = (b AND 0x3f) OR (b AND 0xc0)"
    by (simp flip: bit.conj_disj_distrib) (simp only: all word_and_max)
  show ?thesis
  proof
    assume "looks_like_preamble (b # bs)"
    then have "(b AND 0x3f, b AND 0xc0) \<in> {(4, 0), (5, 0), (4, 0x80), (5, 0x40)}"
      by (auto simp: looks_like_preamble_def Let_def split: if_splits)
    with split show "b \<in> {0x04, 0x05, 0x84, 0x45}" by auto
  qed (auto simp: looks_like_preamble_def)
qed

lemma merge_answers_map:
  "merge_answers (map P xs) (map f (filter P xs)) = map (\<lambda>x. if P x then f x else Inl Rejected) xs"
  by (induction xs) simp_all

lemma good_filter: "List.map_filter (\<lambda>(xt, ok). if ok then Some xt else None) (zip xs (map P xs)) = filter P xs"
  by (induction xs) (simp_all add: List.map_filter_simps)

text \<open>
  A pool that answers each transaction of a batch on its own, in order: behind the guard every transaction gets the answer it
  would get alone, the rotten ones their rejection in their place.
\<close>

lemma guard_answers_in_place:
  assumes "\<And>xts. inner xts = Inr (map f xts)"
  shows "submit_at unwrap encode inner xts = Inr (map (submit_one unwrap encode f) xts)"
proof (cases "list_all (\<lambda>ok. ok) (map (\<lambda>xt. looks_like_extrinsic unwrap (encode xt)) xts)")
  case True
  then have "map (submit_one unwrap encode f) xts = map f xts" by (auto simp: list_all_iff submit_one_def)
  with True assms show ?thesis by (simp add: submit_at_def)
next
  case False
  have "(if filter P xts = [] then Inr [] else inner (filter P xts)) = Inr (map f (filter P xts))" for P
    using assms by simp
  with False show ?thesis
    by (simp add: submit_at_def Let_def good_filter merge_answers_map submit_one_def if_not_P cong: map_cong)
qed

end
