(* ===== verification/Manifesto.thy ===== *)
theory Manifesto
imports Sha256
begin

text \<open>
  The seal of the founding text: \<open>chain/manifesto-core/src/lib.rs\<close> and \<open>chain/pallet-manifesto/src/lib.rs\<close>. The pallet has no
  call; its storage is written once, by the genesis build (\<open>None\<close> is its panic).
\<close>

record manifesto_seal =
  seal_hash :: "byte list"

definition seal_text :: "byte list \<Rightarrow> manifesto_seal" where
  "seal_text text = \<lparr>seal_hash = sha256 text\<rparr>"

definition seal_from_hash :: "byte list \<Rightarrow> manifesto_seal" where
  "seal_from_hash h = \<lparr>seal_hash = h\<rparr>"

definition seal_verify :: "manifesto_seal \<Rightarrow> byte list \<Rightarrow> bool" where
  "seal_verify s text = (sha256 text = seal_hash s)"

definition seal_hex :: "manifesto_seal \<Rightarrow> string" where
  "seal_hex s = hex (seal_hash s)"

record manifesto =
  manifesto_text :: "byte list option"
  sealed_hash :: "byte list option"

definition manifesto_build :: "nat \<Rightarrow> byte list \<Rightarrow> manifesto option" where
  "manifesto_build max_len text =
     (if text = [] then Some \<lparr>manifesto_text = None, sealed_hash = None\<rparr>
      else let s = seal_text text
      in if max_len < length text then None
      else Some \<lparr>manifesto_text = Some text, sealed_hash = Some (seal_hash s)\<rparr>)"

definition manifesto_verify :: "manifesto \<Rightarrow> byte list \<Rightarrow> bool" where
  "manifesto_verify st text =
     (case sealed_hash st of Some h \<Rightarrow> seal_verify (seal_from_hash h) text | None \<Rightarrow> False)"

text \<open>A sealed text verifies; any other text that does is a second preimage of its hash.\<close>

lemma manifesto_sealed:
  assumes "manifesto_build max_len text = Some st" "text \<noteq> []"
  shows "manifesto_text st = Some text" "manifesto_verify st other \<longleftrightarrow> sha256 other = sha256 text"
  using assms by (auto simp: manifesto_build_def manifesto_verify_def seal_verify_def seal_from_hash_def seal_text_def Let_def
      split: if_splits)

lemma seal_hex_length: "length (seal_hex (seal_text text)) = 64"
proof -
  have "length (hex d) = 2 * length d" for d by (induction d) (simp_all add: hex_def)
  then show ?thesis by (simp add: seal_hex_def seal_text_def length_digest)
qed

end
