(* ===== verification/RuntimeConfig.thy ===== *)
theory RuntimeConfig
imports RuntimeFees ReputationEntrenchment HostingPallet BeaconPallet JusticeProps MultisigProps ParticipationProps
  MarketPallet PactsPallet FinalityVotes Manifesto
begin

text \<open>
  The constants that \<open>chain/runtime/src/lib.rs\<close> gives the pallets, under the cargo feature \<open>mainnet\<close> and without
  it (the argument \<open>main\<close>), and its two genesis presets. What a pallet leaves to \<open>frame_system\<close> or to \<open>Permill\<close> is an argument:
  \<open>ref_time\<close>, the block's weight limit, and \<open>mul_ceil\<close>, \<open>mul_floor\<close> on parts per million. The addresses of the presets are
  decoded by the node's libraries: \<open>addr\<close> is the account of an address.
\<close>

section \<open>Parameters\<close>

definition COIN_UNIT :: nat where "COIN_UNIT = 1000000000000"

definition hlq_params :: "bool \<Rightarrow> emission_curve" where
  "hlq_params main = (if main
     then \<lparr>initial = 33750000 * COIN_UNIT, decay_num = 15, decay_den = 16, era_length = 1, cap = 540000000 * COIN_UNIT\<rparr>
     else \<lparr>initial = 1000, decay_num = 1, decay_den = 1, era_length = 1, cap = 1000000\<rparr>)"

definition sov_params :: "bool \<Rightarrow> emission_curve" where
  "sov_params main = (if main
     then \<lparr>initial = 13500000 * COIN_UNIT, decay_num = 3, decay_den = 4, era_length = 1, cap = 54000000 * COIN_UNIT\<rparr>
     else \<lparr>initial = 100, decay_num = 1, decay_den = 2, era_length = 1, cap = 10000\<rparr>)"

definition tokens_params :: "nat \<Rightarrow> bool \<Rightarrow> tokens_config" where
  "tokens_params ref_time main = \<lparr>hlq_curve = hlq_params main, sov_curve = sov_params main,
     era_blocks = (if main then 1317600 else 10), fee_burn_bps = 5000, service_cap_k = 2, hosting_share_bps = 1000,
     feeless_block_bps = 1500, feeless_epoch_blocks = (if main then 7200 else 10), max_feeless_per_block = 32,
     max_block_ref_time = ref_time\<rparr>"

definition EVIDENCE_RETENTION_PARTS :: "bool \<Rightarrow> nat" where
  "EVIDENCE_RETENTION_PARTS main = (if main then 999052 else 900000)"

definition reputation_params :: "bool \<Rightarrow> rep_config" where
  "reputation_params main = \<lparr>rc_max_vouches = 128, rc_quota_k = 3, rc_retention = EVIDENCE_RETENTION_PARTS main,
     rc_epoch_length = (if main then 7200 else 10), rc_liability = 250000, rc_attest_budget = 8,
     rc_probation = (if main then 7200 else 0), rc_floor_min = FP_SCALE sdiv 1000, rc_stake_multiplier = 1, rc_service_rate = 1\<rparr>"

definition hosting_params :: "bool \<Rightarrow> hosting_config" where
  "hosting_params main = \<lparr>day_length = (if main then 7200 else 2), ho_era_length = (if main then 1317600 else 10),
     min_streak_days = (if main then 30 else 2), max_gap_days = 3, max_beat_age = 600, max_hosts_per_era = 20000\<rparr>"

definition participation_params :: "bool \<Rightarrow> pt_config" where
  "participation_params main = \<lparr>pc_epoch_length = (if main then 7200 else 10), pc_era_length = (if main then 1317600 else 10),
     pc_max_committee = 64, pc_max_streak = (if main then 8 else 3), pc_committee_epoch = (if main then 300 else 10),
     pc_committee_tau = (if main then 60 else 4), pc_flavor = (if main then 1 else 0)\<rparr>"

definition beacon_params :: "bool \<Rightarrow> beacon_config" where
  "beacon_params main = \<lparr>max_secret_len = 64, bp_epoch_length = (if main then 7200 else 10)\<rparr>"

definition justice_params :: "(nat \<Rightarrow> nat \<Rightarrow> nat) \<Rightarrow> (nat \<Rightarrow> nat \<Rightarrow> nat) \<Rightarrow> bool \<Rightarrow> justice_config" where
  "justice_params mul_ceil mul_floor main = \<lparr>max_case_evidence = 16, jury_size = 12, max_jury = 32, max_interested = 16,
     voting_window = (if main then 7200 else 5), jury_draw_delay = (if main then 10 else 3),
     interest_cooling = (if main then 7200 else 10), max_draws_per_block = 4,
     guilt_ceil = mul_ceil 670000, quorum_ceil = mul_ceil 670000, depth2_floor = mul_floor 100000\<rparr>"

definition multisig_params :: "bool \<Rightarrow> ms_config" where
  "multisig_params main = \<lparr>initial_life = (if main then 657450 else 200), objection_window = (if main then 14400 else 5),
     ms_epoch_length = (if main then 7200 else 10), disaster_epochs = 14\<rparr>"

definition market_params :: market_config where
  "market_params = \<lparr>max_open_deals = 4, deal_ttl = 50400, max_per_mask = 32\<rparr>"

definition pacts_params :: pacts_config where
  "pacts_params = \<lparr>max_parties = 8, max_open_per_mask = 4, max_pact_ttl = 216000\<rparr>"

definition MAX_THREAD_DEPTH :: nat where "MAX_THREAD_DEPTH = 16"
definition MAX_MANIFESTO_LEN :: nat where "MAX_MANIFESTO_LEN = 65536"
definition RENEWAL_ELECTORATE_TAU :: "bool \<Rightarrow> nat" where "RENEWAL_ELECTORATE_TAU main = (if main then 60 else 4)"

text \<open>The node built from the same feature.\<close>

definition node_build :: "bool \<Rightarrow> build" where
  "node_build main = (if main then mainnet else testnet)"

lemmas runtime_params = tokens_params_def reputation_params_def hosting_params_def participation_params_def beacon_params_def
  multisig_params_def node_build_def mainnet_def testnet_def

text \<open>The cadences that the comments of \<open>lib.rs\<close> ask to keep equal, and the multiples the folds rely on.\<close>

lemma cadences_agree:
  "pc_epoch_length (participation_params main) = rc_epoch_length (reputation_params main)"
  "bp_epoch_length (beacon_params main) = rc_epoch_length (reputation_params main)"
  "ms_epoch_length (multisig_params main) = rc_epoch_length (reputation_params main)"
  "pc_era_length (participation_params main) = era_blocks (tokens_params ref_time main)"
  "ho_era_length (hosting_params main) = era_blocks (tokens_params ref_time main)"
  "pc_epoch_length (participation_params main) dvd pc_era_length (participation_params main)"
  "pc_committee_epoch (participation_params main) dvd pc_epoch_length (participation_params main)"
  "pc_committee_epoch (participation_params main) = bd_epoch (node_build main)"
  "pc_committee_tau (participation_params main) = bd_tau (node_build main)"
  "pc_flavor (participation_params main) = bd_flavor (node_build main)"
  "RENEWAL_ELECTORATE_TAU main = bd_tau (node_build main)"
  by (simp_all add: runtime_params RENEWAL_ELECTORATE_TAU_def)

end
