(* ===== verification/RuntimeWiring.thy ===== *)
theory RuntimeWiring
imports RuntimeConfig FinalityChain "HOL-Library.Product_Lexorder"
begin

text \<open>
  How \<open>chain/runtime/src/lib.rs\<close> wires the pallets together: the adapters between them, the API the node reads, and a
  block. Accounts are 32-byte keys; SCALE leaves them as they are. \<open>world\<close> holds what is not in the repository: the
  block's number and hashes, sr25519, the iteration order of a map keyed by accounts (all such maps hash their keys alike),
  \<open>Permill\<close>, the \<open>f64\<close> steps of the engine, \<open>blake2_256\<close> and \<open>set_code\<close>.
\<close>

section \<open>State\<close>

record 'h world =
  w_now :: nat
  w_parent :: string
  w_block_hash :: "nat \<Rightarrow> byte list"
  w_genesis :: "byte list"
  w_verify :: verifier
  w_order :: "(key \<Rightarrow> bool) \<Rightarrow> key list"
  w_quantiser :: quantiser
  w_mul_floor :: "nat \<Rightarrow> nat \<Rightarrow> nat"
  w_mul_ceil :: "nat \<Rightarrow> nat \<Rightarrow> nat"
  w_pow :: "nat \<Rightarrow> nat \<Rightarrow> nat"
  w_ref_time :: nat
  w_blake2 :: "blob \<Rightarrow> 'h"
  w_set_code :: "blob \<Rightarrow> bool"

record 'h runtime =
  rt_reputation :: "key reputation"
  rt_justice :: "key justice"
  rt_beacon :: "key beacon_pallet"
  rt_tokens :: "key tokens"
  rt_participation :: participation
  rt_multisig :: "(key, 'h) multisig"
  rt_hosting :: "key hosting"
  rt_manifesto :: manifesto

text \<open>Iteration over a map keyed by accounts.\<close>

definition keys_in :: "'h world \<Rightarrow> (key \<rightharpoonup> 'v) \<Rightarrow> key list" where
  "keys_in w m = w_order w (\<lambda>a. m a \<noteq> None)"

section \<open>Adapters\<close>

text \<open>\<open>service_weights\<close> in its order: who authored, then who only voted.\<close>

definition service_weights :: "'h world \<Rightarrow> participation \<Rightarrow> nat \<Rightarrow> (key \<times> nat) list" where
  "service_weights w st epoch = map (\<lambda>a. (a, the (service_of st epoch a)))
     (keys_in w (authored st epoch) @ filter (\<lambda>a. authored st epoch a = None) (keys_in w (fin_votes st epoch)))"

definition reputation_env :: "'h world \<Rightarrow> 'h runtime \<Rightarrow> key rep_env" where
  "reputation_env w rt = \<lparr>re_now = w_now w, re_service = service_weights w (rt_participation rt),
     re_verify = (\<lambda>sig msg public. w_verify w public sig msg), re_encode = (\<lambda>a. a), re_quantiser = w_quantiser w,
     re_mul_floor = w_mul_floor w, re_pow = w_pow w, re_order = w_order w\<rparr>"

definition reputation_of :: "'h world \<Rightarrow> 'h runtime \<Rightarrow> (key \<times> int) list" where
  "reputation_of w rt = consensus_reputation (reputation_env w rt) (rt_reputation rt)"

definition vote_keys :: "'h world \<Rightarrow> 'h runtime \<Rightarrow> (key \<times> key) list" where
  "vote_keys w rt = map (\<lambda>a. (a, the (rp_vote_keys (rt_reputation rt) a))) (keys_in w (rp_vote_keys (rt_reputation rt)))"

definition vote_key_owner :: "'h world \<Rightarrow> 'h runtime \<Rightarrow> key \<Rightarrow> key option" where
  "vote_key_owner w rt hot = map_option fst (find (\<lambda>(_, session). session = hot) (vote_keys w rt))"

definition committee_inputs :: "'h world \<Rightarrow> 'h runtime \<Rightarrow> pt_env" where
  "committee_inputs w rt = \<lparr>pe_reputation = reputation_of w rt, pe_bound = map fst (vote_keys w rt),
     pe_committed = active_committed_keys (keys_in w) (rt_beacon rt), pe_beacon = bp_beacon (rt_beacon rt),
     pe_halted = rp_halted (rt_reputation rt), pe_owner = vote_key_owner w rt, pe_verify = w_verify w,
     pe_genesis = w_genesis w\<rparr>"

text \<open>The API the node reads at a block hash, with that block's world and state.\<close>

definition consensus_api :: "(byte list \<Rightarrow> ('h world \<times> 'h runtime) option) \<Rightarrow> (byte list \<Rightarrow> nat option) \<Rightarrow> chain_api" where
  "consensus_api state_at version = \<lparr>
     api_reputation = (\<lambda>h. map_option (\<lambda>(w, rt). reputation_of w rt) (state_at h)),
     api_halted = (\<lambda>h. map_option (\<lambda>(w, rt). rp_halted (rt_reputation rt)) (state_at h)),
     api_committed = (\<lambda>h. map_option (\<lambda>(w, rt). active_committed_keys (keys_in w) (rt_beacon rt)) (state_at h)),
     api_seed = (\<lambda>h. map_option (\<lambda>(w, rt). bp_beacon (rt_beacon rt)) (state_at h)),
     api_vote_keys = (\<lambda>h. map_option (\<lambda>(w, rt). vote_keys w rt) (state_at h)),
     api_version = version\<rparr>"

definition suit_of :: "nat \<Rightarrow> suit" where
  "suit_of dimension = (if dimension = 0 then Commerce else if dimension = 1 then Technical
     else if dimension = 2 then Judicial else Governance)"

definition DEPTH2_MAX_VISIT :: nat where "DEPTH2_MAX_VISIT = 512"

text \<open>\<open>JusticeInterest\<close> and \<open>JusticeRectifier\<close> on the reputation pallet's state.\<close>

definition has_interest :: "key reputation \<Rightarrow> key \<Rightarrow> key list \<Rightarrow> bool" where
  "has_interest rep who ps = list_ex (\<lambda>p. is_related rep who p) ps"

definition juror_disqualified :: "key reputation \<Rightarrow> key \<Rightarrow> key list \<Rightarrow> bool" where
  "juror_disqualified rep who ps = list_ex (\<lambda>p. who = p \<or> vouches_for rep who p) ps"

definition excludes_at_draw :: "key reputation \<Rightarrow> key \<Rightarrow> key list \<Rightarrow> nat \<Rightarrow> bool" where
  "excludes_at_draw rep who ps cutoff =
     list_ex (\<lambda>p. who = p \<or> vouches_for rep who p \<or> vouched_at_or_before rep p who cutoff) ps"

definition on_guilty ::
  "bool \<Rightarrow> key rep_env \<Rightarrow> key \<Rightarrow> nat \<Rightarrow> nat \<Rightarrow> nat list \<Rightarrow> key reputation \<Rightarrow> nat \<times> key reputation" where
  "on_guilty main env culprit dimension loss ids rep =
     rectify_for_verdict (reputation_params main) env culprit (suit_of dimension) ids loss 3 rep"

definition justice_env :: "bool \<Rightarrow> 'h world \<Rightarrow> 'h runtime \<Rightarrow> key ju_env" where
  "justice_env main w rt =
     (let env = reputation_env w rt; rep = rt_reputation rt
      in \<lparr>ju_now = w_now w, ju_reputation = reputation_of w rt, ju_has_interest = has_interest rep,
          ju_relation_depth = (\<lambda>who ps. relation_depth env rep who ps DEPTH2_MAX_VISIT),
          ju_disqualified = juror_disqualified rep, ju_excludes_at_draw = excludes_at_draw rep,
          ju_seed = seed_hex (rt_beacon rt), ju_committed_key = (\<lambda>who. committed_key who (rt_beacon rt)),
          ju_owns_evidence = (\<lambda>i who dimension. owns_evidence (reputation_params main) env rep i who (suit_of dimension)),
          ju_on_guilty = (\<lambda>culprit dimension loss ids. fst (on_guilty main env culprit dimension loss ids rep)),
          ju_parent = w_parent w, ju_encode = (\<lambda>a. a)\<rparr>)"

text \<open>\<open>SealedInvariantsSource\<close>, \<open>RenewalCommittee\<close>, \<open>CessionStanding\<close>.\<close>

definition sealed_invariants :: "bool \<Rightarrow> 'h runtime \<Rightarrow> invariant_declaration option" where
  "sealed_invariants main rt = map_option (\<lambda>h. \<lparr>manifesto_hash = map unat h, cap_hlq = cap (hlq_params main),
     cap_sov = cap (sov_params main), entrenchment_threshold_fp = ENTRENCHMENT_THRESHOLD_FP,
     entrenchment_required_epochs = ENTRENCHMENT_REQUIRED_EPOCHS, preserves_validator = True\<rparr>) (sealed_hash (rt_manifesto rt))"

definition committee_weighted :: "bool \<Rightarrow> 'h world \<Rightarrow> 'h runtime \<Rightarrow> (key \<times> nat) list" where
  "committee_weighted main w rt =
     (if rp_halted (rt_reputation rt) then []
      else
        let eligible = filter (\<lambda>(acc, rep). rep > 0 \<and> rp_vote_keys (rt_reputation rt) acc \<noteq> None) (reputation_of w rt)
        in map (\<lambda>(acc, rep). (acc, nat (max rep 0)))
             (take (RENEWAL_ELECTORATE_TAU main) (sort_key (\<lambda>(acc, rep). (- rep, acc)) eligible)))"

definition multisig_env :: "bool \<Rightarrow> 'h world \<Rightarrow> 'h runtime \<Rightarrow> (key, 'h) ms_env" where
  "multisig_env main w rt = \<lparr>ms_now = w_now w, ms_sealed = sealed_invariants main rt,
     ms_committee = committee_weighted main w rt, ms_standing = consensus_reputation_of (rt_reputation rt),
     ms_floor = attest_floor (reputation_params main) (rt_reputation rt), ms_blake2 = w_blake2 w, ms_set_code = w_set_code w\<rparr>"

text \<open>\<open>BoundMask\<close>.\<close>

definition hosting_env :: "'h world \<Rightarrow> 'h runtime \<Rightarrow> key host_env" where
  "hosting_env w rt = \<lparr>ho_now = w_now w, ho_mask_of = rp_key_owner (rt_reputation rt), ho_block_hash = w_block_hash w,
     ho_verify = (\<lambda>sig msg public. w_verify w public sig msg), ho_order = keys_in w\<rparr>"

section \<open>Genesis\<close>

text \<open>
  What a preset sets: the other pallets start empty, the beacon at zero. \<open>addr\<close> decodes an address. The development preset's
  native balances and sudo key belong to pallets of the substrate.
\<close>

record preset =
  ge_evidence :: "(key \<times> suit \<times> nat) list"
  ge_vote_keys :: "(key \<times> key) list"
  ge_text :: "byte list"
  ge_balances :: "(key \<times> nat \<times> nat) list"
  ge_founders :: "key list"
  ge_signers :: "key list"
  ge_custody :: "key option"

definition addresses :: "string list" where
  "addresses = [''5GrwvaEF5zXb26Fz9rcQpDWS57CtERHpNehXCPcNoHGKutQY'', ''5FHneW46xGXgs5mUiveU4sbTyGBzmstUspZC92UhjJM694ty'',
     ''5FLSigC9HGRKVhB9FiEo4Y3koPsNmBmLJbpXg2mp1hXcS59Y'', ''5DAAnrj7VHTznn2AWBemMuyBwZWs6FNFjdyVXUeYum3PTXFy'',
     ''5HGjWAeFDfFCWPsjFQdVV2Msvz2XtMktvgocEZcCj68kUMaw'', ''5CiPPseXPECbkjWCa6MnjNokrgYjMqmKndv2rSnekmSK2DjL'']"

definition hot_keys :: "string list" where
  "hot_keys = [''c2757cbec87dbbab4797478efb6ef4029106d062638bdfca8dbdc5631b710f09'',
     ''a6235ea9eaddf4efa562ceb6965a0a2e8f20047e859f945d40e7a6d8b15ecc35'',
     ''740f8de12f82263b3bc2837002792e5f9fb204255f8b51884e8d6e3299e37466'',
     ''662540b4e44fe48481523c94890cfcccefe9104d4a815326f6ab64db3b309513'',
     ''90e0c91e37a26959f09d44bee3caac60984207cd8d86edc18152c0309fab0245'',
     ''5c258b8623567751384ecd1c827fb221277889308feb81bb99294f953ce45f79'']"

definition radix16 :: "char \<Rightarrow> nat" where
  "radix16 c = (let n = of_char c in if n < 58 then n - 48 else n - 87)"

fun from_hex :: "string \<Rightarrow> byte list" where
  "from_hex (a # b # cs) = of_nat (16 * radix16 a + radix16 b) # from_hex cs"
| "from_hex _ = []"

definition founding_text :: "byte list" where
  "founding_text = bytes_of (''HARLEQUIN -- founding manifesto placeholder. The final constitution is ''
     @ ''sealed into genesis at the freeze, after the adversarial audit (Art. XII, Permanence).'')"

definition evidence_seed :: "key list \<Rightarrow> nat \<Rightarrow> (key \<times> suit \<times> nat) list" where
  "evidence_seed fs amount = concat (map (\<lambda>f. map (\<lambda>s. (f, s, amount)) [Commerce, Technical, Judicial, Governance]) fs)"

definition dev_preset :: "(string \<Rightarrow> key) \<Rightarrow> preset" where
  "dev_preset addr = (let fs = map addr addresses in
     \<lparr>ge_evidence = evidence_seed fs 1000, ge_vote_keys = zip fs (map from_hex hot_keys), ge_text = founding_text,
      ge_balances = map (\<lambda>f. (f, 1000000000000, 0)) fs, ge_founders = [], ge_signers = take 5 fs, ge_custody = Some (fs ! 4)\<rparr>)"

definition launch_preset :: "(string \<Rightarrow> key) \<Rightarrow> preset" where
  "launch_preset addr = (let fs = map addr (take 4 addresses); custody_seat = addr (addresses ! 4) in
     \<lparr>ge_evidence = evidence_seed fs 10, ge_vote_keys = [], ge_text = founding_text,
      ge_balances = [], ge_founders = fs, ge_signers = fs @ [custody_seat], ge_custody = Some custody_seat\<rparr>)"

definition no_runtime :: "bool \<Rightarrow> 'h runtime" where
  "no_runtime main = \<lparr>rt_reputation = empty_reputation (reputation_params main), rt_justice = empty_justice,
     rt_beacon = bp_genesis (replicate 32 0), rt_tokens = empty_tokens, rt_participation = empty_participation,
     rt_multisig = empty_multisig, rt_hosting = empty_hosting, rt_manifesto = \<lparr>manifesto_text = None, sealed_hash = None\<rparr>\<rparr>"

text \<open>\<open>None\<close>: a pallet's genesis panics.\<close>

definition runtime_genesis :: "bool \<Rightarrow> 'h world \<Rightarrow> preset \<Rightarrow> 'h runtime option" where
  "runtime_genesis main w pr =
     (case rep_genesis (reputation_params main) (reputation_env w (no_runtime main)) (ge_evidence pr) (ge_vote_keys pr) of
        None \<Rightarrow> None
      | Some rep \<Rightarrow>
     case manifesto_build MAX_MANIFESTO_LEN (ge_text pr) of None \<Rightarrow> None | Some mf \<Rightarrow>
     case genesis_build (ge_balances pr) (ge_founders pr) of None \<Rightarrow> None | Some tk \<Rightarrow>
     case ms_genesis (multisig_params main) (ge_signers pr) (ge_custody pr) of None \<Rightarrow> None | Some ms \<Rightarrow>
     Some ((no_runtime main)\<lparr>rt_reputation := rep, rt_manifesto := mf, rt_tokens := tk, rt_multisig := ms\<rparr>))"

section \<open>Extrinsics\<close>

text \<open>
  The calls whose pallets read one another. \<open>EnsureRoot\<close> is met only through the sudo pallet, which is not compiled
  into the mainnet runtime.
\<close>

datatype 'h rt_call =
    RepCall "key rep_call"
  | JusticeCall "key justice_op"
  | BeaconCall "key bp_call"
  | NoteCall participation_record
  | MultisigCall key "(key, 'h) ms_call"
  | HostingCall w32 "byte list" "byte list" "byte list"
  | TransferCall key coin key nat

datatype rt_error = NotACall | RepErr rep_error | JusticeErr justice_error | BeaconErr bp_error | NoteErr pt_error
  | MultisigErr ms_error | HostingErr host_error | TokensErr core_error

fun rep_extrinsic :: "bool \<Rightarrow> key rep_call \<Rightarrow> bool" where
  "rep_extrinsic main (Submit_evidence root _ _ _) = (main \<longrightarrow> \<not> root)"
| "rep_extrinsic main (Set_bootstrap_window root _) = (main \<longrightarrow> \<not> root)"
| "rep_extrinsic main (Set_probation_window root _) = (main \<longrightarrow> \<not> root)"
| "rep_extrinsic main (Report_fraud root _ _ _ _) = (main \<longrightarrow> \<not> root)"
| "rep_extrinsic main (Verdict _ _ _ _ _) = False"
| "rep_extrinsic main Begin_rep_block = False"
| "rep_extrinsic main Upgrade_runtime = False"
| "rep_extrinsic main _ = True"

fun is_extrinsic :: "bool \<Rightarrow> 'h rt_call \<Rightarrow> bool" where
  "is_extrinsic main (RepCall c) = rep_extrinsic main c"
| "is_extrinsic main (JusticeCall (BlockBegins _)) = False"
| "is_extrinsic main (BeaconCall (BpBlock _)) = False"
| "is_extrinsic main _ = True"

definition lift_call :: "('e \<Rightarrow> rt_error) \<Rightarrow> ('s \<Rightarrow> 'h runtime) \<Rightarrow> 'e + 's \<Rightarrow> rt_error + 'h runtime" where
  "lift_call err put r = (case r of Inl e \<Rightarrow> Inl (err e) | Inr s \<Rightarrow> Inr (put s))"

text \<open>The calls of \<open>Rectifier::on_guilty\<close> that closing a case logged, on the reputation pallet's storage.\<close>

fun rectify :: "bool \<Rightarrow> key rep_env \<Rightarrow> key justice_event list \<Rightarrow> key reputation \<Rightarrow> key reputation" where
  "rectify main env [] rep = rep"
| "rectify main env (OnGuilty culprit dimension loss ids # es) rep =
     rectify main env es (snd (on_guilty main env culprit dimension loss ids rep))"
| "rectify main env (_ # es) rep = rectify main env es rep"

definition close_in_runtime :: "bool \<Rightarrow> 'h world \<Rightarrow> key \<Rightarrow> nat \<Rightarrow> 'h runtime \<Rightarrow> rt_error + 'h runtime" where
  "close_in_runtime main w closer cid rt =
     lift_call JusticeErr (\<lambda>ju. rt\<lparr>rt_justice := ju, rt_reputation := rectify main (reputation_env w rt)
         (drop (length (ju_log (rt_justice rt))) (ju_log ju)) (rt_reputation rt)\<rparr>)
       (close_case (justice_params (w_mul_ceil w) (w_mul_floor w) main) (justice_env main w rt) closer cid (rt_justice rt))"

fun runtime_dispatch :: "bool \<Rightarrow> 'h world \<Rightarrow> 'h rt_call \<Rightarrow> 'h runtime \<Rightarrow> rt_error + 'h runtime" where
  "runtime_dispatch main w call rt =
     (if \<not> is_extrinsic main call then Inl NotACall
      else case call of
        RepCall c \<Rightarrow> lift_call RepErr (\<lambda>s. rt\<lparr>rt_reputation := s\<rparr>)
          (rep_step (reputation_params main) (reputation_env w rt, c) (rt_reputation rt))
      | JusticeCall (CloseCase closer cid) \<Rightarrow> close_in_runtime main w closer cid rt
      | JusticeCall c \<Rightarrow> lift_call JusticeErr (\<lambda>s. rt\<lparr>rt_justice := s\<rparr>)
          (justice_step (justice_params (w_mul_ceil w) (w_mul_floor w) main) (justice_env main w rt, c) (rt_justice rt))
      | BeaconCall c \<Rightarrow> lift_call BeaconErr (\<lambda>s. rt\<lparr>rt_beacon := s\<rparr>)
          (bp_step (beacon_params main) (keys_in w, c) (rt_beacon rt))
      | NoteCall r \<Rightarrow> lift_call NoteErr (\<lambda>s. rt\<lparr>rt_participation := s\<rparr>)
          (note_participation (participation_params main) (committee_inputs w rt) (w_now w) r (rt_participation rt))
      | MultisigCall who c \<Rightarrow> lift_call MultisigErr (\<lambda>s. rt\<lparr>rt_multisig := s\<rparr>)
          (ms_dispatch (multisig_params main) (multisig_env main w rt) who c (rt_multisig rt))
      | HostingCall at hsh hot sig \<Rightarrow> lift_call HostingErr (\<lambda>s. rt\<lparr>rt_hosting := s\<rparr>)
          (heartbeat (hosting_params main) (hosting_env w rt) at hsh hot sig (rt_hosting rt))
      | TransferCall frm coin dst amount \<Rightarrow> lift_call TokensErr (\<lambda>s. rt\<lparr>rt_tokens := s\<rparr>)
          (tokens_transfer frm coin dst amount (rt_tokens rt)))"

section \<open>A block\<close>

text \<open>The hooks run in the order of the pallets' indices, each on the state the ones before it left.\<close>

definition begin_block :: "bool \<Rightarrow> 'h world \<Rightarrow> 'h runtime \<Rightarrow> 'h runtime" where
  "begin_block main w rt0 =
     (let rt1 = rt0\<lparr>rt_reputation := rep_on_initialize (reputation_params main) (reputation_env w rt0) (rt_reputation rt0)\<rparr>;
          rt2 = rt1\<lparr>rt_justice := justice_on_initialize (justice_params (w_mul_ceil w) (w_mul_floor w) main)
                      (justice_env main w rt1) (w_now w) (rt_justice rt1)\<rparr>;
          rt3 = rt2\<lparr>rt_beacon := bp_on_initialize (beacon_params main) (keys_in w) (w_now w) (rt_beacon rt2)\<rparr>;
          rt4 = rt3\<lparr>rt_tokens := tokens_on_initialize (rt_tokens rt3)\<rparr>;
          rt5 = rt4\<lparr>rt_participation := pt_on_initialize (participation_params main) (committee_inputs w rt4) (w_now w)
                      (rt_participation rt4)\<rparr>
      in rt5\<lparr>rt_multisig := ms_on_initialize (multisig_params main) (w_now w) (committee_weighted main w rt5) (rt_multisig rt5)\<rparr>)"

text \<open>
  \<open>ParticipationEraServiceFeed\<close> and \<open>HostingFeed\<close>: what the emission reads, and what it leaves in the two pallets, from
  the calls it logs.
\<close>

definition era_feed :: "bool \<Rightarrow> 'h world \<Rightarrow> 'h runtime \<Rightarrow> nat \<Rightarrow> (key \<times> nat \<times> nat) list" where
  "era_feed main w rt era = fst (era_service_streak (participation_params main) (keys_in w) era (rt_participation rt))"

fun settle_feeds :: "bool \<Rightarrow> 'h world \<Rightarrow> key tokens_effect list \<Rightarrow> 'h runtime \<Rightarrow> 'h runtime" where
  "settle_feeds main w [] rt = rt"
| "settle_feeds main w (ReadServiceStreak era # es) rt = settle_feeds main w es
     (rt\<lparr>rt_participation := snd (era_service_streak (participation_params main) (keys_in w) era (rt_participation rt))\<rparr>)"
| "settle_feeds main w (ClearService era # es) rt = settle_feeds main w es
     (rt\<lparr>rt_participation := clear_era era (rt_participation rt)\<rparr>)"
| "settle_feeds main w (tokens_effect.ClearHosts era # es) rt = settle_feeds main w es
     (rt\<lparr>rt_hosting := clear_hosts (hosting_params main) (hosting_env w rt) era (rt_hosting rt)\<rparr>)"
| "settle_feeds main w (_ # es) rt = settle_feeds main w es rt"

definition end_block :: "bool \<Rightarrow> 'h world \<Rightarrow> 'h runtime \<Rightarrow> 'h runtime" where
  "end_block main w rt =
     (let tk = tokens_on_finalize (tokens_params (w_ref_time w) main) (era_feed main w rt)
                 (\<lambda>era. era_hosts (hosting_env w rt) era (rt_hosting rt)) (w_now w) (rt_tokens rt)
      in settle_feeds main w (drop (length (effects (rt_tokens rt))) (effects tk)) (rt\<lparr>rt_tokens := tk\<rparr>))"

text \<open>A block of the chain: its world but for the number, and its extrinsics.\<close>

definition run_block :: "bool \<Rightarrow> 'h world \<times> 'h rt_call list \<Rightarrow> nat \<times> 'h runtime \<Rightarrow> nat \<times> 'h runtime" where
  "run_block main = (\<lambda>(w, calls) (n, rt).
     let w' = w\<lparr>w_now := n + 1\<rparr>
     in (n + 1, end_block main w' (run_calls (runtime_dispatch main w') calls (begin_block main w' rt))))"

definition run_blocks :: "bool \<Rightarrow> ('h world \<times> 'h rt_call list) list \<Rightarrow> nat \<times> 'h runtime \<Rightarrow> nat \<times> 'h runtime" where
  "run_blocks main = fold (run_block main)"

end
