(* ===== verification/RuntimeProps.thy ===== *)
theory RuntimeProps
imports RuntimeWiring
begin

text \<open>
  What the wired runtime keeps: the vote keys over whole blocks, the committee and the delegation as the node and the
  chain read them, who may take standing from whom, and the electorate of a renewal.
\<close>

section \<open>Vote keys over blocks\<close>

definition delegation_ok :: "'h runtime \<Rightarrow> bool" where
  "delegation_ok rt = (keys_ok (rt_reputation rt) \<and> finite (dom (rp_vote_keys (rt_reputation rt))))"

lemma on_guilty_same: "same_claims rep (snd (on_guilty main env c d loss ids rep))"
  by (simp add: on_guilty_def conjunct1 [OF rectify_same])

lemma rectify_claims: "same_claims rep (rectify main env es rep)"
proof (induction main env es rep rule: rectify.induct)
  case (2 main env culprit dimension loss ids es rep)
  then show ?case using same_claims_trans [OF on_guilty_same] by simp
qed simp_all

lemma delegation_same: "same_claims (rt_reputation rt) rep \<Longrightarrow> delegation_ok rt \<Longrightarrow> delegation_ok (rt\<lparr>rt_reputation := rep\<rparr>)"
  using keys_ok_same [of "rt_reputation rt" rep] by (simp add: delegation_ok_def same_claims_def)

lemma delegation_elsewhere: "rt_reputation rt' = rt_reputation rt \<Longrightarrow> delegation_ok rt' = delegation_ok rt"
  by (simp add: delegation_ok_def)

lemma finite_keys_step:
  assumes "finite (dom (rp_vote_keys st))" "rep_step cfg (env, c) st = Inr st'" "rep_extrinsic main c"
  shows "finite (dom (rp_vote_keys st'))"
proof (cases c)
  case (Set_vote_key who k sg)
  then have "set_vote_key env who k sg st = Inr st'" using assms(2) by simp
  then show ?thesis by (rule set_vote_key_effect) (use assms(1) in simp)
next
  case (Attest a b s n)
  then have "attest_evidence cfg a b s n st = Inr st'" using assms(2) by simp
  then show ?thesis by (rule attest_effect) (use assms(1) in simp)
next
  case (Vouch_for a b s v)
  then have "rp_vouch cfg env a b s v st = Inr st'" using assms(2) by simp
  then show ?thesis by (rule vouch_effect) (use assms(1) in simp)
next
  case (Report_fraud p c s n d)
  then show ?thesis using assms cascade_same [of st cfg env c s n d]
    by (auto simp: report_fraud_def same_claims_def split: if_splits)
qed (use assms in \<open>auto simp: small_calls split: if_splits option.splits\<close>)

lemma lift_call_Inr: "lift_call err put r = Inr rt' \<longleftrightarrow> (\<exists>s. r = Inr s \<and> rt' = put s)"
  by (auto simp: lift_call_def split: sum.split)

lemma dispatch_reputation:
  assumes "runtime_dispatch main w call rt = Inr rt'"
  obtains "rt_reputation rt' = rt_reputation rt"
  | c where "call = RepCall c" "rep_extrinsic main c"
      "rep_step (reputation_params main) (reputation_env w rt, c) (rt_reputation rt) = Inr (rt_reputation rt')"
  | closer cid where "call = JusticeCall (CloseCase closer cid)" "close_in_runtime main w closer cid rt = Inr rt'"
proof (cases call)
  case (JusticeCall op)
  then show thesis using assms that(1,3) by (cases op) (auto simp: lift_call_Inr split: if_splits)
qed (use assms that in \<open>auto simp: lift_call_Inr split: if_splits\<close>)

lemma delegation_dispatch:
  assumes "delegation_ok rt" "runtime_dispatch main w call rt = Inr rt'"
  shows "delegation_ok rt'"
  using assms(2)
proof (cases rule: dispatch_reputation)
  case 1
  then show ?thesis using assms(1) delegation_elsewhere by blast
next
  case (2 c)
  then show ?thesis using assms(1) keys_step [OF _ 2(3)] finite_keys_step [OF _ 2(3,2)] by (simp add: delegation_ok_def)
next
  case (3 closer cid)
  then have "same_claims (rt_reputation rt) (rt_reputation rt')"
    by (auto simp: close_in_runtime_def lift_call_Inr rectify_claims)
  then show ?thesis using assms(1) keys_ok_same by (auto simp: delegation_ok_def same_claims_def)
qed

interpretation delegation: call_system "runtime_dispatch main w" "\<lambda>_. True" delegation_ok for main w
  by unfold_locales (rule delegation_dispatch)

lemma settle_reputation: "rt_reputation (settle_feeds main w es rt) = rt_reputation rt"
  by (induction main w es rt rule: settle_feeds.induct) simp_all

lemma begin_reputation: "rt_reputation (begin_block main w rt) =
    rep_on_initialize (reputation_params main) (reputation_env w rt) (rt_reputation rt)"
  by (simp add: begin_block_def Let_def)

lemma delegation_begin: "delegation_ok rt \<Longrightarrow> delegation_ok (begin_block main w rt)"
  using delegation_same [OF on_initialize_same, of rt "reputation_params main" "reputation_env w rt"]
  by (simp add: delegation_ok_def begin_reputation)

lemma delegation_block: "delegation_ok (snd nrt) \<Longrightarrow> delegation_ok (snd (run_block main b nrt))"
  by (cases nrt; cases b)
    (simp add: run_block_def Let_def end_block_def delegation_elsewhere [OF settle_reputation] delegation_begin
      delegation_elsewhere [of "rt\<lparr>rt_tokens := _\<rparr>" rt for rt] delegation.run_inv list_all_iff)

lemma delegation_blocks: "delegation_ok (snd nrt) \<Longrightarrow> delegation_ok (snd (run_blocks main bs nrt))"
  by (induction bs arbitrary: nrt) (simp_all add: run_blocks_def delegation_block)

section \<open>One committee, one delegation\<close>

lemma keys_in_set: "order_lists (w_order w) \<Longrightarrow> finite (dom m) \<Longrightarrow> distinct (keys_in w m) \<and> set (keys_in w m) = dom m"
  by (simp add: keys_in_def order_lists_def dom_def)

lemma vote_key_owner_eq:
  assumes "order_lists (w_order w)" "delegation_ok rt"
  shows "vote_key_owner w rt = rp_key_owner (rt_reputation rt)"
    and "map_of (rev (map (\<lambda>(account, session). (session, account)) (vote_keys w rt))) = rp_key_owner (rt_reputation rt)"
proof -
  let ?m = "rp_vote_keys (rt_reputation rt)" and ?o = "rp_key_owner (rt_reputation rt)"
  have k: "?m a = Some h \<longleftrightarrow> ?o h = Some a" for a h using assms(2) by (simp add: delegation_ok_def keys_ok_def)
  have vk: "distinct (map fst (vote_keys w rt))" "set (vote_keys w rt) = {(a, h). ?m a = Some h}"
    using keys_in_set [OF assms(1), of ?m] assms(2) by (force simp: vote_keys_def delegation_ok_def o_def)+
  show "vote_key_owner w rt = ?o"
  proof
    fix h
    show "vote_key_owner w rt h = ?o h"
    proof (cases "find (\<lambda>(_, session). session = h) (vote_keys w rt)")
      case None
      then show ?thesis using vk(2) k by (cases "?o h") (auto simp: vote_key_owner_def find_None_iff)
    next
      case (Some p)
      then have "p \<in> set (vote_keys w rt)" "snd p = h" by (force simp: find_Some_iff in_set_conv_nth)+
      then have "(fst p, h) \<in> set (vote_keys w rt)" by (metis prod.collapse)
      then have "?m (fst p) = Some h" unfolding vk(2) by simp
      then show ?thesis using k Some by (simp add: vote_key_owner_def)
    qed
  qed
  let ?sw = "rev (map (\<lambda>(account, session). (session, account)) (vote_keys w rt))"
  have s: "set ?sw = {(h, a). ?o h = Some a}" using vk(2) by (auto simp: k)
  show "map_of ?sw = ?o"
  proof
    fix h
    show "map_of ?sw h = ?o h"
    proof (cases "map_of ?sw h")
      case None
      then have "h \<notin> fst ` set ?sw" by (simp only: map_of_eq_None_iff simp_thms)
      then have "?o h = None" unfolding s by (cases "?o h") (auto simp: image_iff)
      then show ?thesis unfolding None by simp
    next
      case (Some a)
      then have "(h, a) \<in> set ?sw" by (rule map_of_SomeD)
      then have "?o h = Some a" unfolding s by simp
      then show ?thesis unfolding Some by simp
    qed
  qed
qed

lemma genesis_delegation:
  assumes "runtime_genesis main w pr = Some rt"
  shows "delegation_ok rt"
proof -
  let ?env = "reputation_env w (no_runtime main :: 'a runtime)"
  have g: "rep_genesis (reputation_params main) ?env (ge_evidence pr) (ge_vote_keys pr) = Some (rt_reputation rt)"
    using assms by (auto simp: runtime_genesis_def split: option.splits)
  let ?f = "\<lambda>(who, s, amount) st. snd (journal_evidence who s amount (st\<lparr>rp_evidence := (rp_evidence st)((who, s) \<mapsto> amount)\<rparr>))"
  let ?g = "\<lambda>(who, k) st. st\<lparr>rp_vote_keys := (rp_vote_keys st)(who \<mapsto> k), rp_key_owner := (rp_key_owner st)(k \<mapsto> who)\<rparr>"
  let ?fin = "\<lambda>st :: key reputation. finite (dom (rp_vote_keys st))"
  let ?st1 = "fold ?f (ge_evidence pr) (empty_reputation (reputation_params main))"
  have "?fin (empty_reputation (reputation_params main)) \<longrightarrow> ?fin ?st1"
    by (rule fold_related [where R = "\<lambda>a b. ?fin a \<longrightarrow> ?fin b"]) (auto simp: journal_evidence_def Let_def)
  then have "?fin ?st1" by (simp add: empty_reputation_def)
  moreover have "?fin ?st1 \<longrightarrow> ?fin (fold ?g (ge_vote_keys pr) ?st1)"
    by (rule fold_related [where R = "\<lambda>a b. ?fin a \<longrightarrow> ?fin b"]) auto
  moreover have "rp_vote_keys (rt_reputation rt) = rp_vote_keys (fold ?g (ge_vote_keys pr) ?st1)"
    using g recompute_effect [of ?env "fold ?g (ge_vote_keys pr) ?st1"]
    by (auto simp: rep_genesis_def Let_def split: if_splits)
  ultimately show ?thesis using genesis_keys [OF g] by (simp add: delegation_ok_def)
qed

text \<open>The launch preset binds no node, so its genesis is refused; the development preset boots.\<close>

lemma six_keys: "length addresses = 6" "length hot_keys = 6"
  by (simp_all add: addresses_def hot_keys_def)

lemma launch_refused: "runtime_genesis main w (launch_preset addr) = None"
proof -
  have "evidence_seed (x # xs) n \<noteq> []" for x :: key and xs n by (simp add: evidence_seed_def)
  moreover have "map addr (take 4 addresses) \<noteq> []" using six_keys(1) by (metis Nil_is_map_conv list.size(3) take_eq_Nil zero_neq_numeral)
  ultimately have "evidence_seed (map addr (take 4 addresses)) 10 \<noteq> []" by (metis neq_Nil_conv)
  then show ?thesis by (simp add: runtime_genesis_def launch_preset_def rep_genesis_def Let_def)
qed

lemma hot_keys_distinct: "distinct (map from_hex hot_keys)"
proof -
  have hd: "hd (from_hex (a # b # cs)) = of_nat (16 * radix16 a + radix16 b)" for a b cs by simp
  have "distinct (map hd (map from_hex hot_keys))" unfolding hot_keys_def list.map hd by code_simp
  then show ?thesis by (simp only: distinct_map)
qed

lemma bound_cohort_boots:
  assumes "distinct fs" "distinct ks" "length fs = length ks" "fs \<noteq> []" "set fs \<inter> set ks = {}"
  shows "\<exists>rep. rep_genesis cfg (reputation_env w rt) ev (zip fs ks) = Some rep"
proof -
  have ne: "zip fs ks \<noteq> []" using assms(3,4) by (cases fs; cases ks) simp_all
  have own: "\<not> list_ex (\<lambda>(who, _). who \<in> set ks) (zip fs ks)"
    using assms(5) set_zip_leftD by (fastforce simp: list_ex_iff)
  then have "\<not> list_ex (\<lambda>(who, _). length (re_encode (reputation_env w rt) who) = 32
      \<and> re_encode (reputation_env w rt) who \<in> set ks) (zip fs ks)"
    by (auto simp: list_ex_iff reputation_env_def)
  then have "vote_keys_valid (reputation_env w rt) (zip fs ks)"
    using assms(1-3) by (simp add: vote_keys_valid_def)
  with ne show ?thesis by (simp add: rep_genesis_def Let_def)
qed

lemma dev_boots:
  assumes "inj_on addr (set addresses)" "addr ` set addresses \<inter> set (map from_hex hot_keys) = {}"
  obtains rt where "runtime_genesis main w (dev_preset addr) = Some rt"
proof -
  define fs where "fs = map addr addresses"
  have "distinct addresses" by code_simp
  then have fs: "distinct fs" "length fs = 6" using assms(1) six_keys(1) by (simp_all add: fs_def distinct_map)
  obtain rep where rep: "rep_genesis (reputation_params main) (reputation_env w (no_runtime main :: 'a runtime)) (evidence_seed fs 1000)
      (zip fs (map from_hex hot_keys)) = Some rep"
    using bound_cohort_boots [OF fs(1) hot_keys_distinct, where w = w] fs(2) six_keys(2) assms(2)
    unfolding fs_def set_map [of addr, symmetric] by (metis length_map list.size(3) zero_neq_numeral)
  have seats: "distinct (take 5 fs)" "length (take 5 fs) = 5" "fs ! 4 \<in> set (take 5 fs)"
    using fs by (auto simp: in_set_conv_nth intro!: exI [of _ 4])
  have short: "length founding_text \<le> MAX_MANIFESTO_LEN" by (simp add: founding_text_def bytes_of_def MAX_MANIFESTO_LEN_def)
  have bals: "map fst (map (\<lambda>f. (f, 1000000000000, 0)) fs) = fs" by (simp add: o_def)
  have "runtime_genesis main w (dev_preset addr) \<noteq> None"
    using fs(1) seats short by (simp add: runtime_genesis_def dev_preset_def Let_def fs_def [symmetric] rep manifesto_build_def genesis_build_def bals [simplified]
        ms_genesis_def SEATS_def o_def split: option.splits)
  then show thesis using that by blast
qed


definition demo_world :: "nat \<Rightarrow> nat world" where
  "demo_world n = \<lparr>w_now = n, w_parent = ''p'', w_block_hash = (\<lambda>_. []), w_genesis = [], w_verify = (\<lambda>_ _ _. True),
     w_order = (\<lambda>P. sorted_list_of_set {a. P a}), w_quantiser = demo_quantiser, w_mul_floor = (\<lambda>p x. p * x div 1000000),
     w_mul_ceil = (\<lambda>p x. (p * x + 999999) div 1000000), w_pow = (\<lambda>p e. if e = 0 then 1000000 else min p 1000000), w_ref_time = 1000,
     w_blake2 = length, w_set_code = (\<lambda>_. True)\<rparr>"

lemma demo_world_ok: "order_lists (w_order (demo_world n))" "permill_ok (reputation_env (demo_world n) rt)"
  by (simp_all add: order_lists_def demo_world_def permill_ok_def reputation_env_def)

text \<open>An account bound at genesis changes its hot key in the first block.\<close>

definition demo_preset :: preset where
  "demo_preset = \<lparr>ge_evidence = [], ge_vote_keys = [([1], [9])], ge_text = [], ge_balances = [], ge_founders = [],
     ge_signers = [], ge_custody = None\<rparr>"

definition demo_rebind :: "(nat world \<times> nat rt_call list) list" where
  "demo_rebind = [(demo_world 0, [RepCall (Set_vote_key [1] (replicate 32 8) (replicate 64 7))])]"


section \<open>Who takes standing\<close>

lemma extrinsic_keeps_evidence:
  assumes "rep_step cfg (env, c) st = Inr st'" "rep_extrinsic True c" "evidence_of st a s \<le> u128_max"
  shows "evidence_of st a s \<le> evidence_of st' a s"
proof (cases c)
  case (Set_vote_key who k sg)
  then have "set_vote_key env who k sg st = Inr st'" using assms(1) by simp
  then show ?thesis by (rule set_vote_key_effect) (simp add: evidence_of_def)
next
  case (Attest w b t n)
  then have "attest_evidence cfg w b t n st = Inr st'" using assms(1) by simp
  then show ?thesis by (rule attest_effect) (simp add: evidence_of_def)
next
  case (Vouch_for w b t v)
  then have "rp_vouch cfg env w b t v st = Inr st'" using assms(1) by simp
  then show ?thesis by (rule vouch_effect) (simp add: evidence_of_def)
next
  case (Claim b w t)
  then show ?thesis using assms(1,3)
    by (auto simp: claim_attested_evidence_def admit_evidence_effect evidence_of_def sat_add_def Let_def
        split: option.splits if_splits)
qed (use assms in \<open>auto simp: small_calls evidence_of_def split: if_splits option.splits\<close>)

lemma rectify_quiet: "list_all (\<lambda>e. case e of OnGuilty _ _ _ _ \<Rightarrow> False | _ \<Rightarrow> True) es \<Longrightarrow> rectify main env es rep = rep"
  by (induction main env es rep rule: rectify.induct) auto

definition convicts :: "justice_config \<Rightarrow> key ju_env \<Rightarrow> nat \<Rightarrow> key jcase \<Rightarrow> key justice \<Rightarrow> key justice \<Rightarrow> bool" where
  "convicts cfg env cid c ju ju' =
     (let out = (\<lambda>j. ju_disqualified env j (parties ju cid)); n = length (jury ju cid)
      in cs_status c = Open \<and> cid \<notin> incapacity_case ju \<and> cases ju' = (cases ju)(cid \<mapsto> c\<lparr>cs_status := ResolvedGuilty\<rparr>)
       \<and> quorum_ceil cfg n \<le> counted out (votes ju cid) (jury ju cid)
       \<and> 0 < guilt_ceil cfg n \<and> guilt_ceil cfg n \<le> guilty_count out (votes ju cid) (jury ju cid))"

lemma close_rectifies:
  assumes "close_case cfg env closer cid ju = Inr ju'" "length (jury ju cid) \<le> u32_max"
    and "es = drop (length (ju_log ju)) (ju_log ju')"
  shows "\<exists>c. cases ju cid = Some c \<and> (rectify main renv es rep = rep \<or> (convicts cfg env cid c ju ju'
    \<and> rectify main renv es rep = snd (on_guilty main renv (cs_defendant c) (cs_dimension c) (cs_loss c) (case_evidence ju cid) rep)))"
proof -
  obtain c where c: "cases ju cid = Some c" using assms(1) by (auto simp: close_case_def split: option.splits)
  let ?out = "\<lambda>j. ju_disqualified env j (parties ju cid)"
  have t: "tally_votes ?out (votes ju cid) (jury ju cid) (0, 0) =
      (counted ?out (votes ju cid) (jury ju cid), guilty_count ?out (votes ju cid) (jury ju cid))"
    using tally_votes_count [of 0 "jury ju cid" 0] assms(2) by simp
  show ?thesis
    by (rule exI [of _ c]) (use assms(1) in \<open>auto simp: assms(3) close_case_def c t Let_def convicts_def ju_emit_def split: if_splits\<close>)
qed

definition answers_for ::
  "bool \<Rightarrow> key rep_env \<Rightarrow> key jcase \<Rightarrow> nat list \<Rightarrow> key reputation \<Rightarrow> key \<Rightarrow> nat \<Rightarrow> nat \<Rightarrow> bool" where
  "answers_for main env c ids rep a before left =
     (let s = suit_of (cs_dimension c); culprit = cs_defendant c
      in if a = culprit
         then before - left \<le> cs_loss c \<and> before - left \<le> sum (disputed (reputation_params main) env culprit s rep) (set ids)
         else before \<le> 2 * left \<and> (\<exists>j. 1 \<le> j \<and> j \<le> 3 \<and> (culprit, a) \<in> liable env rep s ^^ j))"

lemma on_guilty_takes:
  assumes "permill_ok env" "rep' = snd (on_guilty main env (cs_defendant c) (cs_dimension c) (cs_loss c) ids rep)"
    and "evidence_of rep' a s < evidence_of rep a s"
  shows "s = suit_of (cs_dimension c) \<and> answers_for main env c ids rep a (evidence_of rep a s) (evidence_of rep' a s)"
proof -
  let ?d = "cs_defendant c" and ?s = "suit_of (cs_dimension c)" and ?cfg = "reputation_params main"
  define v where "v = verdict_records ?cfg env ?d ?s ids rep"
  define n where "n = min (cs_loss c) (fst v)"
  have v: "fst v \<le> sum (disputed ?cfg env ?d ?s rep) (set ids)"
    using verdict_fold [of ?cfg env ?d ?s rep "sort (remdups ids)" "(0, [])"]
    by (simp add: v_def verdict_records_def sum_list_distinct_conv_sum_set)
  obtain vis where vis: "slashed env ?s ?d n 3 rep (cascade_slash ?cfg env ?d ?s n 3 rep) vis" "0 < n \<longrightarrow> ?d \<in> set vis"
    using cascade_slashed [OF assms(1)] by blast
  have e: "evidence_of rep' b t = (if 0 < n then evidence_of (cascade_slash ?cfg env ?d ?s n 3 rep) b t else evidence_of rep b t)" for b t
    unfolding assms(2) on_guilty_def rectify_for_verdict_def Let_def split_def v_def [symmetric] n_def [symmetric]
    by (simp add: evidence_of_def)
  have n: "0 < n" using assms(3) e [of a s] by (cases "0 < n") simp_all
  let ?rep = "cascade_slash ?cfg env ?d ?s n 3 rep"
  have less: "evidence_of ?rep a s < evidence_of rep a s" "evidence_of rep' a s = evidence_of ?rep a s" using assms(3) n e by simp_all
  have s: "s = ?s" using vis(1) less(1) by (cases "s = ?s") (simp_all add: slashed_def)
  show ?thesis
  proof (cases "a = ?d")
    case True
    then have "evidence_of ?rep a s = evidence_of rep a s - n" using vis n s by (simp add: slashed_def)
    then have "evidence_of rep a s - evidence_of ?rep a s \<le> n" by simp
    moreover have "n \<le> cs_loss c" "n \<le> fst v" by (simp_all add: n_def)
    ultimately show ?thesis using True s v unfolding answers_for_def Let_def less(2) by simp
  next
    case False
    have "a \<in> set vis" using vis(1) less(1) s by (cases "a \<in> set vis") (simp_all add: slashed_def)
    then have "evidence_of rep a s \<le> 2 * evidence_of ?rep a s" "\<exists>j. 1 \<le> j \<and> j \<le> 3 \<and> (?d, a) \<in> liable env rep ?s ^^ j"
      using vis(1) False s unfolding slashed_def by blast+
    then show ?thesis using False s unfolding answers_for_def Let_def less(2) by simp
  qed
qed

text \<open>
  C11: no extrinsic of the mainnet takes standing from anybody, unless it closes a case with a verdict of guilty: the
  case was open and no case of incapacity, the quorum of its jury voted, and the guilty votes of the jurors not disqualified reach
  67 percent of the whole jury. Then it takes only in the suit of the case: from the defendant no more than the loss claimed nor than
  what the records named are worth, and from a sponsor, at most three matured vouches away, at most half.
\<close>

theorem standing_taken_by_verdict:
  assumes "runtime_dispatch True w call rt = Inr rt'"
    and "evidence_of (rt_reputation rt') a s < evidence_of (rt_reputation rt) a s"
    and "permill_ok (reputation_env w rt)" "evidence_of (rt_reputation rt) a s \<le> u128_max"
    and "\<forall>cid. length (jury (rt_justice rt) cid) \<le> u32_max"
  shows "\<exists>closer cid c. call = JusticeCall (CloseCase closer cid) \<and> cases (rt_justice rt) cid = Some c
    \<and> convicts (justice_params (w_mul_ceil w) (w_mul_floor w) True) (justice_env True w rt) cid c (rt_justice rt) (rt_justice rt')
    \<and> s = suit_of (cs_dimension c)
    \<and> answers_for True (reputation_env w rt) c (case_evidence (rt_justice rt) cid) (rt_reputation rt) a
        (evidence_of (rt_reputation rt) a s) (evidence_of (rt_reputation rt') a s)"
  using assms(1)
proof (cases rule: dispatch_reputation)
  case 1
  then show ?thesis using assms(2) by simp
next
  case (2 c)
  then show ?thesis using extrinsic_keeps_evidence [OF 2(3,2) assms(4)] assms(2) by simp
next
  case (3 closer cid)
  let ?cfg = "justice_params (w_mul_ceil w) (w_mul_floor w) True"
  obtain ju where ju: "close_case ?cfg (justice_env True w rt) closer cid (rt_justice rt) = Inr ju"
    "rt' = rt\<lparr>rt_justice := ju, rt_reputation := rectify True (reputation_env w rt)
       (drop (length (ju_log (rt_justice rt))) (ju_log ju)) (rt_reputation rt)\<rparr>"
    using 3(2) by (auto simp: close_in_runtime_def lift_call_Inr)
  obtain c where c: "cases (rt_justice rt) cid = Some c" "convicts ?cfg (justice_env True w rt) cid c (rt_justice rt) ju"
    "rt_reputation rt' = snd (on_guilty True (reputation_env w rt) (cs_defendant c) (cs_dimension c) (cs_loss c)
       (case_evidence (rt_justice rt) cid) (rt_reputation rt))"
    using close_rectifies [OF ju(1) assms(5) [rule_format] refl, of True "reputation_env w rt" "rt_reputation rt"] assms(2)
    unfolding ju(2) by auto
  have "rt_justice rt' = ju" by (simp add: ju(2))
  with on_guilty_takes [OF assms(3) c(3) assms(2)] c(1,2) 3(1) show ?thesis by blast
qed

text \<open>A case whose one juror votes guilty; the record it names is worth all the defendant has.\<close>

definition demo_guilty :: "nat runtime" where
  "demo_guilty = (no_runtime True)\<lparr>
     rt_reputation := (empty_reputation (reputation_params True))\<lparr>rp_evidence := [([2], Commerce) \<mapsto> 100],
       rp_records := [0 \<mapsto> ([2], Commerce, 100, 0)]\<rparr>,
     rt_justice := empty_justice\<lparr>next_case_id := 1, cases := [0 \<mapsto> \<lparr>cs_plaintiff = [1], cs_defendant = [2],
       cs_fact_hash = 0, cs_dimension = 0, cs_loss = 5, cs_status = Open, cs_opened_at = 0\<rparr>],
       case_evidence := (\<lambda>_. [])(0 := [0]), jury := (\<lambda>_. [])(0 := [[3]]), parties := (\<lambda>_. [])(0 := [[1], [2]]),
       votes := (\<lambda>_. Map.empty)(0 := [[3] \<mapsto> True])\<rparr>\<rparr>"

lemma on_guilty_culprit:
  assumes "permill_ok env"
  shows "evidence_of (snd (on_guilty main env c d loss ids rep)) c (suit_of d)
    = evidence_of rep c (suit_of d) - fst (on_guilty main env c d loss ids rep)"
proof -
  let ?n = "min loss (fst (verdict_records (reputation_params main) env c (suit_of d) ids rep))"
  obtain vis where "slashed env (suit_of d) c ?n 3 rep (cascade_slash (reputation_params main) env c (suit_of d) ?n 3 rep) vis"
    "0 < ?n \<longrightarrow> c \<in> set vis" using cascade_slashed [OF assms] by blast
  then show ?thesis
    by (cases "c \<in> set vis") (auto simp: slashed_def on_guilty_def rectify_for_verdict_def Let_def split_def evidence_of_def)
qed

theorem standing_taken_by_verdict_witness:
  "\<exists>rt'. runtime_dispatch True (demo_world 8000) (JusticeCall (CloseCase [9] 0)) demo_guilty = Inr rt'
    \<and> evidence_of (rt_reputation rt') [2] Commerce = 95
    \<and> (\<exists>c. cases (rt_justice demo_guilty) 0 = Some c
        \<and> answers_for True (reputation_env (demo_world 8000) demo_guilty) c [0] (rt_reputation demo_guilty) [2] 100 95)"
proof -
  let ?w = "demo_world 8000" and ?rep = "rt_reputation demo_guilty" and ?ju = "rt_justice demo_guilty"
  let ?cfg = "justice_params (w_mul_ceil ?w) (w_mul_floor ?w) True"
  have parts: "rp_evidence ?rep = [([2], Commerce) \<mapsto> 100]" "rp_records ?rep = [0 \<mapsto> ([2], Commerce, 100, 0)]" "rp_epoch ?rep = 0"
    "rp_vouches ?rep = Map.empty"
    by (simp_all add: demo_guilty_def empty_reputation_def)
  have env: "re_mul_floor (reputation_env ?w rt) p x = p * x div 1000000" "re_pow (reputation_env ?w rt) p 0 = 1000000" for rt p x
    by (simp_all add: reputation_env_def demo_world_def)
  have taken: "fst (on_guilty True (reputation_env ?w demo_guilty) [2] 0 5 [0] ?rep) = 5"
    by (simp add: on_guilty_def rectify_applied verdict_records_def verdict_record_def evidence_record_current_def parts env suit_of_def
        sat_add_def u128_max_def)
  have "\<exists>ju. close_case ?cfg (justice_env True ?w demo_guilty) [9] 0 ?ju = Inr ju \<and>
      drop (length (ju_log ?ju)) (ju_log ju) = [OnGuilty [2] 0 5 [0], MarkedUnderVerdict [2] 0, CaseResolved 0 True 1 1 5]"
  proof -
    have now: "ju_now (justice_env True ?w demo_guilty) = 8000" by (simp add: justice_env_def Let_def demo_world_def)
    have out: "\<not> ju_disqualified (justice_env True ?w demo_guilty) [3] [[1], [2]]"
      by (simp add: justice_env_def Let_def juror_disqualified_def vouches_for_def edges_of_def parts)
    have hit: "ju_on_guilty (justice_env True ?w demo_guilty) [2] 0 5 [0] = 5" by (simp add: justice_env_def Let_def taken)
    have cfg: "voting_window ?cfg = 7200" "quorum_ceil ?cfg 1 = 1" "guilt_ceil ?cfg 1 = 1"
      by (simp_all add: justice_params_def demo_world_def)
    have case0: "cases ?ju 0 = Some \<lparr>cs_plaintiff = [1], cs_defendant = [2], cs_fact_hash = 0, cs_dimension = 0, cs_loss = 5,
        cs_status = Open, cs_opened_at = 0\<rparr>" "jury ?ju 0 = [[3]]" "parties ?ju 0 = [[1], [2]]" "votes ?ju 0 = [[3] \<mapsto> True]"
      "case_evidence ?ju 0 = [0]" "incapacity_case ?ju = {}"
      by (simp_all add: demo_guilty_def empty_justice_def)
    show ?thesis using cfg by (simp add: close_case_def case0 now out hit ju_emit_def Let_def sat_add_def u32_max_def)
  qed
  then obtain ju where ju: "close_case ?cfg (justice_env True ?w demo_guilty) [9] 0 ?ju = Inr ju"
    "drop (length (ju_log ?ju)) (ju_log ju) = [OnGuilty [2] 0 5 [0], MarkedUnderVerdict [2] 0, CaseResolved 0 True 1 1 5]" by blast
  obtain rt' where rt': "runtime_dispatch True ?w (JusticeCall (CloseCase [9] 0)) demo_guilty = Inr rt'"
    "rt_reputation rt' = snd (on_guilty True (reputation_env ?w demo_guilty) [2] 0 5 [0] ?rep)"
    using ju by (simp add: close_in_runtime_def lift_call_def)
  have left: "evidence_of (rt_reputation rt') [2] Commerce = 95" and before: "evidence_of ?rep [2] Commerce = 100"
    using on_guilty_culprit [OF demo_world_ok(2), of True 8000 demo_guilty "[2]" 0 5 "[0]" ?rep] taken
    by (simp_all add: rt'(2) suit_of_def evidence_of_def parts)
  have "case_evidence ?ju 0 = [0]" "\<forall>cid. length (jury ?ju cid) \<le> u32_max"
    by (simp_all add: demo_guilty_def empty_justice_def u32_max_def)
  with standing_taken_by_verdict [OF rt'(1) _ demo_world_ok(2), of "[2]" Commerce] left before
  have "\<exists>c. cases ?ju 0 = Some c \<and> answers_for True (reputation_env ?w demo_guilty) c [0] ?rep [2] 100 95"
    by (auto simp: u128_max_def)
  with rt'(1) left show ?thesis by blast
qed

section \<open>The electorate of a renewal\<close>

lemma rowless_no_standing:
  assumes "\<forall>s\<in>set all_suits. rp_snapshot st (a, s) = None"
  shows "consensus_reputation_of st a = 0"
  using assms by (simp add: consensus_reputation_of_def suits_snapshot_of_def snapshot_of_def all_suits_def concave_aggregate_fp_def
      i128_sat_mul_def i128_max_def i128_min_def)

text \<open>Everybody with standing is listed, once.\<close>

lemma reputation_of_set:
  assumes "order_lists (w_order w)" "finite (dom (rp_snapshot (rt_reputation rt)))"
  shows "distinct (map fst (reputation_of w rt))"
    and "set (reputation_of w rt) = {(a, r). r = consensus_reputation_of (rt_reputation rt) a \<and> 0 < r}"
proof -
  let ?rep = "rt_reputation rt"
  define P where "P = (\<lambda>a. list_ex (\<lambda>s. rp_snapshot ?rep (a, s) \<noteq> None) all_suits)"
  have "{a. P a} \<subseteq> fst ` dom (rp_snapshot ?rep)" by (force simp: list_ex_iff P_def)
  then have "finite {a. P a}" using assms(2) by (meson finite_imageI finite_subset)
  then have o: "distinct (w_order w P)" "set (w_order w P) = {a. P a}" using assms(1) by (simp_all add: order_lists_def)
  let ?xs = "map (\<lambda>a. (a, consensus_reputation_of ?rep a)) (sort (w_order w P))"
  have r: "reputation_of w rt = filter (\<lambda>(_, r). r > 0) ?xs"
    by (simp add: reputation_of_def consensus_reputation_def reputation_env_def P_def)
  have "distinct (map fst ?xs)" using o(1) by (simp add: o_def)
  then show "distinct (map fst (reputation_of w rt))" unfolding r by (rule distinct_map_filter)
  have "0 < consensus_reputation_of ?rep a \<Longrightarrow> P a" for a
    using rowless_no_standing [of ?rep a] by (fastforce simp: list_ex_iff P_def)
  then show "set (reputation_of w rt) = {(a, r). r = consensus_reputation_of ?rep a \<and> 0 < r}"
    unfolding r by (auto simp: o(2))
qed

lemma take_sorted_below:
  fixes f :: "'b \<Rightarrow> 'k :: linorder"
  assumes "x \<in> set (take n (sort_key f xs))" "y \<in> set xs" "y \<notin> set (take n (sort_key f xs))"
  shows "f x \<le> f y" and "length (take n (sort_key f xs)) = n"
proof -
  let ?ys = "sort_key f xs"
  have "y \<in> set (take n ?ys @ drop n ?ys)" using assms(2) by simp
  then have y: "y \<in> set (drop n ?ys)" using assms(3) unfolding set_append by blast
  have "sorted (map f (take n ?ys @ drop n ?ys))" by simp
  then show "f x \<le> f y" using assms(1) y unfolding map_append sorted_append by auto
  have "drop n ?ys \<noteq> []" using y by auto
  then show "length (take n ?ys) = n" by simp
qed


text \<open>Three members stand, two of them with a bound node.\<close>

definition demo_standing :: "nat runtime" where
  "demo_standing = (no_runtime True)\<lparr>rt_reputation := (empty_reputation (reputation_params True))\<lparr>
     rp_snapshot := (\<lambda>(a, s). [[1] \<mapsto> 50, [2] \<mapsto> 70, [3] \<mapsto> 90] a), rp_vote_keys := [[1] \<mapsto> [7], [2] \<mapsto> [8]]\<rparr>\<rparr>"


end
