(* ===== verification/RuntimeEra.thy ===== *)
theory RuntimeEra
imports RuntimeProps
begin

text \<open>
  The end of an era on the wired runtime: when the tokens pallet reads and clears the service feed, and that what it reads
  then is the service of that era.
\<close>

section \<open>What the emission asks of the service feed\<close>

fun feed_call :: "'a tokens_effect \<Rightarrow> bool" where
  "feed_call (ReadServiceStreak _) = True"
| "feed_call (ClearService _) = True"
| "feed_call _ = False"

definition asks :: "'a tokens_effect list \<Rightarrow> 'a tokens \<Rightarrow> 'a tokens \<Rightarrow> bool" where
  "asks cs st st' = (tk_epoch st' = tk_epoch st \<and> (\<exists>es. effects st' = effects st @ es \<and> filter feed_call es = cs))"

lemma asks_refl [simp]: "asks [] st st"
  by (simp add: asks_def)

lemma asks_trans: "asks cs st st1 \<Longrightarrow> asks ds st1 st2 \<Longrightarrow> asks (cs @ ds) st st2"
  by (auto simp: asks_def)

lemma asks_emit: "asks cs st st' \<Longrightarrow> asks (cs @ filter feed_call [e]) st (emit e st')"
  by (auto simp: asks_def emit_def)

lemma asks_minted: "asks cs st st' \<Longrightarrow> asks cs st (add_minted c m st')"
  by (simp add: asks_def add_minted_def)

lemma asks_credit: "asks [] st (credit_or_skip c who m st)"
  by (cases "tokens_credit c who m st")
    (auto simp: apply_call_def asks_def tokens_credit_def Let_def emit_def split: option.splits if_splits)

lemma pay_hosts_asks: "asks [] st (fst (pay_hosts xs st m))"
proof (induction xs st m rule: pay_hosts.induct)
  case (2 acct share rest st m)
  then show ?case using asks_trans [OF asks_credit [of st Hlq acct share]] by auto
qed simp

lemma pay_nodes_asks: "asks [] st (fst (pay_nodes xs st hm sm))"
proof (induction xs arbitrary: st hm sm)
  case (Cons x xs)
  obtain acct hs ss where x: "x = (acct, hs, ss)" by (cases x)
  define st1 where "st1 = (if 0 < hs then credit_or_skip Hlq acct hs st else st)"
  define st2 where "st2 = (if 0 < ss then credit_or_skip Sov acct ss st1 else st1)"
  have "asks [] st st1" "asks [] st1 st2" by (simp_all add: st1_def st2_def asks_credit)
  then have "asks [] st st2" using asks_trans [of "[]" st st1 "[]" st2] by simp
  then have "asks [] st (fst (pay_nodes xs st2 hm' sm'))" for hm' sm'
    using asks_trans [of "[]" st st2 "[]"] Cons.IH by auto
  moreover have "\<exists>hm' sm'. pay_nodes (x # xs) st hm sm = (if is_founder st acct then pay_nodes xs st hm sm else pay_nodes xs st2 hm' sm')"
    unfolding x st1_def st2_def by (simp add: Let_def split_def) (metis fst_conv snd_conv)
  ultimately show ?case using Cons.IH by metis
qed simp

lemma phases_ask:
  "asks [] st (fst (hosting_phase cfg hosts pool st))" "asks [] st (fst (service_phase cfg nodes hp sp st))"
  by (auto simp: hosting_phase_def service_phase_def Let_def split_def intro!: asks_minted pay_hosts_asks pay_nodes_asks)

lemma run_epoch_asks:
  "tk_epoch (run_epoch cfg svc hst st) = sat_add u64_max (tk_epoch st) 1
   \<and> (\<exists>es. effects (run_epoch cfg svc hst st) = effects st @ es
      \<and> filter feed_call es = [ReadServiceStreak (tk_epoch st), ClearService (tk_epoch st)])"
proof -
  let ?e = "tk_epoch st"
  define nodes where "nodes = filter (\<lambda>(_, w, _). 0 < w) (svc ?e)"
  define hosts where "hosts = filter (\<lambda>(_, d). 0 < d) (hst ?e)"
  define st1 where "st1 = emit (ReadHosts ?e) (emit (ReadServiceStreak ?e) st)"
  define tranche where "tranche = (if nodes = [] \<and> hosts = [] then 0 else scheduled_pool cfg Hlq ?e st1)"
  define pool where "pool = (if hosts = [] then 0 else sat_mul u128_max tranche (min (hosting_share_bps cfg) 10000) div 10000)"
  define paid where "paid = hosting_phase cfg hosts pool st1"
  define spent where "spent = (if nodes = [] then (fst paid, 0, 0)
     else service_phase cfg nodes (tranche - pool) (scheduled_pool cfg Sov ?e (fst paid)) (fst paid))"
  define st2 where "st2 = fst spent"
  define st3 where "st3 = emit (tokens_effect.ClearHosts ?e) (emit (ClearService ?e) st2)"
  define st4 where "st4 = (if 0 < pool then emit (HostingReward ?e (snd paid) (length hosts mod 2 ^ 32)) st3 else st3)"
  have run: "run_epoch cfg svc hst st = emit (EraReward ?e (fst (snd spent)) (snd (snd spent)) (length nodes mod 2 ^ 32))
      (st4\<lparr>tk_epoch := sat_add u64_max ?e 1\<rparr>)"
    by (simp only: run_epoch_def Let_def split_def st4_def st3_def st2_def spent_def paid_def pool_def tranche_def st1_def
        hosts_def nodes_def)
  have "asks [ReadServiceStreak ?e] st st1"
    using asks_emit [OF asks_emit [OF asks_refl [of st]], of "ReadServiceStreak ?e" "ReadHosts ?e"] by (simp add: st1_def)
  from asks_trans [OF this phases_ask(1)] have a: "asks [ReadServiceStreak ?e] st (fst paid)" by (simp add: paid_def)
  from a asks_trans [OF a phases_ask(2)] have "asks [ReadServiceStreak ?e] st st2" by (simp add: st2_def spent_def)
  from asks_emit [OF asks_emit [OF this], of "ClearService ?e" "tokens_effect.ClearHosts ?e"]
  have b: "asks [ReadServiceStreak ?e, ClearService ?e] st st3" by (simp add: st3_def)
  from b asks_emit [OF b, of "HostingReward ?e (snd paid) (length hosts mod 2 ^ 32)"]
  have "asks [ReadServiceStreak ?e, ClearService ?e] st st4" by (simp add: st4_def)
  then show ?thesis using run by (auto simp: asks_def emit_def)
qed


section \<open>An era on the chain\<close>

text \<open>
  The participation pallet after \<open>n\<close> blocks in which no era from \<open>e\<close> on was cleared, and the era the emission
  pays next.
\<close>

definition unpaid_from :: "bool \<Rightarrow> nat \<Rightarrow> nat \<Rightarrow> 'h runtime \<Rightarrow> bool" where
  "unpaid_from main n e rt = (tk_epoch (rt_tokens rt) = e \<and> finite_eras (rt_participation rt)
     \<and> (\<exists>ops. list_all (\<lambda>op. \<forall>era\<ge>e. op \<noteq> ClearEra era) ops
          \<and> run_calls (pt_step (participation_params main)) ops (0, empty_participation) = (n, rt_participation rt)))"

lemma unpaid_step:
  assumes "unpaid_from main n e rt" "run_calls (pt_step (participation_params main)) new (n, rt_participation rt) = (m, rt_participation rt')"
    and "list_all (\<lambda>op. \<forall>era\<ge>e'. op \<noteq> ClearEra era) new" "e \<le> e'" "tk_epoch (rt_tokens rt') = e'" "finite_eras (rt_participation rt')"
  shows "unpaid_from main m e' rt'"
proof -
  obtain ops where ops: "list_all (\<lambda>op. \<forall>era\<ge>e. op \<noteq> ClearEra era) ops"
    "run_calls (pt_step (participation_params main)) ops (0, empty_participation) = (n, rt_participation rt)"
    using assms(1) by (auto simp: unpaid_from_def)
  have "list_all (\<lambda>op. \<forall>era\<ge>e'. op \<noteq> ClearEra era) ops"
    using ops(1) by (rule list.pred_mono_strong) (use le_trans [OF assms(4)] in blast)
  then have "list_all (\<lambda>op. \<forall>era\<ge>e'. op \<noteq> ClearEra era) (ops @ new)" using assms(3) by simp
  moreover have "run_calls (pt_step (participation_params main)) (ops @ new) (0, empty_participation) = (m, rt_participation rt')"
    using ops(2) assms(2) by (simp add: run_calls_append)
  ultimately show ?thesis using assms(5,6) unfolding unpaid_from_def by blast
qed

lemma unpaid_elsewhere:
  assumes "unpaid_from main n e rt" "rt_participation rt' = rt_participation rt" "tk_epoch (rt_tokens rt') = tk_epoch (rt_tokens rt)"
  shows "unpaid_from main n e rt'"
  using assms by (simp add: unpaid_from_def)

lemma transfer_epoch: "tokens_transfer frm c dst m st = Inr st' \<Longrightarrow> tk_epoch st' = tk_epoch st"
  by (auto simp: tokens_transfer_def do_transfer_def tokens_debit_def tokens_credit_def emit_def Let_def
      split: prod.splits sum.splits option.splits if_splits)

lemma unpaid_dispatch:
  assumes "w_now w = n" "unpaid_from main n e rt" "runtime_dispatch main w call rt = Inr rt'"
  shows "unpaid_from main n e rt'"
proof (cases call)
  case (NoteCall r)
  then obtain pt where pt: "note_participation (participation_params main) (committee_inputs w rt) n r (rt_participation rt) = Inr pt"
    "rt' = rt\<lparr>rt_participation := pt\<rparr>" using assms(1,3) by (auto simp: lift_call_Inr)
  show ?thesis
    by (rule unpaid_step [OF assms(2), of "[Note (committee_inputs w rt) r]"])
      (use assms(2) pt note_finite [OF _ pt(1)] in \<open>auto simp: unpaid_from_def apply_call_def\<close>)
next
  case (JusticeCall op)
  then show ?thesis using assms(3)
    by (intro unpaid_elsewhere [OF assms(2)]; cases op) (auto simp: lift_call_Inr close_in_runtime_def split: if_splits)
next
  case (TransferCall frm c dst m)
  then show ?thesis using assms(3) by (intro unpaid_elsewhere [OF assms(2)]) (auto simp: lift_call_Inr dest: transfer_epoch)
qed (use assms(3) in \<open>auto simp: lift_call_Inr intro: unpaid_elsewhere [OF assms(2)] split: if_splits\<close>)

interpretation era_calls: call_system "runtime_dispatch main w" "\<lambda>_. w_now w = n" "unpaid_from main n e" for main w n e
  by unfold_locales (rule unpaid_dispatch)

lemma unpaid_begin:
  assumes "unpaid_from main n e rt" "w_now w = Suc n"
  shows "unpaid_from main (Suc n) e (begin_block main w rt)"
proof -
  obtain env where env: "rt_participation (begin_block main w rt) =
      pt_on_initialize (participation_params main) env (Suc n) (rt_participation rt)"
    and tk: "rt_tokens (begin_block main w rt) = tokens_on_initialize (rt_tokens rt)"
    using assms(2) by (simp add: begin_block_def Let_def)
  show ?thesis
    by (rule unpaid_step [OF assms(1), of "[BeginBlock env]"])
      (use assms(1) in \<open>simp_all add: unpaid_from_def env tk tokens_on_initialize_def apply_call_def hook_finite\<close>)
qed

lemma settle_participation:
  "rt_participation (settle_feeds main w es rt) = fold (\<lambda>e p. case e of
       ReadServiceStreak era \<Rightarrow> snd (era_service_streak (participation_params main) (keys_in w) era p)
     | ClearService era \<Rightarrow> clear_era era p | _ \<Rightarrow> p) (filter feed_call es) (rt_participation rt)"
  by (induction main w es rt rule: settle_feeds.induct) simp_all

lemma settle_tokens: "rt_tokens (settle_feeds main w es rt) = rt_tokens rt"
  by (induction main w es rt rule: settle_feeds.induct) simp_all

text \<open>The end of a block: only the last block of an era reads and clears the feed, and the era is the one due.\<close>

lemma end_of_block:
  fixes main w rt
  defines "era_end \<equiv> 0 < w_now w \<and> w_now w mod (pc_era_length (participation_params main)) = 0"
    and "e \<equiv> tk_epoch (rt_tokens rt)" and "rt' \<equiv> end_block main w rt"
  shows "filter feed_call (drop (length (effects (rt_tokens rt))) (effects (rt_tokens rt')))
      = (if era_end then [ReadServiceStreak e, ClearService e] else [])"
    and "tk_epoch (rt_tokens rt') = (if era_end then sat_add u64_max e 1 else e)"
    and "rt_participation rt' = (if era_end then clear_era e (snd (era_service_streak (participation_params main) (keys_in w) e
          (rt_participation rt))) else rt_participation rt)"
proof -
  have L: "era_blocks (tokens_params (w_ref_time w) main) = pc_era_length (participation_params main)"
    "pc_era_length (participation_params main) \<noteq> 0"
    by (simp_all add: cadences_agree(4) [symmetric]) (simp add: runtime_params)
  let ?tk = "tokens_on_finalize (tokens_params (w_ref_time w) main) (era_feed main w rt)
      (\<lambda>era. era_hosts (hosting_env w rt) era (rt_hosting rt)) (w_now w) (rt_tokens rt)"
  have tk: "rt_tokens rt' = ?tk" by (simp add: rt'_def end_block_def Let_def settle_tokens)
  obtain es where es: "effects ?tk = effects (rt_tokens rt) @ es"
    "filter feed_call es = (if era_end then [ReadServiceStreak e, ClearService e] else [])"
    "tk_epoch ?tk = (if era_end then sat_add u64_max e 1 else e)"
    using run_epoch_asks [of "tokens_params (w_ref_time w) main" "era_feed main w rt"
        "\<lambda>era. era_hosts (hosting_env w rt) era (rt_hosting rt)" "rt_tokens rt"] L
    by (cases era_end) (auto simp: tokens_on_finalize_def era_end_def e_def)
  then show "filter feed_call (drop (length (effects (rt_tokens rt))) (effects (rt_tokens rt')))
      = (if era_end then [ReadServiceStreak e, ClearService e] else [])"
    "tk_epoch (rt_tokens rt') = (if era_end then sat_add u64_max e 1 else e)" by (simp_all add: tk)
  show "rt_participation rt' = (if era_end then clear_era e (snd (era_service_streak (participation_params main) (keys_in w) e
          (rt_participation rt))) else rt_participation rt)"
    by (simp add: rt'_def end_block_def Let_def settle_participation es)
qed

lemma era_clock:
  assumes "0 < L"
  shows "Suc n div L = (if L dvd Suc n then Suc (n div L) else n div L)"
  by (simp add: div_Suc dvd_eq_mod_eq_0)

lemma unpaid_end:
  assumes "unpaid_from main (Suc n) (n div pc_era_length (participation_params main)) rt" "w_now w = Suc n" "n < u64_max"
  shows "unpaid_from main (Suc n) (Suc n div pc_era_length (participation_params main)) (end_block main w rt)"
proof -
  let ?L = "pc_era_length (participation_params main)"
  define e where "e = n div ?L"
  have L: "0 < ?L" by (simp add: runtime_params)
  have e: "tk_epoch (rt_tokens rt) = e" "finite_eras (rt_participation rt)" using assms(1) by (simp_all add: unpaid_from_def e_def)
  have "e < u64_max" using assms(3) by (simp add: e_def) (meson div_le_dividend order_le_less_trans)
  then have suc: "sat_add u64_max e 1 = Suc e" by (simp add: sat_add_def)
  let ?new = "if ?L dvd Suc n then [ReadStreaks (keys_in w) e, ClearEra e] else []"
  note b = end_of_block [where w = w and main = main and rt = rt, unfolded assms(2) e(1) dvd_eq_mod_eq_0 [symmetric] suc]
  show ?thesis
    unfolding era_clock [OF L] e_def [symmetric]
    by (rule unpaid_step [OF assms(1), of ?new])
      (use e(2) in \<open>simp_all add: b e_def [symmetric] apply_call_def finite_eras_def clear_era_def streak_keeps\<close>)
qed

lemma genesis_epoch: "tk_epoch (genesis_fund bals st) = tk_epoch st"
  by (induction bals st rule: genesis_fund.induct) (simp_all add: Let_def add_minted_def emit_def)

lemma unpaid_genesis: "runtime_genesis main w pr = Some rt \<Longrightarrow> unpaid_from main 0 0 rt"
  by (auto simp: runtime_genesis_def genesis_build_def no_runtime_def unpaid_from_def genesis_epoch empty_tokens_def finite_eras_def
      empty_participation_def intro!: exI [of _ "[]"] split: option.splits if_splits)

lemma unpaid_block:
  assumes "n \<le> u64_max \<longrightarrow> unpaid_from main n (n div pc_era_length (participation_params main)) rt" "run_block main b (n, rt) = (m, rt')"
  shows "m \<le> u64_max \<longrightarrow> unpaid_from main m (m div pc_era_length (participation_params main)) rt'"
proof
  assume m: "m \<le> u64_max"
  obtain w calls where b: "b = (w, calls)" by (cases b)
  define w' where "w' = w\<lparr>w_now := Suc n\<rparr>"
  have m': "m = Suc n" and rt': "rt' = end_block main w' (run_calls (runtime_dispatch main w') calls (begin_block main w' rt))"
    using assms(2) by (auto simp: run_block_def b w'_def Let_def)
  have now: "w_now w' = Suc n" by (simp add: w'_def)
  have "unpaid_from main (Suc n) (n div pc_era_length (participation_params main))
      (run_calls (runtime_dispatch main w') calls (begin_block main w' rt))"
    using assms(1) m now by (intro era_calls.run_inv unpaid_begin) (simp_all add: m' list_all_iff)
  from unpaid_end [OF this now] show "unpaid_from main m (m div pc_era_length (participation_params main)) rt'"
    using m by (simp add: m' rt')
qed

lemma unpaid_chain:
  assumes "n \<le> u64_max \<longrightarrow> unpaid_from main n (n div pc_era_length (participation_params main)) rt"
    and "run_blocks main bs (n, rt) = (m, rt')"
  shows "m \<le> u64_max \<longrightarrow> unpaid_from main m (m div pc_era_length (participation_params main)) rt'"
  using assms
proof (induction bs arbitrary: n rt)
  case (Cons b bs)
  obtain n1 rt1 where b: "run_block main b (n, rt) = (n1, rt1)" by (cases "run_block main b (n, rt)")
  from Cons.IH [OF unpaid_block [OF Cons.prems(1) b]] Cons.prems(2) b show ?case by (simp add: run_blocks_def)
qed (simp add: run_blocks_def)

lemma feed_lists:
  assumes "order_lists (w_order w)" "finite (dom (era_acc (rt_participation rt) era))"
  shows "distinct (map fst (era_feed main w rt era))"
    and "(case map_of (era_feed main w rt era) who of None \<Rightarrow> 0 | Some (weight, _) \<Rightarrow> weight)
      = tally_of (era_acc (rt_participation rt) era) who"
proof -
  let ?m = "era_acc (rt_participation rt) era"
  have feed: "era_feed main w rt era = map (\<lambda>a. (a, the (?m a), next_era_streak (participation_params main) a (rt_participation rt))) (keys_in w ?m)"
    by (simp add: era_feed_def era_service_streak_def era_service_def Let_def)
  have k: "distinct (keys_in w ?m)" "set (keys_in w ?m) = dom ?m" using keys_in_set [OF assms] by simp_all
  then show "distinct (map fst (era_feed main w rt era))" by (simp add: feed o_def)
  show "(case map_of (era_feed main w rt era) who of None \<Rightarrow> 0 | Some (weight, _) \<Rightarrow> weight) = tally_of ?m who"
    by (cases "?m who") (simp_all add: feed map_of_map_restrict restrict_map_def k(2) tally_of_def domIff)
qed

text \<open>
  C7: an era is paid once, at its end, and for exactly its service. On every chain from a genesis that boots, the emission asks participation
  for a feed only at the end of the last block of an era, once, for the era that ends there; what it then reads lists every
  account at most once, with exactly the blocks and votes credited to it in the epochs of that era by all
  blocks so far; and the era's bucket is empty afterwards.
\<close>

theorem era_paid_for_its_service:
  assumes "runtime_genesis main w0 pr = Some rt0" "(n, rt) = run_blocks main blocks (0, rt0)"
    and "w_now w = Suc n" "n < u64_max" "order_lists (w_order w)"
    and "L = era_blocks (tokens_params (w_ref_time w) main)" "era = n div L"
    and "rt1 = run_calls (runtime_dispatch main w) calls (begin_block main w rt)" "rt2 = end_block main w rt1"
    and "length (pt_log (rt_participation rt1)) \<le> u32_max"
  shows "run_block main (w, calls) (n, rt) = (Suc n, rt2)
    \<and> filter feed_call (drop (length (effects (rt_tokens rt1))) (effects (rt_tokens rt2)))
        = (if L dvd Suc n then [ReadServiceStreak era, ClearService era] else [])
    \<and> (L dvd Suc n \<longrightarrow> distinct (map fst (era_feed main w rt1 era))
        \<and> (\<forall>who. (case map_of (era_feed main w rt1 era) who of None \<Rightarrow> 0 | Some (weight, _) \<Rightarrow> weight)
             = credits (\<lambda>ep. epoch_era (participation_params main) ep = era) who (pt_log (rt_participation rt1)))
        \<and> era_acc (rt_participation rt2) era = Map.empty)"
proof -
  let ?c = "participation_params main"
  have L: "L = pc_era_length ?c" "0 < L" "pc_epoch_length ?c dvd L" "0 < pc_epoch_length ?c"
    by (simp_all add: assms(6) runtime_params)
  have "unpaid_from main n era rt"
    using unpaid_chain [of 0 main rt0 blocks n rt] unpaid_genesis [OF assms(1)] assms(2,4,7) by (simp add: L(1))
  then have u: "unpaid_from main (Suc n) era rt1"
    unfolding assms(8) by (intro era_calls.run_inv unpaid_begin) (simp_all add: assms(3) list_all_iff)
  then obtain ops where "list_all (\<lambda>op. \<forall>e\<ge>era. op \<noteq> ClearEra e) ops"
    "(Suc n, rt_participation rt1) = run_calls (pt_step ?c) ops (0, empty_participation)"
    by (auto simp: unpaid_from_def)
  then have ops: "list_all (\<lambda>op. op \<noteq> ClearEra era) ops"
    "(Suc n, rt_participation rt1) = run_calls (pt_step ?c) ops (0, empty_participation)"
    by (simp_all add: list_all_iff)
  have e: "tk_epoch (rt_tokens rt1) = era" and fin: "finite (dom (era_acc (rt_participation rt1) era))"
    using u by (simp_all add: unpaid_from_def finite_eras_def)
  have credited: "tally_of (era_acc (rt_participation rt1) era) who
      = credits (\<lambda>ep. epoch_era ?c ep = era) who (pt_log (rt_participation rt1))" if d: "L dvd Suc n" for who
  proof -
    have "epoch_era ?c (Suc n div pc_epoch_length ?c) = Suc n div L"
      using dvd_trans [OF L(3) d] by (simp add: epoch_era_def L(1))
    then have "epoch_era ?c (Suc n div pc_epoch_length ?c) \<noteq> era" using d by (simp add: era_clock [OF L(2)] assms(7))
    then show ?thesis
      using era_service_conserved [OF ops(2,1) L(4), of who] assms(4,10) L(1,2) by simp
  qed
  note b = end_of_block [where w = w and main = main and rt = rt1, unfolded e assms(3), folded assms(9)]
  show ?thesis
  proof (intro conjI impI allI)
    show "run_block main (w, calls) (n, rt) = (Suc n, rt2)"
      by (simp add: run_block_def Let_def assms(8,9) flip: assms(3))
    show "filter feed_call (drop (length (effects (rt_tokens rt1))) (effects (rt_tokens rt2)))
        = (if L dvd Suc n then [ReadServiceStreak era, ClearService era] else [])"
      using b(1) by (simp add: L(1) dvd_eq_mod_eq_0)
    assume d: "L dvd Suc n"
    show "distinct (map fst (era_feed main w rt1 era))" by (rule feed_lists(1) [OF assms(5) fin])
    show "(case map_of (era_feed main w rt1 era) who of None \<Rightarrow> 0 | Some (weight, _) \<Rightarrow> weight)
        = credits (\<lambda>ep. epoch_era ?c ep = era) who (pt_log (rt_participation rt1))" for who
      by (simp only: feed_lists(2) [OF assms(5) fin] credited [OF d])
    show "era_acc (rt_participation rt2) era = Map.empty"
      using b(3) d by (simp add: L(1) dvd_eq_mod_eq_0 clear_era_def)
  qed
qed

text \<open>The tenth block of a testnet on which nobody acts.\<close>

lemma begin_log: "pt_log (rt_participation (begin_block main w rt)) = pt_log (rt_participation rt)"
  by (simp add: begin_block_def Let_def hook_keeps)

lemma idle_log:
  "fst (run_blocks main (replicate k (w, [])) (n, rt)) = n + k"
  "pt_log (rt_participation (snd (run_blocks main (replicate k (w, [])) (n, rt)))) = pt_log (rt_participation rt)"
proof (induction k arbitrary: n rt)
  case (Suc k)
  { case 1 then show ?case using Suc(1) by (simp add: run_blocks_def run_block_def Let_def) }
  { case 2 then show ?case
      using Suc(2) by (simp add: run_blocks_def run_block_def Let_def end_of_block(3) clear_era_def streak_keeps begin_log) }
qed (simp_all add: run_blocks_def)

theorem era_paid_for_its_service_witness:
  "\<exists>rt0 rt. runtime_genesis False (demo_world 0) demo_preset = Some rt0
    \<and> (9, rt) = run_blocks False (replicate 9 (demo_world 0, [])) (0, rt0)
    \<and> (let rt1 = begin_block False (demo_world 10) rt
       in filter feed_call (drop (length (effects (rt_tokens rt1))) (effects (rt_tokens (end_block False (demo_world 10) rt1))))
          = [ReadServiceStreak 0, ClearService 0])"
proof -
  obtain rt0 where g: "runtime_genesis False (demo_world 0) demo_preset = Some rt0" and log: "pt_log (rt_participation rt0) = []"
    by (simp add: runtime_genesis_def demo_preset_def rep_genesis_def manifesto_build_def genesis_build_def ms_genesis_def
        vote_keys_valid_def no_runtime_def empty_reputation_def reputation_env_def empty_participation_def)
  define rt where "rt = snd (run_blocks False (replicate 9 (demo_world 0, [])) (0, rt0))"
  have b: "(9, rt) = run_blocks False (replicate 9 (demo_world 0, [])) (0, rt0)"
    using idle_log(1) [of False 9 "demo_world 0" 0 rt0] by (simp add: rt_def prod_eq_iff)
  have short: "length (pt_log (rt_participation (begin_block False (demo_world 10) rt))) \<le> u32_max"
    using idle_log(2) [of False 9 "demo_world 0" 0 rt0] by (simp add: begin_log rt_def log)
  have now: "w_now (demo_world 10) = Suc 9" "(9 :: nat) < u64_max" by (simp_all add: demo_world_def u64_max_def)
  from era_paid_for_its_service [OF g b now demo_world_ok(1) refl refl refl refl, of "[]"] short
  show ?thesis using g b by (intro exI [of _ rt0] exI [of _ rt]) (simp add: Let_def tokens_params_def)
qed

end
