(* ===== verification/Spec2Isabelle.thy ===== *)
theory Spec2Isabelle
imports RuntimeFees MultisigProps MarketPallet PactsPallet Snowball BeaconPallet JusticeProps Vouch
  HostingPallet ParticipationProps SignedMessages ReputationEntrenchment FinalityTheorems ParticipationInherent
  ForumPallet NewsPallet DirectoryPallet CheckNonce TxGuard RuntimeEra
begin

text \<open>
  Harlequin, a chain whose power is reputation and whose coins are only earned: a verification library of
  the Rust code under \<open>src/chain\<close>.

  The parts and how they interact. The runtime (\<open>chain/runtime\<close>) composes pallets. Coins live in
  \<open>pallet-tokens\<close>, which takes its arithmetic from \<open>tokens-core\<close>; the runtime's \<open>HlqTxPayment\<close>
  charges every extrinsic through it, in coin or in the feeless lane, after \<open>HlqCheckNonce\<close> has admitted its nonce.
  Reputation (\<open>pallet-reputation\<close>, \<open>reputation-core\<close>) weighs the draws of \<open>consensus-core\<close>: the finality
  committee and the juries of \<open>pallet-justice\<close>. The draws are keyed by secrets committed to the
  beacon (\<open>beacon.rs\<close>, stored by \<open>pallet-beacon\<close>), hashed with \<open>sha256.rs\<close>. The members of a committee run the node's finality gadget
  (\<open>node/src/finality.rs\<close>): they vote for a block, tally the votes with the round of \<open>consensus-core\<close>, finalise and store a
  proof, which other nodes check when they import the block or receive it by gossip. An author carries the votes of
  stored proofs into its block (\<open>participation_inherent.rs\<close>), where \<open>pallet-participation\<close> credits the members who signed;
  \<open>pallet-hosting\<close> counts daily beats; the tokens pallet pays an era by these counts. The code itself is replaced only
  through the five seats of \<open>pallet-multisig-upgrade\<close>. \<open>pallet-market\<close> and \<open>pallet-pacts\<close> record what accounts agree on;
  \<open>pallet-directory\<close>, \<open>pallet-forum\<close>, \<open>pallet-news\<close> and \<open>pallet-manifesto\<close> are the public registers, and what a post
  says is fetched by its content id (\<open>content-id\<close>, \<open>forum-core\<close>).

  How the code is modelled. A pallet's storage is a record, one field per storage item; an extrinsic is
  a function from the caller, the arguments and the storage to an error or the new storage, its guards in the
  code's order; FRAME's transactional layer (an extrinsic that fails changes nothing) is
  \<open>apply_call\<close>, and a history of calls is \<open>run_calls\<close> (theory \<open>Frame\<close>). Events and calls into other pallets are
  appended to a log in the storage. Unsigned integers are \<open>nat\<close> with their saturation or check written
  out (\<open>sat_add\<close>, \<open>sat_mul\<close>, \<open>checked_add\<close>), the words of the hash and of base32 are \<open>32 word\<close>. The node's workers are functions
  from their local state and what they read of the client to the new state and their actions. What the code calls
  outside the repository, or a pallet calls in another, is an argument.

  Theories.
  \<open>Frame\<close>: arithmetic, sums over maps, guard chains, calls and the contract \<open>call_system\<close>.
  \<open>TokensCore\<close>: the emission curve, fee and reward arithmetic and the reference ledger.
  \<open>PalletTokens\<close>, \<open>TokensInvariants\<close>, \<open>TokensEpoch\<close>: the pallet, the conservation
  and reference invariants, the end of an era. \<open>RuntimeFees\<close>: the payment adapter and the
  interleaved system of everything that moves coins (C6, C8). \<open>CheckNonce\<close>: the nonce check (C4).
  \<open>MultisigUpgrade\<close>, \<open>MultisigProps\<close>: the upgrade key (C13, C14, C17).
  \<open>OpenSlots\<close>, \<open>MarketPallet\<close>, \<open>NewsPallet\<close>, \<open>PactsPallet\<close>: the quotas of open and of listed items, and the
  pallets that keep them (C23). \<open>Snowball\<close>: the binary voter, the finality round on hashes, and the refinement
  between them (C25, C26). \<open>Sha256\<close>, \<open>Sortition\<close>, \<open>BeaconCore\<close>, \<open>BeaconPallet\<close>: hash,
  draws, beacon and the refinement of the beacon's pipeline by its pallet (C32, C33). \<open>JusticePallet\<close>, \<open>JuryDraw\<close>, \<open>JusticeProps\<close>: trials (C34, C38).
  \<open>Vouch\<close>: sponsorships and the slashing cascade. \<open>ReputationEngine\<close>, \<open>EngineProps\<close>: the epoch's recompute of
  reputation, trust damped and iterated in fixed point: mass, rings without evidence, the iteration as a matrix power
  (C1, C27, C30). \<open>ReputationGuard\<close>: aggregate, entrenchment guard, vouch quota. \<open>Suits\<close>, \<open>ReputationPallet\<close>, \<open>ReputationEpoch\<close>: the pallet's storage,
  extrinsics, cascade and verdicts, and its epoch. \<open>ReputationProps\<close>, \<open>ReputationSlashing\<close>,
  \<open>ReputationVerdicts\<close>, \<open>ReputationEntrenchment\<close>: what each operation leaves alone, then vote keys, testimony, the
  cascade, verdicts, the freeze and the snapshot (C16, C18, C21, C22, C24, C39). \<open>HostingPallet\<close>: beats, streaks and the
  days of an era (C40). \<open>ParticipationPallet\<close>, \<open>ParticipationProps\<close>: the credits of a block, their way into an
  era, streaks and the cached committees (C2). \<open>SignedMessages\<close>: what a hot key signs (C28).
  \<open>FinalityVotes\<close>, \<open>FinalityChain\<close>, \<open>FinalityWorker\<close>, \<open>FinalityImport\<close>: votes and proofs, committees at the pinned block
  and the healthy boundary, the vote worker with its gossip validator, the imports and the proof worker. \<open>FinalityProps\<close>,
  \<open>FinalityTheorems\<close>: what a proof shows, what a worker holds and decides, and that it goes on (C5, C9, C19, C29, C31, C35, C37).
  \<open>ParticipationInherent\<close>: from a stored proof to the payment, and where that stops (C3, C20).
  \<open>DirectoryPallet\<close>, \<open>ForumPallet\<close>, \<open>ContentId\<close>, \<open>ForumCore\<close>, \<open>Manifesto\<close>: the registers (C15, C36). \<open>TxGuard\<close>: the pool's guard.
  \<open>RuntimeConfig\<close>, \<open>RuntimeWiring\<close>: the constants the runtime gives each pallet with and without the feature \<open>mainnet\<close>, the
  adapters between pallets, the API the node reads, the genesis presets, and a block: hooks in the order of the pallets' indices, then calls,
  then the end of the era. \<open>RuntimeProps\<close>: who takes standing from whom, who ratifies a renewal, and that the node and the chain
  seat the same committee (C10 to C12). \<open>RuntimeEra\<close>: an era is paid once, for its service (C7).

  Interfaces. \<open>call_system\<close> (a set of calls keeps a predicate) is interpreted for every pallet;
  \<open>open_quota\<close> (a counter equals the number of open items) for deals and for pacts; \<open>active_listing\<close> (an index holds the items not
  withdrawn) for offers and for news; \<open>emission_rules\<close>
  for the tokens core's emission; \<open>voter\<close> for the binary node and the finality round.

  Bounds and fuel. Loops with a bound in the code recurse on it (64 queue slots, 32 redraws, \<open>max_hops\<close>).
  The allowance's square-root loop is a \<open>partial_function\<close>, with its result proved for every age
  below \<open>u32::MAX\<close>; the node's walk to a healthy boundary and its catch-up loop are too, with their results proved.
  Properties over histories assume that the \<open>u64\<close> id counters have not reached their end
  (\<open>ids_left\<close>, \<open>pact_ids_left\<close>, \<open>case_ids_left\<close>), where the code would reuse the last id.

  The wired runtime (\<open>runtime\<close>) holds the eight pallets that read one another; market, pacts and the registers read no
  other pallet and are modelled alone. What a block does not find in the repository (its hashes, signatures, \<open>Permill\<close>, the order of
  iteration over a map) is the record \<open>world\<close>.

  Not modelled: weights, SCALE layouts and benchmarks; the \<open>f64\<close> oracles and simulations (\<open>vrf.rs\<close>, \<open>sim.rs\<close>, \<open>protocol-core\<close>, the cluster
  simulation), and the \<open>f64\<close> steps that quantise evidence and vouches before the engine's fixed point begins (a parameter of
  the engine), since floats have no model here; the gossip engine, timers, database and client under the node's workers, which are
  parameters, and the RPC, CLI and process wiring around them; the pallets of the substrate; command line tools; the mixnet and the wallet, which rest on
  cryptography that is not in the repository; vendored code.
\<close>

end
